(* ===== verification/Prelude.thy ===== *)
theory Prelude
  imports Main "HOL-Library.AList"
begin

text \<open>
  Shared ground of the development: the model's basic types (Go strings and byte slices,
  times, errors), the two combinators for goroutines joined by a
  \<^verbatim>\<open>sync.WaitGroup\<close>, generic lemmas on lists and association lists, and the
  collections of rewrite rules (\<open>store_frame\<close>, \<open>header_simps\<close>) the component
  theories add to.

  Goroutines. Every \<^verbatim>\<open>go func\<close> of the modelled handlers runs one block of service calls
  and reports an error on a channel; the parent waits for all of them. A schedule is the order in
  which the blocks take effect, a permutation of the goroutine indices. Definitions take the
  schedule as an argument, and the theorems hold for every schedule.
\<close>

named_theorems store_frame and header_simps

section \<open>Basic types\<close>

type_synonym bytes = "char list"

text \<open>A \<^verbatim>\<open>time.Time\<close>: nanoseconds since January 1, year 1 UTC, the zero value of the type.\<close>

type_synonym time = int

text \<open>A \<^verbatim>\<open>time.Duration\<close>, in nanoseconds.\<close>

type_synonym duration = int

definition Millisecond :: duration where
  "Millisecond = 1000000"

definition Second :: duration where
  "Second = 1000000000"

definition Minute :: duration where
  "Minute = 60 * Second"

definition Hour :: duration where
  "Hour = 60 * Minute"

lemmas duration_defs = Millisecond_def Second_def Minute_def Hour_def

text \<open>
  Go errors as values. \<open>ErrNoSuchEntity\<close> is the sentinel of the datastore package,
  \<open>ErrService\<close> any other error a service or the network reports, \<open>ErrFieldMismatch\<close>
  the error of loading an entity into a struct of another shape, \<open>ErrMsg\<close> an error the
  program itself builds with \<^verbatim>\<open>errors.New\<close> or \<^verbatim>\<open>fmt.Errorf\<close>.
\<close>

datatype error =
    ErrNoSuchEntity
  | ErrFieldMismatch
  | ErrService string
  | ErrMsg string

text \<open>\<^verbatim>\<open>err.Error()\<close>\<close>

fun errorText :: "error \<Rightarrow> string" where
  "errorText ErrNoSuchEntity = ''datastore: no such entity''"
| "errorText ErrFieldMismatch = ''datastore: cannot load field into the struct''"
| "errorText (ErrService s) = s"
| "errorText (ErrMsg s) = s"

section \<open>Goroutines joined by a wait group\<close>

fun run_goroutines ::
  "nat list \<Rightarrow> ('c \<Rightarrow> 'e option \<times> 'c) list \<Rightarrow> 'c \<Rightarrow> 'e list \<times> 'c" where
  "run_goroutines [] gs c = ([], c)"
| "run_goroutines (i # is) gs c =
     (if i < length gs then
        (case (gs ! i) c of (e, c1) \<Rightarrow>
           (case run_goroutines is gs c1 of (es, c2) \<Rightarrow>
              (case e of None \<Rightarrow> es | Some x \<Rightarrow> x # es, c2)))
      else run_goroutines is gs c)"

definition go2 :: "nat list \<Rightarrow> ('c \<Rightarrow> 'a \<times> 'c) \<Rightarrow> ('c \<Rightarrow> 'b \<times> 'c) \<Rightarrow> 'c \<Rightarrow> 'a \<times> 'b \<times> 'c" where
  "go2 order f g c =
     (if order = [1, 0]
      then (case g c of (y, c1) \<Rightarrow> (case f c1 of (x, c2) \<Rightarrow> (x, y, c2)))
      else (case f c of (x, c1) \<Rightarrow> (case g c1 of (y, c2) \<Rightarrow> (x, y, c2))))"

definition is_schedule :: "(nat \<Rightarrow> nat list) \<Rightarrow> bool" where
  "is_schedule p \<longleftrightarrow> (\<forall>n. distinct (p n) \<and> set (p n) = {..<n})"

lemma is_schedule_upt: "is_schedule (\<lambda>n. [0..<n])"
  by (auto simp: is_schedule_def)

lemma is_scheduleD: "is_schedule p \<Longrightarrow> distinct (p n) \<and> set (p n) = {..<n}"
  by (simp add: is_schedule_def)

text \<open>A predicate every goroutine keeps holds after all of them.\<close>

lemma run_goroutines_invariant:
  assumes "run_goroutines is gs c = (es, c')" and "P c"
    and "\<And>i c e c'. i < length gs \<Longrightarrow> P c \<Longrightarrow> (gs ! i) c = (e, c') \<Longrightarrow> P c'"
  shows "P c'"
  using assms(1,2)
proof (induction "is" arbitrary: c es)
  case (Cons i "is")
  then show ?case
    by (fastforce split: if_splits prod.splits option.splits intro: assms(3))
qed simp

lemma go2_cases:
  assumes "go2 order f g c = (x, y, c')"
  obtains c1 where "f c = (x, c1)" "g c1 = (y, c')"
    | c1 where "g c = (y, c1)" "f c1 = (x, c')"
  using assms by (auto simp: go2_def split: if_splits prod.splits)

section \<open>Lists\<close>

text \<open>Cutting a list into consecutive slices of a fixed size and joining them again.\<close>

definition slice :: "nat \<Rightarrow> nat \<Rightarrow> 'a list \<Rightarrow> 'a list" where
  "slice from to xs = take (to - from) (drop from xs)"

lemma length_slice: "length (slice from to xs) \<le> to - from"
  by (simp add: slice_def)

lemma concat_slices:
  "concat (map (\<lambda>i. slice (i * n) (min ((i + 1) * n) (length xs)) xs) [0..<k]) = take (k * n) xs"
proof (induction k)
  case (Suc k)
  have "take (Suc k * n) xs = take (k * n) xs @ take n (drop (k * n) xs)"
    using take_add [of "k * n" n xs] by (simp add: add.commute)
  moreover have "slice (k * n) (min ((k + 1) * n) (length xs)) xs = take n (drop (k * n) xs)"
    by (cases "(k + 1) * n \<le> length xs") (simp_all add: slice_def min_def)
  ultimately show ?case
    using Suc.IH by simp
qed simp

lemma concat_slices_all:
  assumes "0 < n"
  shows "concat (map (\<lambda>i. slice (i * n) (min ((i + 1) * n) (length xs)) xs)
                  [0..<length xs div n + 1]) = xs"
proof -
  have "length xs \<le> (length xs div n + 1) * n"
    using assms by (simp add: dividend_less_div_times less_imp_le)
  then show ?thesis
    by (simp only: concat_slices take_all)
qed

end
