(* ===== verification/Go_Strings.thy ===== *)
theory Go_Strings
  imports Prelude "HOL-Library.Sublist"
begin

text \<open>
  What the program uses of Go's string packages. A Go string is a sequence of bytes, so a
  \<^verbatim>\<open>string\<close> and a \<^verbatim>\<open>[]byte\<close> are both \<^typ>\<open>bytes\<close>. Modelled here:
  decimal (\<^verbatim>\<open>%d\<close>) and hexadecimal printing, UTF-8 decoding and encoding, and
  \<^verbatim>\<open>strconv.Quote\<close> (\<^verbatim>\<open>%q\<close>), from which every datastore kind and
  memcache key is built. The table behind \<^verbatim>\<open>strconv.IsPrint\<close> for non-ASCII runes is data of
  the Unicode standard: it is the argument \<open>P\<close>, and nothing below depends on its value.

  Main results: decimal printing is injective; \<open>Quote\<close> is self-delimiting
  (\<open>Quote_append_inj\<close>), so that two quoted strings joined by a colon determine both.
\<close>

section \<open>Bytes, decimal and hexadecimal\<close>

abbreviation byte :: "char \<Rightarrow> nat" where
  "byte c \<equiv> of_char c"

abbreviation backslash :: char where
  "backslash \<equiv> CHR 0x5C"

abbreviation dquote :: char where
  "dquote \<equiv> CHR 0x22"

lemma byte_less_256 [simp]: "byte c < 256"
  by simp

definition digit :: "nat \<Rightarrow> char" where
  "digit n = char_of (48 + n)"

fun Itoa :: "nat \<Rightarrow> bytes" where
  "Itoa n = (if n < 10 then [digit n] else Itoa (n div 10) @ [digit (n mod 10)])"

declare Itoa.simps [simp del]

definition hexDigit :: "nat \<Rightarrow> char" where
  "hexDigit n = (if n < 10 then char_of (48 + n) else char_of (87 + n))"

definition unhexDigit :: "char \<Rightarrow> nat" where
  "unhexDigit c = (if byte c < 58 then byte c - 48 else byte c - 87)"

fun hexDigits :: "nat \<Rightarrow> nat \<Rightarrow> bytes" where
  "hexDigits 0 r = []"
| "hexDigits (Suc k) r = hexDigits k (r div 16) @ [hexDigit (r mod 16)]"

definition unhex :: "bytes \<Rightarrow> nat" where
  "unhex cs = foldl (\<lambda>acc c. acc * 16 + unhexDigit c) 0 cs"

section \<open>UTF-8\<close>

definition RuneError :: nat where
  "RuneError = 0xFFFD"

definition acceptLo :: "nat \<Rightarrow> nat" where
  "acceptLo a = (if a = 0xE0 then 0xA0 else if a = 0xF0 then 0x90 else 0x80)"

definition acceptHi :: "nat \<Rightarrow> nat" where
  "acceptHi a = (if a = 0xED then 0x9F else if a = 0xF4 then 0x8F else 0xBF)"

definition cont :: "nat \<Rightarrow> bool" where
  "cont b \<longleftrightarrow> 0x80 \<le> b \<and> b \<le> 0xBF"

definition DecodeRune :: "bytes \<Rightarrow> nat \<times> nat" where
  "DecodeRune s =
     (case map byte s of
        [] \<Rightarrow> (RuneError, 0)
      | a # t \<Rightarrow>
          if a < 0x80 then (a, 1)
          else if 0xC2 \<le> a \<and> a \<le> 0xDF then
            (case t of
               b # _ \<Rightarrow> if cont b then ((a - 0xC0) * 64 + (b - 0x80), 2) else (RuneError, 1)
             | [] \<Rightarrow> (RuneError, 1))
          else if 0xE0 \<le> a \<and> a \<le> 0xEF then
            (case t of
               b # c # _ \<Rightarrow>
                 if acceptLo a \<le> b \<and> b \<le> acceptHi a \<and> cont c
                 then (((a - 0xE0) * 64 + (b - 0x80)) * 64 + (c - 0x80), 3) else (RuneError, 1)
             | _ \<Rightarrow> (RuneError, 1))
          else if 0xF0 \<le> a \<and> a \<le> 0xF4 then
            (case t of
               b # c # d # _ \<Rightarrow>
                 if acceptLo a \<le> b \<and> b \<le> acceptHi a \<and> cont c \<and> cont d
                 then ((((a - 0xF0) * 64 + (b - 0x80)) * 64 + (c - 0x80)) * 64 + (d - 0x80), 4)
                 else (RuneError, 1)
             | _ \<Rightarrow> (RuneError, 1))
          else (RuneError, 1))"

definition ValidRune :: "nat \<Rightarrow> bool" where
  "ValidRune r \<longleftrightarrow> r < 0xD800 \<or> 0xDFFF < r \<and> r \<le> 0x10FFFF"

definition EncodeRune :: "nat \<Rightarrow> bytes" where
  "EncodeRune r0 =
     (let r = (if ValidRune r0 then r0 else RuneError) in
      if r < 0x80 then [char_of r]
      else if r < 0x800 then [char_of (0xC0 + r div 64), char_of (0x80 + r mod 64)]
      else if r < 0x10000 then
        [char_of (0xE0 + r div 4096), char_of (0x80 + r div 64 mod 64), char_of (0x80 + r mod 64)]
      else
        [char_of (0xF0 + r div 262144), char_of (0x80 + r div 4096 mod 64),
         char_of (0x80 + r div 64 mod 64), char_of (0x80 + r mod 64)])"

section \<open>strconv.Quote\<close>

definition IsPrint :: "(nat \<Rightarrow> bool) \<Rightarrow> nat \<Rightarrow> bool" where
  "IsPrint P r = (if r < 0x80 then 0x20 \<le> r \<and> r < 0x7F else P r)"

definition appendEscapedRune :: "(nat \<Rightarrow> bool) \<Rightarrow> nat \<Rightarrow> bytes" where
  "appendEscapedRune P r =
     (if r = 0x22 \<or> r = 0x5C then [backslash, char_of r]
      else if IsPrint P r then EncodeRune r
      else if r = 7 then backslash # ''a''
      else if r = 8 then backslash # ''b''
      else if r = 12 then backslash # ''f''
      else if r = 10 then backslash # ''n''
      else if r = 13 then backslash # ''r''
      else if r = 9 then backslash # ''t''
      else if r = 11 then backslash # ''v''
      else if r < 0x20 \<or> r = 0x7F then backslash # ''x'' @ hexDigits 2 r
      else (let r' = (if ValidRune r then r else RuneError) in
            if r' < 0x10000 then backslash # ''u'' @ hexDigits 4 r'
            else backslash # ''U'' @ hexDigits 8 r'))"

definition quoteChunk :: "(nat \<Rightarrow> bool) \<Rightarrow> bytes \<Rightarrow> bytes \<times> nat" where
  "quoteChunk P s =
     (case DecodeRune s of (r, width) \<Rightarrow>
        if width = 1 \<and> r = RuneError
        then (backslash # ''x'' @ hexDigits 2 (byte (hd s)), 1)
        else (appendEscapedRune P r, width))"

function quoteBody :: "(nat \<Rightarrow> bool) \<Rightarrow> bytes \<Rightarrow> bytes" where
  "quoteBody P [] = []"
| "quoteBody P (a # s) =
     (case quoteChunk P (a # s) of (out, width) \<Rightarrow> out @ quoteBody P (drop (width - 1) s))"
  by pat_completeness auto
termination
  by (relation "measure (\<lambda>(P, s). length s)") auto

definition Quote :: "(nat \<Rightarrow> bool) \<Rightarrow> bytes \<Rightarrow> bytes" where
  "Quote P s = dquote # quoteBody P s @ [dquote]"

section \<open>Decimal printing is injective\<close>

definition Atoi :: "bytes \<Rightarrow> nat" where
  "Atoi cs = foldl (\<lambda>acc c. acc * 10 + (byte c - 48)) 0 cs"

lemma Atoi_Itoa: "Atoi (Itoa n) = n"
proof (induction n rule: Itoa.induct)
  case (1 n)
  show ?case
  proof (cases "n < 10")
    case False
    with "1.IH" have "Atoi (Itoa (n div 10)) = n div 10" by simp
    with False show ?thesis
      by (subst Itoa.simps) (simp add: Atoi_def digit_def)
  qed (subst Itoa.simps, simp add: Atoi_def digit_def)
qed

lemma Itoa_inject [simp]: "Itoa m = Itoa n \<longleftrightarrow> m = n"
  by (metis Atoi_Itoa)

lemma Itoa_digits: "c \<in> set (Itoa n) \<Longrightarrow> 48 \<le> byte c \<and> byte c < 58"
proof (induction n rule: Itoa.induct)
  case (1 n)
  then show ?case
    by (subst (asm) (2) Itoa.simps) (auto simp: digit_def split: if_splits)
qed

section \<open>Hexadecimal round trip\<close>

lemma length_hexDigits [simp]: "length (hexDigits k r) = k"
  by (induction k arbitrary: r) simp_all

lemma unhexDigit_hexDigit: "n < 16 \<Longrightarrow> unhexDigit (hexDigit n) = n"
  by (simp add: unhexDigit_def hexDigit_def)

lemma unhex_snoc: "unhex (cs @ [c]) = unhex cs * 16 + unhexDigit c"
  by (simp add: unhex_def)

lemma unhex_hexDigits: "unhex (hexDigits k r) = r mod 16 ^ k"
proof (induction k arbitrary: r)
  case (Suc k)
  have "unhex (hexDigits (Suc k) r) = r div 16 mod 16 ^ k * 16 + r mod 16"
    by (simp add: unhex_snoc Suc.IH unhexDigit_hexDigit)
  also have "\<dots> = r mod 16 ^ Suc k"
    by (simp add: mod_mult2_eq)
  finally show ?case .
qed (simp add: unhex_def)

lemma unhex_hexDigits_small: "r < 16 ^ k \<Longrightarrow> unhex (hexDigits k r) = r"
  by (simp add: unhex_hexDigits)

section \<open>UTF-8 round trip\<close>

lemma DecodeRune_width:
  assumes "DecodeRune s = (r, w)" and "s \<noteq> []"
  shows "1 \<le> w \<and> w \<le> length s"
  using assms by (auto simp: DecodeRune_def split: list.splits if_splits)

lemma base64_digit:
  fixes x y :: nat
  assumes "y < 64"
  shows "(x * 64 + y) div 64 = x" and "(x * 64 + y) mod 64 = y"
  using assms by simp_all

lemma Encode2:
  assumes "2 \<le> x" "x < 32" "y < 64"
  shows "EncodeRune (x * 64 + y) = [char_of (0xC0 + x), char_of (0x80 + y)]"
proof -
  have "0x80 \<le> x * 64 + y" "x * 64 + y < 0x800"
    using assms by auto
  then show ?thesis
    using base64_digit [OF assms(3), of x] by (simp add: EncodeRune_def ValidRune_def)
qed

lemma Encode3:
  assumes "x < 16" "y < 64" "z < 64" "x = 0 \<longrightarrow> 32 \<le> y" "x = 13 \<longrightarrow> y < 32"
  shows "EncodeRune ((x * 64 + y) * 64 + z) = [char_of (0xE0 + x), char_of (0x80 + y), char_of (0x80 + z)]"
proof -
  let ?r = "(x * 64 + y) * 64 + z"
  have "?r div 64 = x * 64 + y" "?r mod 64 = z" "?r div 4096 = x" "?r div 64 mod 64 = y"
    using base64_digit [OF assms(3), of "x * 64 + y"] base64_digit [OF assms(2), of x]
      div_mult2_eq [of ?r 64 64] by simp_all
  moreover have "0x800 \<le> ?r" and "?r < 0x10000"
    using assms by (cases "x = 0"; simp)+
  moreover have "?r < 0xD800 \<or> 0xDFFF < ?r"
    using assms by (cases "x < 13"; cases "x = 13"; simp)
  ultimately show ?thesis
    by (simp add: EncodeRune_def ValidRune_def)
qed

lemma Encode4:
  assumes "x < 5" "y < 64" "z < 64" "u < 64" "x = 0 \<longrightarrow> 16 \<le> y" "x = 4 \<longrightarrow> y < 16"
  shows "EncodeRune (((x * 64 + y) * 64 + z) * 64 + u)
           = [char_of (0xF0 + x), char_of (0x80 + y), char_of (0x80 + z), char_of (0x80 + u)]"
proof -
  let ?r = "((x * 64 + y) * 64 + z) * 64 + u"
  have d: "?r div 64 = (x * 64 + y) * 64 + z" "?r mod 64 = u"
    by (rule base64_digit [OF assms(4)])+
  moreover have "?r div 4096 = ?r div 64 div 64" "?r div 262144 = ?r div 64 div 64 div 64"
    by (simp_all only: div_mult2_eq [symmetric]) simp_all
  then have "?r div 4096 = x * 64 + y" "?r div 262144 = x"
    by (simp_all only: d base64_digit [OF assms(3)] base64_digit [OF assms(2)])
  moreover from this have "?r div 4096 mod 64 = y" "?r div 64 mod 64 = z"
    by (simp_all only: d base64_digit [OF assms(3)] base64_digit [OF assms(2)])
  moreover have "0x10000 \<le> ?r" and "?r \<le> 0x10FFFF"
    using assms by (cases "x = 0"; cases "x = 4"; simp)+
  ultimately show ?thesis
    by (simp add: EncodeRune_def ValidRune_def)
qed

lemma DecodeRune_cases:
  assumes "DecodeRune s = (r, w)" and "s \<noteq> []" and "\<not> (w = 1 \<and> r = RuneError)"
  obtains (one) a t where "s = char_of a # t" "a < 0x80" "r = a" "w = 1"
  | (two) x y t where "s = char_of (0xC0 + x) # char_of (0x80 + y) # t" "2 \<le> x" "x < 32" "y < 64"
      "r = x * 64 + y" "w = 2"
  | (three) x y z t where "s = char_of (0xE0 + x) # char_of (0x80 + y) # char_of (0x80 + z) # t"
      "x < 16" "y < 64" "z < 64" "x = 0 \<longrightarrow> 32 \<le> y" "x = 13 \<longrightarrow> y < 32"
      "r = (x * 64 + y) * 64 + z" "w = 3"
  | (four) x y z u t where
      "s = char_of (0xF0 + x) # char_of (0x80 + y) # char_of (0x80 + z) # char_of (0x80 + u) # t"
      "x < 5" "y < 64" "z < 64" "u < 64" "x = 0 \<longrightarrow> 16 \<le> y" "x = 4 \<longrightarrow> y < 16"
      "r = ((x * 64 + y) * 64 + z) * 64 + u" "w = 4"
proof -
  obtain a t where s: "s = a # t" using assms(2) by (cases s) auto
  consider (1) "byte a < 0x80" | (2) "0xC2 \<le> byte a" "byte a \<le> 0xDF"
    | (3) "0xE0 \<le> byte a" "byte a \<le> 0xEF" | (4) "0xF0 \<le> byte a" "byte a \<le> 0xF4"
    | (5) "0x80 \<le> byte a" "byte a < 0xC2 \<or> 0xF4 < byte a"
    by linarith
  then show thesis
  proof cases
    case 1
    with assms s show ?thesis by (intro one [of "byte a" t]) (auto simp: DecodeRune_def)
  next
    case 2
    then obtain b t' where "t = b # t'" "cont (byte b)" "r = (byte a - 0xC0) * 64 + (byte b - 0x80)" "w = 2"
      using assms s by (auto simp: DecodeRune_def split: list.splits if_splits)
    with 2 s show ?thesis
      by (intro two [of "byte a - 0xC0" "byte b - 0x80" t']) (auto simp: cont_def)
  next
    case 3
    then obtain b c t' where t: "t = b # c # t'"
      and ok: "cont (byte c)" "acceptLo (byte a) \<le> byte b" "byte b \<le> acceptHi (byte a)"
      and r: "r = ((byte a - 0xE0) * 64 + (byte b - 0x80)) * 64 + (byte c - 0x80)" "w = 3"
      using assms s by (auto simp: DecodeRune_def split: list.splits if_splits)
    have "0x80 \<le> byte b" "byte b \<le> 0xBF" "0x80 \<le> byte c" "byte c \<le> 0xBF"
      "byte a = 0xE0 \<longrightarrow> 0xA0 \<le> byte b" "byte a = 0xED \<longrightarrow> byte b \<le> 0x9F"
      using ok by (auto simp: cont_def acceptLo_def acceptHi_def split: if_splits)
    with 3 s t show ?thesis
      by (intro three [OF _ _ _ _ _ _ r]) auto
  next
    case 4
    then obtain b c d t' where t: "t = b # c # d # t'"
      and ok: "cont (byte c)" "cont (byte d)" "acceptLo (byte a) \<le> byte b" "byte b \<le> acceptHi (byte a)"
      and r: "r = (((byte a - 0xF0) * 64 + (byte b - 0x80)) * 64 + (byte c - 0x80)) * 64 + (byte d - 0x80)" "w = 4"
      using assms s by (auto simp: DecodeRune_def split: list.splits if_splits)
    have "0x80 \<le> byte b" "byte b \<le> 0xBF" "0x80 \<le> byte c" "byte c \<le> 0xBF" "0x80 \<le> byte d"
      "byte d \<le> 0xBF" "byte a = 0xF0 \<longrightarrow> 0x90 \<le> byte b" "byte a = 0xF4 \<longrightarrow> byte b \<le> 0x8F"
      using ok by (auto simp: cont_def acceptLo_def acceptHi_def split: if_splits)
    with 4 s t show ?thesis
      by (intro four [OF _ _ _ _ _ _ _ r]) auto
  next
    case 5
    with assms s show ?thesis by (auto simp: DecodeRune_def split: if_splits)
  qed
qed

lemma Encode_Decode:
  assumes "DecodeRune s = (r, w)" and "s \<noteq> []" and "\<not> (w = 1 \<and> r = RuneError)"
  shows "EncodeRune r = take w s"
  using assms
proof (cases rule: DecodeRune_cases)
  case (one a t)
  then show ?thesis by (simp add: EncodeRune_def ValidRune_def)
next
  case (two x y t)
  then show ?thesis by (simp add: Encode2)
next
  case (three x y z t)
  then show ?thesis by (simp only: Encode3) simp
next
  case (four x y z u t)
  then show ?thesis by (simp only: Encode4) simp
qed

section \<open>Quoted strings are self-delimiting\<close>

text \<open>Reading one token of a quoted string back.\<close>

definition tokenLength :: "bytes \<Rightarrow> nat" where
  "tokenLength t =
     (if hd t = backslash then
        (if t ! 1 = CHR ''x'' then 4 else if t ! 1 = CHR ''u'' then 6 else if t ! 1 = CHR ''U'' then 10 else 2)
      else if byte (hd t) < 0x80 then 1 else if byte (hd t) < 0xE0 then 2
      else if byte (hd t) < 0xF0 then 3 else 4)"

definition unescape :: "bytes \<Rightarrow> bytes" where
  "unescape t =
     (if hd t \<noteq> backslash then t
      else if t ! 1 = CHR ''x'' then [char_of (unhex (drop 2 t))]
      else if t ! 1 = CHR ''u'' \<or> t ! 1 = CHR ''U'' then EncodeRune (unhex (drop 2 t))
      else if t ! 1 = CHR ''a'' then [char_of (7 :: nat)]
      else if t ! 1 = CHR ''b'' then [char_of (8 :: nat)]
      else if t ! 1 = CHR ''f'' then [char_of (12 :: nat)]
      else if t ! 1 = CHR ''n'' then [char_of (10 :: nat)]
      else if t ! 1 = CHR ''r'' then [char_of (13 :: nat)]
      else if t ! 1 = CHR ''t'' then [char_of (9 :: nat)]
      else if t ! 1 = CHR ''v'' then [char_of (11 :: nat)]
      else [t ! 1])"

lemma char_of_eq_byte: "n < 256 \<Longrightarrow> (char_of n = c) = (n = byte c)"
  by auto

text \<open>An escaped rune is a token: its first bytes give its length, and it can be read back.\<close>

definition is_token :: "bytes \<Rightarrow> bytes \<Rightarrow> bool" where
  "is_token out src \<longleftrightarrow> out \<noteq> [] \<and> hd out \<noteq> dquote \<and> unescape out = src
     \<and> (\<forall>z. tokenLength (out @ z) = length out)"

lemma is_token_escape2:
  "is_token (backslash # ''x'' @ hexDigits 2 n) [char_of n]" if "n < 256"
  using that unhex_hexDigits_small [of n 2]
  by (simp add: is_token_def unescape_def tokenLength_def)

lemma is_token_escape4:
  "is_token (backslash # ''u'' @ hexDigits 4 n) (EncodeRune n)" if "n < 0x10000"
  using that unhex_hexDigits_small [of n 4]
  by (simp add: is_token_def unescape_def tokenLength_def)

lemma is_token_escape8:
  "is_token (backslash # ''U'' @ hexDigits 8 n) (EncodeRune n)" if "n \<le> 0x10FFFF"
  using that unhex_hexDigits_small [of n 8]
  by (simp add: is_token_def unescape_def tokenLength_def)

lemma is_token_printable:
  assumes "t \<noteq> []" "hd t \<noteq> backslash" "hd t \<noteq> dquote"
    and "length t = (if byte (hd t) < 0x80 then 1 else if byte (hd t) < 0xE0 then 2
                     else if byte (hd t) < 0xF0 then 3 else 4)"
  shows "is_token t t"
  using assms by (auto simp: is_token_def unescape_def tokenLength_def)

lemma is_token_ascii:
  assumes "a < 0x80"
  shows "is_token (appendEscapedRune P a) [char_of a]"
proof -
  have enc: "EncodeRune a = [char_of a]"
    using assms by (simp add: EncodeRune_def ValidRune_def)
  consider "a = 0x22 \<or> a = 0x5C" | "a \<noteq> 0x22" "a \<noteq> 0x5C" "IsPrint P a" | "\<not> IsPrint P a"
    by blast
  then show ?thesis
  proof cases
    case 1
    then show ?thesis
      by (auto simp: appendEscapedRune_def is_token_def unescape_def tokenLength_def char_of_eq_byte)
  next
    case 2
    then show ?thesis
      using assms by (auto simp: appendEscapedRune_def enc char_of_eq_byte intro!: is_token_printable)
  next
    case 3
    then have ctl: "a < 0x20 \<or> a = 0x7F" using assms by (auto simp: IsPrint_def)
    show ?thesis
    proof (cases "a \<in> {7, 8, 9, 10, 11, 12, 13}")
      case True
      then have "\<exists>d. appendEscapedRune P a = [backslash, d] \<and> d \<notin> {CHR ''x'', CHR ''u'', CHR ''U''}
          \<and> unescape [backslash, d] = [char_of a]"
        unfolding insert_iff empty_iff
        by (elim disjE) (simp_all add: appendEscapedRune_def IsPrint_def unescape_def)
      then show ?thesis
        by (auto simp: is_token_def tokenLength_def)
    next
      case False
      with 3 ctl have "appendEscapedRune P a = backslash # ''x'' @ hexDigits 2 a"
        by (auto simp: appendEscapedRune_def)
      then show ?thesis
        using is_token_escape2 [of a] assms by simp
    qed
  qed
qed

lemma is_token_wide:
  assumes "0x80 \<le> r" "ValidRune r" "EncodeRune r = t" "is_token t t"
  shows "is_token (appendEscapedRune P r) t"
  using assms is_token_escape4 [of r] is_token_escape8 [of r]
  by (auto simp: appendEscapedRune_def Let_def ValidRune_def)

lemma is_token_quoteChunk:
  assumes "quoteChunk P s = (out, w)" and "s \<noteq> []"
  shows "is_token out (take w s)"
proof -
  obtain r w' where d: "DecodeRune s = (r, w')" by fastforce
  show ?thesis
  proof (cases "w' = 1 \<and> r = RuneError")
    case True
    with assms d show ?thesis
      using is_token_escape2 [of "byte (hd s)"] by (cases s) (auto simp: quoteChunk_def)
  next
    case False
    with assms d have out: "out = appendEscapedRune P r" "w = w'"
      by (auto simp: quoteChunk_def)
    from d assms(2) False show ?thesis
    proof (cases rule: DecodeRune_cases)
      case (one a t)
      then show ?thesis by (simp add: out is_token_ascii)
    next
      case (two x y t)
      have "is_token (take w s) (take w s)" using two by (intro is_token_printable) (auto simp: out char_of_eq_byte)
      moreover have "ValidRune r" "0x80 \<le> r" using two by (auto simp: ValidRune_def)
      ultimately show ?thesis
        using Encode_Decode [OF d assms(2) False] out by (auto intro: is_token_wide)
    next
      case (three x y z t)
      have "is_token (take w s) (take w s)" using three by (intro is_token_printable) (auto simp: out char_of_eq_byte)
      moreover have "ValidRune r" "0x80 \<le> r" using three by (cases "x = 0"; cases "x < 13"; cases "x = 13"; simp add: ValidRune_def)+
      ultimately show ?thesis
        using Encode_Decode [OF d assms(2) False] out by (auto intro: is_token_wide)
    next
      case (four x y z u t)
      have "is_token (take w s) (take w s)" using four by (intro is_token_printable) (auto simp: out char_of_eq_byte)
      moreover have "ValidRune r" "0x80 \<le> r" using four by (cases "x = 0"; cases "x = 4"; simp add: ValidRune_def)+
      ultimately show ?thesis
        using Encode_Decode [OF d assms(2) False] out by (auto intro: is_token_wide)
    qed
  qed
qed

lemma is_token_append_inj:
  assumes "is_token out src" "is_token out' src'" "out @ x = out' @ y"
  shows "src = src' \<and> x = y"
proof -
  have "length out = length out'"
    using assms by (metis is_token_def)
  then show ?thesis
    using assms by (auto simp: is_token_def)
qed

lemma quoteChunk_width: "quoteChunk P s = (out, w) \<Longrightarrow> s \<noteq> [] \<Longrightarrow> 1 \<le> w \<and> w \<le> length s"
  by (cases s) (auto simp: quoteChunk_def Suc_le_eq split: prod.splits if_splits dest!: DecodeRune_width)

lemma quoteBody_append_inj:
  "quoteBody P s @ dquote # x = quoteBody P t @ dquote # y \<Longrightarrow> s = t \<and> x = y"
proof (induction s arbitrary: t rule: length_induct)
  case (1 s)
  show ?case
  proof (cases "s = [] \<or> t = []")
    case True
    have "hd (quoteBody P (a # u) @ v) \<noteq> dquote" for a u v
      using is_token_quoteChunk [of P "a # u"]
      by (cases "quoteChunk P (a # u)") (auto simp: is_token_def)
    then have ne: "quoteBody P (a # u) @ v \<noteq> dquote # z" for a u v z
      by (metis list.sel(1))
    show ?thesis
    proof (cases s; cases t)
      assume "s = []" "t = []"
      with "1.prems" show ?thesis by simp
    next
      fix a u assume "s = []" "t = a # u"
      with "1.prems" ne [of a u "dquote # y" x] show ?thesis by simp
    next
      fix a u assume "s = a # u" "t = []"
      with "1.prems" ne [of a u "dquote # x" y] show ?thesis by simp
    qed (use True in simp)
  next
    case False
    obtain o1 w1 o2 w2 where q: "quoteChunk P s = (o1, w1)" "quoteChunk P t = (o2, w2)"
      by fastforce
    have w: "1 \<le> w1" "1 \<le> w2" using q False quoteChunk_width by blast+
    have s: "quoteBody P s = o1 @ quoteBody P (drop w1 s)" and t: "quoteBody P t = o2 @ quoteBody P (drop w2 t)"
      using q False w by (cases s; cases t; simp add: drop_Cons')+
    have tk: "take w1 s = take w2 t" and "quoteBody P (drop w1 s) @ dquote # x = quoteBody P (drop w2 t) @ dquote # y"
      using is_token_append_inj [of o1 "take w1 s" o2 "take w2 t"] is_token_quoteChunk [OF q(1)]
        is_token_quoteChunk [OF q(2)] False "1.prems" s t by auto
    moreover have "length (drop w1 s) < length s" using w False by (cases s) auto
    ultimately have "drop w1 s = drop w2 t \<and> x = y"
      using "1.IH" by blast
    with tk show ?thesis
      using append_take_drop_id [of w1 s] append_take_drop_id [of w2 t] by simp
  qed
qed

lemma Quote_append_inj:
  "Quote P s @ x = Quote P t @ y \<longleftrightarrow> s = t \<and> x = y"
  using quoteBody_append_inj [of P s x t y] by (auto simp: Quote_def)

lemma Quote_inject [simp]: "Quote P s = Quote P t \<longleftrightarrow> s = t"
  using Quote_append_inj [of P s "[]" t "[]"] by simp

end
