(* ===== verification/Go_Time.thy ===== *)
theory Go_Time
  imports Go_Strings
begin

text \<open>
  \<^verbatim>\<open>time.Time.Format\<close> for the two layouts the program uses, in UTC (the time zone of an
  App Engine instance): \<^verbatim>\<open>time.RFC3339\<close> and \<^verbatim>\<open>time.RFC3339Nano\<close>. The calendar
  computation follows the standard library: whole 400, 100, 4 and 1 year cycles are taken off the
  number of days since January 1, year 1.
\<close>

definition isLeap :: "nat \<Rightarrow> bool" where
  "isLeap y \<longleftrightarrow> y mod 4 = 0 \<and> (y mod 100 \<noteq> 0 \<or> y mod 400 = 0)"

definition yearAndDay :: "nat \<Rightarrow> nat \<times> nat" where
  "yearAndDay d0 =
     (let n400 = d0 div 146097; d1 = d0 - 146097 * n400;
          n100 = d1 div 36524 - d1 div 36524 div 4; d2 = d1 - 36524 * n100;
          n4 = d2 div 1461; d3 = d2 - 1461 * n4;
          n1 = d3 div 365 - d3 div 365 div 4
      in (400 * n400 + 100 * n100 + 4 * n4 + n1 + 1, d3 - 365 * n1))"

definition monthLengths :: "bool \<Rightarrow> nat list" where
  "monthLengths leap = [31, if leap then 29 else 28, 31, 30, 31, 30, 31, 31, 30, 31, 30, 31]"

fun monthAndDay :: "nat \<Rightarrow> nat list \<Rightarrow> nat \<Rightarrow> nat \<times> nat" where
  "monthAndDay m [] yday = (m, yday + 1)"
| "monthAndDay m (l # ls) yday =
     (if yday < l then (m, yday + 1) else monthAndDay (m + 1) ls (yday - l))"

definition pad :: "nat \<Rightarrow> nat \<Rightarrow> bytes" where
  "pad w n = replicate (w - length (Itoa n)) (CHR ''0'') @ Itoa n"

definition formatSeconds :: "nat \<Rightarrow> bytes" where
  "formatSeconds secs =
     (case yearAndDay (secs div 86400) of (year, yday) \<Rightarrow>
        (case monthAndDay 1 (monthLengths (isLeap year)) yday of (month, day) \<Rightarrow>
           (let sod = secs mod 86400
            in pad 4 year @ ''-'' @ pad 2 month @ ''-'' @ pad 2 day @ ''T''
               @ pad 2 (sod div 3600) @ '':'' @ pad 2 (sod mod 3600 div 60) @ '':''
               @ pad 2 (sod mod 60))))"

definition formatRFC3339 :: "time \<Rightarrow> bytes" where
  "formatRFC3339 t = formatSeconds (nat (t div Second)) @ ''Z''"

definition trimZeros :: "bytes \<Rightarrow> bytes" where
  "trimZeros cs = rev (dropWhile (\<lambda>c. c = CHR ''0'') (rev cs))"

definition formatRFC3339Nano :: "time \<Rightarrow> bytes" where
  "formatRFC3339Nano t =
     formatSeconds (nat (t div Second))
     @ (let ns = nat (t mod Second) in if ns = 0 then [] else ''.'' @ trimZeros (pad 9 ns)) @ ''Z''"

text \<open>\<^verbatim>\<open>time.Unix(0, 0)\<close> as a time since year 1.\<close>

definition unixEpoch :: time where
  "unixEpoch = 62135596800 * Second"

lemmas format_defs =
  formatRFC3339_def formatRFC3339Nano_def formatSeconds_def yearAndDay_def monthLengths_def
  isLeap_def pad_def trimZeros_def unixEpoch_def Second_def Itoa.simps digit_def Let_def char_of_eq_byte

lemma formatRFC3339_epoch: "formatRFC3339 unixEpoch = ''1970-01-01T00:00:00Z''"
  by (simp add: format_defs)

lemma formatRFC3339_leap_day:
  "formatRFC3339 (unixEpoch + 1709210096 * Second) = ''2024-02-29T12:34:56Z''"
  by (simp add: format_defs)

lemma formatRFC3339Nano_fraction:
  "formatRFC3339Nano (unixEpoch + 1709210096 * Second + 120500000) = ''2024-02-29T12:34:56.1205Z''"
  by (simp add: format_defs)

end
