(* ===== verification/App_Types.thy ===== *)
theory App_Types
  imports Go_Time
begin

text \<open>
  The data model of the App Engine proxy, \<^verbatim>\<open>app/types/types.go\<close>: end-user requests,
  responses, backend records, and the \<^verbatim>\<open>Store\<close> interface. A Go interface is a record of its
  methods; the type variable \<open>'c\<close> is the context every method is called with
  (\<^verbatim>\<open>ctx context.Context\<close>), through which the services are reached. A method that changes
  the services returns the new context; one that may not return is an option.
\<close>

section \<open>Structs\<close>

record Request =
  req_BackendID :: string
  req_RequestID :: string
  req_User :: string
  req_Contents :: bytes
  req_StartTime :: time
  req_Completed :: bool

record Response =
  resp_BackendID :: string
  resp_RequestID :: string
  resp_Contents :: bytes
  resp_StartTime :: time

record Backend =
  be_BackendID :: string
  be_BackendUser :: string
  be_EndUser :: string
  be_PathPrefixes :: "string list"
  be_LastUsed :: string

definition NewRequest :: "time \<Rightarrow> string \<Rightarrow> string \<Rightarrow> string \<Rightarrow> bytes \<Rightarrow> Request" where
  "NewRequest now backendID requestID userEmail requestBytes =
     \<lparr>req_BackendID = backendID, req_RequestID = requestID, req_User = userEmail,
      req_Contents = requestBytes, req_StartTime = now, req_Completed = False\<rparr>"

section \<open>The Store interface\<close>

record 'c Store =
  WriteRequest :: "'c \<Rightarrow> Request \<Rightarrow> error option \<times> 'c"
  ReadRequest :: "'c \<Rightarrow> string \<Rightarrow> string \<Rightarrow> error + Request"
  ListPendingRequests :: "'c \<Rightarrow> string \<Rightarrow> (error + string list) \<times> 'c"
  WriteResponse :: "'c \<Rightarrow> Response \<Rightarrow> error option \<times> 'c"
  ReadResponse :: "'c \<Rightarrow> string \<Rightarrow> string \<Rightarrow> error + Response"
  DeleteOldBackends :: "'c \<Rightarrow> (error option \<times> 'c) option"
  DeleteOldRequests :: "'c \<Rightarrow> (error option \<times> 'c) option"
  AddBackend :: "'c \<Rightarrow> Backend \<Rightarrow> error option \<times> 'c"
  ListBackends :: "'c \<Rightarrow> error + Backend list"
  DeleteBackend :: "'c \<Rightarrow> string \<Rightarrow> (error option \<times> 'c) option"
  LookupBackend :: "'c \<Rightarrow> string \<Rightarrow> string \<Rightarrow> error + string"
  IsBackendUserAllowed :: "'c \<Rightarrow> string \<Rightarrow> string \<Rightarrow> error + bool"

section \<open>Microsecond precision\<close>

text \<open>
  The Datastore keeps times in microseconds. Two requests are the same record when they agree on
  everything but the nanoseconds the Datastore drops; the store never keeps the start time of a
  response (\<open>resp_StartTime\<close> only feeds the latency), so two responses are the same record
  when they agree on everything else.
\<close>

definition micros :: "time \<Rightarrow> time" where
  "micros t = t div 1000 * 1000"

lemma micros_idem [simp]: "micros (micros t) = micros t"
  by (simp add: micros_def)

lemma micros_le: "micros t \<le> t"
  by (simp add: micros_def minus_mod_eq_div_mult [symmetric])

lemma micros_gt: "t - 1000 < micros t"
  by (simp add: micros_def minus_mod_eq_div_mult [symmetric])

lemma micros_mono: "s \<le> t \<Longrightarrow> micros s \<le> micros t"
  by (simp add: micros_def zdiv_mono1)

lemma micros_diff_multiple: "micros (t - 1000 * q) = micros t - 1000 * q"
proof -
  have "(t - 1000 * q) div 1000 = t div 1000 - q"
    by simp
  then show ?thesis by (simp add: micros_def algebra_simps)
qed

definition canonRequest :: "Request \<Rightarrow> Request" where
  "canonRequest r = r\<lparr>req_StartTime := micros (req_StartTime r)\<rparr>"

definition canonResponse :: "Response \<Rightarrow> Response" where
  "canonResponse r = r\<lparr>resp_StartTime := 0\<rparr>"

lemma canonRequest_simps [simp]:
  "req_BackendID (canonRequest r) = req_BackendID r"
  "req_RequestID (canonRequest r) = req_RequestID r"
  "req_User (canonRequest r) = req_User r"
  "req_Contents (canonRequest r) = req_Contents r"
  "req_Completed (canonRequest r) = req_Completed r"
  "canonRequest (canonRequest r) = canonRequest r"
  by (simp_all add: canonRequest_def)

lemma canonResponse_simps [simp]:
  "resp_BackendID (canonResponse r) = resp_BackendID r"
  "resp_RequestID (canonResponse r) = resp_RequestID r"
  "resp_Contents (canonResponse r) = resp_Contents r"
  "canonResponse (canonResponse r) = canonResponse r"
  by (simp_all add: canonResponse_def)

end
