(* ===== verification/App_Services.thy ===== *)
theory App_Services
  imports App_Types
begin

text \<open>
  The services the App Engine proxy calls, and the context that carries them.

  The Datastore and Memcache packages (\<^verbatim>\<open>google.golang.org/appengine/v2\<close>) are not part of
  the repository, so they are parameters: a record of the operations the code calls, on an abstract
  service state \<open>'d\<close> or \<open>'m\<close>. What the code relies on is their documented behaviour,
  stated as the predicates \<open>ds_laws\<close> and \<open>mc_laws\<close> over one observation of the
  service state (the committed entities, the items in the cache). Every operation may fail: a failed
  write may or may not have taken effect, a failed read says nothing, a cache item may be gone at
  any time. Theorems that rest on these laws have them as hypotheses; \<open>memDatastore\<close> and
  \<open>memCache\<close> at the end are in-memory services that satisfy them.

  The entity structs are those of \<^verbatim>\<open>app/store/store.go\<close>.
\<close>

section \<open>Entities\<close>

record blobPart =
  bp_ID :: string
  bp_Bytes :: bytes
  bp_StartTime :: time

record blob =
  Inlined :: bytes
  Parts :: "string list"

record storedRequest =
  sr_BackendID :: string
  sr_RequestID :: string
  sr_User :: string
  sr_StartTime :: time
  sr_Completed :: bool
  sr_RequestBytes :: blob

record storedResponse =
  sp_BackendID :: string
  sp_RequestID :: string
  sp_ResponseBytes :: blob
  sp_StartTime :: time
  sp_Latency :: duration
  sp_ResponseSize :: nat

record backendTracker =
  LastSeen :: time

record activityTracker =
  LastActive :: time

datatype entity =
    EBlobPart blobPart
  | ERequest storedRequest
  | EResponse storedResponse
  | EBackendTracker backendTracker
  | EActivityTracker activityTracker
  | EBackend Backend

text \<open>What saving an entity does to it: times are kept in microseconds.\<close>

fun ds_norm :: "entity \<Rightarrow> entity" where
  "ds_norm (EBlobPart p) = EBlobPart (p\<lparr>bp_StartTime := micros (bp_StartTime p)\<rparr>)"
| "ds_norm (ERequest r) = ERequest (r\<lparr>sr_StartTime := micros (sr_StartTime r)\<rparr>)"
| "ds_norm (EResponse r) = EResponse (r\<lparr>sp_StartTime := micros (sp_StartTime r)\<rparr>)"
| "ds_norm (EBackendTracker t) = EBackendTracker (t\<lparr>LastSeen := micros (LastSeen t)\<rparr>)"
| "ds_norm (EActivityTracker t) = EActivityTracker (t\<lparr>LastActive := micros (LastActive t)\<rparr>)"
| "ds_norm (EBackend b) = EBackend b"

text \<open>A key is a kind and a name (\<^verbatim>\<open>datastore.NewKey(ctx, kind, name, 0, nil)\<close>).\<close>

datatype key = Key (key_kind: string) (key_name: string)

section \<open>Queries\<close>

text \<open>
  A query names a kind, one filter and a limit. \<^verbatim>\<open>Distinct\<close> only affects projection
  queries, of which the code has none; \<^verbatim>\<open>KeysOnly\<close> queries use the keys of the rows.
\<close>

datatype dsFilter =
    NoFilter
  | CompletedEq bool
  | StartTimeBefore time
  | LastSeenBefore time
  | LastSeenAfter time
  | EndUserEq string

record query =
  q_kind :: string
  q_filter :: dsFilter
  q_limit :: "nat option"

fun matches :: "dsFilter \<Rightarrow> entity \<Rightarrow> bool" where
  "matches NoFilter e = True"
| "matches (CompletedEq b) (ERequest r) = (sr_Completed r = b)"
| "matches (StartTimeBefore t) (ERequest r) = (sr_StartTime r < micros t)"
| "matches (StartTimeBefore t) (EResponse r) = (sp_StartTime r < micros t)"
| "matches (StartTimeBefore t) (EBlobPart p) = (bp_StartTime p < micros t)"
| "matches (LastSeenBefore t) (EBackendTracker b) = (LastSeen b < micros t)"
| "matches (LastSeenAfter t) (EBackendTracker b) = (micros t < LastSeen b)"
| "matches (EndUserEq u) (EBackend b) = (be_EndUser b = u)"
| "matches _ _ = False"

definition selects :: "query \<Rightarrow> key \<Rightarrow> entity \<Rightarrow> bool" where
  "selects q k e \<longleftrightarrow> key_kind k = q_kind q \<and> matches (q_filter q) e"

section \<open>The Datastore service\<close>

record 'd datastore =
  ds_committed :: "'d \<Rightarrow> key \<Rightarrow> entity option"
  ds_Get :: "'d \<Rightarrow> key \<Rightarrow> error + entity"
  ds_GetMulti :: "'d \<Rightarrow> key list \<Rightarrow> error + entity list"
  ds_Put :: "'d \<Rightarrow> key \<Rightarrow> entity \<Rightarrow> error option \<times> 'd"
  ds_Delete :: "'d \<Rightarrow> key \<Rightarrow> error option \<times> 'd"
  ds_DeleteMulti :: "'d \<Rightarrow> key list \<Rightarrow> error option \<times> 'd"
  ds_GetAll :: "'d \<Rightarrow> query \<Rightarrow> error + (key \<times> entity) list"
  ds_RunInTransaction :: "('d \<Rightarrow> error option \<times> 'd) \<Rightarrow> 'd \<Rightarrow> error option \<times> 'd"

definition ds_get_law :: "'d datastore \<Rightarrow> bool" where
  "ds_get_law D \<longleftrightarrow>
     (\<forall>d k e. ds_Get D d k = Inr e \<longrightarrow> ds_committed D d k = Some e)
   \<and> (\<forall>d k. ds_Get D d k = Inl ErrNoSuchEntity \<longrightarrow> ds_committed D d k = None)
   \<and> (\<forall>d ks es. ds_GetMulti D d ks = Inr es \<longrightarrow> map (ds_committed D d) ks = map Some es)"

definition ds_query_law :: "'d datastore \<Rightarrow> bool" where
  "ds_query_law D \<longleftrightarrow>
     (\<forall>d q rows. ds_GetAll D d q = Inr rows \<longrightarrow>
        distinct (map fst rows)
        \<and> (\<forall>k e. (k, e) \<in> set rows \<longrightarrow> ds_committed D d k = Some e \<and> selects q k e)
        \<and> (\<forall>n. q_limit q = Some n \<longrightarrow> length rows \<le> n)
        \<and> ((\<forall>n. q_limit q = Some n \<longrightarrow> length rows < n) \<longrightarrow>
             (\<forall>k e. ds_committed D d k = Some e \<and> selects q k e \<longrightarrow> (k, e) \<in> set rows)))"

definition ds_put_law :: "'d datastore \<Rightarrow> bool" where
  "ds_put_law D \<longleftrightarrow>
     (\<forall>d k e err d'. ds_Put D d k e = (err, d') \<longrightarrow>
        ds_committed D d' = (ds_committed D d)(k \<mapsto> ds_norm e)
        \<or> err \<noteq> None \<and> ds_committed D d' = ds_committed D d)"

definition ds_delete_law :: "'d datastore \<Rightarrow> bool" where
  "ds_delete_law D \<longleftrightarrow>
     (\<forall>d k err d'. ds_Delete D d k = (err, d') \<longrightarrow>
        ds_committed D d' = (ds_committed D d)(k := None)
        \<or> err \<noteq> None \<and> ds_committed D d' = ds_committed D d
            \<and> (err = Some ErrNoSuchEntity \<longrightarrow> ds_committed D d k = None))
   \<and> (\<forall>d ks err d'. ds_DeleteMulti D d ks = (err, d') \<longrightarrow>
        (\<forall>k. ds_committed D d' k = ds_committed D d k
             \<or> k \<in> set ks \<and> ds_committed D d' k = None)
        \<and> (err = None \<longrightarrow> (\<forall>k \<in> set ks. ds_committed D d' k = None)))"

definition ds_transaction_law :: "'d datastore \<Rightarrow> bool" where
  "ds_transaction_law D \<longleftrightarrow>
     (\<forall>f d err d'. ds_RunInTransaction D f d = (err, d') \<longrightarrow>
        (\<exists>d0 d1. ds_committed D d0 = ds_committed D d \<and> f d0 = (None, d1)
                 \<and> ds_committed D d' = ds_committed D d1)
        \<or> err \<noteq> None \<and> ds_committed D d' = ds_committed D d)"

definition ds_laws :: "'d datastore \<Rightarrow> bool" where
  "ds_laws D \<longleftrightarrow> ds_get_law D \<and> ds_query_law D \<and> ds_put_law D \<and> ds_delete_law D
     \<and> ds_transaction_law D \<and> (\<forall>d. finite (dom (ds_committed D d)))"

text \<open>A Datastore state that answers every read: no transient failure.\<close>

definition ds_available :: "'d datastore \<Rightarrow> 'd \<Rightarrow> bool" where
  "ds_available D d \<longleftrightarrow>
     (\<forall>k e. ds_committed D d k = Some e \<longrightarrow> ds_Get D d k = Inr e)
   \<and> (\<forall>ks es. map (ds_committed D d) ks = map Some es \<longrightarrow> ds_GetMulti D d ks = Inr es)"

section \<open>The Memcache service\<close>

datatype cacheValue =
    GobRequest Request
  | GobResponse Response
  | RawBytes bytes

record 'm memcache =
  mc_items :: "'m \<Rightarrow> string \<Rightarrow> cacheValue option"
  mc_Get :: "'m \<Rightarrow> string \<Rightarrow> error + cacheValue"
  mc_Set :: "'m \<Rightarrow> string \<Rightarrow> cacheValue \<Rightarrow> error option \<times> 'm"

definition mc_laws :: "'m memcache \<Rightarrow> bool" where
  "mc_laws M \<longleftrightarrow>
     (\<forall>m k v. mc_Get M m k = Inr v \<longrightarrow> mc_items M m k = Some v)
   \<and> (\<forall>m k v err m' k' v'. mc_Set M m k v = (err, m') \<and> mc_items M m' k' = Some v' \<longrightarrow>
        k' = k \<and> v' = v \<or> mc_items M m k' = Some v' \<and> (k' \<noteq> k \<or> err \<noteq> None))"

section \<open>The context\<close>

text \<open>
  \<open>now\<close> is the clock read by \<^verbatim>\<open>time.Now\<close>, \<open>sched\<close> the order in which the
  goroutines of a wait group take effect, \<open>printable\<close> the Unicode table of
  \<^verbatim>\<open>strconv.IsPrint\<close>.
\<close>

record ('d, 'm) ctx =
  dsvc :: "'d datastore"
  ds :: 'd
  msvc :: "'m memcache"
  mc :: 'm
  now :: time
  sched :: "nat \<Rightarrow> nat list"
  printable :: "nat \<Rightarrow> bool"

definition services_ok :: "('d, 'm) ctx \<Rightarrow> bool" where
  "services_ok c \<longleftrightarrow> ds_laws (dsvc c) \<and> mc_laws (msvc c) \<and> is_schedule (sched c)"

definition committed :: "('d, 'm) ctx \<Rightarrow> key \<Rightarrow> entity option" where
  "committed c = ds_committed (dsvc c) (ds c)"

definition cached :: "('d, 'm) ctx \<Rightarrow> string \<Rightarrow> cacheValue option" where
  "cached c = mc_items (msvc c) (mc c)"

definition Put :: "('d, 'm) ctx \<Rightarrow> key \<Rightarrow> entity \<Rightarrow> error option \<times> ('d, 'm) ctx" where
  "Put c k e = (case ds_Put (dsvc c) (ds c) k e of (err, d') \<Rightarrow> (err, c\<lparr>ds := d'\<rparr>))"

definition DeleteMulti :: "('d, 'm) ctx \<Rightarrow> key list \<Rightarrow> error option \<times> ('d, 'm) ctx" where
  "DeleteMulti c ks = (case ds_DeleteMulti (dsvc c) (ds c) ks of (err, d') \<Rightarrow> (err, c\<lparr>ds := d'\<rparr>))"

definition Get :: "('d, 'm) ctx \<Rightarrow> key \<Rightarrow> error + entity" where
  "Get c k = ds_Get (dsvc c) (ds c) k"

definition GetMulti :: "('d, 'm) ctx \<Rightarrow> key list \<Rightarrow> error + entity list" where
  "GetMulti c ks = ds_GetMulti (dsvc c) (ds c) ks"

definition GetAll :: "('d, 'm) ctx \<Rightarrow> query \<Rightarrow> error + (key \<times> entity) list" where
  "GetAll c q = ds_GetAll (dsvc c) (ds c) q"

definition CacheSet :: "('d, 'm) ctx \<Rightarrow> string \<Rightarrow> cacheValue \<Rightarrow> error option \<times> ('d, 'm) ctx" where
  "CacheSet c k v = (case mc_Set (msvc c) (mc c) k v of (err, m') \<Rightarrow> (err, c\<lparr>mc := m'\<rparr>))"

definition CacheGet :: "('d, 'm) ctx \<Rightarrow> string \<Rightarrow> error + cacheValue" where
  "CacheGet c k = mc_Get (msvc c) (mc c) k"

text \<open>
  Two contexts that differ in the service states only. Every operation keeps the rest, so what it
  reads of the clock, the schedule and the laws is what its caller had.
\<close>

definition same_services :: "('d, 'm) ctx \<Rightarrow> ('d, 'm) ctx \<Rightarrow> bool" where
  "same_services c c' \<longleftrightarrow> dsvc c' = dsvc c \<and> msvc c' = msvc c \<and> now c' = now c
     \<and> sched c' = sched c \<and> printable c' = printable c"

section \<open>Frame and effect of the service calls\<close>

lemma same_services_refl [simp]: "same_services c c"
  by (simp add: same_services_def)

lemma same_services_trans [trans]:
  "same_services c c1 \<Longrightarrow> same_services c1 c2 \<Longrightarrow> same_services c c2"
  by (simp add: same_services_def)

lemma same_services_ds [simp]: "same_services c (c\<lparr>ds := d\<rparr>)" "same_services c (c\<lparr>mc := m\<rparr>)"
  by (simp_all add: same_services_def)

lemma services_ok_same: "same_services c c' \<Longrightarrow> services_ok c' = services_ok c"
  by (simp add: same_services_def services_ok_def)

lemma services_okD:
  assumes "services_ok c"
  shows "ds_get_law (dsvc c)" "ds_query_law (dsvc c)" "ds_put_law (dsvc c)"
    "ds_delete_law (dsvc c)" "ds_transaction_law (dsvc c)" "mc_laws (msvc c)"
    "is_schedule (sched c)" "finite (dom (committed c))"
  using assms by (simp_all add: services_ok_def ds_laws_def committed_def)

lemma Put_frame:
  assumes "Put c k e = (err, c')"
  shows "same_services c c'" and "cached c' = cached c"
  using assms by (auto simp: Put_def cached_def split: prod.splits)

lemma Put_effect:
  assumes "Put c k e = (err, c')" and "services_ok c"
  shows "committed c' = (committed c)(k \<mapsto> ds_norm e) \<or> err \<noteq> None \<and> committed c' = committed c"
proof -
  obtain d' where d: "ds_Put (dsvc c) (ds c) k e = (err, d')" "c' = c\<lparr>ds := d'\<rparr>"
    using assms(1) by (auto simp: Put_def split: prod.splits)
  have "ds_committed (dsvc c) d' = (ds_committed (dsvc c) (ds c))(k \<mapsto> ds_norm e)
      \<or> err \<noteq> None \<and> ds_committed (dsvc c) d' = ds_committed (dsvc c) (ds c)"
    using services_okD(3) [OF assms(2)] d(1) unfolding ds_put_law_def by blast
  then show ?thesis by (simp add: committed_def d(2))
qed

lemma Put_ok:
  assumes "Put c k e = (None, c')" and "services_ok c"
  shows "committed c' = (committed c)(k \<mapsto> ds_norm e)"
  using Put_effect [OF assms] by simp

lemma Put_other:
  assumes "Put c k e = (err, c')" and "services_ok c" and "k' \<noteq> k"
  shows "committed c' k' = committed c k'"
  using Put_effect [OF assms(1,2)] assms(3) by auto

lemma DeleteMulti_frame:
  assumes "DeleteMulti c ks = (err, c')"
  shows "same_services c c'" and "cached c' = cached c"
  using assms by (auto simp: DeleteMulti_def cached_def split: prod.splits)

lemma DeleteMulti_effect:
  assumes "DeleteMulti c ks = (err, c')" and "services_ok c"
  shows "committed c' k = committed c k \<or> k \<in> set ks \<and> committed c' k = None"
    and "err = None \<Longrightarrow> k \<in> set ks \<Longrightarrow> committed c' k = None"
proof -
  obtain d' where d: "ds_DeleteMulti (dsvc c) (ds c) ks = (err, d')" "c' = c\<lparr>ds := d'\<rparr>"
    using assms(1) by (auto simp: DeleteMulti_def split: prod.splits)
  have "(ds_committed (dsvc c) d' k = ds_committed (dsvc c) (ds c) k
        \<or> k \<in> set ks \<and> ds_committed (dsvc c) d' k = None)
      \<and> (err = None \<longrightarrow> k \<in> set ks \<longrightarrow> ds_committed (dsvc c) d' k = None)"
    using services_okD(4) [OF assms(2)] d(1) unfolding ds_delete_law_def by blast
  then show "committed c' k = committed c k \<or> k \<in> set ks \<and> committed c' k = None"
    and "err = None \<Longrightarrow> k \<in> set ks \<Longrightarrow> committed c' k = None"
    by (simp_all add: committed_def d(2))
qed

lemma Get_committed:
  assumes "services_ok c"
  shows "Get c k = Inr e \<Longrightarrow> committed c k = Some e"
    and "Get c k = Inl ErrNoSuchEntity \<Longrightarrow> committed c k = None"
  using services_okD(1) [OF assms] by (simp_all add: Get_def committed_def ds_get_law_def)

lemma GetMulti_committed:
  assumes "services_ok c" and "GetMulti c ks = Inr es"
  shows "map (committed c) ks = map Some es"
  using assms(2) services_okD(1) [OF assms(1)]
  by (simp add: GetMulti_def committed_def ds_get_law_def)

lemma GetAll_sound:
  assumes "services_ok c" and "GetAll c q = Inr rows"
  shows "distinct (map fst rows)"
    and "(k, e) \<in> set rows \<Longrightarrow> committed c k = Some e \<and> selects q k e"
    and "q_limit q = Some n \<Longrightarrow> length rows \<le> n"
  using assms(2) services_okD(2) [OF assms(1)]
  by (simp_all add: GetAll_def committed_def ds_query_law_def)

lemma GetAll_complete:
  assumes "services_ok c" and "GetAll c q = Inr rows"
    and "\<And>n. q_limit q = Some n \<Longrightarrow> length rows < n"
    and "committed c k = Some e" and "selects q k e"
  shows "(k, e) \<in> set rows"
  using services_okD(2) [OF assms(1)] assms(2-)
  unfolding GetAll_def committed_def ds_query_law_def by blast

lemma CacheSet_frame:
  assumes "CacheSet c k v = (err, c')"
  shows "same_services c c'" and "committed c' = committed c"
  using assms by (auto simp: CacheSet_def committed_def split: prod.splits)

lemma CacheSet_effect:
  assumes "CacheSet c k v = (err, c')" and "services_ok c" and "cached c' k' = Some v'"
  shows "k' = k \<and> v' = v \<or> cached c k' = Some v' \<and> (k' \<noteq> k \<or> err \<noteq> None)"
proof -
  obtain m' where "mc_Set (msvc c) (mc c) k v = (err, m')" "c' = c\<lparr>mc := m'\<rparr>"
    using assms(1) by (auto simp: CacheSet_def split: prod.splits)
  moreover from this have "mc_items (msvc c) m' k' = Some v'"
    using assms(3) by (simp add: cached_def)
  ultimately show ?thesis
    using services_okD(6) [OF assms(2)] unfolding mc_laws_def cached_def by blast
qed

lemma CacheGet_cached:
  assumes "services_ok c" and "CacheGet c k = Inr v"
  shows "cached c k = Some v"
  using assms by (simp add: services_ok_def mc_laws_def CacheGet_def cached_def)

section \<open>Concurrent writes to distinct keys\<close>

definition putAll ::
  "nat list \<Rightarrow> (key \<times> entity) list \<Rightarrow> ('d, 'm) ctx \<Rightarrow> error list \<times> ('d, 'm) ctx" where
  "putAll order kes c = run_goroutines order (map (\<lambda>(k, e) c. Put c k e) kes) c"

lemma putAll_Nil: "putAll [] kes c = ([], c)"
  by (simp add: putAll_def)

lemma putAll_Cons:
  "putAll (i # is) kes c =
     (if i < length kes then
        (case Put c (fst (kes ! i)) (snd (kes ! i)) of (e, c1) \<Rightarrow>
           (case putAll is kes c1 of (es, c2) \<Rightarrow> (case e of None \<Rightarrow> es | Some x \<Rightarrow> x # es, c2)))
      else putAll is kes c)"
  by (simp add: putAll_def split: prod.split)

lemma putAll_frame:
  assumes "putAll order kes c = (es, c')"
  shows "same_services c c'" and "cached c' = cached c"
proof -
  have "same_services c c' \<and> cached c' = cached c"
  proof (rule run_goroutines_invariant [OF assms [unfolded putAll_def]])
    fix i c1 e c2
    assume "i < length (map (\<lambda>(k, e) c. Put c k e) kes)" "same_services c c1 \<and> cached c1 = cached c"
      "(map (\<lambda>(k, e) c. Put c k e) kes ! i) c1 = (e, c2)"
    then show "same_services c c2 \<and> cached c2 = cached c"
      by (auto split: prod.splits dest: Put_frame elim: same_services_trans)
  qed simp
  then show "same_services c c'" and "cached c' = cached c" by auto
qed

lemma putAll_other:
  assumes "putAll order kes c = (es, c')" and "services_ok c" and "k \<notin> fst ` set kes"
  shows "committed c' k = committed c k"
  using assms(1,2)
proof (induction order arbitrary: c es)
  case (Cons i "order")
  show ?case
  proof (cases "i < length kes")
    case True
    then obtain e c1 es1 where p: "Put c (fst (kes ! i)) (snd (kes ! i)) = (e, c1)"
      and r: "putAll order kes c1 = (es1, c')"
      using Cons.prems(1) by (auto simp: putAll_Cons split: prod.splits)
    have "k \<noteq> fst (kes ! i)" using assms(3) True by force
    moreover have "services_ok c1"
      using Put_frame(1) [OF p] Cons.prems(2) by (simp add: services_ok_same)
    ultimately show ?thesis
      using Cons.IH [OF r] Put_other [OF p Cons.prems(2)] by simp
  qed (use Cons in \<open>simp add: putAll_Cons\<close>)
qed (simp add: putAll_Nil)

text \<open>A value already in place stays in place, whichever writes of the same batch follow.\<close>

lemma putAll_stable:
  assumes "putAll order kes c = (es, c')" and "services_ok c" and "distinct (map fst kes)"
    and "(k, e) \<in> set kes" and "committed c k = Some (ds_norm e)"
  shows "committed c' k = Some (ds_norm e)"
  using assms(1,2,5)
proof (induction order arbitrary: c es)
  case (Cons i "order")
  show ?case
  proof (cases "i < length kes")
    case True
    then obtain x c1 es1 where p: "Put c (fst (kes ! i)) (snd (kes ! i)) = (x, c1)"
      and r: "putAll order kes c1 = (es1, c')"
      using Cons.prems(1) by (auto simp: putAll_Cons split: prod.splits)
    have "fst (kes ! i) = k \<Longrightarrow> snd (kes ! i) = e"
      using True assms(3,4) by (metis eq_key_imp_eq_value nth_mem prod.collapse)
    then have "committed c1 k = Some (ds_norm e)"
      using Put_effect [OF p Cons.prems(2)] Cons.prems(3) by auto
    moreover have "services_ok c1"
      using Put_frame(1) [OF p] Cons.prems(2) by (simp add: services_ok_same)
    ultimately show ?thesis
      using Cons.IH [OF r] by simp
  qed (use Cons in \<open>simp add: putAll_Cons\<close>)
qed (simp add: putAll_Nil)

lemma putAll_ok_scheduled:
  assumes "putAll order kes c = ([], c')" and "services_ok c" and "distinct (map fst kes)"
    and "i \<in> set order" and "i < length kes"
  shows "committed c' (fst (kes ! i)) = Some (ds_norm (snd (kes ! i)))"
  using assms(1,2,4)
proof (induction order arbitrary: c)
  case (Cons j "order")
  show ?case
  proof (cases "j < length kes")
    case True
    then obtain c1 where p: "Put c (fst (kes ! j)) (snd (kes ! j)) = (None, c1)"
      and r: "putAll order kes c1 = ([], c')"
      using Cons.prems(1) by (auto simp: putAll_Cons split: prod.splits option.splits)
    have ok: "services_ok c1"
      using Put_frame(1) [OF p] Cons.prems(2) by (simp add: services_ok_same)
    show ?thesis
    proof (cases "i = j")
      case True
      then show ?thesis
        using putAll_stable [OF r ok assms(3), of "fst (kes ! i)" "snd (kes ! i)"]
          Put_ok [OF p Cons.prems(2)] assms(5) by simp
    next
      case False
      then show ?thesis using Cons.IH [OF r ok] Cons.prems(3) by simp
    qed
  next
    case False
    then show ?thesis
      using Cons assms(5) by (auto simp: putAll_Cons)
  qed
qed simp

lemma putAll_ok:
  assumes "putAll (sched c (length kes)) kes c = ([], c')" and "services_ok c"
    and "distinct (map fst kes)" and "(k, e) \<in> set kes"
  shows "committed c' k = Some (ds_norm e)"
proof -
  obtain i where i: "i < length kes" "kes ! i = (k, e)"
    using assms(4) by (auto simp: in_set_conv_nth)
  moreover have "i \<in> set (sched c (length kes))"
    using assms(2) i by (simp add: services_ok_def is_schedule_def)
  ultimately show ?thesis
    using putAll_ok_scheduled [OF assms(1-3)] by fastforce
qed

section \<open>In-memory services\<close>

text \<open>
  Services kept in association lists, always available, that satisfy the laws. They show the laws
  can hold and are the parameters of the concrete runs.
\<close>

type_synonym memDs = "(key \<times> entity) list"

type_synonym memMc = "(string \<times> cacheValue) list"

fun memGetMulti :: "memDs \<Rightarrow> key list \<Rightarrow> error + entity list" where
  "memGetMulti d [] = Inr []"
| "memGetMulti d (k # ks) =
     (case map_of d k of
        None \<Rightarrow> Inl ErrNoSuchEntity
      | Some e \<Rightarrow> (case memGetMulti d ks of Inl err \<Rightarrow> Inl err | Inr es \<Rightarrow> Inr (e # es)))"

definition memGetAll :: "memDs \<Rightarrow> query \<Rightarrow> (key \<times> entity) list" where
  "memGetAll d q =
     (let rows = filter (\<lambda>(k, e). selects q k e) (AList.clearjunk d)
      in case q_limit q of None \<Rightarrow> rows | Some n \<Rightarrow> take n rows)"

definition memDatastore :: "memDs datastore" where
  "memDatastore =
     \<lparr>ds_committed = map_of,
      ds_Get = (\<lambda>d k. case map_of d k of None \<Rightarrow> Inl ErrNoSuchEntity | Some e \<Rightarrow> Inr e),
      ds_GetMulti = memGetMulti,
      ds_Put = (\<lambda>d k e. (None, AList.update k (ds_norm e) d)),
      ds_Delete = (\<lambda>d k. (None, AList.delete k d)),
      ds_DeleteMulti = (\<lambda>d ks. (None, fold AList.delete ks d)),
      ds_GetAll = (\<lambda>d q. Inr (memGetAll d q)),
      ds_RunInTransaction =
        (\<lambda>f d. case f d of (None, d') \<Rightarrow> (None, d') | (Some err, _) \<Rightarrow> (Some err, d))\<rparr>"

definition memCache :: "memMc memcache" where
  "memCache =
     \<lparr>mc_items = map_of,
      mc_Get = (\<lambda>m k. case map_of m k of None \<Rightarrow> Inl (ErrService ''miss'') | Some v \<Rightarrow> Inr v),
      mc_Set = (\<lambda>m k v. (None, AList.update k v m))\<rparr>"

definition memCtx :: "memDs \<Rightarrow> memMc \<Rightarrow> time \<Rightarrow> (memDs, memMc) ctx" where
  "memCtx d m t =
     \<lparr>dsvc = memDatastore, ds = d, msvc = memCache, mc = m, now = t,
      sched = (\<lambda>n. [0..<n]), printable = (\<lambda>_. True)\<rparr>"

lemma memGetMulti_Inr: "memGetMulti d ks = Inr es \<longleftrightarrow> map (map_of d) ks = map Some es"
proof (induction ks arbitrary: es)
  case (Cons k ks)
  show ?case
    by (cases es) (auto split: option.splits sum.splits simp: Cons.IH [symmetric])
qed auto

lemma set_memGetAll:
  "(k, e) \<in> set (memGetAll d q) \<Longrightarrow> map_of d k = Some e \<and> selects q k e"
proof -
  assume "(k, e) \<in> set (memGetAll d q)"
  then have "(k, e) \<in> set (AList.clearjunk d) \<and> selects q k e"
    by (auto simp: memGetAll_def Let_def split: option.splits dest: in_set_takeD)
  then show ?thesis
    by (metis distinct_clearjunk map_of_clearjunk map_of_is_SomeI)
qed

lemma memGetAll_complete:
  assumes "map_of d k = Some e" "selects q k e" "\<And>n. q_limit q = Some n \<Longrightarrow> length (memGetAll d q) < n"
  shows "(k, e) \<in> set (memGetAll d q)"
proof -
  have "(k, e) \<in> set (AList.clearjunk d)"
    using assms(1) by (metis map_of_SomeD map_of_clearjunk)
  with assms(2) have "(k, e) \<in> set (filter (\<lambda>(k, e). selects q k e) (AList.clearjunk d))"
    by simp
  with assms(3) show ?thesis
    by (fastforce simp: memGetAll_def Let_def min_def split: option.splits if_splits)
qed

lemma distinct_memGetAll: "distinct (map fst (memGetAll d q))"
  by (auto simp: memGetAll_def Let_def take_map [symmetric] distinct_map_filter split: option.splits
      intro!: distinct_take)

lemma length_memGetAll: "q_limit q = Some n \<Longrightarrow> length (memGetAll d q) \<le> n"
  by (simp add: memGetAll_def Let_def)

lemma map_of_fold_delete: "map_of (fold AList.delete ks d) k = (if k \<in> set ks then None else map_of d k)"
  by (induction ks arbitrary: d) (auto simp: delete_conv')

lemma memDatastore_laws: "ds_laws memDatastore"
  unfolding ds_laws_def
proof (intro conjI)
  show "ds_get_law memDatastore"
    by (auto simp: ds_get_law_def memDatastore_def memGetMulti_Inr split: option.splits)
  show "ds_query_law memDatastore"
    unfolding ds_query_law_def
  proof (intro allI impI conjI)
    fix d q rows assume "ds_GetAll memDatastore d q = Inr rows"
    then have rows: "rows = memGetAll d q" by (simp add: memDatastore_def)
    show "distinct (map fst rows)" by (simp add: rows distinct_memGetAll)
    show "ds_committed memDatastore d k = Some e" "selects q k e" if "(k, e) \<in> set rows" for k e
      using set_memGetAll that by (auto simp: rows memDatastore_def)
    show "length rows \<le> n" if "q_limit q = Some n" for n
      using length_memGetAll that by (simp add: rows)
    show "(k, e) \<in> set rows"
      if "\<forall>n. q_limit q = Some n \<longrightarrow> length rows < n"
        "ds_committed memDatastore d k = Some e \<and> selects q k e" for k e
      using that memGetAll_complete [of d k e q] by (simp add: rows memDatastore_def)
  qed
  show "ds_put_law memDatastore"
    by (simp add: ds_put_law_def memDatastore_def update_conv')
  show "ds_delete_law memDatastore"
    by (simp add: ds_delete_law_def memDatastore_def delete_conv' map_of_fold_delete)
  show "ds_transaction_law memDatastore"
    by (auto simp: ds_transaction_law_def memDatastore_def split: prod.splits option.splits)
  show "\<forall>d. finite (dom (ds_committed memDatastore d))"
    by (simp add: memDatastore_def finite_dom_map_of)
qed

lemma memCache_laws: "mc_laws memCache"
  by (auto simp: mc_laws_def memCache_def update_conv' split: option.splits if_splits)

lemma memCtx_ok [simp]: "services_ok (memCtx d m t)"
  by (simp add: services_ok_def memCtx_def memDatastore_laws memCache_laws is_schedule_upt)

end
