(* ===== verification/App_Store.thy ===== *)
theory App_Store
  imports App_Services
begin

text \<open>
  The persistent store of the App Engine proxy, \<^verbatim>\<open>app/store/store.go\<close>, on the Datastore
  service of the context. The definitions follow the file: blobs split over several entities,
  stored requests and responses, the \<^verbatim>\<open>persistentStore\<close> methods in the order of the
  \<^verbatim>\<open>Store\<close> interface, backend tracking and lookup, deletion of old records. The goroutines
  of a wait group run in the order \<open>sched\<close> gives; the deletion loop is a
  \<^theory_text>\<open>partial_function (option)\<close>, so not returning would be \<open>None\<close>.
\<close>

section \<open>Constants\<close>

definition backendTimeout :: duration where
  "backendTimeout = 5 * Minute"

definition sharedBackendUser :: string where
  "sharedBackendUser = ''allUsers''"

definition fieldByteLimit :: nat where
  "fieldByteLimit = 1000000"

definition multiOpSizeLimit :: nat where
  "multiOpSizeLimit = 500"

definition backendKind :: string where
  "backendKind = ''backend''"

definition backendTrackerKind :: string where
  "backendTrackerKind = ''backendTracker''"

definition activityTrackerKind :: string where
  "activityTrackerKind = ''activityTracker''"

definition blobPartsKind :: string where
  "blobPartsKind = ''blobParts''"

definition requestKindPrefix :: string where
  "requestKindPrefix = ''req:''"

definition responseKind :: string where
  "responseKind = ''response''"

lemmas kind_defs =
  backendKind_def backendTrackerKind_def activityTrackerKind_def blobPartsKind_def
  requestKindPrefix_def responseKind_def

section \<open>Loading entities into structs\<close>

fun asBlobPart :: "entity \<Rightarrow> blobPart option" where
  "asBlobPart (EBlobPart p) = Some p"
| "asBlobPart _ = None"

fun asRequest :: "entity \<Rightarrow> storedRequest option" where
  "asRequest (ERequest r) = Some r"
| "asRequest _ = None"

fun asResponse :: "entity \<Rightarrow> storedResponse option" where
  "asResponse (EResponse r) = Some r"
| "asResponse _ = None"

fun asBackend :: "entity \<Rightarrow> Backend option" where
  "asBackend (EBackend b) = Some b"
| "asBackend _ = None"

fun loadAll :: "(entity \<Rightarrow> 'a option) \<Rightarrow> entity list \<Rightarrow> error + 'a list" where
  "loadAll f [] = Inr []"
| "loadAll f (e # es) =
     (case f e of
        None \<Rightarrow> Inl ErrFieldMismatch
      | Some x \<Rightarrow> (case loadAll f es of Inl err \<Rightarrow> Inl err | Inr xs \<Rightarrow> Inr (x # xs)))"

definition GetAllAs ::
  "('d, 'm) ctx \<Rightarrow> (entity \<Rightarrow> 'a option) \<Rightarrow> query \<Rightarrow> error + 'a list" where
  "GetAllAs c f q =
     (case GetAll c q of Inl err \<Rightarrow> Inl err | Inr rows \<Rightarrow> loadAll f (map snd rows))"

definition GetKeys :: "('d, 'm) ctx \<Rightarrow> query \<Rightarrow> error + key list" where
  "GetKeys c q = (case GetAll c q of Inl err \<Rightarrow> Inl err | Inr rows \<Rightarrow> Inr (map fst rows))"

section \<open>Blobs\<close>

definition partCount :: "bytes \<Rightarrow> nat" where
  "partCount bs = length bs div fieldByteLimit + 1"

definition blobPartAt :: "bytes \<Rightarrow> string \<Rightarrow> time \<Rightarrow> nat \<Rightarrow> blobPart" where
  "blobPartAt bs blobName t i =
     (let partStart = i * fieldByteLimit;
          partEnd = min ((i + 1) * fieldByteLimit) (length bs)
      in \<lparr>bp_ID = blobName @ ''.part'' @ Itoa i, bp_Bytes = slice partStart partEnd bs,
          bp_StartTime = t\<rparr>)"

definition writeBlobParts ::
  "('d, 'm) ctx \<Rightarrow> bytes \<Rightarrow> string \<Rightarrow> time \<Rightarrow> (error + string list) \<times> ('d, 'm) ctx" where
  "writeBlobParts c bs blobName t =
     (let parts = map (blobPartAt bs blobName t) [0..<partCount bs];
          entities = map (\<lambda>p. (Key blobPartsKind (bp_ID p), EBlobPart p)) parts
      in case putAll (sched c (length entities)) entities c of
           (errs, c') \<Rightarrow> (case errs of [] \<Rightarrow> Inr (map bp_ID parts) | err # _ \<Rightarrow> Inl err, c'))"

definition newBlob ::
  "('d, 'm) ctx \<Rightarrow> bytes \<Rightarrow> string \<Rightarrow> time \<Rightarrow> (error + blob) \<times> ('d, 'm) ctx" where
  "newBlob c bs blobName t =
     (if length bs < fieldByteLimit then (Inr \<lparr>Inlined = bs, Parts = []\<rparr>, c)
      else (case writeBlobParts c (drop fieldByteLimit bs) blobName t of
              (Inl err, c') \<Rightarrow> (Inl err, c')
            | (Inr blobPartNames, c') \<Rightarrow>
                (Inr \<lparr>Inlined = take fieldByteLimit bs, Parts = blobPartNames\<rparr>, c')))"

definition blob_read :: "('d, 'm) ctx \<Rightarrow> blob \<Rightarrow> error + bytes" where
  "blob_read c bp =
     (if Parts bp = [] then Inr (Inlined bp)
      else (case GetMulti c (map (Key blobPartsKind) (Parts bp)) of
              Inl err \<Rightarrow> Inl err
            | Inr es \<Rightarrow>
                (case loadAll asBlobPart es of
                   Inl err \<Rightarrow> Inl err
                 | Inr parts \<Rightarrow> Inr (Inlined bp @ concat (map bp_Bytes parts)))))"

section \<open>Stored requests\<close>

definition requestKind :: "(nat \<Rightarrow> bool) \<Rightarrow> string \<Rightarrow> string" where
  "requestKind P backendID = requestKindPrefix @ Quote P backendID"

definition requestKey :: "(nat \<Rightarrow> bool) \<Rightarrow> string \<Rightarrow> string \<Rightarrow> key" where
  "requestKey P backendID requestID = Key (requestKind P backendID) requestID"

definition newStoredRequest ::
  "('d, 'm) ctx \<Rightarrow> Request \<Rightarrow> (error + storedRequest) \<times> ('d, 'm) ctx" where
  "newStoredRequest c r =
     (case newBlob c (req_Contents r) (req_RequestID r @ ''.request'') (req_StartTime r) of
        (Inl err, c1) \<Rightarrow> (Inl err, c1)
      | (Inr requestBlob, c1) \<Rightarrow>
          (let sr = \<lparr>sr_BackendID = req_BackendID r, sr_RequestID = req_RequestID r,
                     sr_User = req_User r, sr_StartTime = req_StartTime r,
                     sr_Completed = req_Completed r, sr_RequestBytes = requestBlob\<rparr>
           in case Put c1 (requestKey (printable c1) (sr_BackendID sr) (sr_RequestID sr))
                     (ERequest sr) of
                (Some err, c2) \<Rightarrow> (Inl err, c2)
              | (None, c2) \<Rightarrow> (Inr sr, c2)))"

definition readStoredRequest ::
  "('d, 'm) ctx \<Rightarrow> string \<Rightarrow> string \<Rightarrow> error + storedRequest" where
  "readStoredRequest c backendID requestID =
     (case Get c (requestKey (printable c) backendID requestID) of
        Inl err \<Rightarrow> Inl err
      | Inr e \<Rightarrow> (case asRequest e of None \<Rightarrow> Inl ErrFieldMismatch | Some r \<Rightarrow> Inr r))"

definition toRequest :: "('d, 'm) ctx \<Rightarrow> storedRequest \<Rightarrow> error + Request" where
  "toRequest c r =
     (case blob_read c (sr_RequestBytes r) of
        Inl err \<Rightarrow> Inl err
      | Inr requestBytes \<Rightarrow>
          Inr \<lparr>req_BackendID = sr_BackendID r, req_RequestID = sr_RequestID r,
               req_User = sr_User r, req_Contents = requestBytes,
               req_StartTime = sr_StartTime r, req_Completed = sr_Completed r\<rparr>)"

section \<open>Stored responses\<close>

definition responseKey :: "string \<Rightarrow> key" where
  "responseKey requestID = Key responseKind requestID"

definition newStoredResponse ::
  "('d, 'm) ctx \<Rightarrow> Response \<Rightarrow> (error + storedResponse) \<times> ('d, 'm) ctx" where
  "newStoredResponse c r =
     (let latency = now c - resp_StartTime r in
      case newBlob c (resp_Contents r) (resp_RequestID r @ ''.response'') (resp_StartTime r) of
        (Inl err, c1) \<Rightarrow> (Inl err, c1)
      | (Inr responseBlob, c1) \<Rightarrow>
          (let sr = \<lparr>sp_BackendID = resp_BackendID r, sp_RequestID = resp_RequestID r,
                     sp_ResponseBytes = responseBlob, sp_StartTime = 0, sp_Latency = latency,
                     sp_ResponseSize = length (resp_Contents r)\<rparr>
           in case Put c1 (responseKey (sp_RequestID sr)) (EResponse sr) of
                (Some err, c2) \<Rightarrow> (Inl err, c2)
              | (None, c2) \<Rightarrow> (Inr sr, c2)))"

definition readStoredResponse ::
  "('d, 'm) ctx \<Rightarrow> string \<Rightarrow> string \<Rightarrow> error + storedResponse" where
  "readStoredResponse c backendID requestID =
     (case Get c (responseKey requestID) of
        Inl err \<Rightarrow> Inl err
      | Inr e \<Rightarrow> (case asResponse e of None \<Rightarrow> Inl ErrFieldMismatch | Some r \<Rightarrow> Inr r))"

definition toResponse :: "('d, 'm) ctx \<Rightarrow> storedResponse \<Rightarrow> error + Response" where
  "toResponse c r =
     (case blob_read c (sp_ResponseBytes r) of
        Inl err \<Rightarrow> Inl err
      | Inr responseBytes \<Rightarrow>
          Inr \<lparr>resp_BackendID = sp_BackendID r, resp_RequestID = sp_RequestID r,
               resp_Contents = responseBytes, resp_StartTime = 0\<rparr>)"

section \<open>Backend tracking\<close>

definition backendKey :: "string \<Rightarrow> key" where
  "backendKey backendID = Key backendKind backendID"

definition trackerKey :: "string \<Rightarrow> key" where
  "trackerKey backendID = Key backendTrackerKind backendID"

definition activityKey :: "string \<Rightarrow> key" where
  "activityKey backendID = Key activityTrackerKind backendID"

definition registerBackendAsSeen ::
  "('d, 'm) ctx \<Rightarrow> string \<Rightarrow> error option \<times> ('d, 'm) ctx" where
  "registerBackendAsSeen c backendID =
     Put c (trackerKey backendID) (EBackendTracker \<lparr>LastSeen = now c\<rparr>)"

definition registerBackendAsActive ::
  "('d, 'm) ctx \<Rightarrow> string \<Rightarrow> error option \<times> ('d, 'm) ctx" where
  "registerBackendAsActive c backendID =
     Put c (activityKey backendID) (EActivityTracker \<lparr>LastActive = now c\<rparr>)"

definition backendLastSeen :: "('d, 'm) ctx \<Rightarrow> string \<Rightarrow> time option" where
  "backendLastSeen c backendID =
     (case Get c (trackerKey backendID) of
        Inr (EBackendTracker t) \<Rightarrow> Some (LastSeen t)
      | _ \<Rightarrow> None)"

definition backendLastActive :: "('d, 'm) ctx \<Rightarrow> string \<Rightarrow> time" where
  "backendLastActive c backendID =
     (case Get c (activityKey backendID) of
        Inr (EActivityTracker t) \<Rightarrow> LastActive t
      | _ \<Rightarrow> unixEpoch)"

definition hasBackend :: "('d, 'm) ctx \<Rightarrow> string \<Rightarrow> duration \<Rightarrow> bool" where
  "hasBackend c backendID lastSeenTimeout =
     (case backendLastSeen c backendID of
        None \<Rightarrow> False
      | Some lastUsed \<Rightarrow> now c - lastUsed < lastSeenTimeout)"

section \<open>Methods on requests and responses\<close>

definition persistentStore_WriteRequest ::
  "('d, 'm) ctx \<Rightarrow> Request \<Rightarrow> error option \<times> ('d, 'm) ctx" where
  "persistentStore_WriteRequest c r =
     (case newStoredRequest c r of (Inl err, c') \<Rightarrow> (Some err, c') | (Inr _, c') \<Rightarrow> (None, c'))"

definition persistentStore_ReadRequest ::
  "('d, 'm) ctx \<Rightarrow> string \<Rightarrow> string \<Rightarrow> error + Request" where
  "persistentStore_ReadRequest c backendID requestID =
     (case readStoredRequest c backendID requestID of
        Inl err \<Rightarrow> Inl err
      | Inr sr \<Rightarrow> toRequest c sr)"

definition pendingQuery :: "(nat \<Rightarrow> bool) \<Rightarrow> string \<Rightarrow> query" where
  "pendingQuery P backendID =
     \<lparr>q_kind = requestKind P backendID, q_filter = CompletedEq False, q_limit = Some 100\<rparr>"

definition persistentStore_ListPendingRequests ::
  "('d, 'm) ctx \<Rightarrow> string \<Rightarrow> (error + string list) \<times> ('d, 'm) ctx" where
  "persistentStore_ListPendingRequests c backendID =
     (case go2 (sched c 2)
             (\<lambda>c. registerBackendAsSeen c backendID)
             (\<lambda>c. (GetAllAs c asRequest (pendingQuery (printable c) backendID), c)) c of
        (_, Inl readErr, c') \<Rightarrow>
          (Inl (ErrMsg (''Failed to query the pending requests: ''
                        @ Quote (printable c) (errorText readErr))), c')
      | (_, Inr storedRequests, c') \<Rightarrow> (Inr (map sr_RequestID storedRequests), c'))"

definition persistentStore_WriteResponse ::
  "('d, 'm) ctx \<Rightarrow> Response \<Rightarrow> error option \<times> ('d, 'm) ctx" where
  "persistentStore_WriteResponse c r =
     (case go2 (sched c 2)
             (\<lambda>c. registerBackendAsActive c (resp_BackendID r))
             (\<lambda>c. newStoredResponse c r) c of
        (_, Inl err, c') \<Rightarrow> (Some err, c')
      | (_, Inr _, c') \<Rightarrow> (None, c'))"

definition persistentStore_ReadResponse ::
  "('d, 'm) ctx \<Rightarrow> string \<Rightarrow> string \<Rightarrow> error + Response" where
  "persistentStore_ReadResponse c backendID requestID =
     (case readStoredResponse c backendID requestID of
        Inl err \<Rightarrow> Inl err
      | Inr sr \<Rightarrow> toResponse c sr)"

section \<open>Deletion\<close>

text \<open>\<^verbatim>\<open>for len(keys) > 0\<close>: delete a batch, query the next one.\<close>

partial_function (option) deleteLoop ::
  "('d, 'm) ctx \<Rightarrow> query \<Rightarrow> key list \<Rightarrow> (error option \<times> ('d, 'm) ctx) option" where
  "deleteLoop c requestsQuery keys =
     (if keys = [] then Some (None, c)
      else (case DeleteMulti c keys of
              (Some err, c1) \<Rightarrow> Some (Some err, c1)
            | (None, c1) \<Rightarrow>
                (case GetKeys c1 requestsQuery of
                   Inl err \<Rightarrow> Some (Some err, c1)
                 | Inr keys' \<Rightarrow> deleteLoop c1 requestsQuery keys')))"

definition oldRequestsQuery :: "(nat \<Rightarrow> bool) \<Rightarrow> string \<Rightarrow> time \<Rightarrow> query" where
  "oldRequestsQuery P backend cutoff =
     \<lparr>q_kind = requestKind P backend, q_filter = StartTimeBefore cutoff,
      q_limit = Some multiOpSizeLimit\<rparr>"

definition deleteRequestsForBackend ::
  "('d, 'm) ctx \<Rightarrow> string \<Rightarrow> time \<Rightarrow> (error option \<times> ('d, 'm) ctx) option" where
  "deleteRequestsForBackend c backend cutoff =
     (let requestsQuery = oldRequestsQuery (printable c) backend cutoff in
      case GetKeys c requestsQuery of
        Inl err \<Rightarrow> Some (Some err, c)
      | Inr keys \<Rightarrow> deleteLoop c requestsQuery keys)"

definition listOldBackends :: "('d, 'm) ctx \<Rightarrow> error + string list" where
  "listOldBackends c =
     (let oneHourAgo = now c - 1 * Hour in
      case GetKeys c \<lparr>q_kind = backendTrackerKind, q_filter = LastSeenBefore oneHourAgo,
                      q_limit = Some multiOpSizeLimit\<rparr> of
        Inl err \<Rightarrow> Inl err
      | Inr backends \<Rightarrow> Inr (map key_name backends))"

definition listRecentBackends :: "('d, 'm) ctx \<Rightarrow> error + string list" where
  "listRecentBackends c =
     (let oneHourAgo = now c - 1 * Hour in
      case GetKeys c \<lparr>q_kind = backendTrackerKind, q_filter = LastSeenAfter oneHourAgo,
                      q_limit = None\<rparr> of
        Inl err \<Rightarrow> Inl err
      | Inr backends \<Rightarrow> Inr (map key_name backends))"

definition deleteBackendTransaction ::
  "'d datastore \<Rightarrow> string \<Rightarrow> 'd \<Rightarrow> error option \<times> 'd" where
  "deleteBackendTransaction D backendID d =
     (case ds_Delete D d (backendKey backendID) of
        (err, d1) \<Rightarrow>
          if err \<noteq> None \<and> err \<noteq> Some ErrNoSuchEntity then (err, d1)
          else (case ds_Delete D d1 (trackerKey backendID) of
                  (err', d2) \<Rightarrow>
                    if err' \<noteq> None \<and> err' \<noteq> Some ErrNoSuchEntity then (err', d2)
                    else (None, d2)))"

definition persistentStore_DeleteBackend ::
  "('d, 'm) ctx \<Rightarrow> string \<Rightarrow> (error option \<times> ('d, 'm) ctx) option" where
  "persistentStore_DeleteBackend c backendID =
     (case ds_RunInTransaction (dsvc c) (deleteBackendTransaction (dsvc c) backendID) (ds c) of
        (Some err, d') \<Rightarrow> Some (Some err, c\<lparr>ds := d'\<rparr>)
      | (None, d') \<Rightarrow> deleteRequestsForBackend (c\<lparr>ds := d'\<rparr>) backendID (now c))"

fun deleteBackends ::
  "('d, 'm) ctx \<Rightarrow> string list \<Rightarrow> (error option \<times> ('d, 'm) ctx) option" where
  "deleteBackends c [] = Some (None, c)"
| "deleteBackends c (b # bs) =
     (case persistentStore_DeleteBackend c b of
        None \<Rightarrow> None
      | Some (Some err, c1) \<Rightarrow> Some (Some err, c1)
      | Some (None, c1) \<Rightarrow> deleteBackends c1 bs)"

definition persistentStore_DeleteOldBackends ::
  "('d, 'm) ctx \<Rightarrow> (error option \<times> ('d, 'm) ctx) option" where
  "persistentStore_DeleteOldBackends c =
     (case listOldBackends c of
        Inl err \<Rightarrow> Some (Some err, c)
      | Inr bs \<Rightarrow> deleteBackends c bs)"

fun deleteRequestsForBackends ::
  "('d, 'm) ctx \<Rightarrow> string list \<Rightarrow> time \<Rightarrow> (error option \<times> ('d, 'm) ctx) option" where
  "deleteRequestsForBackends c [] cutoff = Some (None, c)"
| "deleteRequestsForBackends c (b # bs) cutoff =
     (case deleteRequestsForBackend c b cutoff of
        None \<Rightarrow> None
      | Some (Some err, c1) \<Rightarrow> Some (Some err, c1)
      | Some (None, c1) \<Rightarrow> deleteRequestsForBackends c1 bs cutoff)"

definition deleteOldOfKind ::
  "('d, 'm) ctx \<Rightarrow> string \<Rightarrow> time \<Rightarrow> error option \<times> ('d, 'm) ctx" where
  "deleteOldOfKind c kind cutoff =
     (case GetKeys c \<lparr>q_kind = kind, q_filter = StartTimeBefore cutoff,
                      q_limit = Some multiOpSizeLimit\<rparr> of
        Inl err \<Rightarrow> (Some err, c)
      | Inr keys \<Rightarrow> DeleteMulti c keys)"

definition persistentStore_DeleteOldRequests ::
  "('d, 'm) ctx \<Rightarrow> (error option \<times> ('d, 'm) ctx) option" where
  "persistentStore_DeleteOldRequests c =
     (let twoMinutesAgo = now c - 2 * Minute in
      case listRecentBackends c of
        Inl err \<Rightarrow> Some (Some err, c)
      | Inr backends \<Rightarrow>
          (case deleteRequestsForBackends c backends twoMinutesAgo of
             None \<Rightarrow> None
           | Some (Some err, c1) \<Rightarrow> Some (Some err, c1)
           | Some (None, c1) \<Rightarrow>
               (case deleteOldOfKind c1 responseKind twoMinutesAgo of
                  (Some err, c2) \<Rightarrow> Some (Some err, c2)
                | (None, c2) \<Rightarrow> Some (deleteOldOfKind c2 blobPartsKind twoMinutesAgo))))"

section \<open>Backends\<close>

definition persistentStore_AddBackend ::
  "('d, 'm) ctx \<Rightarrow> Backend \<Rightarrow> error option \<times> ('d, 'm) ctx" where
  "persistentStore_AddBackend c backend0 =
     (let backend = backend0\<lparr>be_LastUsed := []\<rparr>;
          backendID = be_BackendID backend
      in case Put c (trackerKey backendID)
                (EBackendTracker \<lparr>LastSeen = now c - backendTimeout\<rparr>) of
           (Some err, c1) \<Rightarrow> (Some err, c1)
         | (None, c1) \<Rightarrow> Put c1 (backendKey backendID) (EBackend backend))"

definition persistentStore_ListBackends :: "('d, 'm) ctx \<Rightarrow> error + Backend list" where
  "persistentStore_ListBackends c =
     (case GetAllAs c asBackend \<lparr>q_kind = backendKind, q_filter = NoFilter, q_limit = None\<rparr> of
        Inl err \<Rightarrow>
          Inl (ErrMsg (''Failed to query the backends: '' @ Quote (printable c) (errorText err)))
      | Inr backends \<Rightarrow>
          Inr (map (\<lambda>b. b\<lparr>be_LastUsed := formatRFC3339 (backendLastActive c (be_BackendID b))\<rparr>)
                 backends))"

text \<open>The two nested loops over the backends and their path prefixes.\<close>

fun scanPrefixes :: "string \<Rightarrow> string \<Rightarrow> string list \<Rightarrow> string \<times> string \<Rightarrow> string \<times> string" where
  "scanPrefixes path backendID [] st = st"
| "scanPrefixes path backendID (p # ps) (closestMatch, longestMatchingPath) =
     scanPrefixes path backendID ps
       (if prefix p path \<and> (closestMatch = [] \<or> length longestMatchingPath < length p)
        then (backendID, p) else (closestMatch, longestMatchingPath))"

fun scanBackends :: "string \<Rightarrow> Backend list \<Rightarrow> string \<times> string \<Rightarrow> string \<times> string" where
  "scanBackends path [] st = st"
| "scanBackends path (b # bs) st =
     scanBackends path bs (scanPrefixes path (be_BackendID b) (be_PathPrefixes b) st)"

definition mostSpecificMatchingBackend ::
  "(nat \<Rightarrow> bool) \<Rightarrow> string \<Rightarrow> Backend list \<Rightarrow> error + string" where
  "mostSpecificMatchingBackend P path backends =
     (case scanBackends path backends ([], []) of
        (closestMatch, _) \<Rightarrow>
          if closestMatch = [] then Inl (ErrMsg (''Found no matching backends for '' @ Quote P path))
          else Inr closestMatch)"

definition queryBackendsFor :: "('d, 'm) ctx \<Rightarrow> string \<Rightarrow> error + Backend list" where
  "queryBackendsFor c endUser =
     GetAllAs c asBackend \<lparr>q_kind = backendKind, q_filter = EndUserEq endUser, q_limit = None\<rparr>"

definition lookupSharedBackend :: "('d, 'm) ctx \<Rightarrow> string \<Rightarrow> error + string" where
  "lookupSharedBackend c path =
     (case queryBackendsFor c sharedBackendUser of
        Inl err \<Rightarrow>
          Inl (ErrMsg (''Failed to query the backends: '' @ Quote (printable c) (errorText err)))
      | Inr backends \<Rightarrow>
          (case mostSpecificMatchingBackend (printable c) path backends of
             Inl err \<Rightarrow> Inl err
           | Inr backendID \<Rightarrow>
               if hasBackend c backendID backendTimeout then Inr backendID
               else Inl (ErrMsg (''No backend for '' @ Quote (printable c) path))))"

definition persistentStore_LookupBackend ::
  "('d, 'm) ctx \<Rightarrow> string \<Rightarrow> string \<Rightarrow> error + string" where
  "persistentStore_LookupBackend c endUser path =
     (case queryBackendsFor c endUser of
        Inl err \<Rightarrow>
          Inl (ErrMsg (''Failed to query the backends: '' @ Quote (printable c) (errorText err)))
      | Inr backends \<Rightarrow>
          (case mostSpecificMatchingBackend (printable c) path backends of
             Inl _ \<Rightarrow> lookupSharedBackend c path
           | Inr backendID \<Rightarrow>
               if hasBackend c backendID backendTimeout then Inr backendID
               else Inl (ErrMsg (''No backend for '' @ Quote (printable c) endUser))))"

definition persistentStore_IsBackendUserAllowed ::
  "('d, 'm) ctx \<Rightarrow> string \<Rightarrow> string \<Rightarrow> error + bool" where
  "persistentStore_IsBackendUserAllowed c backendUser backendID =
     (case Get c (backendKey backendID) of
        Inl err \<Rightarrow> if err = ErrNoSuchEntity then Inr False else Inl err
      | Inr e \<Rightarrow>
          (case asBackend e of
             None \<Rightarrow> Inl ErrFieldMismatch
           | Some b \<Rightarrow> Inr (be_BackendUser b = backendUser)))"

definition NewPersistentStore :: "('d, 'm) ctx Store" where
  "NewPersistentStore =
     \<lparr>WriteRequest = persistentStore_WriteRequest,
      ReadRequest = persistentStore_ReadRequest,
      ListPendingRequests = persistentStore_ListPendingRequests,
      WriteResponse = persistentStore_WriteResponse,
      ReadResponse = persistentStore_ReadResponse,
      DeleteOldBackends = persistentStore_DeleteOldBackends,
      DeleteOldRequests = persistentStore_DeleteOldRequests,
      AddBackend = persistentStore_AddBackend,
      ListBackends = persistentStore_ListBackends,
      DeleteBackend = persistentStore_DeleteBackend,
      LookupBackend = persistentStore_LookupBackend,
      IsBackendUserAllowed = persistentStore_IsBackendUserAllowed\<rparr>"

end
