(* ===== verification/App_Store_Blobs.thy ===== *)
theory App_Store_Blobs
  imports App_Store
begin

text \<open>
  Blobs and keys of the persistent store: the keys of different records never coincide, and a
  blob written by \<open>newBlob\<close> reads back as the bytes it was made from, for every schedule of
  the concurrent part writes.
\<close>

section \<open>Keys\<close>

definition partName :: "string \<Rightarrow> nat \<Rightarrow> string" where
  "partName blobName i = blobName @ ''.part'' @ Itoa i"

lemma requestKind_neq [simp]:
  "requestKind P b \<noteq> backendKind" "requestKind P b \<noteq> backendTrackerKind"
  "requestKind P b \<noteq> activityTrackerKind" "requestKind P b \<noteq> blobPartsKind"
  "requestKind P b \<noteq> responseKind"
  "backendKind \<noteq> requestKind P b" "backendTrackerKind \<noteq> requestKind P b"
  "activityTrackerKind \<noteq> requestKind P b" "blobPartsKind \<noteq> requestKind P b"
  "responseKind \<noteq> requestKind P b"
  by (simp_all add: requestKind_def kind_defs Quote_def)

lemma kind_neq [simp]:
  "backendKind \<noteq> backendTrackerKind" "backendKind \<noteq> activityTrackerKind"
  "backendKind \<noteq> blobPartsKind" "backendKind \<noteq> responseKind"
  "backendTrackerKind \<noteq> activityTrackerKind" "backendTrackerKind \<noteq> blobPartsKind"
  "backendTrackerKind \<noteq> responseKind" "activityTrackerKind \<noteq> blobPartsKind"
  "activityTrackerKind \<noteq> responseKind" "blobPartsKind \<noteq> responseKind"
  by (simp_all add: kind_defs)

lemmas kind_neqs [simp] = kind_neq [symmetric]

lemma requestKind_inject [simp]: "requestKind P b = requestKind P b' \<longleftrightarrow> b = b'"
  by (simp add: requestKind_def)

lemma requestKey_inject [simp]: "requestKey P b r = requestKey P b' r' \<longleftrightarrow> b = b' \<and> r = r'"
  by (simp add: requestKey_def)

lemma digits_suffix_unique:
  assumes "xs @ c # us = ys @ c' # vs" and "\<not> D c" "\<not> D c'"
    and "\<And>d. d \<in> set us \<Longrightarrow> D d" "\<And>d. d \<in> set vs \<Longrightarrow> D d"
  shows "xs = ys \<and> us = vs"
proof -
  have "takeWhile D (rev (xs @ c # us)) = rev us" "takeWhile D (rev (ys @ c' # vs)) = rev vs"
    using assms(2-) by (simp_all add: takeWhile_append2 takeWhile_append)
  then have "us = vs" using assms(1) by (metis rev_rev_ident)
  with assms(1) show ?thesis by simp
qed

lemma partName_inject [simp]: "partName n i = partName n' j \<longleftrightarrow> n = n' \<and> i = j"
proof
  assume "partName n i = partName n' j"
  then have "(n @ ''.par'') @ CHR ''t'' # Itoa i = (n' @ ''.par'') @ CHR ''t'' # Itoa j"
    by (simp add: partName_def)
  then have "n @ ''.par'' = n' @ ''.par'' \<and> Itoa i = Itoa j"
    by (rule digits_suffix_unique [where D = "\<lambda>c. 48 \<le> byte c \<and> byte c < 58"])
      (simp_all add: Itoa_digits)
  then show "n = n' \<and> i = j" by simp
qed simp

lemma request_response_names [simp]:
  "r @ ''.request'' \<noteq> r' @ ''.response''" "r' @ ''.response'' \<noteq> r @ ''.request''"
proof -
  have "last (r @ ''.request'') \<noteq> last (r' @ ''.response'')" by simp
  then show "r @ ''.request'' \<noteq> r' @ ''.response''" by metis
  then show "r' @ ''.response'' \<noteq> r @ ''.request''" by metis
qed

definition partKey :: "string \<Rightarrow> nat \<Rightarrow> key" where
  "partKey blobName i = Key blobPartsKind (partName blobName i)"

lemma partKey_inject [simp]: "partKey n i = partKey n' j \<longleftrightarrow> n = n' \<and> i = j"
  by (simp add: partKey_def)

lemmas key_defs = requestKey_def responseKey_def backendKey_def trackerKey_def activityKey_def
  partKey_def

section \<open>Well-formed entities\<close>

text \<open>
  What the store keeps under each kind of key: the key names the record, a blob refers to parts of
  its own name only, no field exceeds the Datastore's limit, a stored response never has a start
  time and a backend never has a last-used text.
\<close>

definition wf_blob :: "string \<Rightarrow> blob \<Rightarrow> bool" where
  "wf_blob n b \<longleftrightarrow> set (Parts b) \<subseteq> range (partName n) \<and> length (Inlined b) \<le> fieldByteLimit"

fun wf_entity :: "(nat \<Rightarrow> bool) \<Rightarrow> key \<Rightarrow> entity \<Rightarrow> bool" where
  "wf_entity P k (EBlobPart p) \<longleftrightarrow>
     k = Key blobPartsKind (bp_ID p) \<and> length (bp_Bytes p) \<le> fieldByteLimit"
| "wf_entity P k (ERequest r) \<longleftrightarrow>
     k = requestKey P (sr_BackendID r) (sr_RequestID r)
     \<and> wf_blob (sr_RequestID r @ ''.request'') (sr_RequestBytes r)"
| "wf_entity P k (EResponse r) \<longleftrightarrow>
     k = responseKey (sp_RequestID r)
     \<and> wf_blob (sp_RequestID r @ ''.response'') (sp_ResponseBytes r) \<and> sp_StartTime r = 0"
| "wf_entity P k (EBackendTracker t) \<longleftrightarrow> key_kind k = backendTrackerKind"
| "wf_entity P k (EActivityTracker t) \<longleftrightarrow> key_kind k = activityTrackerKind"
| "wf_entity P k (EBackend b) \<longleftrightarrow> k = backendKey (be_BackendID b) \<and> be_LastUsed b = []"

definition store_inv :: "('d, 'm) ctx \<Rightarrow> bool" where
  "store_inv c \<longleftrightarrow>
     services_ok c \<and> (\<forall>k e. committed c k = Some e \<longrightarrow> wf_entity (printable c) k e)"

lemma store_invD: "store_inv c \<Longrightarrow> services_ok c"
  "store_inv c \<Longrightarrow> committed c k = Some e \<Longrightarrow> wf_entity (printable c) k e"
  by (simp_all add: store_inv_def)

lemma wf_entity_kind:
  assumes "wf_entity P k e"
  shows "key_kind k = backendKind \<Longrightarrow> \<exists>b. e = EBackend b"
    and "key_kind k = requestKind P b \<Longrightarrow> \<exists>r. e = ERequest r"
    and "key_kind k = responseKind \<Longrightarrow> \<exists>r. e = EResponse r"
    and "key_kind k = backendTrackerKind \<Longrightarrow> \<exists>t. e = EBackendTracker t"
    and "key_kind k = blobPartsKind \<Longrightarrow> \<exists>p. e = EBlobPart p"
  using assms by (cases e; auto simp: key_defs)+

section \<open>Steps of the store\<close>

text \<open>
  \<open>store_step K E c c'\<close>: from \<open>c\<close> to \<open>c'\<close> only keys in \<open>K\<close> may have got
  a new, well-formed entity, only keys in \<open>E\<close> may have been deleted, and the cache is as it
  was. Every store operation is such a step, whatever its outcome; invariants and frames follow.
\<close>

definition store_step ::
  "key set \<Rightarrow> key set \<Rightarrow> ('d, 'm) ctx \<Rightarrow> ('d, 'm) ctx \<Rightarrow> bool" where
  "store_step K E c c' \<longleftrightarrow>
     same_services c c' \<and> cached c' = cached c
     \<and> (services_ok c \<longrightarrow>
          (\<forall>k. committed c' k = committed c k \<or> k \<in> E \<and> committed c' k = None
               \<or> k \<in> K \<and> (\<exists>e. committed c' k = Some e \<and> wf_entity (printable c) k e)))"

lemma store_step_refl [simp]: "store_step K E c c"
  by (simp add: store_step_def)

lemma store_step_same: "store_step K E c c' \<Longrightarrow> same_services c c'"
  "store_step K E c c' \<Longrightarrow> cached c' = cached c"
  "store_step K E c c' \<Longrightarrow> services_ok c' = services_ok c"
  "store_step K E c c' \<Longrightarrow> printable c' = printable c"
  by (auto simp: store_step_def services_ok_same, simp_all add: same_services_def)

lemma store_step_cases:
  assumes "store_step K E c c'" and "services_ok c"
  obtains "committed c' k = committed c k" | "k \<in> E" "committed c' k = None"
    | e where "k \<in> K" "committed c' k = Some e" "wf_entity (printable c) k e"
  using assms by (metis store_step_def)

lemma store_step_mono:
  "store_step K E c c' \<Longrightarrow> K \<subseteq> K' \<Longrightarrow> E \<subseteq> E' \<Longrightarrow> store_step K' E' c c'"
  unfolding store_step_def by blast

lemma store_step_trans:
  assumes "store_step K E c c1" and "store_step K' E' c1 c2"
  shows "store_step (K \<union> K') (E \<union> E') c c2"
proof -
  have p: "printable c1 = printable c" and s: "services_ok c1 = services_ok c"
    using store_step_same [OF assms(1)] by auto
  have "same_services c c2" "cached c2 = cached c"
    using assms by (auto simp: store_step_def intro: same_services_trans)
  moreover have "committed c2 k = committed c k \<or> k \<in> E \<union> E' \<and> committed c2 k = None
      \<or> k \<in> K \<union> K' \<and> (\<exists>e. committed c2 k = Some e \<and> wf_entity (printable c) k e)"
    if "services_ok c" for k
    using store_step_cases [OF assms(1) that, of k] store_step_cases [OF assms(2), of k] that s p
    by (smt (verit) UnI1 UnI2)
  ultimately show ?thesis by (simp add: store_step_def)
qed

lemma store_step_trans_same:
  "store_step K E c c1 \<Longrightarrow> store_step K E c1 c2 \<Longrightarrow> store_step K E c c2"
  using store_step_trans [of K E c c1 K E c2] by simp

lemma store_step_inv: "store_step K E c c' \<Longrightarrow> store_inv c \<Longrightarrow> store_inv c'"
  using store_step_same [of K E c c'] store_step_cases [of K E c c']
  unfolding store_inv_def by (metis option.distinct(1) option.inject)

lemma store_step_frame:
  "store_step K E c c' \<Longrightarrow> services_ok c \<Longrightarrow> k \<notin> K \<Longrightarrow> k \<notin> E \<Longrightarrow> committed c' k = committed c k"
  by (erule store_step_cases [where k = k]) auto

lemma store_step_shrink:
  "store_step K E c c' \<Longrightarrow> services_ok c \<Longrightarrow> k \<notin> K \<Longrightarrow>
     committed c' k = committed c k \<or> committed c' k = None"
  by (erule store_step_cases [where k = k]) auto

lemma store_step_Put:
  assumes "Put c k e = (err, c')" and "wf_entity (printable c) k (ds_norm e)" and "k \<in> K"
  shows "store_step K E c c'"
  using Put_frame [OF assms(1)] Put_effect [OF assms(1)] assms(2,3)
  by (auto simp: store_step_def split: if_splits)

lemma store_step_DeleteMulti:
  assumes "DeleteMulti c ks = (err, c')" and "set ks \<subseteq> E"
  shows "store_step K E c c'"
  using DeleteMulti_frame [OF assms(1)] DeleteMulti_effect(1) [OF assms(1)] assms(2)
  unfolding store_step_def by blast

lemma store_step_putAll:
  assumes "putAll order kes c = (es, c')"
    and wf: "\<And>k e. (k, e) \<in> set kes \<Longrightarrow> k \<in> K \<and> wf_entity (printable c) k (ds_norm e)"
  shows "store_step K E c c'"
proof (rule run_goroutines_invariant [OF assms(1) [unfolded putAll_def]])
  fix i c1 e c2
  assume i: "i < length (map (\<lambda>(k, e) c. Put c k e) kes)" and c1: "store_step K E c c1"
    and p: "(map (\<lambda>(k, e) c. Put c k e) kes ! i) c1 = (e, c2)"
  have "Put c1 (fst (kes ! i)) (snd (kes ! i)) = (e, c2)"
    using i p by (simp add: case_prod_unfold)
  then have "store_step K E c1 c2"
    by (rule store_step_Put)
      (use wf [of "fst (kes ! i)" "snd (kes ! i)"] i store_step_same(4) [OF c1] in simp_all)
  then show "store_step K E c c2"
    by (rule store_step_trans_same [OF c1])
qed simp

section \<open>What a blob denotes\<close>

definition blobPartOf :: "(key \<Rightarrow> entity option) \<Rightarrow> string \<Rightarrow> blobPart option" where
  "blobPartOf m name =
     (case m (Key blobPartsKind name) of Some (EBlobPart p) \<Rightarrow> Some p | _ \<Rightarrow> None)"

definition blobBytes :: "(key \<Rightarrow> entity option) \<Rightarrow> blob \<Rightarrow> bytes option" where
  "blobBytes m b =
     (if Parts b = [] then Some (Inlined b)
      else map_option (\<lambda>ps. Inlined b @ concat (map bp_Bytes ps))
             (those (map (blobPartOf m) (Parts b))))"

lemma those_eq_Some: "those xs = Some ys \<longleftrightarrow> xs = map Some ys"
  by (induction xs arbitrary: ys) (auto split: option.splits)

lemma loadAll_eq_Inr: "loadAll f es = Inr xs \<longleftrightarrow> map f es = map Some xs"
proof (induction es arbitrary: xs)
  case (Cons e es)
  show ?case
    by (cases xs) (auto split: option.splits sum.splits simp: Cons.IH [symmetric])
qed auto

lemma asBlobPart_eq_Some: "asBlobPart e = Some p \<longleftrightarrow> e = EBlobPart p"
  by (cases e) auto

lemma blobPartOf_eq_Some: "blobPartOf m n = Some p \<longleftrightarrow> m (Key blobPartsKind n) = Some (EBlobPart p)"
  by (auto simp: blobPartOf_def split: option.splits entity.splits)

lemma blob_read_Inr:
  assumes "services_ok c" and "blob_read c b = Inr bs"
  shows "blobBytes (committed c) b = Some bs"
proof (cases "Parts b = []")
  case False
  then obtain es ps where es: "GetMulti c (map (Key blobPartsKind) (Parts b)) = Inr es"
    and ps: "loadAll asBlobPart es = Inr ps" and bs: "bs = Inlined b @ concat (map bp_Bytes ps)"
    using assms(2) by (auto simp: blob_read_def split: sum.splits)
  have "map (committed c) (map (Key blobPartsKind) (Parts b)) = map Some es"
    by (rule GetMulti_committed [OF assms(1) es])
  moreover have "es = map EBlobPart ps"
    using ps by (auto simp: loadAll_eq_Inr list_eq_iff_nth_eq asBlobPart_eq_Some)
  ultimately have "map (blobPartOf (committed c)) (Parts b) = map Some ps"
    by (auto simp: list_eq_iff_nth_eq blobPartOf_eq_Some)
  then show ?thesis
    using False bs by (simp add: blobBytes_def those_eq_Some [symmetric])
qed (use assms in \<open>simp add: blob_read_def blobBytes_def\<close>)

lemma blob_read_available:
  assumes "ds_available (dsvc c) (ds c)" and "blobBytes (committed c) b = Some bs"
  shows "blob_read c b = Inr bs"
proof (cases "Parts b = []")
  case False
  then obtain ps where ps: "map (blobPartOf (committed c)) (Parts b) = map Some ps"
    and bs: "bs = Inlined b @ concat (map bp_Bytes ps)"
    using assms(2) by (auto simp: blobBytes_def those_eq_Some)
  have "map (committed c) (map (Key blobPartsKind) (Parts b)) = map Some (map EBlobPart ps)"
    using ps by (auto simp: list_eq_iff_nth_eq blobPartOf_eq_Some)
  then have "GetMulti c (map (Key blobPartsKind) (Parts b)) = Inr (map EBlobPart ps)"
    using assms(1) unfolding ds_available_def GetMulti_def committed_def by blast
  moreover have "loadAll asBlobPart (map EBlobPart ps) = Inr ps"
    by (simp add: loadAll_eq_Inr o_def)
  ultimately show ?thesis
    using False bs by (simp add: blob_read_def)
qed (use assms in \<open>simp add: blob_read_def blobBytes_def\<close>)

lemma blobBytes_cong:
  assumes "\<And>n. n \<in> set (Parts b) \<Longrightarrow> m' (Key blobPartsKind n) = m (Key blobPartsKind n)"
  shows "blobBytes m' b = blobBytes m b"
proof -
  have "map (blobPartOf m') (Parts b) = map (blobPartOf m) (Parts b)"
    using assms by (simp add: blobPartOf_def)
  then show ?thesis by (simp only: blobBytes_def)
qed

section \<open>Writing a blob\<close>

lemma bp_ID_blobPartAt [simp]: "bp_ID (blobPartAt bs n t i) = partName n i"
  by (simp add: blobPartAt_def partName_def Let_def)

lemma fieldByteLimit_pos [simp]: "0 < fieldByteLimit"
  by (simp add: fieldByteLimit_def)

lemma concat_blobParts:
  "concat (map (bp_Bytes \<circ> blobPartAt bs n t) [0..<partCount bs]) = bs"
  using concat_slices_all [of fieldByteLimit bs]
  by (simp add: blobPartAt_def partCount_def Let_def o_def)

abbreviation partEntities :: "bytes \<Rightarrow> string \<Rightarrow> time \<Rightarrow> (key \<times> entity) list" where
  "partEntities bs n t \<equiv>
     map (\<lambda>p. (Key blobPartsKind (bp_ID p), EBlobPart p))
       (map (blobPartAt bs n t) [0..<partCount bs])"

lemma distinct_partEntities: "distinct (map fst (partEntities bs n t))"
  by (simp add: distinct_map inj_on_def)

lemma blobPartAt_size: "length (bp_Bytes (blobPartAt bs n t i)) \<le> fieldByteLimit"
proof -
  have "length (bp_Bytes (blobPartAt bs n t i))
      \<le> min ((i + 1) * fieldByteLimit) (length bs) - i * fieldByteLimit"
    by (simp only: blobPartAt_def Let_def blobPart.simps length_slice)
  also have "\<dots> \<le> fieldByteLimit" by simp
  finally show ?thesis .
qed

lemma writeBlobParts_step:
  assumes "writeBlobParts c bs n t = (res, c')" and "range (partKey n) \<subseteq> K"
  shows "store_step K E c c'"
proof -
  obtain es where "putAll (sched c (length (partEntities bs n t))) (partEntities bs n t) c = (es, c')"
    using assms by (auto simp: writeBlobParts_def Let_def split: prod.splits)
  then show ?thesis
  proof (rule store_step_putAll)
    fix k e assume "(k, e) \<in> set (partEntities bs n t)"
    then obtain i where "k = partKey n i" "e = EBlobPart (blobPartAt bs n t i)"
      by (auto simp: partKey_def)
    then show "k \<in> K \<and> wf_entity (printable c) k (ds_norm e)"
      using assms(2) by (auto simp: partKey_def blobPartAt_size)
  qed
qed

lemma writeBlobParts_ok:
  assumes "writeBlobParts c bs n t = (Inr names, c')" and "services_ok c"
  shows "names = map (partName n) [0..<partCount bs]"
    and "map (blobPartOf (committed c')) names =
         map Some (map (\<lambda>i. (blobPartAt bs n t i)\<lparr>bp_StartTime := micros t\<rparr>) [0..<partCount bs])"
proof -
  have p: "putAll (sched c (length (partEntities bs n t))) (partEntities bs n t) c = ([], c')"
    and names: "names = map bp_ID (map (blobPartAt bs n t) [0..<partCount bs])"
    using assms(1) by (auto simp: writeBlobParts_def Let_def split: prod.splits list.splits)
  from names show nm: "names = map (partName n) [0..<partCount bs]"
    by simp
  have "committed c' (partKey n i)
      = Some (EBlobPart ((blobPartAt bs n t i)\<lparr>bp_StartTime := micros t\<rparr>))"
    if "i < partCount bs" for i
  proof -
    have "(partKey n i, EBlobPart (blobPartAt bs n t i)) \<in> set (partEntities bs n t)"
      using that by (simp add: partKey_def image_iff)
    then have "committed c' (partKey n i) = Some (ds_norm (EBlobPart (blobPartAt bs n t i)))"
      by (rule putAll_ok [OF p assms(2) distinct_partEntities])
    then show ?thesis by (simp add: blobPartAt_def Let_def)
  qed
  then show "map (blobPartOf (committed c')) names =
      map Some (map (\<lambda>i. (blobPartAt bs n t i)\<lparr>bp_StartTime := micros t\<rparr>) [0..<partCount bs])"
    by (simp add: nm blobPartOf_eq_Some partKey_def)
qed

lemma newBlob_step:
  assumes "newBlob c bs n t = (res, c')" and "range (partKey n) \<subseteq> K"
  shows "store_step K E c c'"
  using assms writeBlobParts_step [of c "drop fieldByteLimit bs" n t]
  by (auto simp: newBlob_def split: if_splits prod.splits sum.splits)

lemma newBlob_ok:
  assumes "newBlob c bs n t = (Inr b, c')" and "services_ok c"
  shows "blobBytes (committed c') b = Some bs" and "wf_blob n b"
proof -
  have "blobBytes (committed c') b = Some bs \<and> wf_blob n b"
  proof (cases "length bs < fieldByteLimit")
    case True
    with assms show ?thesis by (auto simp: newBlob_def blobBytes_def wf_blob_def)
  next
    case False
    let ?rest = "drop fieldByteLimit bs"
    obtain names where w: "writeBlobParts c ?rest n t = (Inr names, c')"
      and b: "b = \<lparr>Inlined = take fieldByteLimit bs, Parts = names\<rparr>"
      using assms(1) False by (auto simp: newBlob_def split: prod.splits sum.splits)
    note ok = writeBlobParts_ok [OF w assms(2)]
    have "names \<noteq> []" by (simp add: ok(1) partCount_def)
    moreover have "concat (map (bp_Bytes \<circ> (\<lambda>i. (blobPartAt ?rest n t i)\<lparr>bp_StartTime := micros t\<rparr>))
        [0..<partCount ?rest]) = ?rest"
      using concat_blobParts [of ?rest n t] by (simp add: o_def)
    moreover note those_eq_Some [THEN iffD2, OF ok(2)]
    ultimately have "blobBytes (committed c') b = Some bs"
      by (simp add: b blobBytes_def)
    then show ?thesis by (auto simp: b wf_blob_def ok(1))
  qed
  then show "blobBytes (committed c') b = Some bs" and "wf_blob n b" by auto
qed

end
