(* ===== verification/App_Store_Correct.thy ===== *)
theory App_Store_Correct
  imports App_Store_Blobs
begin

text \<open>
  Correctness of the persistent store. \<open>absRequest\<close> and \<open>absResponse\<close> read the request
  or response that the committed entities denote, part entities included. Reads return it, a
  successful write sets it, every operation keeps the invariant \<open>store_inv\<close> whatever its
  outcome, and operations on one request ID leave the others alone.
\<close>

section \<open>What the committed entities denote\<close>

definition requestOf :: "storedRequest \<Rightarrow> bytes \<Rightarrow> Request" where
  "requestOf r bs =
     \<lparr>req_BackendID = sr_BackendID r, req_RequestID = sr_RequestID r, req_User = sr_User r,
      req_Contents = bs, req_StartTime = sr_StartTime r, req_Completed = sr_Completed r\<rparr>"

definition responseOf :: "storedResponse \<Rightarrow> bytes \<Rightarrow> Response" where
  "responseOf r bs =
     \<lparr>resp_BackendID = sp_BackendID r, resp_RequestID = sp_RequestID r, resp_Contents = bs,
      resp_StartTime = 0\<rparr>"

definition absRequest :: "('d, 'm) ctx \<Rightarrow> string \<Rightarrow> string \<Rightarrow> Request option" where
  "absRequest c b r =
     (case committed c (requestKey (printable c) b r) of
        Some (ERequest sr) \<Rightarrow> map_option (requestOf sr) (blobBytes (committed c) (sr_RequestBytes sr))
      | _ \<Rightarrow> None)"

definition absResponse :: "('d, 'm) ctx \<Rightarrow> string \<Rightarrow> Response option" where
  "absResponse c r =
     (case committed c (responseKey r) of
        Some (EResponse sr) \<Rightarrow>
          map_option (responseOf sr) (blobBytes (committed c) (sp_ResponseBytes sr))
      | _ \<Rightarrow> None)"

lemma absRequest_eq_Some:
  "absRequest c b r = Some q \<longleftrightarrow>
     (\<exists>sr bs. committed c (requestKey (printable c) b r) = Some (ERequest sr)
        \<and> blobBytes (committed c) (sr_RequestBytes sr) = Some bs \<and> q = requestOf sr bs)"
  by (auto simp: absRequest_def split: option.splits entity.splits)

lemma absResponse_eq_Some:
  "absResponse c r = Some q \<longleftrightarrow>
     (\<exists>sr bs. committed c (responseKey r) = Some (EResponse sr)
        \<and> blobBytes (committed c) (sp_ResponseBytes sr) = Some bs \<and> q = responseOf sr bs)"
  by (auto simp: absResponse_def split: option.splits entity.splits)

lemma asRequest_eq_Some: "asRequest e = Some r \<longleftrightarrow> e = ERequest r"
  by (cases e) auto

lemma asResponse_eq_Some: "asResponse e = Some r \<longleftrightarrow> e = EResponse r"
  by (cases e) auto

lemma asBackend_eq_Some: "asBackend e = Some b \<longleftrightarrow> e = EBackend b"
  by (cases e) auto

section \<open>Reads\<close>

lemma ReadRequest_sound:
  assumes "services_ok c" and "persistentStore_ReadRequest c b r = Inr q"
  shows "absRequest c b r = Some q"
  using assms(2)
  by (auto simp: persistentStore_ReadRequest_def readStoredRequest_def toRequest_def
      absRequest_eq_Some requestOf_def asRequest_eq_Some split: sum.splits option.splits
      dest!: blob_read_Inr [OF assms(1)] Get_committed(1) [OF assms(1)])

lemma ReadResponse_sound:
  assumes "services_ok c" and "persistentStore_ReadResponse c b r = Inr q"
  shows "absResponse c r = Some q"
  using assms(2)
  by (auto simp: persistentStore_ReadResponse_def readStoredResponse_def toResponse_def
      absResponse_eq_Some responseOf_def asResponse_eq_Some split: sum.splits option.splits
      dest!: blob_read_Inr [OF assms(1)] Get_committed(1) [OF assms(1)])

lemma Get_available: "ds_available (dsvc c) (ds c) \<Longrightarrow> committed c k = Some e \<Longrightarrow> Get c k = Inr e"
  by (simp add: ds_available_def committed_def Get_def)

lemma ReadRequest_available:
  assumes "ds_available (dsvc c) (ds c)" and "absRequest c b r = Some q"
  shows "persistentStore_ReadRequest c b r = Inr q"
  using assms
  by (auto simp: absRequest_eq_Some persistentStore_ReadRequest_def readStoredRequest_def
      toRequest_def requestOf_def blob_read_available Get_available)

lemma ReadResponse_available:
  assumes "ds_available (dsvc c) (ds c)" and "absResponse c r = Some q"
  shows "persistentStore_ReadResponse c b r = Inr q"
  using assms
  by (auto simp: absResponse_eq_Some persistentStore_ReadResponse_def readStoredResponse_def
      toResponse_def responseOf_def blob_read_available Get_available)

section \<open>Writes\<close>

definition requestKeys :: "(nat \<Rightarrow> bool) \<Rightarrow> Request \<Rightarrow> key set" where
  "requestKeys P r =
     insert (requestKey P (req_BackendID r) (req_RequestID r))
       (range (partKey (req_RequestID r @ ''.request'')))"

definition responseKeys :: "Response \<Rightarrow> key set" where
  "responseKeys r =
     {responseKey (resp_RequestID r), activityKey (resp_BackendID r)}
     \<union> range (partKey (resp_RequestID r @ ''.response''))"

lemma newBlob_Inr:
  assumes "newBlob c bs n t = (Inr b, c')" and "services_ok c"
  shows "blobBytes (committed c') b = Some bs" "wf_blob n b" "services_ok c'" "printable c' = printable c"
  using newBlob_ok [OF assms] newBlob_step [OF assms(1), of UNIV] assms(2)
    store_step_same(3,4) [of UNIV UNIV c c'] by auto

lemma newStoredRequest_step:
  assumes "newStoredRequest c r = (res, c')"
  shows "services_ok c \<Longrightarrow> store_step (requestKeys (printable c) r) E c c'"
proof (cases "newBlob c (req_Contents r) (req_RequestID r @ ''.request'') (req_StartTime r)")
  case (Pair bres c1)
  let ?K = "requestKeys (printable c) r"
  assume ok: "services_ok c"
  have s1: "store_step ?K E c c1"
    by (rule newBlob_step [OF Pair]) (auto simp: requestKeys_def)
  show ?thesis
  proof (cases bres)
    case (Inr b)
    note nb = newBlob_Inr [OF Pair [unfolded Inr] ok]
    obtain err where "Put c1 (requestKey (printable c1) (req_BackendID r) (req_RequestID r))
        (ERequest \<lparr>sr_BackendID = req_BackendID r, sr_RequestID = req_RequestID r,
           sr_User = req_User r, sr_StartTime = req_StartTime r,
           sr_Completed = req_Completed r, sr_RequestBytes = b\<rparr>) = (err, c')"
      using assms by (auto simp: newStoredRequest_def Pair Inr Let_def split: prod.splits option.splits)
    then have "store_step ?K E c1 c'"
      by (rule store_step_Put) (use nb in \<open>auto simp: requestKeys_def\<close>)
    then show ?thesis by (rule store_step_trans_same [OF s1])
  qed (use s1 assms in \<open>simp add: newStoredRequest_def Pair\<close>)
qed

lemma newStoredRequest_ok:
  assumes "newStoredRequest c r = (Inr sr, c')" and "services_ok c"
  shows "absRequest c' (req_BackendID r) (req_RequestID r) = Some (canonRequest r)"
proof -
  obtain b c1 where b: "newBlob c (req_Contents r) (req_RequestID r @ ''.request'') (req_StartTime r)
      = (Inr b, c1)"
    using assms(1) by (auto simp: newStoredRequest_def split: prod.splits sum.splits)
  note nb = newBlob_Inr [OF b assms(2)]
  let ?k = "requestKey (printable c) (req_BackendID r) (req_RequestID r)"
  let ?sr = "\<lparr>sr_BackendID = req_BackendID r, sr_RequestID = req_RequestID r,
              sr_User = req_User r, sr_StartTime = req_StartTime r,
              sr_Completed = req_Completed r, sr_RequestBytes = b\<rparr>"
  have p: "Put c1 ?k (ERequest ?sr) = (None, c')"
    using assms(1) nb(4) by (auto simp: newStoredRequest_def b Let_def split: prod.splits option.splits)
  have c': "committed c' = (committed c1)(?k \<mapsto> ds_norm (ERequest ?sr))"
    by (rule Put_ok [OF p nb(3)])
  moreover have "blobBytes (committed c') b = Some (req_Contents r)"
    unfolding nb(1) [symmetric] c' by (rule blobBytes_cong) (simp add: requestKey_def)
  moreover have "printable c' = printable c"
    using Put_frame(1) [OF p] nb(4) by (simp add: same_services_def)
  ultimately show ?thesis
    by (simp add: absRequest_eq_Some requestOf_def canonRequest_def)
qed

lemma newStoredResponse_step:
  assumes "newStoredResponse c r = (res, c')"
  shows "services_ok c \<Longrightarrow> store_step (responseKeys r) E c c'"
proof (cases "newBlob c (resp_Contents r) (resp_RequestID r @ ''.response'') (resp_StartTime r)")
  case (Pair bres c1)
  assume ok: "services_ok c"
  have s1: "store_step (responseKeys r) E c c1"
    by (rule newBlob_step [OF Pair]) (auto simp: responseKeys_def)
  show ?thesis
  proof (cases bres)
    case (Inr b)
    note nb = newBlob_Inr [OF Pair [unfolded Inr] ok]
    obtain err where "Put c1 (responseKey (resp_RequestID r))
        (EResponse \<lparr>sp_BackendID = resp_BackendID r, sp_RequestID = resp_RequestID r,
           sp_ResponseBytes = b, sp_StartTime = 0, sp_Latency = now c - resp_StartTime r,
           sp_ResponseSize = length (resp_Contents r)\<rparr>) = (err, c')"
      using assms by (auto simp: newStoredResponse_def Pair Inr Let_def split: prod.splits option.splits)
    then have "store_step (responseKeys r) E c1 c'"
      by (rule store_step_Put) (use nb in \<open>auto simp: responseKeys_def micros_def\<close>)
    then show ?thesis by (rule store_step_trans_same [OF s1])
  qed (use s1 assms in \<open>simp add: newStoredResponse_def Pair Let_def\<close>)
qed

lemma newStoredResponse_ok:
  assumes "newStoredResponse c r = (Inr sr, c')" and "services_ok c"
  shows "absResponse c' (resp_RequestID r) = Some (canonResponse r)"
proof -
  obtain b c1 where b: "newBlob c (resp_Contents r) (resp_RequestID r @ ''.response'') (resp_StartTime r)
      = (Inr b, c1)"
    using assms(1) by (auto simp: newStoredResponse_def Let_def split: prod.splits sum.splits)
  note nb = newBlob_Inr [OF b assms(2)]
  let ?k = "responseKey (resp_RequestID r)"
  let ?sr = "\<lparr>sp_BackendID = resp_BackendID r, sp_RequestID = resp_RequestID r,
              sp_ResponseBytes = b, sp_StartTime = 0, sp_Latency = now c - resp_StartTime r,
              sp_ResponseSize = length (resp_Contents r)\<rparr>"
  have p: "Put c1 ?k (EResponse ?sr) = (None, c')"
    using assms(1) by (auto simp: newStoredResponse_def b Let_def split: prod.splits option.splits)
  have c': "committed c' = (committed c1)(?k \<mapsto> ds_norm (EResponse ?sr))"
    by (rule Put_ok [OF p nb(3)])
  moreover have "blobBytes (committed c') b = Some (resp_Contents r)"
    unfolding nb(1) [symmetric] c' by (rule blobBytes_cong) (simp add: responseKey_def)
  ultimately show ?thesis
    by (simp add: absResponse_eq_Some responseOf_def canonResponse_def)
qed

section \<open>Frames\<close>

definition requestFootprint :: "(nat \<Rightarrow> bool) \<Rightarrow> string \<Rightarrow> string \<Rightarrow> key set" where
  "requestFootprint P b r = insert (requestKey P b r) (range (partKey (r @ ''.request'')))"

definition responseFootprint :: "string \<Rightarrow> key set" where
  "responseFootprint r = insert (responseKey r) (range (partKey (r @ ''.response'')))"

lemmas footprint_defs = requestFootprint_def responseFootprint_def requestKeys_def responseKeys_def

lemma blobBytes_shrink:
  assumes "\<And>n. n \<in> set (Parts b) \<Longrightarrow>
      m' (Key blobPartsKind n) = m (Key blobPartsKind n) \<or> m' (Key blobPartsKind n) = None"
  shows "blobBytes m' b = blobBytes m b \<or> blobBytes m' b = None"
proof (cases "\<forall>n \<in> set (Parts b). m' (Key blobPartsKind n) = m (Key blobPartsKind n)")
  case True
  then show ?thesis using blobBytes_cong [of b m' m] by simp
next
  case False
  then obtain n where n: "n \<in> set (Parts b)" "m' (Key blobPartsKind n) = None"
    using assms by blast
  then have none: "blobPartOf m' n = None" by (simp add: blobPartOf_def)
  have "map (blobPartOf m') (Parts b) \<noteq> map Some ps" for ps
  proof
    assume "map (blobPartOf m') (Parts b) = map Some ps"
    then have "blobPartOf m' ` set (Parts b) = Some ` set ps"
      by (metis list.set_map)
    moreover have "None \<in> blobPartOf m' ` set (Parts b)"
      using n(1) none by (metis imageI)
    ultimately show False by auto
  qed
  then have "those (map (blobPartOf m') (Parts b)) = None"
    by (metis not_None_eq those_eq_Some)
  then show ?thesis using n(1) by (auto simp: blobBytes_def)
qed

lemma request_parts:
  assumes "store_inv c" and "committed c (requestKey (printable c) b r) = Some (ERequest sr)"
  shows "sr_RequestID sr = r" and "sr_BackendID sr = b"
    and "n \<in> set (Parts (sr_RequestBytes sr)) \<Longrightarrow> Key blobPartsKind n \<in> requestFootprint P b r"
  using store_invD(2) [OF assms] by (auto simp: wf_blob_def requestFootprint_def partKey_def)

lemma response_parts:
  assumes "store_inv c" and "committed c (responseKey r) = Some (EResponse sr)"
  shows "sp_RequestID sr = r"
    and "n \<in> set (Parts (sp_ResponseBytes sr)) \<Longrightarrow> Key blobPartsKind n \<in> responseFootprint r"
  using store_invD(2) [OF assms]
  by (auto simp: wf_blob_def responseFootprint_def partKey_def responseKey_def)

lemma absRequest_shrink:
  assumes "store_step K E c c'" and "store_inv c"
    and "requestFootprint (printable c) b r \<inter> K = {}"
  shows "absRequest c' b r = absRequest c b r \<or> absRequest c' b r = None"
proof -
  have sh: "committed c' k = committed c k \<or> committed c' k = None"
    if "k \<in> requestFootprint (printable c) b r" for k
    by (rule store_step_shrink [OF assms(1) store_invD(1) [OF assms(2)]]) (use assms(3) that in auto)
  show ?thesis
  proof (cases "\<exists>sr. committed c (requestKey (printable c) b r) = Some (ERequest sr)")
    case True
    then obtain sr where sr: "committed c (requestKey (printable c) b r) = Some (ERequest sr)" by blast
    have "blobBytes (committed c') (sr_RequestBytes sr) = blobBytes (committed c) (sr_RequestBytes sr)
        \<or> blobBytes (committed c') (sr_RequestBytes sr) = None"
      by (rule blobBytes_shrink) (rule sh [OF request_parts(3) [OF assms(2) sr]])
    then show ?thesis
      using sh [of "requestKey (printable c) b r"] sr store_step_same(4) [OF assms(1)]
      by (auto simp: absRequest_def requestFootprint_def)
  next
    case False
    then show ?thesis
      using sh [of "requestKey (printable c) b r"] store_step_same(4) [OF assms(1)]
      by (auto simp: absRequest_def requestFootprint_def split: option.splits entity.splits)
  qed
qed

lemma absRequest_frame:
  assumes "store_step K E c c'" and "store_inv c"
    and "requestFootprint (printable c) b r \<inter> (K \<union> E) = {}"
  shows "absRequest c' b r = absRequest c b r"
proof -
  have fr: "committed c' k = committed c k" if "k \<in> requestFootprint (printable c) b r" for k
    by (rule store_step_frame [OF assms(1) store_invD(1) [OF assms(2)]]) (use assms(3) that in auto)
  have "blobBytes (committed c') (sr_RequestBytes sr) = blobBytes (committed c) (sr_RequestBytes sr)"
    if "committed c (requestKey (printable c) b r) = Some (ERequest sr)" for sr
    by (rule blobBytes_cong) (rule fr [OF request_parts(3) [OF assms(2) that]])
  then show ?thesis
    using fr [of "requestKey (printable c) b r"] store_step_same(4) [OF assms(1)]
    by (auto simp: absRequest_def requestFootprint_def split: option.split entity.split)
qed

lemma absResponse_shrink:
  assumes "store_step K E c c'" and "store_inv c" and "responseFootprint r \<inter> K = {}"
  shows "absResponse c' r = absResponse c r \<or> absResponse c' r = None"
proof -
  have sh: "committed c' k = committed c k \<or> committed c' k = None"
    if "k \<in> responseFootprint r" for k
    by (rule store_step_shrink [OF assms(1) store_invD(1) [OF assms(2)]]) (use assms(3) that in auto)
  show ?thesis
  proof (cases "\<exists>sr. committed c (responseKey r) = Some (EResponse sr)")
    case True
    then obtain sr where sr: "committed c (responseKey r) = Some (EResponse sr)" by blast
    have "blobBytes (committed c') (sp_ResponseBytes sr) = blobBytes (committed c) (sp_ResponseBytes sr)
        \<or> blobBytes (committed c') (sp_ResponseBytes sr) = None"
      by (rule blobBytes_shrink) (rule sh [OF response_parts(2) [OF assms(2) sr]])
    then show ?thesis
      using sh [of "responseKey r"] sr by (auto simp: absResponse_def responseFootprint_def)
  next
    case False
    then show ?thesis
      using sh [of "responseKey r"]
      by (auto simp: absResponse_def responseFootprint_def split: option.splits entity.splits)
  qed
qed

lemma absResponse_frame:
  assumes "store_step K E c c'" and "store_inv c" and "responseFootprint r \<inter> (K \<union> E) = {}"
  shows "absResponse c' r = absResponse c r"
proof -
  have fr: "committed c' k = committed c k" if "k \<in> responseFootprint r" for k
    by (rule store_step_frame [OF assms(1) store_invD(1) [OF assms(2)]]) (use assms(3) that in auto)
  have "blobBytes (committed c') (sp_ResponseBytes sr) = blobBytes (committed c) (sp_ResponseBytes sr)"
    if "committed c (responseKey r) = Some (EResponse sr)" for sr
    by (rule blobBytes_cong) (rule fr [OF response_parts(2) [OF assms(2) that]])
  then show ?thesis
    using fr [of "responseKey r"]
    by (auto simp: absResponse_def responseFootprint_def split: option.split entity.split)
qed

section \<open>The methods as steps\<close>

lemma registerBackendAsSeen_step:
  "registerBackendAsSeen c b = (err, c') \<Longrightarrow> trackerKey b \<in> K \<Longrightarrow> store_step K E c c'"
  unfolding registerBackendAsSeen_def by (erule store_step_Put) (simp_all add: trackerKey_def)

lemma registerBackendAsActive_step:
  "registerBackendAsActive c b = (err, c') \<Longrightarrow> activityKey b \<in> K \<Longrightarrow> store_step K E c c'"
  unfolding registerBackendAsActive_def by (erule store_step_Put) (simp_all add: activityKey_def)

lemma WriteRequest_step:
  "persistentStore_WriteRequest c r = (err, c') \<Longrightarrow> services_ok c \<Longrightarrow>
     store_step (requestKeys (printable c) r) {} c c'"
  by (auto simp: persistentStore_WriteRequest_def split: prod.splits sum.splits
      dest: newStoredRequest_step)

lemma WriteRequest_ok:
  "persistentStore_WriteRequest c r = (None, c') \<Longrightarrow> services_ok c \<Longrightarrow>
     absRequest c' (req_BackendID r) (req_RequestID r) = Some (canonRequest r)"
  by (auto simp: persistentStore_WriteRequest_def split: prod.splits sum.splits
      dest: newStoredRequest_ok)

lemma ListPendingRequests_step:
  assumes "persistentStore_ListPendingRequests c b = (res, c')"
  shows "store_step {trackerKey b} {} c c'"
proof -
  obtain x y where "go2 (sched c 2) (\<lambda>c. registerBackendAsSeen c b)
      (\<lambda>c. (GetAllAs c asRequest (pendingQuery (printable c) b), c)) c = (x, y, c')"
    using assms by (auto simp: persistentStore_ListPendingRequests_def split: prod.splits sum.splits)
  then show ?thesis
    by (rule go2_cases) (auto intro: registerBackendAsSeen_step)
qed

lemma WriteResponse_split:
  assumes "persistentStore_WriteResponse c r = (err, c')"
  obtains c1 x y where "registerBackendAsActive c (resp_BackendID r) = (x, c1)"
      "newStoredResponse c1 r = (y, c')" "err = None \<longleftrightarrow> isl y = False"
    | c1 x y where "newStoredResponse c r = (y, c1)"
      "registerBackendAsActive c1 (resp_BackendID r) = (x, c')" "err = None \<longleftrightarrow> isl y = False"
proof -
  obtain x y where g: "go2 (sched c 2) (\<lambda>c. registerBackendAsActive c (resp_BackendID r))
      (\<lambda>c. newStoredResponse c r) c = (x, y, c')" and "err = None \<longleftrightarrow> isl y = False"
    using assms by (auto simp: persistentStore_WriteResponse_def split: prod.splits sum.splits)
  from go2_cases [OF g] this(2) that show thesis by metis
qed

lemma WriteResponse_step:
  assumes "persistentStore_WriteResponse c r = (err, c')" and "services_ok c"
  shows "store_step (responseKeys r) {} c c'"
  using assms(1)
proof (rule WriteResponse_split)
  fix c1 x y
  assume a: "registerBackendAsActive c (resp_BackendID r) = (x, c1)" "newStoredResponse c1 r = (y, c')"
  have s: "store_step (responseKeys r) {} c c1"
    by (rule registerBackendAsActive_step [OF a(1)]) (simp add: responseKeys_def)
  moreover have "store_step (responseKeys r) {} c1 c'"
    using newStoredResponse_step [OF a(2)] store_step_same(3) [OF s] assms(2) by blast
  ultimately show ?thesis by (rule store_step_trans_same)
next
  fix c1 x y
  assume a: "newStoredResponse c r = (y, c1)" "registerBackendAsActive c1 (resp_BackendID r) = (x, c')"
  have "store_step (responseKeys r) {} c c1"
    using newStoredResponse_step [OF a(1) assms(2)] .
  moreover have "store_step (responseKeys r) {} c1 c'"
    by (rule registerBackendAsActive_step [OF a(2)]) (simp add: responseKeys_def)
  ultimately show ?thesis by (rule store_step_trans_same)
qed

lemma WriteResponse_ok:
  assumes "persistentStore_WriteResponse c r = (None, c')" and "store_inv c"
  shows "absResponse c' (resp_RequestID r) = Some (canonResponse r)"
  using assms(1)
proof (rule WriteResponse_split)
  fix c1 x y
  assume a: "registerBackendAsActive c (resp_BackendID r) = (x, c1)" "newStoredResponse c1 r = (y, c')"
    "None = None \<longleftrightarrow> isl y = False"
  have "store_step UNIV {} c c1"
    by (rule registerBackendAsActive_step [OF a(1)]) simp
  then have "services_ok c1"
    using assms(2) by (simp add: store_step_same(3) store_invD(1))
  with a(2,3) show ?thesis
    by (cases y) (auto dest: newStoredResponse_ok)
next
  fix c1 x y
  assume a: "newStoredResponse c r = (y, c1)" "registerBackendAsActive c1 (resp_BackendID r) = (x, c')"
    "None = None \<longleftrightarrow> isl y = False"
  have "store_inv c1"
    by (rule store_step_inv [OF newStoredResponse_step [OF a(1)] assms(2)]) (rule store_invD(1) [OF assms(2)])
  moreover have "store_step {activityKey (resp_BackendID r)} {} c1 c'"
    by (rule registerBackendAsActive_step [OF a(2)]) simp
  ultimately have "absResponse c' (resp_RequestID r) = absResponse c1 (resp_RequestID r)"
    by (intro absResponse_frame) (auto simp: responseFootprint_def key_defs)
  with a(1,3) show ?thesis
    using newStoredResponse_ok [of c r] store_invD(1) [OF assms(2)] by (cases y) auto
qed

lemma AddBackend_step:
  assumes "persistentStore_AddBackend c b = (err, c')"
  shows "store_step {trackerKey (be_BackendID b), backendKey (be_BackendID b)} {} c c'"
proof -
  obtain e1 c1 where p1: "Put c (trackerKey (be_BackendID b))
      (EBackendTracker \<lparr>LastSeen = now c - backendTimeout\<rparr>) = (e1, c1)" by fastforce
  have s1: "store_step {trackerKey (be_BackendID b), backendKey (be_BackendID b)} {} c c1"
    by (rule store_step_Put [OF p1]) (simp_all add: trackerKey_def)
  show ?thesis
  proof (cases e1)
    case None
    then have "Put c1 (backendKey (be_BackendID b)) (EBackend (b\<lparr>be_LastUsed := []\<rparr>)) = (err, c')"
      using assms p1 by (simp add: persistentStore_AddBackend_def Let_def)
    then have "store_step {trackerKey (be_BackendID b), backendKey (be_BackendID b)} {} c1 c'"
      by (rule store_step_Put) simp_all
    then show ?thesis by (rule store_step_trans_same [OF s1])
  qed (use assms p1 s1 in \<open>simp add: persistentStore_AddBackend_def Let_def\<close>)
qed

end
