(* ===== verification/App_Store_Delete.thy ===== *)
theory App_Store_Delete
  imports App_Store_Correct
begin

text \<open>
  Deletion in the persistent store. The batched deletion loop ends for every Datastore that obeys
  its laws and leaves no selected entity behind; deleting a backend or old records touches the
  records it should and no other.
\<close>

section \<open>Selected keys\<close>

definition selectedKeys :: "query \<Rightarrow> ('d, 'm) ctx \<Rightarrow> key set" where
  "selectedKeys q c = {k. \<exists>e. committed c k = Some e \<and> selects q k e}"

lemma selectedKeys_kind: "k \<in> selectedKeys q c \<Longrightarrow> key_kind k = q_kind q"
  by (auto simp: selectedKeys_def selects_def)

lemma selectedKeys_dom: "selectedKeys q c \<subseteq> dom (committed c)"
  by (auto simp: selectedKeys_def)

lemma finite_selectedKeys: "services_ok c \<Longrightarrow> finite (selectedKeys q c)"
  using finite_subset [OF selectedKeys_dom services_okD(8)] .

lemma selectedKeys_shrink:
  assumes "store_step {} E c c'" and "services_ok c"
  shows "selectedKeys q c' \<subseteq> selectedKeys q c"
proof
  fix k assume "k \<in> selectedKeys q c'"
  then show "k \<in> selectedKeys q c"
    using store_step_shrink [OF assms, of k] by (auto simp: selectedKeys_def)
qed

lemma GetKeys_sound:
  assumes "GetKeys c q = Inr ks" and "services_ok c"
  shows "set ks \<subseteq> selectedKeys q c" and "distinct ks" and "q_limit q = Some n \<Longrightarrow> length ks \<le> n"
  using assms GetAll_sound [OF assms(2)]
  by (auto simp: GetKeys_def selectedKeys_def split: sum.splits)

lemma GetKeys_complete:
  assumes "GetKeys c q = Inr ks" and "services_ok c"
    and "\<And>n. q_limit q = Some n \<Longrightarrow> length ks < n"
  shows "selectedKeys q c = set ks"
proof
  obtain rows where rows: "GetAll c q = Inr rows" "ks = map fst rows"
    using assms(1) by (auto simp: GetKeys_def split: sum.splits)
  show "selectedKeys q c \<subseteq> set ks"
  proof
    fix k assume "k \<in> selectedKeys q c"
    then obtain e where e: "committed c k = Some e" "selects q k e"
      by (auto simp: selectedKeys_def)
    have "(k, e) \<in> set rows"
      by (rule GetAll_complete [OF assms(2) rows(1) _ e]) (use assms(3) rows(2) in simp)
    then show "k \<in> set ks" by (force simp: rows(2))
  qed
qed (rule GetKeys_sound(1) [OF assms(1,2)])

lemma GetKeys_Nil:
  assumes "GetKeys c q = Inr []" and "services_ok c" and "q_limit q \<noteq> Some 0"
  shows "selectedKeys q c = {}"
  using GetKeys_complete [OF assms(1,2)] assms(3) by fastforce

text \<open>Fewer matching entities than the limit: the query returns all of them.\<close>

lemma GetKeys_all:
  assumes "GetKeys c q = Inr ks" and "services_ok c" and "q_limit q = Some n"
    and "card (selectedKeys q c) < n"
  shows "selectedKeys q c = set ks"
proof (rule GetKeys_complete [OF assms(1,2)])
  fix m assume "q_limit q = Some m"
  moreover have "length ks = card (set ks)"
    using GetKeys_sound(2) [OF assms(1,2)] by (simp add: distinct_card)
  moreover have "card (set ks) \<le> card (selectedKeys q c)"
    by (rule card_mono [OF finite_selectedKeys [OF assms(2)] GetKeys_sound(1) [OF assms(1,2)]])
  ultimately show "length ks < m" using assms(3,4) by simp
qed

section \<open>The deletion loop\<close>

lemma DeleteMulti_selected:
  assumes "DeleteMulti c ks = (None, c')" and "services_ok c" and "set ks \<subseteq> selectedKeys q c"
  shows "selectedKeys q c' = selectedKeys q c - set ks" (is ?sel)
    and "store_step {} (selectedKeys q c) c c'" (is ?step)
proof -
  show ?step by (rule store_step_DeleteMulti [OF assms(1,3)])
  have "committed c' k = (if k \<in> set ks then None else committed c k)" for k
    using DeleteMulti_effect [OF assms(1,2), of k] by auto
  then show ?sel by (auto simp: selectedKeys_def)
qed

lemma deleteLoop_result:
  assumes "services_ok c" and "set keys \<subseteq> selectedKeys q c"
    and "keys = [] \<Longrightarrow> selectedKeys q c = {}" and "q_limit q \<noteq> Some 0"
  shows "\<exists>err c'. deleteLoop c q keys = Some (err, c') \<and> store_step {} (selectedKeys q c) c c'
           \<and> (err = None \<longrightarrow> selectedKeys q c' = {})"
  using assms(1-3)
proof (induction "card (selectedKeys q c)" arbitrary: c keys rule: less_induct)
  case less
  show ?case
  proof (cases "keys = []")
    case True
    then show ?thesis using less.prems(3) by (simp add: deleteLoop.simps)
  next
    case keys: False
    obtain e1 c1 where del: "DeleteMulti c keys = (e1, c1)" by fastforce
    show ?thesis
    proof (cases e1)
      case (Some e)
      have "store_step {} (selectedKeys q c) c c1"
        by (rule store_step_DeleteMulti [OF del less.prems(2)])
      then show ?thesis using keys del Some by (simp add: deleteLoop.simps)
    next
      case None
      note sel = DeleteMulti_selected [OF del [unfolded None] less.prems(1,2)]
      have ok: "services_ok c1" using store_step_same(3) [OF sel(2)] less.prems(1) by simp
      show ?thesis
      proof (cases "GetKeys c1 q")
        case (Inl e)
        then show ?thesis using keys del None sel(2) by (simp add: deleteLoop.simps)
      next
        case (Inr keys')
        have "card (selectedKeys q c1) < card (selectedKeys q c)"
          unfolding sel(1)
          by (rule psubset_card_mono [OF finite_selectedKeys [OF less.prems(1)]])
            (use keys less.prems(2) in \<open>cases keys; auto\<close>)
        moreover have "keys' = [] \<Longrightarrow> selectedKeys q c1 = {}"
          using GetKeys_Nil [OF _ ok assms(4)] Inr by simp
        ultimately obtain err c' where r: "deleteLoop c1 q keys' = Some (err, c')"
            "store_step {} (selectedKeys q c1) c1 c'" "err = None \<longrightarrow> selectedKeys q c' = {}"
          using less.hyps [OF _ ok GetKeys_sound(1) [OF Inr ok]] by blast
        have "store_step {} (selectedKeys q c) c c'"
          by (rule store_step_trans_same [OF sel(2) store_step_mono [OF r(2)]]) (auto simp: sel(1))
        then show ?thesis using keys del None Inr r by (simp add: deleteLoop.simps)
      qed
    qed
  qed
qed

lemma oldRequestsQuery_limit [simp]:
  "q_limit (oldRequestsQuery P b t) = Some multiOpSizeLimit" "multiOpSizeLimit \<noteq> 0"
  "q_kind (oldRequestsQuery P b t) = requestKind P b"
  by (simp_all add: oldRequestsQuery_def multiOpSizeLimit_def)

lemma deleteRequestsForBackend_result:
  assumes "services_ok c"
  shows "\<exists>err c'. deleteRequestsForBackend c b t = Some (err, c')
           \<and> store_step {} (selectedKeys (oldRequestsQuery (printable c) b t) c) c c'
           \<and> (err = None \<longrightarrow> selectedKeys (oldRequestsQuery (printable c) b t) c' = {})"
proof (cases "GetKeys c (oldRequestsQuery (printable c) b t)")
  case (Inr keys)
  have "\<exists>err c'. deleteLoop c (oldRequestsQuery (printable c) b t) keys = Some (err, c')
      \<and> store_step {} (selectedKeys (oldRequestsQuery (printable c) b t) c) c c'
      \<and> (err = None \<longrightarrow> selectedKeys (oldRequestsQuery (printable c) b t) c' = {})"
    by (rule deleteLoop_result [OF assms GetKeys_sound(1) [OF Inr assms]])
      (use GetKeys_Nil [OF _ assms] Inr in auto)
  then show ?thesis using Inr by (simp add: deleteRequestsForBackend_def)
qed (simp add: deleteRequestsForBackend_def)

section \<open>Deleting backends\<close>

lemma ds_Delete_effect:
  assumes "ds_delete_law D" and "ds_Delete D d k = (err, d')" and "err = None \<or> err = Some ErrNoSuchEntity"
  shows "ds_committed D d' = (ds_committed D d)(k := None)"
proof -
  have "ds_committed D d' = (ds_committed D d)(k := None)
      \<or> err \<noteq> None \<and> ds_committed D d' = ds_committed D d
          \<and> (err = Some ErrNoSuchEntity \<longrightarrow> ds_committed D d k = None)"
    using assms(1,2) unfolding ds_delete_law_def by blast
  with assms(3) show ?thesis by (auto simp: fun_upd_idem)
qed

lemma deleteBackendTransaction_ok:
  assumes "ds_delete_law D" and "deleteBackendTransaction D b d = (None, d')"
  shows "ds_committed D d' = (ds_committed D d)(backendKey b := None, trackerKey b := None)"
proof -
  obtain e1 d1 e2 where "ds_Delete D d (backendKey b) = (e1, d1)" "ds_Delete D d1 (trackerKey b) = (e2, d')"
      "e1 = None \<or> e1 = Some ErrNoSuchEntity" "e2 = None \<or> e2 = Some ErrNoSuchEntity"
    using assms(2) by (auto simp: deleteBackendTransaction_def split: prod.splits if_splits)
  then show ?thesis
    using ds_Delete_effect [OF assms(1)] by metis
qed

text \<open>The transaction is all or nothing: both records are gone, or it failed and nothing changed.\<close>

lemma delete_transaction_effect:
  assumes "ds_RunInTransaction (dsvc c) (deleteBackendTransaction (dsvc c) b) (ds c) = (err, d')"
    and "services_ok c"
  shows "committed (c\<lparr>ds := d'\<rparr>) = (committed c)(backendKey b := None, trackerKey b := None)
       \<or> err \<noteq> None \<and> committed (c\<lparr>ds := d'\<rparr>) = committed c"
proof -
  have "(\<exists>d0 d1. ds_committed (dsvc c) d0 = ds_committed (dsvc c) (ds c)
          \<and> deleteBackendTransaction (dsvc c) b d0 = (None, d1)
          \<and> ds_committed (dsvc c) d' = ds_committed (dsvc c) d1)
      \<or> err \<noteq> None \<and> ds_committed (dsvc c) d' = ds_committed (dsvc c) (ds c)"
    using assms(1) services_okD(5) [OF assms(2)] unfolding ds_transaction_law_def by blast
  then show ?thesis
    using deleteBackendTransaction_ok [OF services_okD(4) [OF assms(2)]]
    by (auto simp: committed_def)
qed

definition backendFootprint :: "(nat \<Rightarrow> bool) \<Rightarrow> string \<Rightarrow> key set" where
  "backendFootprint P b = {backendKey b, trackerKey b} \<union> {k. key_kind k = requestKind P b}"

lemma DeleteBackend_result:
  assumes "services_ok c"
  shows "\<exists>err c'. persistentStore_DeleteBackend c b = Some (err, c')
           \<and> store_step {} (backendFootprint (printable c) b) c c'
           \<and> (err = None \<longrightarrow> committed c' (backendKey b) = None \<and> committed c' (trackerKey b) = None
                \<and> selectedKeys (oldRequestsQuery (printable c) b (now c)) c' = {})"
proof -
  let ?F = "backendFootprint (printable c) b" and ?q = "oldRequestsQuery (printable c) b (now c)"
  obtain e1 d' where tx: "ds_RunInTransaction (dsvc c) (deleteBackendTransaction (dsvc c) b) (ds c) = (e1, d')"
    by fastforce
  define c1 where "c1 = c\<lparr>ds := d'\<rparr>"
  have eff: "committed c1 = (committed c)(backendKey b := None, trackerKey b := None)
      \<or> e1 \<noteq> None \<and> committed c1 = committed c"
    unfolding c1_def by (rule delete_transaction_effect [OF tx assms])
  have s1: "store_step {} ?F c c1"
    using eff by (auto simp: store_step_def backendFootprint_def c1_def cached_def split: if_splits)
  show ?thesis
  proof (cases e1)
    case None
    have ok1: "services_ok c1" and [simp]: "printable c1 = printable c"
      using store_step_same(3,4) [OF s1] assms by auto
    obtain err c' where d: "deleteRequestsForBackend c1 b (now c) = Some (err, c')"
        "store_step {} (selectedKeys ?q c1) c1 c'" "err = None \<longrightarrow> selectedKeys ?q c' = {}"
      using deleteRequestsForBackend_result [OF ok1, of b "now c"] by auto
    have "store_step {} ?F c1 c'"
      by (rule store_step_mono [OF d(2)]) (auto simp: backendFootprint_def dest: selectedKeys_kind)
    then have "store_step {} ?F c c'"
      by (rule store_step_trans_same [OF s1])
    moreover have "committed c' k = None" if "committed c1 k = None" for k
      using store_step_shrink [OF d(2) ok1, of k] that by simp
    then have "committed c' (backendKey b) = None \<and> committed c' (trackerKey b) = None"
      using eff None by simp
    ultimately show ?thesis
      using tx None d(1,3) by (simp add: persistentStore_DeleteBackend_def c1_def)
  qed (use tx s1 in \<open>simp add: persistentStore_DeleteBackend_def c1_def\<close>)
qed

lemma deleteBackends_result:
  assumes "services_ok c"
  shows "\<exists>err c'. deleteBackends c bs = Some (err, c')
           \<and> store_step {} (\<Union>b\<in>set bs. backendFootprint (printable c) b) c c'
           \<and> (err = None \<longrightarrow> (\<forall>b \<in> set bs. committed c' (backendKey b) = None))"
  using assms
proof (induction bs arbitrary: c)
  case (Cons b bs)
  obtain e1 c1 where d: "persistentStore_DeleteBackend c b = Some (e1, c1)"
      "store_step {} (backendFootprint (printable c) b) c c1"
      "e1 = None \<longrightarrow> committed c1 (backendKey b) = None"
    using DeleteBackend_result [OF Cons.prems] by blast
  let ?E = "\<Union>b\<in>set (b # bs). backendFootprint (printable c) b"
  have s1: "store_step {} ?E c c1" by (rule store_step_mono [OF d(2)]) auto
  show ?case
  proof (cases e1)
    case None
    have ok1: "services_ok c1" and [simp]: "printable c1 = printable c"
      using store_step_same(3,4) [OF s1] Cons.prems by auto
    obtain err c' where r: "deleteBackends c1 bs = Some (err, c')"
        "store_step {} (\<Union>b\<in>set bs. backendFootprint (printable c) b) c1 c'"
        "err = None \<longrightarrow> (\<forall>b \<in> set bs. committed c' (backendKey b) = None)"
      using Cons.IH [OF ok1] by auto
    have "store_step {} ?E c c'"
      by (rule store_step_trans_same [OF s1 store_step_mono [OF r(2)]]) auto
    moreover have "committed c' (backendKey b) = None"
      using store_step_shrink [OF r(2) ok1, of "backendKey b"] d(3) None by simp
    ultimately show ?thesis using d(1) r None by simp
  qed (use d(1) s1 in simp)
qed simp

definition oldBackendKeys :: "('d, 'm) ctx \<Rightarrow> key set" where
  "oldBackendKeys c = selectedKeys \<lparr>q_kind = backendTrackerKind,
      q_filter = LastSeenBefore (now c - 1 * Hour), q_limit = Some multiOpSizeLimit\<rparr> c"

lemma DeleteOldBackends_result:
  assumes "services_ok c"
  shows "\<exists>err c'. persistentStore_DeleteOldBackends c = Some (err, c')
           \<and> store_step {} (\<Union>k \<in> oldBackendKeys c. backendFootprint (printable c) (key_name k)) c c'"
proof (cases "listOldBackends c")
  case (Inr bs)
  then obtain ks where ks: "GetKeys c \<lparr>q_kind = backendTrackerKind,
      q_filter = LastSeenBefore (now c - 1 * Hour), q_limit = Some multiOpSizeLimit\<rparr> = Inr ks"
      and bs: "bs = map key_name ks"
    by (auto simp: listOldBackends_def Let_def split: sum.splits)
  obtain err c' where r: "deleteBackends c bs = Some (err, c')"
      "store_step {} (\<Union>b\<in>set bs. backendFootprint (printable c) b) c c'"
    using deleteBackends_result [OF assms] by blast
  have "store_step {} (\<Union>k \<in> oldBackendKeys c. backendFootprint (printable c) (key_name k)) c c'"
    by (rule store_step_mono [OF r(2)])
      (use GetKeys_sound(1) [OF ks assms] in \<open>auto simp: bs oldBackendKeys_def\<close>)
  then show ?thesis using Inr r(1) by (simp add: persistentStore_DeleteOldBackends_def)
qed (simp add: persistentStore_DeleteOldBackends_def)

section \<open>Deleting old requests\<close>

definition oldOfKindQuery :: "string \<Rightarrow> time \<Rightarrow> query" where
  "oldOfKindQuery kind cutoff =
     \<lparr>q_kind = kind, q_filter = StartTimeBefore cutoff, q_limit = Some multiOpSizeLimit\<rparr>"

lemma deleteRequestsForBackends_result:
  assumes "services_ok c"
  shows "\<exists>err c'. deleteRequestsForBackends c bs t = Some (err, c')
           \<and> store_step {} (\<Union>b\<in>set bs. selectedKeys (oldRequestsQuery (printable c) b t) c) c c'
           \<and> (err = None \<longrightarrow>
                (\<forall>b \<in> set bs. selectedKeys (oldRequestsQuery (printable c) b t) c' = {}))"
  using assms
proof (induction bs arbitrary: c)
  case (Cons b bs)
  let ?sel = "\<lambda>b c. selectedKeys (oldRequestsQuery (printable c) b t) c"
  let ?E = "\<Union>b\<in>set (b # bs). ?sel b c"
  obtain e1 c1 where d: "deleteRequestsForBackend c b t = Some (e1, c1)"
      "store_step {} (?sel b c) c c1"
      "e1 = None \<longrightarrow> selectedKeys (oldRequestsQuery (printable c) b t) c1 = {}"
    using deleteRequestsForBackend_result [OF Cons.prems] by blast
  have s1: "store_step {} ?E c c1" by (rule store_step_mono [OF d(2)]) auto
  show ?case
  proof (cases e1)
    case None
    have ok1: "services_ok c1" and [simp]: "printable c1 = printable c"
      using store_step_same(3,4) [OF s1] Cons.prems by auto
    obtain err c' where r: "deleteRequestsForBackends c1 bs t = Some (err, c')"
        "store_step {} (\<Union>b\<in>set bs. ?sel b c1) c1 c'"
        "err = None \<longrightarrow> (\<forall>b \<in> set bs. selectedKeys (oldRequestsQuery (printable c) b t) c' = {})"
      using Cons.IH [OF ok1] by auto
    have "store_step {} ?E c1 c'"
      by (rule store_step_mono [OF r(2)]) (use selectedKeys_shrink [OF d(2) Cons.prems] in fastforce)+
    then have "store_step {} ?E c c'"
      by (rule store_step_trans_same [OF s1])
    moreover have "selectedKeys (oldRequestsQuery (printable c) b t) c' = {}"
      using selectedKeys_shrink [OF r(2) ok1, of "oldRequestsQuery (printable c) b t"] d(3) None by auto
    ultimately show ?thesis using d(1) r None by simp
  qed (use d(1) s1 in simp)
qed simp

lemma deleteOldOfKind_result:
  assumes "deleteOldOfKind c kind t = (err, c')" and "services_ok c"
  shows "store_step {} (selectedKeys (oldOfKindQuery kind t) c) c c'" (is ?step)
    and "err = None \<Longrightarrow> card (selectedKeys (oldOfKindQuery kind t) c) < multiOpSizeLimit \<Longrightarrow>
           selectedKeys (oldOfKindQuery kind t) c' = {}"
proof -
  let ?q = "oldOfKindQuery kind t"
  have split: "(\<exists>e. GetKeys c ?q = Inl e \<and> err = Some e \<and> c' = c)
      \<or> (\<exists>ks. GetKeys c ?q = Inr ks \<and> DeleteMulti c ks = (err, c'))"
    using assms(1) by (auto simp: deleteOldOfKind_def oldOfKindQuery_def split: sum.splits)
  then show ?step
    using store_step_DeleteMulti GetKeys_sound(1) [OF _ assms(2)] by fastforce
  assume "err = None" and small: "card (selectedKeys ?q c) < multiOpSizeLimit"
  then obtain ks where ks: "GetKeys c ?q = Inr ks" "DeleteMulti c ks = (None, c')"
    using split by auto
  have "selectedKeys ?q c = set ks"
    by (rule GetKeys_all [OF ks(1) assms(2) _ small]) (simp add: oldOfKindQuery_def)
  then show "selectedKeys ?q c' = {}"
    using DeleteMulti_selected(1) [OF ks(2) assms(2) GetKeys_sound(1) [OF ks(1) assms(2)]] by simp
qed

text \<open>What a run of \<^verbatim>\<open>DeleteOldRequests\<close> may delete, and what it leaves when it succeeds.\<close>

definition oldRequestKeys :: "('d, 'm) ctx \<Rightarrow> key set" where
  "oldRequestKeys c =
     (\<Union>b. selectedKeys (oldRequestsQuery (printable c) b (now c - 2 * Minute)) c)
     \<union> selectedKeys (oldOfKindQuery responseKind (now c - 2 * Minute)) c
     \<union> selectedKeys (oldOfKindQuery blobPartsKind (now c - 2 * Minute)) c"

definition recentBackendsQuery :: "time \<Rightarrow> query" where
  "recentBackendsQuery t =
     \<lparr>q_kind = backendTrackerKind, q_filter = LastSeenAfter (t - 1 * Hour), q_limit = None\<rparr>"

lemma listRecentBackends_complete:
  assumes "listRecentBackends c = Inr bs" and "services_ok c"
    and "committed c (trackerKey b) = Some (EBackendTracker \<lparr>LastSeen = t\<rparr>)" "micros (now c - Hour) < t"
  shows "b \<in> set bs"
proof -
  obtain ks where ks: "GetKeys c (recentBackendsQuery (now c)) = Inr ks" and bs: "bs = map key_name ks"
    using assms(1) by (auto simp: listRecentBackends_def recentBackendsQuery_def Let_def split: sum.splits)
  have "selectedKeys (recentBackendsQuery (now c)) c = set ks"
    by (rule GetKeys_complete [OF ks assms(2)]) (simp add: recentBackendsQuery_def)
  moreover have "trackerKey b \<in> selectedKeys (recentBackendsQuery (now c)) c"
    using assms(3,4) by (simp add: selectedKeys_def selects_def recentBackendsQuery_def trackerKey_def)
  ultimately show ?thesis by (force simp: bs trackerKey_def)
qed

lemma DeleteOldRequests_result:
  assumes "services_ok c"
  shows "\<exists>err c'. persistentStore_DeleteOldRequests c = Some (err, c')
    \<and> store_step {} (oldRequestKeys c) c c'
    \<and> (err = None \<longrightarrow>
        (\<forall>b t. committed c (trackerKey b) = Some (EBackendTracker \<lparr>LastSeen = t\<rparr>)
               \<and> micros (now c - Hour) < t \<longrightarrow>
           selectedKeys (oldRequestsQuery (printable c) b (now c - 2 * Minute)) c' = {})
        \<and> (card (selectedKeys (oldOfKindQuery responseKind (now c - 2 * Minute)) c) < multiOpSizeLimit
           \<longrightarrow> selectedKeys (oldOfKindQuery responseKind (now c - 2 * Minute)) c' = {}))"
proof (cases "listRecentBackends c")
  case (Inr bs)
  let ?t = "now c - 2 * Minute"
  let ?req = "\<lambda>b. oldRequestsQuery (printable c) b ?t"
  let ?resp = "oldOfKindQuery responseKind ?t" and ?part = "oldOfKindQuery blobPartsKind ?t"
  obtain e1 c1 where d: "deleteRequestsForBackends c bs ?t = Some (e1, c1)"
      "store_step {} (\<Union>b\<in>set bs. selectedKeys (?req b) c) c c1"
      "e1 = None \<longrightarrow> (\<forall>b \<in> set bs. selectedKeys (?req b) c1 = {})"
    using deleteRequestsForBackends_result [OF assms] by blast
  have s1: "store_step {} (oldRequestKeys c) c c1"
    by (rule store_step_mono [OF d(2)]) (auto simp: oldRequestKeys_def)
  show ?thesis
  proof (cases e1)
    case None
    have ok1: "services_ok c1" using store_step_same(3) [OF s1] assms by simp
    obtain e2 c2 where o2: "deleteOldOfKind c1 responseKind ?t = (e2, c2)" by fastforce
    note r2 = deleteOldOfKind_result [OF o2 ok1]
    have s2: "store_step {} (oldRequestKeys c) c c2"
      by (rule store_step_trans_same [OF s1 store_step_mono [OF r2(1)]])
        (use selectedKeys_shrink [OF s1 assms, of ?resp] in \<open>auto simp: oldRequestKeys_def\<close>)
    show ?thesis
    proof (cases e2)
      case e2: None
      have ok2: "services_ok c2" using store_step_same(3) [OF s2] assms by simp
      obtain e3 c3 where o3: "deleteOldOfKind c2 blobPartsKind ?t = (e3, c3)" by fastforce
      note r3 = deleteOldOfKind_result(1) [OF o3 ok2]
      have s3: "store_step {} (oldRequestKeys c) c c3"
        by (rule store_step_trans_same [OF s2 store_step_mono [OF r3]])
          (use selectedKeys_shrink [OF s2 assms, of ?part] in \<open>auto simp: oldRequestKeys_def\<close>)
      have sh: "selectedKeys q c3 \<subseteq> selectedKeys q c2" "selectedKeys q c2 \<subseteq> selectedKeys q c1"
          "selectedKeys q c1 \<subseteq> selectedKeys q c" for q
        using selectedKeys_shrink [OF r3 ok2] selectedKeys_shrink [OF r2(1) ok1]
          selectedKeys_shrink [OF s1 assms] by auto
      have "selectedKeys (?req b) c3 = {}"
        if "committed c (trackerKey b) = Some (EBackendTracker \<lparr>LastSeen = t\<rparr>)"
          "micros (now c - Hour) < t" for b t
        using listRecentBackends_complete [OF Inr assms that] d(3) None sh [of "?req b"] by blast
      moreover have "selectedKeys ?resp c3 = {}"
        if "card (selectedKeys ?resp c) < multiOpSizeLimit"
      proof -
        have "card (selectedKeys ?resp c1) \<le> card (selectedKeys ?resp c)"
          by (rule card_mono [OF finite_selectedKeys [OF assms] sh(3)])
        then have "selectedKeys ?resp c2 = {}" using r2(2) [OF e2] that by linarith
        then show ?thesis using sh(1) [of ?resp] by blast
      qed
      ultimately show ?thesis
        using Inr d(1) None o2 e2 o3 s3 by (auto simp: persistentStore_DeleteOldRequests_def Let_def)
    qed (use Inr d(1) None o2 s2 in \<open>simp add: persistentStore_DeleteOldRequests_def Let_def\<close>)
  qed (use Inr d(1) s1 in \<open>simp add: persistentStore_DeleteOldRequests_def Let_def\<close>)
qed (simp add: persistentStore_DeleteOldRequests_def Let_def)

end
