(* ===== verification/App_Store_Routing.thy ===== *)
theory App_Store_Routing
  imports App_Store_Delete
begin

text \<open>
  Routing: which backend serves a user and a path, and who may act as a backend. The nested scan
  of \<^verbatim>\<open>mostSpecificMatchingBackend\<close> is one fold over the pairs of a backend ID and a path
  prefix; its result is the first pair, in that order, with the longest matching prefix.
\<close>

section \<open>The most specific matching backend\<close>

definition candidates :: "Backend list \<Rightarrow> (string \<times> string) list" where
  "candidates backends = concat (map (\<lambda>b. map (Pair (be_BackendID b)) (be_PathPrefixes b)) backends)"

definition scanOne :: "string \<Rightarrow> string \<times> string \<Rightarrow> string \<times> string \<Rightarrow> string \<times> string" where
  "scanOne path st x =
     (if prefix (snd x) path \<and> (fst st = [] \<or> length (snd st) < length (snd x)) then x else st)"

lemma scanPrefixes_foldl: "scanPrefixes path b ps st = foldl (scanOne path) st (map (Pair b) ps)"
proof (induction ps arbitrary: st)
  case (Cons p ps)
  then show ?case by (cases st) (auto simp: scanOne_def)
qed simp

lemma scanBackends_foldl: "scanBackends path bs st = foldl (scanOne path) st (candidates bs)"
  by (induction bs arbitrary: st) (simp_all add: candidates_def scanPrefixes_foldl)

text \<open>\<open>x\<close> is the first of the longest matching candidates.\<close>

definition firstLongest :: "string \<Rightarrow> (string \<times> string) list \<Rightarrow> string \<times> string \<Rightarrow> bool" where
  "firstLongest path xs x \<longleftrightarrow>
     (\<exists>ys zs. xs = ys @ x # zs \<and> prefix (snd x) path
        \<and> (\<forall>y \<in> set ys. prefix (snd y) path \<longrightarrow> length (snd y) < length (snd x))
        \<and> (\<forall>z \<in> set zs. prefix (snd z) path \<longrightarrow> length (snd z) \<le> length (snd x)))"

lemma firstLongest_snoc:
  "firstLongest path xs x \<Longrightarrow> (prefix (snd y) path \<Longrightarrow> length (snd y) \<le> length (snd x)) \<Longrightarrow>
     firstLongest path (xs @ [y]) x"
  unfolding firstLongest_def by (elim exE conjE) (rule exI, rule exI [where x = "_ @ [y]"], auto)

lemma firstLongest_new:
  "prefix (snd y) path \<Longrightarrow> (\<And>z. z \<in> set xs \<Longrightarrow> prefix (snd z) path \<Longrightarrow> length (snd z) < length (snd y)) \<Longrightarrow>
     firstLongest path (xs @ [y]) y"
  unfolding firstLongest_def by (rule exI [where x = xs], rule exI [where x = "[]"]) auto

lemma firstLongest_bound:
  "firstLongest path xs x \<Longrightarrow> z \<in> set xs \<Longrightarrow> prefix (snd z) path \<Longrightarrow> length (snd z) \<le> length (snd x)"
  unfolding firstLongest_def by auto (meson less_imp_le)

lemma scan_firstLongest:
  assumes "\<And>x. x \<in> set xs \<Longrightarrow> fst x \<noteq> []"
  shows "(let st = foldl (scanOne path) ([], []) xs in
          if \<exists>x \<in> set xs. prefix (snd x) path then fst st \<noteq> [] \<and> firstLongest path xs st
          else st = ([], []))"
  using assms
proof (induction xs rule: rev_induct)
  case (snoc y xs)
  let ?st = "foldl (scanOne path) ([], []) xs"
  have y: "fst y \<noteq> []" using snoc.prems by simp
  have IH: "if \<exists>x \<in> set xs. prefix (snd x) path then fst ?st \<noteq> [] \<and> firstLongest path xs ?st
      else ?st = ([], [])"
    using snoc by (simp add: Let_def)
  show ?case
  proof (cases "\<exists>x \<in> set xs. prefix (snd x) path")
    case True
    with IH have st: "fst ?st \<noteq> []" "firstLongest path xs ?st" by auto
    show ?thesis
    proof (cases "prefix (snd y) path \<and> length (snd ?st) < length (snd y)")
      case longer: True
      have "firstLongest path (xs @ [y]) y"
        by (rule firstLongest_new) (use longer firstLongest_bound [OF st(2)] in fastforce)+
      moreover have "scanOne path ?st y = y" using longer by (simp add: scanOne_def)
      ultimately show ?thesis using longer y by (simp add: Let_def)
    next
      case False
      have "firstLongest path (xs @ [y]) ?st"
        by (rule firstLongest_snoc [OF st(2)]) (use False in auto)
      moreover have "scanOne path ?st y = ?st" using False st(1) by (auto simp: scanOne_def)
      ultimately show ?thesis using True st(1) by (simp add: Let_def)
    qed
  next
    case False
    with IH have st: "?st = ([], [])" by simp
    have "prefix (snd y) path \<Longrightarrow> firstLongest path (xs @ [y]) y"
      by (rule firstLongest_new) (use False in auto)
    moreover have "scanOne path ?st y = (if prefix (snd y) path then y else ([], []))"
      by (simp add: scanOne_def st)
    ultimately show ?thesis using False y by (simp add: Let_def)
  qed
qed simp

lemma in_candidates: "x \<in> set (candidates bs) \<longleftrightarrow> (\<exists>b \<in> set bs. fst x = be_BackendID b \<and> snd x \<in> set (be_PathPrefixes b))"
  by (cases x) (auto simp: candidates_def)

lemma mostSpecific_spec:
  assumes "\<And>b. b \<in> set bs \<Longrightarrow> be_BackendID b \<noteq> []"
  shows "mostSpecificMatchingBackend P path bs = Inr i \<Longrightarrow>
           \<exists>p. firstLongest path (candidates bs) (i, p)"
    and "(\<exists>e. mostSpecificMatchingBackend P path bs = Inl e) \<longleftrightarrow>
           (\<forall>b \<in> set bs. \<forall>p \<in> set (be_PathPrefixes b). \<not> prefix p path)"
proof -
  let ?st = "foldl (scanOne path) ([], []) (candidates bs)"
  have scan: "if \<exists>x \<in> set (candidates bs). prefix (snd x) path
      then fst ?st \<noteq> [] \<and> firstLongest path (candidates bs) ?st else ?st = ([], [])"
  proof -
    have "fst x \<noteq> []" if "x \<in> set (candidates bs)" for x
      using that assms by (metis in_candidates)
    then show ?thesis using scan_firstLongest [of "candidates bs" path] by (simp add: Let_def)
  qed
  have most: "mostSpecificMatchingBackend P path bs =
      (if fst ?st = [] then Inl (ErrMsg (''Found no matching backends for '' @ Quote P path))
       else Inr (fst ?st))"
    by (simp add: mostSpecificMatchingBackend_def scanBackends_foldl split: prod.split)
  show "\<exists>p. firstLongest path (candidates bs) (i, p)"
    if "mostSpecificMatchingBackend P path bs = Inr i"
  proof -
    have i: "fst ?st = i" "fst ?st \<noteq> []" using that most by (auto split: if_splits)
    then have "firstLongest path (candidates bs) ?st" using scan by (auto split: if_splits)
    with i(1) show ?thesis by (metis prod.collapse)
  qed
  have "(\<exists>e. mostSpecificMatchingBackend P path bs = Inl e) \<longleftrightarrow> fst ?st = []"
    by (simp add: most)
  also have "\<dots> \<longleftrightarrow> \<not> (\<exists>x \<in> set (candidates bs). prefix (snd x) path)"
    using scan by (auto split: if_splits)
  also have "\<dots> \<longleftrightarrow> (\<forall>b \<in> set bs. \<forall>p \<in> set (be_PathPrefixes b). \<not> prefix p path)"
    by (force simp: in_candidates candidates_def)
  finally show "(\<exists>e. mostSpecificMatchingBackend P path bs = Inl e) \<longleftrightarrow>
      (\<forall>b \<in> set bs. \<forall>p \<in> set (be_PathPrefixes b). \<not> prefix p path)" .
qed

text \<open>Whatever the IDs are, the result is the nonempty ID of a backend with a matching prefix.\<close>

lemma scan_member:
  "foldl (scanOne path) ([], []) xs = st \<Longrightarrow> fst st \<noteq> [] \<Longrightarrow> st \<in> set xs \<and> prefix (snd st) path"
proof (induction xs arbitrary: st rule: rev_induct)
  case (snoc y xs)
  then show ?case by (auto simp: scanOne_def split: if_splits)
qed simp

lemma mostSpecific_member:
  assumes "mostSpecificMatchingBackend P path bs = Inr i"
  shows "i \<noteq> []" and "\<exists>b \<in> set bs. be_BackendID b = i \<and> (\<exists>p \<in> set (be_PathPrefixes b). prefix p path)"
proof -
  let ?st = "foldl (scanOne path) ([], []) (candidates bs)"
  have i: "i = fst ?st" "i \<noteq> []"
    using assms by (auto simp: mostSpecificMatchingBackend_def scanBackends_foldl split: prod.splits if_splits)
  then show "i \<noteq> []" by simp
  have "?st \<in> set (candidates bs) \<and> prefix (snd ?st) path"
    using scan_member [of path "candidates bs" ?st] i by simp
  then show "\<exists>b \<in> set bs. be_BackendID b = i \<and> (\<exists>p \<in> set (be_PathPrefixes b). prefix p path)"
    using i(1) by (auto simp: in_candidates)
qed

section \<open>Lookup\<close>

lemma GetAllAs_Inr:
  assumes "GetAllAs c asBackend q = Inr bs" and "services_ok c" and "q_limit q = None"
  shows "b \<in> set bs \<longleftrightarrow> (\<exists>k. committed c k = Some (EBackend b) \<and> selects q k (EBackend b))"
    and "k \<in> selectedKeys q c \<Longrightarrow> \<exists>b. committed c k = Some (EBackend b)"
proof -
  obtain rows where rows: "GetAll c q = Inr rows" "loadAll asBackend (map snd rows) = Inr bs"
    using assms(1) by (auto simp: GetAllAs_def split: sum.splits)
  have snds: "map snd rows = map EBackend bs"
    using rows(2) by (auto simp: loadAll_eq_Inr list_eq_iff_nth_eq asBackend_eq_Some)
  have row: "(k, e) \<in> set rows \<longleftrightarrow> committed c k = Some e \<and> selects q k e" for k e
  proof
    show "committed c k = Some e \<and> selects q k e" if "(k, e) \<in> set rows"
      by (rule GetAll_sound(2) [OF assms(2) rows(1) that])
    show "(k, e) \<in> set rows" if "committed c k = Some e \<and> selects q k e"
      by (rule GetAll_complete [OF assms(2) rows(1)]) (use assms(3) that in auto)
  qed
  have "b \<in> set bs \<longleftrightarrow> EBackend b \<in> set (map snd rows)"
    by (auto simp: snds)
  then show "b \<in> set bs \<longleftrightarrow> (\<exists>k. committed c k = Some (EBackend b) \<and> selects q k (EBackend b))"
    unfolding set_map image_iff using row by (metis prod.collapse snd_conv)
  assume "k \<in> selectedKeys q c"
  then obtain e where "(k, e) \<in> set rows" by (auto simp: selectedKeys_def row)
  moreover from this have "e \<in> set (map EBackend bs)" by (force simp: snds [symmetric])
  ultimately show "\<exists>b. committed c k = Some (EBackend b)" by (auto simp: row)
qed

definition backendRecord :: "('d, 'm) ctx \<Rightarrow> string \<Rightarrow> Backend option" where
  "backendRecord c i = (case committed c (backendKey i) of Some (EBackend b) \<Rightarrow> Some b | _ \<Rightarrow> None)"

lemma backendRecord_eq_Some: "backendRecord c i = Some b \<longleftrightarrow> committed c (backendKey i) = Some (EBackend b)"
  by (auto simp: backendRecord_def split: option.splits entity.splits)

lemma queryBackendsFor_Inr:
  assumes "queryBackendsFor c u = Inr bs" and "store_inv c"
  shows "set bs = {b. backendRecord c (be_BackendID b) = Some b \<and> be_EndUser b = u}"
proof -
  have "b \<in> set bs \<longleftrightarrow> (\<exists>k. committed c k = Some (EBackend b) \<and> key_kind k = backendKind \<and> be_EndUser b = u)" for b
    using GetAllAs_Inr(1) [OF assms(1) [unfolded queryBackendsFor_def] store_invD(1) [OF assms(2)]]
    by (simp add: selects_def)
  moreover have "k = backendKey (be_BackendID b)" if "committed c k = Some (EBackend b)" for k b
    using store_invD(2) [OF assms(2) that] by simp
  ultimately show ?thesis
    by (auto simp: backendRecord_eq_Some backendKey_def) (metis key.sel(1))
qed

lemma hasBackend_seen:
  assumes "hasBackend c i d" and "services_ok c"
  shows "\<exists>t. committed c (trackerKey i) = Some (EBackendTracker t) \<and> now c - LastSeen t < d"
  using assms(1) Get_committed(1) [OF assms(2)]
  by (auto simp: hasBackend_def backendLastSeen_def split: option.splits sum.splits entity.splits)

text \<open>What a successful lookup promises of the backend it names, for the users it searched for.\<close>

definition routable :: "('d, 'm) ctx \<Rightarrow> string \<Rightarrow> string \<Rightarrow> string \<Rightarrow> bool" where
  "routable c u path i \<longleftrightarrow>
     (\<exists>b. backendRecord c i = Some b \<and> be_BackendID b = i \<and> be_EndUser b = u
        \<and> (\<exists>p \<in> set (be_PathPrefixes b). prefix p path))
   \<and> (\<exists>t. committed c (trackerKey i) = Some (EBackendTracker t) \<and> now c - LastSeen t < backendTimeout)"

lemma routableI:
  assumes "queryBackendsFor c u = Inr bs" and "mostSpecificMatchingBackend P path bs = Inr i"
    and "hasBackend c i backendTimeout" and "store_inv c"
  shows "routable c u path i"
  using mostSpecific_member(2) [OF assms(2)] queryBackendsFor_Inr [OF assms(1,4)]
    hasBackend_seen [OF assms(3) store_invD(1) [OF assms(4)]]
  by (auto simp: routable_def)

definition userHasMatch :: "('d, 'm) ctx \<Rightarrow> string \<Rightarrow> string \<Rightarrow> bool" where
  "userHasMatch c u path \<longleftrightarrow>
     (\<exists>b. backendRecord c (be_BackendID b) = Some b \<and> be_EndUser b = u
        \<and> (\<exists>p \<in> set (be_PathPrefixes b). prefix p path))"

lemma userHasMatch_iff:
  assumes "queryBackendsFor c u = Inr bs" and "store_inv c"
    and "\<And>b. backendRecord c (be_BackendID b) = Some b \<Longrightarrow> be_BackendID b \<noteq> []"
  shows "(\<exists>i. mostSpecificMatchingBackend P path bs = Inr i) \<longleftrightarrow> userHasMatch c u path"
proof -
  have bs: "set bs = {b. backendRecord c (be_BackendID b) = Some b \<and> be_EndUser b = u}"
    by (rule queryBackendsFor_Inr [OF assms(1,2)])
  have "(\<exists>e. mostSpecificMatchingBackend P path bs = Inl e) \<longleftrightarrow>
      (\<forall>b \<in> set bs. \<forall>p \<in> set (be_PathPrefixes b). \<not> prefix p path)"
    by (rule mostSpecific_spec(2)) (use bs assms(3) in simp)
  moreover have "(\<exists>i. mostSpecificMatchingBackend P path bs = Inr i) \<longleftrightarrow>
      \<not> (\<exists>e. mostSpecificMatchingBackend P path bs = Inl e)"
    by (cases "mostSpecificMatchingBackend P path bs") auto
  ultimately show ?thesis by (auto simp: bs userHasMatch_def)
qed

section \<open>Authorization\<close>

lemma IsBackendUserAllowed_answer:
  assumes "store_inv c" and "persistentStore_IsBackendUserAllowed c u i = Inr a"
  shows "a \<longleftrightarrow> (\<exists>b. backendRecord c i = Some b \<and> be_BackendUser b = u)"
  using assms(2) Get_committed [OF store_invD(1) [OF assms(1)], of "backendKey i"]
  by (auto simp: persistentStore_IsBackendUserAllowed_def backendRecord_eq_Some asBackend_eq_Some
      split: sum.splits if_splits option.splits)

end
