(* ===== verification/App_Cache.thy ===== *)
theory App_Cache
  imports App_Services
begin

text \<open>
  The caching store, \<^verbatim>\<open>app/cache/cache.go\<close>: a \<^verbatim>\<open>Store\<close> over any backing
  \<^verbatim>\<open>Store\<close> that keeps copies of requests and responses in Memcache, and the keys under which
  it and the proxy keep items there. \<^verbatim>\<open>Gob.Get\<close> fails on a miss and on an item of another
  type; both fall through to the backing store.
\<close>

section \<open>Keys\<close>

definition cacheEntrySizeLimit :: nat where
  "cacheEntrySizeLimit = 1000000"

definition memcacheRequestKey :: "(nat \<Rightarrow> bool) \<Rightarrow> string \<Rightarrow> string \<Rightarrow> string" where
  "memcacheRequestKey P backendID requestID =
     ''r:'' @ Quote P backendID @ '':'' @ Quote P requestID"

definition memcacheResponseKey :: "(nat \<Rightarrow> bool) \<Rightarrow> string \<Rightarrow> string \<Rightarrow> string" where
  "memcacheResponseKey P backendID requestID =
     ''resp:'' @ Quote P backendID @ '':'' @ Quote P requestID"

lemma Quote_pair_inject:
  "Quote P a @ '':'' @ Quote P b = Quote P a' @ '':'' @ Quote P b' \<longleftrightarrow> a = a' \<and> b = b'"
  using Quote_append_inj [of P a _ a'] by auto

lemma memcacheRequestKey_inject [simp]:
  "memcacheRequestKey P b r = memcacheRequestKey P b' r' \<longleftrightarrow> b = b' \<and> r = r'"
  using Quote_pair_inject [of P b r b' r'] by (simp add: memcacheRequestKey_def)

lemma memcacheResponseKey_inject [simp]:
  "memcacheResponseKey P b r = memcacheResponseKey P b' r' \<longleftrightarrow> b = b' \<and> r = r'"
  using Quote_pair_inject [of P b r b' r'] by (simp add: memcacheResponseKey_def)

lemma memcacheKeys_disjoint [simp]:
  "memcacheRequestKey P b r \<noteq> memcacheResponseKey P b' r'"
  "memcacheResponseKey P b' r' \<noteq> memcacheRequestKey P b r"
  "memcacheRequestKey P b r \<noteq> CHR ''c'' # k" "CHR ''c'' # k \<noteq> memcacheRequestKey P b r"
  "memcacheResponseKey P b r \<noteq> CHR ''c'' # k" "CHR ''c'' # k \<noteq> memcacheResponseKey P b r"
  by (simp_all add: memcacheRequestKey_def memcacheResponseKey_def)

section \<open>The store\<close>

definition cachingStore_WriteRequest ::
  "('d, 'm) ctx Store \<Rightarrow> ('d, 'm) ctx \<Rightarrow> Request \<Rightarrow> error option \<times> ('d, 'm) ctx" where
  "cachingStore_WriteRequest BackingStore c r =
     (let c1 = (if length (req_Contents r) < cacheEntrySizeLimit
                then snd (CacheSet c (memcacheRequestKey (printable c) (req_BackendID r) (req_RequestID r))
                            (GobRequest r))
                else c)
      in WriteRequest BackingStore c1 r)"

definition cachingStore_ReadRequest ::
  "('d, 'm) ctx Store \<Rightarrow> ('d, 'm) ctx \<Rightarrow> string \<Rightarrow> string \<Rightarrow> error + Request" where
  "cachingStore_ReadRequest BackingStore c backendID requestID =
     (case CacheGet c (memcacheRequestKey (printable c) backendID requestID) of
        Inr (GobRequest r) \<Rightarrow> Inr r
      | _ \<Rightarrow> ReadRequest BackingStore c backendID requestID)"

definition cachingStore_WriteResponse ::
  "('d, 'm) ctx Store \<Rightarrow> ('d, 'm) ctx \<Rightarrow> Response \<Rightarrow> error option \<times> ('d, 'm) ctx" where
  "cachingStore_WriteResponse BackingStore c r =
     (let c1 = (if length (resp_Contents r) < cacheEntrySizeLimit
                then snd (CacheSet c (memcacheResponseKey (printable c) (resp_BackendID r) (resp_RequestID r))
                            (GobResponse r))
                else c)
      in WriteResponse BackingStore c1 r)"

definition cachingStore_ReadResponse ::
  "('d, 'm) ctx Store \<Rightarrow> ('d, 'm) ctx \<Rightarrow> string \<Rightarrow> string \<Rightarrow> error + Response" where
  "cachingStore_ReadResponse BackingStore c backendID requestID =
     (case CacheGet c (memcacheResponseKey (printable c) backendID requestID) of
        Inr (GobResponse r) \<Rightarrow> Inr r
      | _ \<Rightarrow> ReadResponse BackingStore c backendID requestID)"

definition NewCachingStore :: "('d, 'm) ctx Store \<Rightarrow> ('d, 'm) ctx Store" where
  "NewCachingStore s =
     \<lparr>WriteRequest = cachingStore_WriteRequest s,
      ReadRequest = cachingStore_ReadRequest s,
      ListPendingRequests = (\<lambda>c backendID. ListPendingRequests s c backendID),
      WriteResponse = cachingStore_WriteResponse s,
      ReadResponse = cachingStore_ReadResponse s,
      DeleteOldBackends = (\<lambda>c. DeleteOldBackends s c),
      DeleteOldRequests = (\<lambda>c. DeleteOldRequests s c),
      AddBackend = (\<lambda>c backend. AddBackend s c backend),
      ListBackends = (\<lambda>c. ListBackends s c),
      DeleteBackend = (\<lambda>c backendID. DeleteBackend s c backendID),
      LookupBackend = (\<lambda>c endUser path. LookupBackend s c endUser path),
      IsBackendUserAllowed = (\<lambda>c backendUser backendID. IsBackendUserAllowed s c backendUser backendID)\<rparr>"

end
