(* ===== verification/App_Store_Interface.thy ===== *)
theory App_Store_Interface
  imports App_Cache
begin

text \<open>
  The contract of the \<^verbatim>\<open>Store\<close> interface, as the proxy relies on it. The operations of
  concurrent handlers reach the store as one interleaved sequence of \<open>store_op\<close>; \<open>exec_ops\<close>
  runs such a sequence. The locale \<open>request_store\<close> says which requests and responses a read
  may return: those successfully written under the same request ID. \<open>authoritative_store\<close>
  adds that nothing written is lost while nobody deletes, and \<open>cacheable_store\<close> that the
  store keeps off the Memcache, so that the caching store over it is a \<open>request_store\<close> again.
\<close>

section \<open>Operations and their interleavings\<close>

text \<open>
  \<open>OpCacheResponse\<close> is the proxy's own Memcache write (\<^verbatim>\<open>cacheResponse\<close>, under a key that
  begins with \<^verbatim>\<open>cache:\<close>), \<open>OpTick\<close> the passing of time.
\<close>

datatype store_op =
    OpWriteRequest Request
  | OpListPendingRequests string
  | OpWriteResponse Response
  | OpDeleteOldBackends
  | OpDeleteOldRequests
  | OpAddBackend Backend
  | OpDeleteBackend string
  | OpCacheResponse string bytes
  | OpTick nat

fun exec_op ::
  "('d, 'm) ctx Store \<Rightarrow> store_op \<Rightarrow> ('d, 'm) ctx \<Rightarrow> (error option \<times> ('d, 'm) ctx) option" where
  "exec_op S (OpWriteRequest r) c = Some (WriteRequest S c r)"
| "exec_op S (OpListPendingRequests b) c =
     (case ListPendingRequests S c b of
        (Inl err, c') \<Rightarrow> Some (Some err, c') | (Inr _, c') \<Rightarrow> Some (None, c'))"
| "exec_op S (OpWriteResponse r) c = Some (WriteResponse S c r)"
| "exec_op S OpDeleteOldBackends c = DeleteOldBackends S c"
| "exec_op S OpDeleteOldRequests c = DeleteOldRequests S c"
| "exec_op S (OpAddBackend b) c = Some (AddBackend S c b)"
| "exec_op S (OpDeleteBackend b) c = DeleteBackend S c b"
| "exec_op S (OpCacheResponse k bs) c = Some (CacheSet c (''cache:'' @ k) (RawBytes bs))"
| "exec_op S (OpTick n) c = Some (None, c\<lparr>now := now c + int n\<rparr>)"

fun exec_ops ::
  "('d, 'm) ctx Store \<Rightarrow> store_op list \<Rightarrow> ('d, 'm) ctx \<Rightarrow> (error option list \<times> ('d, 'm) ctx) option" where
  "exec_ops S [] c = Some ([], c)"
| "exec_ops S (op # ops) c =
     (case exec_op S op c of
        None \<Rightarrow> None
      | Some (err, c1) \<Rightarrow>
          (case exec_ops S ops c1 of None \<Rightarrow> None | Some (errs, c2) \<Rightarrow> Some (err # errs, c2)))"

fun requestWrite :: "store_op \<Rightarrow> Request option" where
  "requestWrite (OpWriteRequest r) = Some r"
| "requestWrite _ = None"

fun responseWrite :: "store_op \<Rightarrow> Response option" where
  "responseWrite (OpWriteResponse r) = Some r"
| "responseWrite _ = None"

definition writesRequest :: "string \<Rightarrow> store_op \<Rightarrow> bool" where
  "writesRequest rid op = (\<exists>r. requestWrite op = Some r \<and> req_RequestID r = rid)"

definition writesResponse :: "string \<Rightarrow> store_op \<Rightarrow> bool" where
  "writesResponse rid op = (\<exists>r. responseWrite op = Some r \<and> resp_RequestID r = rid)"

lemma writes_simps [simp]:
  "writesRequest rid (OpWriteRequest r) = (req_RequestID r = rid)"
  "\<not> writesRequest rid (OpListPendingRequests b)" "\<not> writesRequest rid (OpWriteResponse w)"
  "\<not> writesRequest rid OpDeleteOldBackends" "\<not> writesRequest rid OpDeleteOldRequests"
  "\<not> writesRequest rid (OpAddBackend be)" "\<not> writesRequest rid (OpDeleteBackend b)"
  "\<not> writesRequest rid (OpCacheResponse k bs)" "\<not> writesRequest rid (OpTick n)"
  "writesResponse rid (OpWriteResponse w) = (resp_RequestID w = rid)"
  "\<not> writesResponse rid (OpListPendingRequests b)" "\<not> writesResponse rid (OpWriteRequest r)"
  "\<not> writesResponse rid OpDeleteOldBackends" "\<not> writesResponse rid OpDeleteOldRequests"
  "\<not> writesResponse rid (OpAddBackend be)" "\<not> writesResponse rid (OpDeleteBackend b)"
  "\<not> writesResponse rid (OpCacheResponse k bs)" "\<not> writesResponse rid (OpTick n)"
  by (simp_all add: writesRequest_def writesResponse_def)

fun isDelete :: "store_op \<Rightarrow> bool" where
  "isDelete OpDeleteOldBackends = True"
| "isDelete OpDeleteOldRequests = True"
| "isDelete (OpDeleteBackend b) = True"
| "isDelete _ = False"

text \<open>The values the sequence writes under a request ID, and that each of these writes succeeds.\<close>

definition requestWrites :: "string \<Rightarrow> store_op list \<Rightarrow> Request set" where
  "requestWrites rid ops = {canonRequest r |r. OpWriteRequest r \<in> set ops \<and> req_RequestID r = rid}"

definition responseWrites :: "string \<Rightarrow> store_op list \<Rightarrow> Response set" where
  "responseWrites rid ops = {canonResponse r |r. OpWriteResponse r \<in> set ops \<and> resp_RequestID r = rid}"

definition allSucceed :: "(store_op \<Rightarrow> bool) \<Rightarrow> store_op list \<Rightarrow> error option list \<Rightarrow> bool" where
  "allSucceed P ops errs \<longleftrightarrow> list_all2 (\<lambda>op err. P op \<longrightarrow> err = None) ops errs"

lemma exec_ops_Cons:
  "exec_ops S (op # ops) c = Some (errs, c') \<longleftrightarrow>
     (\<exists>err c1 es. exec_op S op c = Some (err, c1) \<and> exec_ops S ops c1 = Some (es, c') \<and> errs = err # es)"
  by (auto split: option.splits)

lemma exec_ops_append:
  "exec_ops S (ops @ ops') c =
     (case exec_ops S ops c of
        None \<Rightarrow> None
      | Some (es, c1) \<Rightarrow> (case exec_ops S ops' c1 of None \<Rightarrow> None | Some (es', c2) \<Rightarrow> Some (es @ es', c2)))"
  by (induction ops arbitrary: c) (auto split: option.split)

section \<open>The contract\<close>

locale request_store =
  fixes S :: "('d, 'm) ctx Store"
    and invar :: "('d, 'm) ctx \<Rightarrow> bool"
    and reqs :: "('d, 'm) ctx \<Rightarrow> string \<Rightarrow> string \<Rightarrow> Request set"
    and resps :: "('d, 'm) ctx \<Rightarrow> string \<Rightarrow> Response set"
  assumes exec_total: "invar c \<Longrightarrow> \<exists>err c'. exec_op S op c = Some (err, c')"
    and exec_invar: "invar c \<Longrightarrow> exec_op S op c = Some (err, c') \<Longrightarrow> invar c'"
    and exec_time: "invar c \<Longrightarrow> exec_op S op c = Some (err, c') \<Longrightarrow> now c \<le> now c'"
    and read_request: "invar c \<Longrightarrow> ReadRequest S c b rid = Inr r \<Longrightarrow> canonRequest r \<in> reqs c b rid"
    and read_response: "invar c \<Longrightarrow> ReadResponse S c b rid = Inr w \<Longrightarrow> canonResponse w \<in> resps c rid"
    and reqs_frame: "invar c \<Longrightarrow> exec_op S op c = Some (err, c') \<Longrightarrow> \<not> writesRequest rid op \<Longrightarrow>
          reqs c' b rid \<subseteq> reqs c b rid"
    and resps_frame: "invar c \<Longrightarrow> exec_op S op c = Some (err, c') \<Longrightarrow> \<not> writesResponse rid op \<Longrightarrow>
          resps c' rid \<subseteq> resps c rid"
    and write_request: "invar c \<Longrightarrow> exec_op S (OpWriteRequest r) c = Some (None, c') \<Longrightarrow>
          reqs c' (req_BackendID r) (req_RequestID r)
          \<subseteq> insert (canonRequest r) (reqs c (req_BackendID r) (req_RequestID r))"
    and write_response: "invar c \<Longrightarrow> exec_op S (OpWriteResponse w) c = Some (None, c') \<Longrightarrow>
          resps c' (resp_RequestID w) \<subseteq> insert (canonResponse w) (resps c (resp_RequestID w))"
begin

lemma exec_ops_total: "invar c \<Longrightarrow> \<exists>errs c'. exec_ops S ops c = Some (errs, c') \<and> invar c'"
proof (induction ops arbitrary: c)
  case (Cons op ops)
  obtain err c1 where e: "exec_op S op c = Some (err, c1)" using exec_total [OF Cons.prems] by blast
  show ?case using Cons.IH [OF exec_invar [OF Cons.prems e]] e by auto
qed simp

lemma exec_ops_invar: "invar c \<Longrightarrow> exec_ops S ops c = Some (errs, c') \<Longrightarrow> invar c'"
  using exec_ops_total [of c ops] by auto

lemma exec_ops_time: "invar c \<Longrightarrow> exec_ops S ops c = Some (errs, c') \<Longrightarrow> now c \<le> now c'"
proof (induction ops arbitrary: c errs)
  case (Cons op ops)
  then obtain err c1 es where s: "exec_op S op c = Some (err, c1)" "exec_ops S ops c1 = Some (es, c')"
    by (auto simp only: exec_ops_Cons)
  show ?case
    using exec_time [OF Cons.prems(1) s(1)] Cons.IH [OF exec_invar [OF Cons.prems(1) s(1)] s(2)] by simp
qed simp

lemma exec_ops_responses:
  assumes "invar c" and "exec_ops S ops c = Some (errs, c')"
    and "allSucceed (writesResponse rid) ops errs"
  shows "resps c' rid \<subseteq> resps c rid \<union> responseWrites rid ops"
  using assms
proof (induction ops arbitrary: c errs)
  case (Cons op ops)
  obtain err c1 es where s: "exec_op S op c = Some (err, c1)" "exec_ops S ops c1 = Some (es, c')"
      "errs = err # es"
    using Cons.prems(2) by (auto simp only: exec_ops_Cons)
  have IH: "resps c' rid \<subseteq> resps c1 rid \<union> responseWrites rid ops"
    using Cons.IH [OF exec_invar [OF Cons.prems(1) s(1)] s(2)] Cons.prems(3)
    by (simp add: allSucceed_def s(3))
  have "resps c1 rid \<subseteq> resps c rid \<union> responseWrites rid [op]"
  proof (cases "writesResponse rid op")
    case True
    then obtain w where w: "op = OpWriteResponse w" "resp_RequestID w = rid"
      by (cases op) auto
    moreover have "err = None" using Cons.prems(3) True by (simp add: allSucceed_def s(3))
    ultimately show ?thesis
      using write_response [OF Cons.prems(1)] s(1) by (force simp: responseWrites_def)
  qed (use resps_frame [OF Cons.prems(1) s(1)] in blast)
  with IH show ?case by (auto simp: responseWrites_def)
qed (simp add: responseWrites_def)

lemma exec_ops_requests:
  assumes "invar c" and "exec_ops S ops c = Some (errs, c')"
    and "allSucceed (writesRequest rid) ops errs"
    and "\<And>r. OpWriteRequest r \<in> set ops \<Longrightarrow> req_RequestID r = rid \<Longrightarrow> req_BackendID r = b"
  shows "reqs c' b rid \<subseteq> reqs c b rid \<union> requestWrites rid ops"
  using assms
proof (induction ops arbitrary: c errs)
  case (Cons op ops)
  obtain err c1 es where s: "exec_op S op c = Some (err, c1)" "exec_ops S ops c1 = Some (es, c')"
      "errs = err # es"
    using Cons.prems(2) by (auto simp only: exec_ops_Cons)
  have IH: "reqs c' b rid \<subseteq> reqs c1 b rid \<union> requestWrites rid ops"
    using Cons.IH [OF exec_invar [OF Cons.prems(1) s(1)] s(2)] Cons.prems(3,4)
    by (simp add: allSucceed_def s(3))
  have "reqs c1 b rid \<subseteq> reqs c b rid \<union> requestWrites rid [op]"
  proof (cases "writesRequest rid op")
    case True
    then obtain r where r: "op = OpWriteRequest r" "req_RequestID r = rid"
      by (cases op) auto
    moreover have "req_BackendID r = b" using Cons.prems(4) r by simp
    moreover have "err = None" using Cons.prems(3) True by (simp add: allSucceed_def s(3))
    ultimately show ?thesis
      using write_request [OF Cons.prems(1)] s(1) by (force simp: requestWrites_def)
  qed (use reqs_frame [OF Cons.prems(1) s(1)] in blast)
  with IH show ?case by (auto simp: requestWrites_def)
qed (simp add: requestWrites_def)

text \<open>
  Integrity: a response that is read was written under the same request ID, by this sequence of
  operations or before it.
\<close>

lemma responses_from_writes:
  assumes "invar c" and "exec_ops S ops c = Some (errs, c')"
    and "allSucceed (writesResponse rid) ops errs" and "ReadResponse S c' b rid = Inr w"
  shows "canonResponse w \<in> resps c rid \<union> responseWrites rid ops"
  using exec_ops_responses [OF assms(1-3)] read_response [OF exec_ops_invar [OF assms(1,2)] assms(4)]
  by blast

lemma requests_from_writes:
  assumes "invar c" and "exec_ops S ops c = Some (errs, c')"
    and "allSucceed (writesRequest rid) ops errs" and "ReadRequest S c' b rid = Inr r"
    and "\<And>r. OpWriteRequest r \<in> set ops \<Longrightarrow> req_RequestID r = rid \<Longrightarrow> req_BackendID r = b"
  shows "canonRequest r \<in> reqs c b rid \<union> requestWrites rid ops"
  using exec_ops_requests [OF assms(1-3,5)] read_request [OF exec_ops_invar [OF assms(1,2)] assms(4)]
  by blast

end

locale authoritative_store = request_store +
  fixes avail :: "('d, 'm) ctx \<Rightarrow> bool"
  assumes request_written: "invar c \<Longrightarrow> exec_op S (OpWriteRequest r) c = Some (None, c') \<Longrightarrow>
          reqs c' (req_BackendID r) (req_RequestID r) = {canonRequest r}"
    and response_written: "invar c \<Longrightarrow> exec_op S (OpWriteResponse w) c = Some (None, c') \<Longrightarrow>
          resps c' (resp_RequestID w) = {canonResponse w}"
    and request_kept: "invar c \<Longrightarrow> exec_op S op c = Some (err, c') \<Longrightarrow> \<not> isDelete op \<Longrightarrow>
          \<not> writesRequest rid op \<Longrightarrow> reqs c' b rid = reqs c b rid"
    and response_kept: "invar c \<Longrightarrow> exec_op S op c = Some (err, c') \<Longrightarrow> \<not> isDelete op \<Longrightarrow>
          \<not> writesResponse rid op \<Longrightarrow> resps c' rid = resps c rid"
    and request_available: "invar c \<Longrightarrow> avail c \<Longrightarrow> q \<in> reqs c b rid \<Longrightarrow>
          \<exists>r. ReadRequest S c b rid = Inr r \<and> canonRequest r = q"
    and response_available: "invar c \<Longrightarrow> avail c \<Longrightarrow> p \<in> resps c rid \<Longrightarrow>
          \<exists>w. ReadResponse S c b rid = Inr w \<and> canonResponse w = p"
begin

lemma exec_ops_response_kept:
  assumes "invar c" and "exec_ops S ops c = Some (errs, c')"
    and "\<And>op. op \<in> set ops \<Longrightarrow> \<not> isDelete op \<and> \<not> writesResponse rid op"
  shows "resps c' rid = resps c rid"
  using assms
proof (induction ops arbitrary: c errs)
  case (Cons op ops)
  then show ?case
    by (auto simp only: exec_ops_Cons list.set intro: exec_invar) (metis exec_invar insert_iff response_kept)+
qed simp

lemma exec_ops_request_kept:
  assumes "invar c" and "exec_ops S ops c = Some (errs, c')"
    and "\<And>op. op \<in> set ops \<Longrightarrow> \<not> isDelete op \<and> \<not> writesRequest rid op"
  shows "reqs c' b rid = reqs c b rid"
  using assms
proof (induction ops arbitrary: c errs)
  case (Cons op ops)
  then show ?case
    by (auto simp only: exec_ops_Cons list.set intro: exec_invar) (metis exec_invar insert_iff request_kept)+
qed simp

text \<open>Nothing is lost: what was written is read back after any operations on other records.\<close>

lemma write_read_response:
  assumes "invar c" and "exec_ops S (OpWriteResponse w # ops) c = Some (None # errs, c')" and "avail c'"
    and "\<And>op. op \<in> set ops \<Longrightarrow> \<not> isDelete op \<and> \<not> writesResponse (resp_RequestID w) op"
  shows "\<exists>w'. ReadResponse S c' b (resp_RequestID w) = Inr w' \<and> canonResponse w' = canonResponse w"
proof -
  obtain c1 where s: "exec_op S (OpWriteResponse w) c = Some (None, c1)" "exec_ops S ops c1 = Some (errs, c')"
    using assms(2) by (auto simp only: exec_ops_Cons)
  have "resps c' (resp_RequestID w) = {canonResponse w}"
    using exec_ops_response_kept [OF exec_invar [OF assms(1) s(1)] s(2) assms(4)]
      response_written [OF assms(1) s(1)] by simp
  then show ?thesis
    using response_available [OF exec_ops_invar [OF assms(1,2)] assms(3)] by blast
qed

lemma write_read_request:
  assumes "invar c" and "exec_ops S (OpWriteRequest r # ops) c = Some (None # errs, c')" and "avail c'"
    and "\<And>op. op \<in> set ops \<Longrightarrow> \<not> isDelete op \<and> \<not> writesRequest (req_RequestID r) op"
  shows "\<exists>r'. ReadRequest S c' (req_BackendID r) (req_RequestID r) = Inr r' \<and> canonRequest r' = canonRequest r"
proof -
  obtain c1 where s: "exec_op S (OpWriteRequest r) c = Some (None, c1)" "exec_ops S ops c1 = Some (errs, c')"
    using assms(2) by (auto simp only: exec_ops_Cons)
  have "reqs c' (req_BackendID r) (req_RequestID r) = {canonRequest r}"
    using exec_ops_request_kept [OF exec_invar [OF assms(1) s(1)] s(2) assms(4)]
      request_written [OF assms(1) s(1)] by simp
  then show ?thesis
    using request_available [OF exec_ops_invar [OF assms(1,2)] assms(3)] by blast
qed

end

end
