(* ===== verification/App_Cache_Correct.thy ===== *)
theory App_Cache_Correct
  imports App_Store_Interface
begin

text \<open>
  The caching store over any store that keeps off the Memcache: it satisfies the same contract,
  with the cached copies added to what a read may return. Every operation but the four on requests
  and responses is the backing store's.
\<close>

definition cachedRequests :: "('d, 'm) ctx \<Rightarrow> string \<Rightarrow> string \<Rightarrow> Request set" where
  "cachedRequests c b rid =
     {canonRequest r |r. cached c (memcacheRequestKey (printable c) b rid) = Some (GobRequest r)}"

definition cachedResponses :: "('d, 'm) ctx \<Rightarrow> string \<Rightarrow> Response set" where
  "cachedResponses c rid =
     {canonResponse w |w b. cached c (memcacheResponseKey (printable c) b rid) = Some (GobResponse w)}"

lemma CacheSet_mc: "\<exists>m. snd (CacheSet c k v) = c\<lparr>mc := m\<rparr>"
  by (auto simp: CacheSet_def split: prod.split)

lemma CacheSet_items:
  assumes "services_ok c" and "cached (snd (CacheSet c k v)) k' = Some v'"
  shows "k' = k \<and> v' = v \<or> cached c k' = Some v'"
  using CacheSet_effect [of c k v _ _ k' v'] assms by (cases "CacheSet c k v") auto

lemma printable_CacheSet [simp]: "printable (snd (CacheSet c k v)) = printable c"
  using CacheSet_mc [of c k v] by auto

text \<open>The context the backing store is called with.\<close>

definition cacheRequest :: "('d, 'm) ctx \<Rightarrow> Request \<Rightarrow> ('d, 'm) ctx" where
  "cacheRequest c r =
     (if length (req_Contents r) < cacheEntrySizeLimit
      then snd (CacheSet c (memcacheRequestKey (printable c) (req_BackendID r) (req_RequestID r)) (GobRequest r))
      else c)"

definition cacheTheResponse :: "('d, 'm) ctx \<Rightarrow> Response \<Rightarrow> ('d, 'm) ctx" where
  "cacheTheResponse c r =
     (if length (resp_Contents r) < cacheEntrySizeLimit
      then snd (CacheSet c (memcacheResponseKey (printable c) (resp_BackendID r) (resp_RequestID r)) (GobResponse r))
      else c)"

lemma cacheRequest_mc: "\<exists>m. cacheRequest c r = c\<lparr>mc := m\<rparr>"
proof (cases "length (req_Contents r) < cacheEntrySizeLimit")
  case False
  then have "cacheRequest c r = c\<lparr>mc := mc c\<rparr>" by (simp add: cacheRequest_def)
  then show ?thesis ..
qed (simp add: cacheRequest_def CacheSet_mc)

lemma cacheTheResponse_mc: "\<exists>m. cacheTheResponse c r = c\<lparr>mc := m\<rparr>"
proof (cases "length (resp_Contents r) < cacheEntrySizeLimit")
  case False
  then have "cacheTheResponse c r = c\<lparr>mc := mc c\<rparr>" by (simp add: cacheTheResponse_def)
  then show ?thesis ..
qed (simp add: cacheTheResponse_def CacheSet_mc)

lemma cacheRequest_items:
  assumes "services_ok c" and "cached (cacheRequest c r) k = Some v"
  shows "cached c k = Some v \<or>
     k = memcacheRequestKey (printable c) (req_BackendID r) (req_RequestID r) \<and> v = GobRequest r"
  using CacheSet_items [OF assms(1)] assms(2) by (force simp: cacheRequest_def split: if_splits)

lemma cacheTheResponse_items:
  assumes "services_ok c" and "cached (cacheTheResponse c r) k = Some v"
  shows "cached c k = Some v \<or>
     k = memcacheResponseKey (printable c) (resp_BackendID r) (resp_RequestID r) \<and> v = GobResponse r"
  using CacheSet_items [OF assms(1)] assms(2) by (force simp: cacheTheResponse_def split: if_splits)

lemma exec_caching:
  "exec_op (NewCachingStore S) (OpWriteRequest r) c = exec_op S (OpWriteRequest r) (cacheRequest c r)"
  "exec_op (NewCachingStore S) (OpWriteResponse w) c = exec_op S (OpWriteResponse w) (cacheTheResponse c w)"
  "requestWrite op = None \<Longrightarrow> responseWrite op = None \<Longrightarrow> exec_op (NewCachingStore S) op c = exec_op S op c"
  by (simp_all add: NewCachingStore_def cachingStore_WriteRequest_def cachingStore_WriteResponse_def
      cacheRequest_def cacheTheResponse_def Let_def)
    (cases op; simp)

locale cacheable_store = request_store +
  assumes invar_services: "invar c \<Longrightarrow> services_ok c"
    and invar_mc: "invar (c\<lparr>mc := m\<rparr>) = invar c"
    and reqs_mc: "reqs (c\<lparr>mc := m\<rparr>) b rid = reqs c b rid"
    and resps_mc: "resps (c\<lparr>mc := m\<rparr>) rid = resps c rid"
    and off_cache: "invar c \<Longrightarrow> exec_op S op c = Some (err, c') \<Longrightarrow>
          (\<And>k bs. op \<noteq> OpCacheResponse k bs) \<Longrightarrow> cached c' = cached c"
    and printable_kept: "invar c \<Longrightarrow> exec_op S op c = Some (err, c') \<Longrightarrow> printable c' = printable c"
begin

text \<open>Running an operation of the caching store is running the backing store's in a context with
  the same data, where the cache has at most the written value more.\<close>

lemma caching_step:
  assumes "invar c" and "exec_op (NewCachingStore S) op c = Some (err, c')"
  obtains c1 where "exec_op S op c1 = Some (err, c')" "invar c1"
      "\<And>b rid. reqs c1 b rid = reqs c b rid" "\<And>rid. resps c1 rid = resps c rid"
      "printable c1 = printable c" "now c1 = now c"
      "\<And>b rid. cachedRequests c' b rid \<subseteq> cachedRequests c b rid \<union>
         (case requestWrite op of Some r \<Rightarrow> if req_BackendID r = b \<and> req_RequestID r = rid then {canonRequest r} else {}
          | None \<Rightarrow> {})"
      "\<And>rid. cachedResponses c' rid \<subseteq> cachedResponses c rid \<union>
         (case responseWrite op of Some w \<Rightarrow> if resp_RequestID w = rid then {canonResponse w} else {} | None \<Rightarrow> {})"
proof (cases "requestWrite op")
  case (Some r)
  then have op: "op = OpWriteRequest r" by (cases op) auto
  obtain m where m: "cacheRequest c r = c\<lparr>mc := m\<rparr>" using cacheRequest_mc [of c r] ..
  have e: "exec_op S op (c\<lparr>mc := m\<rparr>) = Some (err, c')"
    using assms(2) unfolding op exec_caching m .
  have i: "invar (c\<lparr>mc := m\<rparr>)" using assms(1) invar_mc by simp
  have ca: "cached c' = cached (c\<lparr>mc := m\<rparr>)" "printable c' = printable c"
    using off_cache [OF i e] printable_kept [OF i e] by (simp_all add: op)
  have items: "cached c' k = Some v \<Longrightarrow> cached c k = Some v \<or>
     k = memcacheRequestKey (printable c) (req_BackendID r) (req_RequestID r) \<and> v = GobRequest r" for k v
    using cacheRequest_items [OF invar_services [OF assms(1)], of r k v] by (simp add: ca m)
  show thesis
    by (rule that [OF e i]) (auto simp: reqs_mc resps_mc op cachedRequests_def cachedResponses_def ca(2) dest!: items)
next
  case no_req: None
  show thesis
  proof (cases "responseWrite op")
    case (Some w)
    then have op: "op = OpWriteResponse w" by (cases op) auto
    obtain m where m: "cacheTheResponse c w = c\<lparr>mc := m\<rparr>" using cacheTheResponse_mc [of c w] ..
    have e: "exec_op S op (c\<lparr>mc := m\<rparr>) = Some (err, c')"
      using assms(2) unfolding op exec_caching m .
    have i: "invar (c\<lparr>mc := m\<rparr>)" using assms(1) invar_mc by simp
    have ca: "cached c' = cached (c\<lparr>mc := m\<rparr>)" "printable c' = printable c"
      using off_cache [OF i e] printable_kept [OF i e] by (simp_all add: op)
    have items: "cached c' k = Some v \<Longrightarrow> cached c k = Some v \<or>
       k = memcacheResponseKey (printable c) (resp_BackendID w) (resp_RequestID w) \<and> v = GobResponse w" for k v
      using cacheTheResponse_items [OF invar_services [OF assms(1)], of w k v] by (simp add: ca m)
    show thesis
      by (rule that [OF e i]) (auto simp: reqs_mc resps_mc op cachedRequests_def cachedResponses_def ca(2) dest!: items)
  next
    case None
    have e: "exec_op S op c = Some (err, c')"
      using assms(2) unfolding exec_caching(3) [OF no_req None] .
    have p: "printable c' = printable c" by (rule printable_kept [OF assms(1) e])
    have items: "cached c' k = Some v \<Longrightarrow> cached c k = Some v \<or> (\<exists>k' bs. k = CHR ''c'' # k' \<and> v = RawBytes bs)" for k v
    proof (cases "\<exists>k bs. op = OpCacheResponse k bs")
      case True
      then obtain k0 bs where "op = OpCacheResponse k0 bs" by blast
      then have c': "c' = snd (CacheSet c (''cache:'' @ k0) (RawBytes bs))" using e by simp
      show "cached c' k = Some v \<Longrightarrow> ?thesis"
        using CacheSet_items [OF invar_services [OF assms(1)], of "''cache:'' @ k0" "RawBytes bs" k v]
        by (auto simp: c')
    qed (use off_cache [OF assms(1) e] in auto)
    show thesis
      by (rule that [OF e assms(1)]) (auto simp: no_req None cachedRequests_def cachedResponses_def p dest!: items)
  qed
qed

text \<open>The laws of \<open>request_store\<close> for the caching store, one by one.\<close>

lemma caching_total: "invar c \<Longrightarrow> \<exists>err c'. exec_op (NewCachingStore S) op c = Some (err, c')"
proof (cases op)
  case (OpWriteRequest r)
  assume i: "invar c"
  obtain m where "cacheRequest c r = c\<lparr>mc := m\<rparr>" using cacheRequest_mc [of c r] ..
  then show ?thesis
    using exec_total [of "c\<lparr>mc := m\<rparr>" op] i unfolding OpWriteRequest exec_caching by (simp add: invar_mc)
next
  case (OpWriteResponse w)
  assume i: "invar c"
  obtain m where "cacheTheResponse c w = c\<lparr>mc := m\<rparr>" using cacheTheResponse_mc [of c w] ..
  then show ?thesis
    using exec_total [of "c\<lparr>mc := m\<rparr>" op] i unfolding OpWriteResponse exec_caching by (simp add: invar_mc)
qed (use exec_total [of c op] in \<open>simp_all only: exec_caching requestWrite.simps responseWrite.simps\<close>)

lemma caching_keeps:
  assumes "invar c" and "exec_op (NewCachingStore S) op c = Some (err, c')"
  shows "invar c'" and "now c \<le> now c'"
  using caching_step [OF assms] exec_invar exec_time by metis+

lemma caching_read_request:
  assumes "invar c" and "ReadRequest (NewCachingStore S) c b rid = Inr r"
  shows "canonRequest r \<in> reqs c b rid \<union> cachedRequests c b rid"
proof -
  consider "CacheGet c (memcacheRequestKey (printable c) b rid) = Inr (GobRequest r)" | "ReadRequest S c b rid = Inr r"
    using assms(2) by (auto simp: NewCachingStore_def cachingStore_ReadRequest_def split: sum.splits cacheValue.splits)
  then show ?thesis
    using CacheGet_cached [OF invar_services [OF assms(1)]] read_request [OF assms(1)]
    by cases (auto simp: cachedRequests_def)
qed

lemma caching_read_response:
  assumes "invar c" and "ReadResponse (NewCachingStore S) c b rid = Inr w"
  shows "canonResponse w \<in> resps c rid \<union> cachedResponses c rid"
proof -
  consider "CacheGet c (memcacheResponseKey (printable c) b rid) = Inr (GobResponse w)" | "ReadResponse S c b rid = Inr w"
    using assms(2) by (auto simp: NewCachingStore_def cachingStore_ReadResponse_def split: sum.splits cacheValue.splits)
  then show ?thesis
    using CacheGet_cached [OF invar_services [OF assms(1)]] read_response [OF assms(1)]
    by cases (fastforce simp: cachedResponses_def)+
qed

lemma caching_reqs_frame:
  assumes "invar c" and "exec_op (NewCachingStore S) op c = Some (err, c')" and "\<not> writesRequest rid op"
  shows "reqs c' b rid \<union> cachedRequests c' b rid \<subseteq> reqs c b rid \<union> cachedRequests c b rid"
proof (rule caching_step [OF assms(1,2)])
  fix c1 assume s: "exec_op S op c1 = Some (err, c')" "invar c1" "\<And>b rid. reqs c1 b rid = reqs c b rid"
    and ca: "\<And>b rid. cachedRequests c' b rid \<subseteq> cachedRequests c b rid \<union>
       (case requestWrite op of Some r \<Rightarrow> if req_BackendID r = b \<and> req_RequestID r = rid then {canonRequest r} else {}
        | None \<Rightarrow> {})"
  have "cachedRequests c' b rid \<subseteq> cachedRequests c b rid"
    using ca [of b rid] assms(3) by (auto simp: writesRequest_def split: option.splits if_splits)
  then show ?thesis using reqs_frame [OF s(2,1) assms(3)] s(3) by blast
qed

lemma caching_resps_frame:
  assumes "invar c" and "exec_op (NewCachingStore S) op c = Some (err, c')" and "\<not> writesResponse rid op"
  shows "resps c' rid \<union> cachedResponses c' rid \<subseteq> resps c rid \<union> cachedResponses c rid"
proof (rule caching_step [OF assms(1,2)])
  fix c1 assume s: "exec_op S op c1 = Some (err, c')" "invar c1" "\<And>rid. resps c1 rid = resps c rid"
    and ca: "\<And>rid. cachedResponses c' rid \<subseteq> cachedResponses c rid \<union>
       (case responseWrite op of Some w \<Rightarrow> if resp_RequestID w = rid then {canonResponse w} else {} | None \<Rightarrow> {})"
  have "cachedResponses c' rid \<subseteq> cachedResponses c rid"
    using ca [of rid] assms(3) by (auto simp: writesResponse_def split: option.splits if_splits)
  then show ?thesis using resps_frame [OF s(2,1) assms(3)] s(3) by blast
qed

lemma caching_write_request:
  assumes "invar c" and "exec_op (NewCachingStore S) (OpWriteRequest r) c = Some (None, c')"
  shows "reqs c' (req_BackendID r) (req_RequestID r) \<union> cachedRequests c' (req_BackendID r) (req_RequestID r)
    \<subseteq> insert (canonRequest r) (reqs c (req_BackendID r) (req_RequestID r) \<union> cachedRequests c (req_BackendID r) (req_RequestID r))"
proof (rule caching_step [OF assms])
  fix c1 assume s: "exec_op S (OpWriteRequest r) c1 = Some (None, c')" "invar c1" "\<And>b rid. reqs c1 b rid = reqs c b rid"
    and ca: "\<And>b rid. cachedRequests c' b rid \<subseteq> cachedRequests c b rid \<union>
       (case requestWrite (OpWriteRequest r) of
          Some r \<Rightarrow> if req_BackendID r = b \<and> req_RequestID r = rid then {canonRequest r} else {} | None \<Rightarrow> {})"
  show ?thesis using ca [of "req_BackendID r" "req_RequestID r"] write_request [OF s(2,1)] s(3) by auto
qed

lemma caching_write_response:
  assumes "invar c" and "exec_op (NewCachingStore S) (OpWriteResponse w) c = Some (None, c')"
  shows "resps c' (resp_RequestID w) \<union> cachedResponses c' (resp_RequestID w)
    \<subseteq> insert (canonResponse w) (resps c (resp_RequestID w) \<union> cachedResponses c (resp_RequestID w))"
proof (rule caching_step [OF assms])
  fix c1 assume s: "exec_op S (OpWriteResponse w) c1 = Some (None, c')" "invar c1" "\<And>rid. resps c1 rid = resps c rid"
    and ca: "\<And>rid. cachedResponses c' rid \<subseteq> cachedResponses c rid \<union>
       (case responseWrite (OpWriteResponse w) of
          Some w \<Rightarrow> if resp_RequestID w = rid then {canonResponse w} else {} | None \<Rightarrow> {})"
  show ?thesis using ca [of "resp_RequestID w"] write_response [OF s(2,1)] s(3) by auto
qed

end

sublocale cacheable_store \<subseteq> caching: request_store "NewCachingStore S" invar
  "\<lambda>c b rid. reqs c b rid \<union> cachedRequests c b rid" "\<lambda>c rid. resps c rid \<union> cachedResponses c rid"
  by (unfold_locales; rule caching_total caching_keeps caching_read_request caching_read_response
      caching_reqs_frame caching_resps_frame caching_write_request caching_write_response)

end
