(* ===== verification/App_Store_Provides.thy ===== *)
theory App_Store_Provides
  imports App_Store_Routing App_Cache_Correct
begin

text \<open>
  The persistent store provides the contract of the \<^verbatim>\<open>Store\<close> interface: every operation
  returns and keeps \<open>store_inv\<close>, what a read may return is what the committed entities
  denote, and the store keeps off the Memcache. The caching store over it, the store the
  application runs with, gets the contract through the sublocale of \<open>cacheable_store\<close>.
\<close>

section \<open>Operations as steps\<close>

fun writeKeys :: "(nat \<Rightarrow> bool) \<Rightarrow> store_op \<Rightarrow> key set" where
  "writeKeys P (OpWriteRequest r) = requestKeys P r"
| "writeKeys P (OpListPendingRequests b) = {trackerKey b}"
| "writeKeys P (OpWriteResponse w) = responseKeys w"
| "writeKeys P (OpAddBackend b) = {trackerKey (be_BackendID b), backendKey (be_BackendID b)}"
| "writeKeys P _ = {}"

definition deleteKeys :: "store_op \<Rightarrow> key set" where
  "deleteKeys op = (if isDelete op then UNIV else {})"

definition storeOp :: "store_op \<Rightarrow> bool" where
  "storeOp op \<longleftrightarrow> (\<forall>k bs. op \<noteq> OpCacheResponse k bs) \<and> (\<forall>n. op \<noteq> OpTick n)"

lemma NewPersistentStore_sel [simp]:
  "WriteRequest NewPersistentStore = persistentStore_WriteRequest"
  "ReadRequest NewPersistentStore = persistentStore_ReadRequest"
  "ListPendingRequests NewPersistentStore = persistentStore_ListPendingRequests"
  "WriteResponse NewPersistentStore = persistentStore_WriteResponse"
  "ReadResponse NewPersistentStore = persistentStore_ReadResponse"
  "DeleteOldBackends NewPersistentStore = persistentStore_DeleteOldBackends"
  "DeleteOldRequests NewPersistentStore = persistentStore_DeleteOldRequests"
  "AddBackend NewPersistentStore = persistentStore_AddBackend"
  "ListBackends NewPersistentStore = persistentStore_ListBackends"
  "DeleteBackend NewPersistentStore = persistentStore_DeleteBackend"
  "LookupBackend NewPersistentStore = persistentStore_LookupBackend"
  "IsBackendUserAllowed NewPersistentStore = persistentStore_IsBackendUserAllowed"
  by (simp_all add: NewPersistentStore_def)

lemma exec_persistent_total:
  assumes "services_ok c"
  shows "\<exists>err c'. exec_op NewPersistentStore op c = Some (err, c')"
proof (cases op)
  case (OpListPendingRequests b)
  then show ?thesis by (simp split: prod.split sum.split)
next
  case OpDeleteOldBackends
  then show ?thesis using DeleteOldBackends_result [OF assms] by auto
next
  case OpDeleteOldRequests
  then show ?thesis using DeleteOldRequests_result [OF assms] by auto
next
  case (OpDeleteBackend b)
  then show ?thesis using DeleteBackend_result [OF assms, of b] by auto
next
  case (OpWriteRequest r)
  then show ?thesis by (cases "persistentStore_WriteRequest c r") simp
next
  case (OpWriteResponse w)
  then show ?thesis by (cases "persistentStore_WriteResponse c w") simp
next
  case (OpAddBackend b)
  then show ?thesis by (cases "persistentStore_AddBackend c b") simp
next
  case (OpCacheResponse k bs)
  then show ?thesis by (cases "CacheSet c (''cache:'' @ k) (RawBytes bs)") simp
qed simp

lemma exec_persistent_step:
  assumes "services_ok c" and "exec_op NewPersistentStore op c = Some (err, c')" and "storeOp op"
  shows "store_step (writeKeys (printable c) op) (deleteKeys op) c c'"
proof (cases op)
  case (OpListPendingRequests b)
  then show ?thesis using assms(2) ListPendingRequests_step [of c b]
    by (auto simp: deleteKeys_def split: prod.splits sum.splits)
next
  case OpDeleteOldBackends
  then show ?thesis using DeleteOldBackends_result [OF assms(1)] assms(2)
    by (auto simp: deleteKeys_def elim: store_step_mono)
next
  case OpDeleteOldRequests
  then show ?thesis using DeleteOldRequests_result [OF assms(1)] assms(2)
    by (auto simp: deleteKeys_def elim: store_step_mono)
next
  case (OpDeleteBackend b)
  then show ?thesis using DeleteBackend_result [OF assms(1), of b] assms(2)
    by (auto simp: deleteKeys_def elim: store_step_mono)
qed (use assms WriteRequest_step WriteResponse_step AddBackend_step in \<open>auto simp: deleteKeys_def storeOp_def\<close>)

lemma exec_persistent_other:
  assumes "exec_op NewPersistentStore op c = Some (err, c')" and "\<not> storeOp op"
  shows "committed c' = committed c" "printable c' = printable c" "services_ok c' = services_ok c"
proof -
  have "(\<exists>m. c' = c\<lparr>mc := m\<rparr>) \<or> (\<exists>t. c' = c\<lparr>now := t\<rparr>)"
  proof (cases op)
    case (OpCacheResponse k bs)
    then have "c' = snd (CacheSet c (''cache:'' @ k) (RawBytes bs))" using assms(1) by simp
    then show ?thesis using CacheSet_mc [of c "''cache:'' @ k" "RawBytes bs"] by simp
  next
    case (OpTick n)
    then have "c' = c\<lparr>now := now c + int n\<rparr>" using assms(1) by simp
    then show ?thesis by blast
  qed (use assms(2) in \<open>simp_all add: storeOp_def\<close>)
  then show "committed c' = committed c" "printable c' = printable c" "services_ok c' = services_ok c"
    by (auto simp: committed_def services_ok_def)
qed

lemma exec_persistent_time:
  assumes "services_ok c" and "exec_op NewPersistentStore op c = Some (err, c')"
  shows "now c \<le> now c'"
proof (cases "storeOp op")
  case True
  then show ?thesis
    using store_step_same(1) [OF exec_persistent_step [OF assms]] by (simp add: same_services_def)
next
  case False
  then consider k bs where "op = OpCacheResponse k bs" | n where "op = OpTick n"
    by (auto simp: storeOp_def)
  then show ?thesis
  proof cases
    case (1 k bs)
    then have "c' = snd (CacheSet c (''cache:'' @ k) (RawBytes bs))" using assms(2) by simp
    then show ?thesis using CacheSet_mc [of c "''cache:'' @ k" "RawBytes bs"] by auto
  qed (use assms(2) in auto)
qed

section \<open>What a read may return\<close>

definition storedRequests :: "('d, 'm) ctx \<Rightarrow> string \<Rightarrow> string \<Rightarrow> Request set" where
  "storedRequests c b rid = canonRequest ` set_option (absRequest c b rid)"

definition storedResponses :: "('d, 'm) ctx \<Rightarrow> string \<Rightarrow> Response set" where
  "storedResponses c rid = canonResponse ` set_option (absResponse c rid)"

lemma stored_cong:
  assumes "committed c' = committed c" "printable c' = printable c"
  shows "storedRequests c' b rid = storedRequests c b rid" "storedResponses c' rid = storedResponses c rid"
  unfolding storedRequests_def storedResponses_def absRequest_def absResponse_def assms by (rule refl)+

lemma writeKeys_other_request:
  assumes "\<not> writesRequest rid op"
  shows "requestFootprint P b rid \<inter> writeKeys P op = {}"
  using assms by (cases op) (auto simp: footprint_defs key_defs)

lemma writeKeys_other_response:
  assumes "\<not> writesResponse rid op"
  shows "responseFootprint rid \<inter> writeKeys P op = {}"
  using assms by (cases op) (auto simp: footprint_defs key_defs)

lemma exec_persistent_inv:
  assumes "store_inv c" and "exec_op NewPersistentStore op c = Some (err, c')"
  shows "store_inv c'"
proof (cases "storeOp op")
  case True
  then show ?thesis
    using store_step_inv [OF exec_persistent_step [OF store_invD(1) [OF assms(1)] assms(2)]] assms(1) by simp
next
  case False
  then show ?thesis
    using exec_persistent_other [OF assms(2)] assms(1) by (simp add: store_inv_def)
qed

lemma exec_persistent_requests:
  assumes "store_inv c" and "exec_op NewPersistentStore op c = Some (err, c')" and "\<not> writesRequest rid op"
  shows "storedRequests c' b rid = storedRequests c b rid \<or> isDelete op \<and> storedRequests c' b rid = {}"
proof (cases "storeOp op")
  case True
  note s = exec_persistent_step [OF store_invD(1) [OF assms(1)] assms(2) True]
  have d: "requestFootprint (printable c) b rid \<inter> writeKeys (printable c) op = {}"
    by (rule writeKeys_other_request [OF assms(3)])
  show ?thesis
  proof (cases "isDelete op")
    case True
    then show ?thesis
      using absRequest_shrink [OF s assms(1) d] by (auto simp: storedRequests_def)
  next
    case False
    then show ?thesis
      using absRequest_frame [OF s assms(1)] d by (auto simp: storedRequests_def deleteKeys_def)
  qed
qed (use stored_cong(1) exec_persistent_other [OF assms(2)] in blast)

lemma exec_persistent_responses:
  assumes "store_inv c" and "exec_op NewPersistentStore op c = Some (err, c')" and "\<not> writesResponse rid op"
  shows "storedResponses c' rid = storedResponses c rid \<or> isDelete op \<and> storedResponses c' rid = {}"
proof (cases "storeOp op")
  case True
  note s = exec_persistent_step [OF store_invD(1) [OF assms(1)] assms(2) True]
  have d: "responseFootprint rid \<inter> writeKeys (printable c) op = {}"
    by (rule writeKeys_other_response [OF assms(3)])
  show ?thesis
  proof (cases "isDelete op")
    case True
    then show ?thesis
      using absResponse_shrink [OF s assms(1) d] by (auto simp: storedResponses_def)
  next
    case False
    then show ?thesis
      using absResponse_frame [OF s assms(1)] d by (auto simp: storedResponses_def deleteKeys_def)
  qed
qed (use stored_cong(2) exec_persistent_other [OF assms(2)] in blast)

section \<open>The interpretations\<close>

lemma persistent_writes:
  assumes "store_inv c"
  shows "exec_op NewPersistentStore (OpWriteRequest r) c = Some (None, c') \<Longrightarrow>
      storedRequests c' (req_BackendID r) (req_RequestID r) = {canonRequest r}"
    and "exec_op NewPersistentStore (OpWriteResponse w) c = Some (None, c') \<Longrightarrow>
      storedResponses c' (resp_RequestID w) = {canonResponse w}"
  using WriteRequest_ok [of c r c'] WriteResponse_ok [of c w c'] assms store_invD(1) [of c]
  by (simp_all add: storedRequests_def storedResponses_def)

lemma persistent_reads:
  assumes "store_inv c"
  shows "ReadRequest NewPersistentStore c b rid = Inr r \<Longrightarrow> canonRequest r \<in> storedRequests c b rid"
    and "ReadResponse NewPersistentStore c b rid = Inr w \<Longrightarrow> canonResponse w \<in> storedResponses c rid"
  using ReadRequest_sound [of c b rid r] ReadResponse_sound [of c b rid w] store_invD(1) [OF assms]
  by (simp_all add: storedRequests_def storedResponses_def)

lemma persistent_available:
  assumes "store_inv c" and "ds_available (dsvc c) (ds c)"
  shows "q \<in> storedRequests c b rid \<Longrightarrow> \<exists>r. ReadRequest NewPersistentStore c b rid = Inr r \<and> canonRequest r = q"
    and "x \<in> storedResponses c rid \<Longrightarrow> \<exists>w. ReadResponse NewPersistentStore c b rid = Inr w \<and> canonResponse w = x"
  using assms ReadRequest_available ReadResponse_available by (fastforce simp: storedRequests_def storedResponses_def)+

interpretation persistent: authoritative_store NewPersistentStore store_inv storedRequests storedResponses
  "\<lambda>c. ds_available (dsvc c) (ds c)"
proof (unfold_locales, goal_cases)
  case (1 c op)
  then show ?case by (intro exec_persistent_total) (rule store_invD(1))
next
  case (2 c op err c')
  then show ?case by (rule exec_persistent_inv)
next
  case (3 c op err c')
  then show ?case using exec_persistent_time store_invD(1) by blast
next
  case (4 c b rid r)
  then show ?case by (rule persistent_reads(1))
next
  case (5 c b rid w)
  then show ?case by (rule persistent_reads(2))
next
  case (6 c op err c' rid b)
  then show ?case using exec_persistent_requests [of c op err c' rid b] by auto
next
  case (7 c op err c' rid)
  then show ?case using exec_persistent_responses [of c op err c' rid] by auto
qed (auto dest: persistent_writes persistent_available exec_persistent_requests exec_persistent_responses
    simp del: NewPersistentStore_sel)

lemma store_inv_mc [simp]: "store_inv (c\<lparr>mc := m\<rparr>) = store_inv c"
  by (simp add: store_inv_def services_ok_def committed_def)

interpretation deployed: cacheable_store NewPersistentStore store_inv storedRequests storedResponses
proof unfold_locales
  fix c c' :: "('a, 'b) ctx" and op err
  assume c: "store_inv c" "exec_op NewPersistentStore op c = Some (err, c')"
  have s: "storeOp op \<Longrightarrow> store_step (writeKeys (printable c) op) (deleteKeys op) c c'"
    by (rule exec_persistent_step [OF store_invD(1) [OF c(1)] c(2)])
  show "printable c' = printable c"
    using store_step_same(4) [OF s] exec_persistent_other(2) [OF c(2)] by blast
  assume n: "\<And>k bs. op \<noteq> OpCacheResponse k bs"
  show "cached c' = cached c"
  proof (cases "storeOp op")
    case True
    then show ?thesis using store_step_same(2) [OF s] by simp
  next
    case False
    then obtain t where "op = OpTick t" using n by (auto simp: storeOp_def)
    then have "c' = c\<lparr>now := now c + int t\<rparr>" using c(2) by simp
    then show ?thesis by (simp add: cached_def)
  qed
next
  fix c :: "('a, 'b) ctx" and m b rid
  have "committed (c\<lparr>mc := m\<rparr>) = committed c" by (simp add: committed_def)
  note cong = stored_cong [OF this]
  show "storedRequests (c\<lparr>mc := m\<rparr>) b rid = storedRequests c b rid" by (rule cong(1)) simp
  show "storedResponses (c\<lparr>mc := m\<rparr>) rid = storedResponses c rid" by (rule cong(2)) simp
qed (simp_all add: store_invD(1))

text \<open>The store of \<^verbatim>\<open>init\<close>: \<^verbatim>\<open>cache.NewCachingStore(store.NewPersistentStore())\<close>.\<close>

definition appStore :: "('d, 'm) ctx Store" where
  "appStore = NewCachingStore NewPersistentStore"

definition visibleRequests :: "('d, 'm) ctx \<Rightarrow> string \<Rightarrow> string \<Rightarrow> Request set" where
  "visibleRequests c b rid = storedRequests c b rid \<union> cachedRequests c b rid"

definition visibleResponses :: "('d, 'm) ctx \<Rightarrow> string \<Rightarrow> Response set" where
  "visibleResponses c rid = storedResponses c rid \<union> cachedResponses c rid"

text \<open>A cached copy carries the IDs its key was made from.\<close>

definition cacheIdsOk :: "('d, 'm) ctx \<Rightarrow> bool" where
  "cacheIdsOk c \<longleftrightarrow>
     (\<forall>b rid r. r \<in> cachedRequests c b rid \<longrightarrow> req_BackendID r = b \<and> req_RequestID r = rid)
   \<and> (\<forall>rid w. w \<in> cachedResponses c rid \<longrightarrow> resp_RequestID w = rid)"

definition app_inv :: "('d, 'm) ctx \<Rightarrow> bool" where
  "app_inv c \<longleftrightarrow> store_inv c \<and> cacheIdsOk c"

lemma exec_app_step:
  assumes "store_inv c" and "exec_op appStore op c = Some (err, c')"
  obtains c1 where "exec_op NewPersistentStore op c1 = Some (err, c')" "store_inv c1"
      "\<And>b rid. storedRequests c1 b rid = storedRequests c b rid" "\<And>rid. storedResponses c1 rid = storedResponses c rid"
      "\<And>b rid. cachedRequests c' b rid \<subseteq> cachedRequests c b rid \<union>
         (case requestWrite op of Some r \<Rightarrow> if req_BackendID r = b \<and> req_RequestID r = rid then {canonRequest r} else {}
          | None \<Rightarrow> {})"
      "\<And>rid. cachedResponses c' rid \<subseteq> cachedResponses c rid \<union>
         (case responseWrite op of Some w \<Rightarrow> if resp_RequestID w = rid then {canonResponse w} else {} | None \<Rightarrow> {})"
  by (rule deployed.caching_step [OF assms(1) assms(2) [unfolded appStore_def]]) (rule that)

lemma cacheIdsOk_step:
  assumes "cacheIdsOk c"
    and "\<And>b rid. cachedRequests c' b rid \<subseteq> cachedRequests c b rid \<union>
         (case requestWrite op of Some r \<Rightarrow> if req_BackendID r = b \<and> req_RequestID r = rid then {canonRequest r} else {}
          | None \<Rightarrow> {})"
    and "\<And>rid. cachedResponses c' rid \<subseteq> cachedResponses c rid \<union>
         (case responseWrite op of Some w \<Rightarrow> if resp_RequestID w = rid then {canonResponse w} else {} | None \<Rightarrow> {})"
  shows "cacheIdsOk c'"
proof -
  have "req_BackendID r = b \<and> req_RequestID r = rid" if "r \<in> cachedRequests c' b rid" for b rid r
    using subsetD [OF assms(2) that] assms(1) by (auto simp: cacheIdsOk_def split: option.splits if_splits)
  moreover have "resp_RequestID w = rid" if "w \<in> cachedResponses c' rid" for rid w
    using subsetD [OF assms(3) that] assms(1) by (auto simp: cacheIdsOk_def split: option.splits if_splits)
  ultimately show ?thesis by (simp add: cacheIdsOk_def)
qed

lemma app_inv_step:
  assumes "app_inv c" and "exec_op appStore op c = Some (err, c')"
  shows "app_inv c'"
proof -
  have i: "store_inv c" "cacheIdsOk c" using assms(1) by (simp_all add: app_inv_def)
  show ?thesis
    unfolding app_inv_def
  proof
    show "store_inv c'"
      by (rule exec_app_step [OF i(1) assms(2)]) (rule persistent.exec_invar)
    show "cacheIdsOk c'"
      by (rule exec_app_step [OF i(1) assms(2)]) (rule cacheIdsOk_step [OF i(2)])
  qed
qed

interpretation raw: request_store appStore store_inv visibleRequests visibleResponses
  using deployed.caching.request_store_axioms
  by (simp add: appStore_def visibleRequests_def [abs_def] visibleResponses_def [abs_def])

interpretation app: request_store appStore app_inv visibleRequests visibleResponses
proof unfold_locales
  fix c c' :: "('a, 'b) ctx" and op err assume "app_inv c" "exec_op appStore op c = Some (err, c')"
  then show "app_inv c'" by (rule app_inv_step)
next
  fix c :: "('a, 'b) ctx" and op assume "app_inv c"
  then show "\<exists>err c'. exec_op appStore op c = Some (err, c')"
    unfolding app_inv_def using raw.exec_total by blast
qed (auto simp: app_inv_def dest: raw.exec_time raw.read_request raw.read_response raw.reqs_frame raw.resps_frame
    raw.write_request raw.write_response)

lemma visibleRequests_ids:
  assumes "app_inv c" and "r \<in> visibleRequests c b rid"
  shows "req_BackendID r = b" "req_RequestID r = rid"
proof -
  have "req_BackendID r = b \<and> req_RequestID r = rid"
  proof (cases "r \<in> cachedRequests c b rid")
    case True
    then show ?thesis using assms(1) by (simp add: app_inv_def cacheIdsOk_def)
  next
    case False
    then obtain q where "absRequest c b rid = Some q" "r = canonRequest q"
      using assms(2) by (auto simp: visibleRequests_def storedRequests_def)
    moreover have "store_inv c" using assms(1) by (simp add: app_inv_def)
    ultimately show ?thesis
      using request_parts(1,2) [of c b rid] by (auto simp: absRequest_eq_Some requestOf_def)
  qed
  then show "req_BackendID r = b" "req_RequestID r = rid" by auto
qed

lemma app_inv_stored: "app_inv c \<Longrightarrow> store_inv c"
  by (simp add: app_inv_def)

text \<open>The stored records of the deployed store obey the exact laws of the persistent store.\<close>

lemma app_request_written:
  assumes "store_inv c" and "exec_op appStore (OpWriteRequest r) c = Some (None, c')"
  shows "storedRequests c' (req_BackendID r) (req_RequestID r) = {canonRequest r}"
  by (rule exec_app_step [OF assms]) (rule persistent.request_written)

lemma app_response_written:
  assumes "store_inv c" and "exec_op appStore (OpWriteResponse w) c = Some (None, c')"
  shows "storedResponses c' (resp_RequestID w) = {canonResponse w}"
  by (rule exec_app_step [OF assms]) (rule persistent.response_written)

lemma app_request_kept:
  assumes "store_inv c" and "exec_op appStore op c = Some (err, c')" and "\<not> isDelete op" "\<not> writesRequest rid op"
  shows "storedRequests c' b rid = storedRequests c b rid"
  by (rule exec_app_step [OF assms(1,2)]) (metis persistent.request_kept assms(3,4))

lemma app_response_kept:
  assumes "store_inv c" and "exec_op appStore op c = Some (err, c')" and "\<not> isDelete op" "\<not> writesResponse rid op"
  shows "storedResponses c' rid = storedResponses c rid"
  by (rule exec_app_step [OF assms(1,2)]) (metis persistent.response_kept assms(3,4))

end
