(* ===== verification/Http.thy ===== *)
theory Http
  imports Prelude
begin

text \<open>
  What the program uses of \<^verbatim>\<open>net/http\<close>: header maps with canonical keys, requests and
  responses as the handlers see them, and the response writer. A header map is an association list
  with distinct keys; \<^verbatim>\<open>w.Header()[k] = v\<close> assigns under the key as given, while
  \<^verbatim>\<open>Get\<close>, \<^verbatim>\<open>Set\<close>, \<^verbatim>\<open>Add\<close> and \<^verbatim>\<open>Del\<close> canonicalise it first. A response
  writer sends its status and a snapshot of its headers on the first \<^verbatim>\<open>WriteHeader\<close> or
  \<^verbatim>\<open>Write\<close>; later calls of \<^verbatim>\<open>WriteHeader\<close> have no effect.
\<close>

section \<open>Header keys\<close>

definition isUpper :: "char \<Rightarrow> bool" where
  "isUpper c \<longleftrightarrow> 65 \<le> (of_char c :: nat) \<and> (of_char c :: nat) \<le> 90"

definition isLower :: "char \<Rightarrow> bool" where
  "isLower c \<longleftrightarrow> 97 \<le> (of_char c :: nat) \<and> (of_char c :: nat) \<le> 122"

definition isDigit :: "char \<Rightarrow> bool" where
  "isDigit c \<longleftrightarrow> 48 \<le> (of_char c :: nat) \<and> (of_char c :: nat) \<le> 57"

definition toUpperChar :: "char \<Rightarrow> char" where
  "toUpperChar c = (if isLower c then char_of (of_char c - 32 :: nat) else c)"

definition toLowerChar :: "char \<Rightarrow> char" where
  "toLowerChar c = (if isUpper c then char_of (of_char c + 32 :: nat) else c)"

definition ToLower :: "string \<Rightarrow> string" where
  "ToLower s = map toLowerChar s"

text \<open>The token characters of RFC 7230.\<close>

definition isTokenChar :: "char \<Rightarrow> bool" where
  "isTokenChar c \<longleftrightarrow> isUpper c \<or> isLower c \<or> isDigit c \<or> c \<in> set ''!#$%&*+-.^_`|~'' \<or> of_char c = (39 :: nat)"

fun canonicalBytes :: "bool \<Rightarrow> string \<Rightarrow> string" where
  "canonicalBytes upper [] = []"
| "canonicalBytes upper (c # cs) =
     (if upper then toUpperChar c else toLowerChar c) # canonicalBytes (c = CHR ''-'') cs"

definition CanonicalHeaderKey :: "string \<Rightarrow> string" where
  "CanonicalHeaderKey k = (if list_all isTokenChar k then canonicalBytes True k else k)"

section \<open>Header maps\<close>

type_synonym header = "(string \<times> string list) list"

definition headerAssign :: "header \<Rightarrow> string \<Rightarrow> string list \<Rightarrow> header" where
  "headerAssign h k vs = AList.update k vs h"

definition headerValues :: "header \<Rightarrow> string \<Rightarrow> string list" where
  "headerValues h k = (case map_of h (CanonicalHeaderKey k) of None \<Rightarrow> [] | Some vs \<Rightarrow> vs)"

definition headerGet :: "header \<Rightarrow> string \<Rightarrow> string" where
  "headerGet h k = (case headerValues h k of [] \<Rightarrow> [] | v # _ \<Rightarrow> v)"

definition headerSet :: "header \<Rightarrow> string \<Rightarrow> string \<Rightarrow> header" where
  "headerSet h k v = AList.update (CanonicalHeaderKey k) [v] h"

definition headerAdd :: "header \<Rightarrow> string \<Rightarrow> string \<Rightarrow> header" where
  "headerAdd h k v = AList.update (CanonicalHeaderKey k) (headerValues h k @ [v]) h"

definition headerDel :: "header \<Rightarrow> string \<Rightarrow> header" where
  "headerDel h k = AList.delete (CanonicalHeaderKey k) h"

lemma headerValues_Set [header_simps]:
  "headerValues (headerSet h k v) k' = (if CanonicalHeaderKey k = CanonicalHeaderKey k' then [v] else headerValues h k')"
  by (simp add: headerValues_def headerSet_def update_conv')

lemma headerValues_Add [header_simps]:
  "headerValues (headerAdd h k v) k' =
     (if CanonicalHeaderKey k = CanonicalHeaderKey k' then headerValues h k' @ [v] else headerValues h k')"
  by (simp add: headerValues_def headerAdd_def update_conv')

lemma headerValues_Del [header_simps]:
  "headerValues (headerDel h k) k' = (if CanonicalHeaderKey k = CanonicalHeaderKey k' then [] else headerValues h k')"
  by (simp add: headerValues_def headerDel_def delete_conv')

section \<open>Requests, responses, the response writer\<close>

text \<open>\<open>hr_Body\<close> is what reading the body to its end gives, \<open>hr_URL\<close> the text of \<^verbatim>\<open>r.URL\<close>.\<close>

record httpRequest =
  hr_Method :: string
  hr_Path :: string
  hr_URL :: string
  hr_Header :: header
  hr_Body :: "error + bytes"

record httpResponse =
  res_StatusCode :: nat
  res_Header :: header
  res_Body :: bytes

record responseWriter =
  rw_Header :: header
  rw_Sent :: "(nat \<times> header) option"
  rw_Body :: bytes

definition newResponseWriter :: responseWriter where
  "newResponseWriter = \<lparr>rw_Header = [], rw_Sent = None, rw_Body = []\<rparr>"

definition WriteHeader :: "responseWriter \<Rightarrow> nat \<Rightarrow> responseWriter" where
  "WriteHeader w code = (if rw_Sent w = None then w\<lparr>rw_Sent := Some (code, rw_Header w)\<rparr> else w)"

definition WriteBody :: "responseWriter \<Rightarrow> bytes \<Rightarrow> responseWriter" where
  "WriteBody w bs = (let w1 = WriteHeader w 200 in w1\<lparr>rw_Body := rw_Body w1 @ bs\<rparr>)"

definition HeaderAdd :: "responseWriter \<Rightarrow> string \<Rightarrow> string \<Rightarrow> responseWriter" where
  "HeaderAdd w k v = w\<lparr>rw_Header := headerAdd (rw_Header w) k v\<rparr>"

definition HeaderSet :: "responseWriter \<Rightarrow> string \<Rightarrow> string \<Rightarrow> responseWriter" where
  "HeaderSet w k v = w\<lparr>rw_Header := headerSet (rw_Header w) k v\<rparr>"

definition httpError :: "responseWriter \<Rightarrow> string \<Rightarrow> nat \<Rightarrow> responseWriter" where
  "httpError w msg code =
     (let w1 = HeaderSet w ''Content-Type'' ''text/plain; charset=utf-8'';
          w2 = HeaderSet w1 ''X-Content-Type-Options'' ''nosniff''
      in WriteBody (WriteHeader w2 code) (msg @ [char_of (10 :: nat)]))"

definition httpNotFound :: "responseWriter \<Rightarrow> responseWriter" where
  "httpNotFound w = httpError w ''404 page not found'' 404"

definition rwStatus :: "responseWriter \<Rightarrow> nat option" where
  "rwStatus w = map_option fst (rw_Sent w)"

lemma rwStatus_simps [simp]:
  "rwStatus newResponseWriter = None"
  "rwStatus (WriteHeader w code) = (if rwStatus w = None then Some code else rwStatus w)"
  "rwStatus (WriteBody w bs) = (if rwStatus w = None then Some 200 else rwStatus w)"
  "rwStatus (HeaderAdd w k v) = rwStatus w"
  "rwStatus (HeaderSet w k v) = rwStatus w"
  "rwStatus (httpError w msg code) = (if rwStatus w = None then Some code else rwStatus w)"
  by (simp_all add: rwStatus_def newResponseWriter_def WriteHeader_def WriteBody_def HeaderAdd_def
      HeaderSet_def httpError_def Let_def)

lemma CanonicalHeaderKey_examples:
  "CanonicalHeaderKey ''X-Inverting-Proxy-Request-ID'' = ''X-Inverting-Proxy-Request-Id''"
  "CanonicalHeaderKey ''content-TYPE'' = ''Content-Type''"
  "CanonicalHeaderKey ''bad key'' = ''bad key''"
  by (code_simp)+

end
