(* ===== verification/App_Proxy.thy ===== *)
theory App_Proxy
  imports App_Store_Provides Http
begin

text \<open>
  The request handlers of the App Engine proxy, \<^verbatim>\<open>app/proxy.go\<close>, over any
  \<^verbatim>\<open>Store\<close>. A handler maps a response writer, a request and a context to the written
  response and the context afterwards; \<open>None\<close> means that the handler never returns.

  The two polling loops sleep between polls while other handlers run: \<open>others i\<close> is the
  interleaving of their store operations during the i-th sleep, and at least 100 milliseconds pass.
  A channel of capacity \<open>n\<close> that is only read after its senders are done takes \<open>n\<close>
  values; one more send blocks forever.

  The App Engine calls (signed-in user, OAuth user, module name, request ID) are the record
  \<open>appengine\<close>, the wire and JSON formats of the Go library the record \<open>formats\<close>: both
  are arguments, and the theorems hold for all of them.
\<close>

section \<open>Parameters\<close>

record oauthUser =
  oauth_Email :: string
  oauth_Admin :: bool

record appengine =
  CurrentUser :: "string option"
  CurrentOAuth :: "error + oauthUser"
  IsAdmin :: bool
  ModuleName :: string
  AppRequestID :: string

record formats =
  writeRequest :: "httpRequest \<Rightarrow> error + bytes"
  readResponse :: "bytes \<Rightarrow> httpRequest \<Rightarrow> error + httpResponse"
  marshalStrings :: "string list \<Rightarrow> error + bytes"
  marshalBackends :: "Backend list \<Rightarrow> error + bytes"
  unmarshalBackend :: "bytes \<Rightarrow> error + Backend"

section \<open>Constants\<close>

definition requestsWaitTimeout :: duration where
  "requestsWaitTimeout = 30 * Second"

definition responseWaitTimeout :: duration where
  "responseWaitTimeout = 30 * Second"

definition HeaderUserID :: string where
  "HeaderUserID = ''X-Inverting-Proxy-User-ID''"

definition HeaderRequestID :: string where
  "HeaderRequestID = ''X-Inverting-Proxy-Request-ID''"

definition HeaderBackendID :: string where
  "HeaderBackendID = ''X-Inverting-Proxy-Backend-ID''"

definition HeaderRequestStartTime :: string where
  "HeaderRequestStartTime = ''X-Inverting-Proxy-Request-Start-Time''"

section \<open>Waiting\<close>

definition pollInterval :: nat where
  "pollInterval = nat (100 * Millisecond)"

definition sleepOps :: "(nat \<Rightarrow> store_op list) \<Rightarrow> nat \<Rightarrow> store_op list" where
  "sleepOps others i = others i @ [OpTick pollInterval]"

partial_function (option) waitForNextRequestsLoop ::
  "('d, 'm) ctx Store \<Rightarrow> (nat \<Rightarrow> store_op list) \<Rightarrow> time \<Rightarrow> string \<Rightarrow> nat \<Rightarrow> ('d, 'm) ctx
   \<Rightarrow> ((error + string list) \<times> ('d, 'm) ctx) option" where
  "waitForNextRequestsLoop s others deadline backendID i c =
     (if deadline \<le> now c
      then Some (Inl (ErrMsg (''Timeout waiting for requests for '' @ Quote (printable c) backendID)), c)
      else (case ListPendingRequests s c backendID of (res, c1) \<Rightarrow>
              if (case res of Inr rs \<Rightarrow> rs \<noteq> [] | Inl _ \<Rightarrow> False) then Some (res, c1)
              else (case exec_ops s (sleepOps others i) c1 of
                      None \<Rightarrow> None
                    | Some (_, c2) \<Rightarrow> waitForNextRequestsLoop s others deadline backendID (i + 1) c2)))"

definition waitForNextRequests ::
  "('d, 'm) ctx Store \<Rightarrow> (nat \<Rightarrow> store_op list) \<Rightarrow> string \<Rightarrow> ('d, 'm) ctx
   \<Rightarrow> ((error + string list) \<times> ('d, 'm) ctx) option" where
  "waitForNextRequests s others backendID c =
     waitForNextRequestsLoop s others (now c + requestsWaitTimeout) backendID 0 c"

partial_function (option) waitForResponseLoop ::
  "('d, 'm) ctx Store \<Rightarrow> (nat \<Rightarrow> store_op list) \<Rightarrow> time \<Rightarrow> string \<Rightarrow> string \<Rightarrow> nat \<Rightarrow> ('d, 'm) ctx
   \<Rightarrow> ((error + bytes) \<times> ('d, 'm) ctx) option" where
  "waitForResponseLoop s others deadline backendID requestID i c =
     (if deadline \<le> now c
      then Some (Inl (ErrMsg (''Timeout waiting for a response from '' @ Quote (printable c) backendID)), c)
      else if (case ReadResponse s c backendID requestID of Inr r \<Rightarrow> resp_Contents r \<noteq> [] | Inl _ \<Rightarrow> False)
      then Some (map_sum id resp_Contents (ReadResponse s c backendID requestID), c)
      else (case exec_ops s (sleepOps others i) c of
              None \<Rightarrow> None
            | Some (_, c1) \<Rightarrow> waitForResponseLoop s others deadline backendID requestID (i + 1) c1))"

definition waitForResponse ::
  "('d, 'm) ctx Store \<Rightarrow> (nat \<Rightarrow> store_op list) \<Rightarrow> string \<Rightarrow> string \<Rightarrow> ('d, 'm) ctx
   \<Rightarrow> ((error + bytes) \<times> ('d, 'm) ctx) option" where
  "waitForResponse s others backendID requestID c =
     waitForResponseLoop s others (now c + responseWaitTimeout) backendID requestID 0 c"

section \<open>Posting requests and responses\<close>

definition postRequest ::
  "('d, 'm) ctx Store \<Rightarrow> string \<Rightarrow> string \<Rightarrow> string \<Rightarrow> bytes \<Rightarrow> ('d, 'm) ctx
   \<Rightarrow> (error + Request) \<times> ('d, 'm) ctx" where
  "postRequest s backendID requestID userEmail requestBytes c =
     (let request = NewRequest (now c) backendID requestID userEmail requestBytes in
      case WriteRequest s c request of
        (Some err, c') \<Rightarrow> (Inl err, c')
      | (None, c') \<Rightarrow> (Inr request, c'))"

definition parseResponse :: "string \<Rightarrow> httpRequest \<Rightarrow> error + Response" where
  "parseResponse backendID r =
     (let requestID = headerGet (hr_Header r) HeaderRequestID in
      if requestID = [] then Inl (ErrMsg ''No request ID specified'')
      else (case hr_Body r of
              Inl err \<Rightarrow> Inl err
            | Inr responseBytes \<Rightarrow>
                Inr \<lparr>resp_BackendID = backendID, resp_RequestID = requestID,
                     resp_Contents = responseBytes, resp_StartTime = 0\<rparr>))"

text \<open>Sends on a channel of the given capacity: the values it holds, or \<open>None\<close> if a send blocks.\<close>

definition sendAll :: "nat \<Rightarrow> error option list \<Rightarrow> error list option" where
  "sendAll capacity es =
     (let errs = map the (filter (\<lambda>e. e \<noteq> None) es)
      in if length errs \<le> capacity then Some errs else None)"

definition postResponse ::
  "('d, 'm) ctx Store \<Rightarrow> nat \<Rightarrow> Response \<Rightarrow> ('d, 'm) ctx \<Rightarrow> (error list \<times> ('d, 'm) ctx) option" where
  "postResponse s capacity response c =
     (case ReadRequest s c (resp_BackendID response) (resp_RequestID response) of
        Inl _ \<Rightarrow>
          map_option (\<lambda>errs. (errs, c))
            (sendAll capacity
               [Some (ErrMsg (''No matching request: '' @ Quote (printable c) (resp_RequestID response)))])
      | Inr request \<Rightarrow>
          (let response' = response\<lparr>resp_StartTime := req_StartTime request\<rparr> in
           case go2 (sched c 2)
                  (\<lambda>c. WriteResponse s c response')
                  (\<lambda>c. WriteRequest s c (request\<lparr>req_Completed := True\<rparr>)) c of
             (e1, e2, c') \<Rightarrow> map_option (\<lambda>errs. (errs, c')) (sendAll capacity [e1, e2])))"

section \<open>Agent handlers\<close>

definition checkBackendID ::
  "appengine \<Rightarrow> ('d, 'm) ctx Store \<Rightarrow> httpRequest \<Rightarrow> ('d, 'm) ctx \<Rightarrow> error + string" where
  "checkBackendID ae s r c =
     (case CurrentOAuth ae of
        Inl err \<Rightarrow>
          Inl (ErrMsg (''Failed to read the OAuth authorization header: '' @ Quote (printable c) (errorText err)))
      | Inr oauthUser \<Rightarrow>
          (let backendUser = oauth_Email oauthUser;
               backendID = headerGet (hr_Header r) HeaderBackendID
           in if backendID = [] then Inl (ErrMsg ''No backend ID specified'')
              else (case IsBackendUserAllowed s c backendUser backendID of
                      Inl err \<Rightarrow>
                        Inl (ErrMsg (''Failed to look up backend user: '' @ Quote (printable c) (errorText err)))
                    | Inr allowed \<Rightarrow>
                        if \<not> allowed then Inl (ErrMsg ''Backend user not allowed'') else Inr backendID)))"

definition pendingHandler ::
  "appengine \<Rightarrow> formats \<Rightarrow> (nat \<Rightarrow> store_op list) \<Rightarrow> ('d, 'm) ctx Store \<Rightarrow> responseWriter \<Rightarrow> httpRequest
   \<Rightarrow> ('d, 'm) ctx \<Rightarrow> (responseWriter \<times> ('d, 'm) ctx) option" where
  "pendingHandler ae fm others s w r c =
     (case checkBackendID ae s r c of
        Inl err \<Rightarrow> Some (httpError w (errorText err) 401, c)
      | Inr backendID \<Rightarrow>
          (case waitForNextRequests s others backendID c of
             None \<Rightarrow> None
           | Some (res, c1) \<Rightarrow>
               (let pendingRequests = (case res of Inl _ \<Rightarrow> [] | Inr rs \<Rightarrow> rs) in
                case marshalStrings fm pendingRequests of
                  Inl err \<Rightarrow> Some (httpError w (errorText err) 500, c1)
                | Inr requestsBytes \<Rightarrow> Some (WriteBody w requestsBytes, c1))))"

definition requestHandler ::
  "appengine \<Rightarrow> ('d, 'm) ctx Store \<Rightarrow> responseWriter \<Rightarrow> httpRequest
   \<Rightarrow> ('d, 'm) ctx \<Rightarrow> (responseWriter \<times> ('d, 'm) ctx) option" where
  "requestHandler ae s w r c =
     (case checkBackendID ae s r c of
        Inl err \<Rightarrow> Some (httpError w (errorText err) 401, c)
      | Inr backendID \<Rightarrow>
          (let requestID = headerGet (hr_Header r) HeaderRequestID in
           if requestID = [] then Some (httpError w ''No request ID specified'' 400, c)
           else
             (let w1 = HeaderAdd w HeaderRequestID requestID in
              case ReadRequest s c backendID requestID of
                Inl err \<Rightarrow>
                  Some (httpError w1 (''Failed to read the request for '' @ Quote (printable c) requestID @ '': ''
                          @ Quote (printable c) (errorText err)) 404, c)
              | Inr request \<Rightarrow>
                  (let w2 = HeaderAdd w1 HeaderUserID (req_User request);
                       startTimeText = formatRFC3339Nano (req_StartTime request);
                       w3 = HeaderAdd w2 HeaderRequestStartTime startTimeText
                   in Some (WriteBody w3 (req_Contents request), c)))))"

definition responseHandler ::
  "appengine \<Rightarrow> ('d, 'm) ctx Store \<Rightarrow> responseWriter \<Rightarrow> httpRequest
   \<Rightarrow> ('d, 'm) ctx \<Rightarrow> (responseWriter \<times> ('d, 'm) ctx) option" where
  "responseHandler ae s w r c =
     (case checkBackendID ae s r c of
        Inl err \<Rightarrow> Some (httpError w (errorText err) 401, c)
      | Inr backendID \<Rightarrow>
          (case parseResponse backendID r of
             Inl err \<Rightarrow>
               Some (httpError w (''Failed to read the response body: '' @ Quote (printable c) (errorText err)) 400, c)
           | Inr response \<Rightarrow>
               (case postResponse s 1 response c of
                  None \<Rightarrow> None
                | Some (notFoundErrs, c1) \<Rightarrow>
                    (case notFoundErrs of
                       notFoundErr # _ \<Rightarrow> Some (httpError w (errorText notFoundErr) 404, c1)
                     | [] \<Rightarrow> Some (WriteHeader w 200, c1)))))"

definition deleteHandler ::
  "('d, 'm) ctx Store \<Rightarrow> responseWriter \<Rightarrow> ('d, 'm) ctx \<Rightarrow> (responseWriter \<times> ('d, 'm) ctx) option" where
  "deleteHandler s w c =
     (case DeleteOldBackends s c of
        None \<Rightarrow> None
      | Some (Some err, c1) \<Rightarrow> Some (httpError w (errorText err) 500, c1)
      | Some (None, c1) \<Rightarrow>
          (case DeleteOldRequests s c1 of
             None \<Rightarrow> None
           | Some (Some err, c2) \<Rightarrow> Some (httpError w (errorText err) 500, c2)
           | Some (None, c2) \<Rightarrow> Some (WriteBody w [], c2)))"

section \<open>The proxy handler\<close>

definition reportError :: "responseWriter \<Rightarrow> string \<Rightarrow> error \<Rightarrow> nat \<Rightarrow> responseWriter" where
  "reportError w requestID err statusCode =
     httpError (HeaderAdd w HeaderRequestID requestID) (errorText err) statusCode"

definition forwardResponse :: "responseWriter \<Rightarrow> httpResponse \<Rightarrow> responseWriter" where
  "forwardResponse w response =
     (let w1 = w\<lparr>rw_Header := fold (\<lambda>(k, v) h. headerAssign h k v) (res_Header response) (rw_Header w)\<rparr>
      in WriteBody (WriteHeader w1 (res_StatusCode response)) (res_Body response))"

definition pageKey :: "(nat \<Rightarrow> bool) \<Rightarrow> string \<Rightarrow> string \<Rightarrow> string" where
  "pageKey P userEmail url = Quote P userEmail @ '':'' @ Quote P url"

definition cacheResponse :: "('d, 'm) ctx \<Rightarrow> string \<Rightarrow> bytes \<Rightarrow> error option \<times> ('d, 'm) ctx" where
  "cacheResponse c cacheKey responseBytes = CacheSet c cacheKey (RawBytes responseBytes)"

definition readCachedResponse ::
  "formats \<Rightarrow> ('d, 'm) ctx \<Rightarrow> string \<Rightarrow> httpRequest \<Rightarrow> error + httpResponse" where
  "readCachedResponse fm c cacheKey r =
     (case CacheGet c cacheKey of
        Inl err \<Rightarrow> Inl err
      | Inr (RawBytes v) \<Rightarrow> readResponse fm v r
      | Inr _ \<Rightarrow> Inl (ErrService ''unexpected memcache item''))"

definition cachedPage :: "formats \<Rightarrow> ('d, 'm) ctx \<Rightarrow> string \<Rightarrow> httpRequest \<Rightarrow> httpResponse option" where
  "cachedPage fm c cacheKey r =
     (if hr_Method r = ''GET''
      then (case readCachedResponse fm c cacheKey r of Inr response \<Rightarrow> Some response | Inl _ \<Rightarrow> None)
      else None)"

text \<open>The rest of the handler, when no cached page answers the request.\<close>

definition relayRequest ::
  "formats \<Rightarrow> (nat \<Rightarrow> store_op list) \<Rightarrow> ('d, 'm) ctx Store \<Rightarrow> string \<Rightarrow> string \<Rightarrow> string \<Rightarrow> string
   \<Rightarrow> responseWriter \<Rightarrow> httpRequest \<Rightarrow> ('d, 'm) ctx \<Rightarrow> (responseWriter \<times> ('d, 'm) ctx) option" where
  "relayRequest fm others s backendID userEmail cacheKey requestID w r c =
     (case writeRequest fm r of
        Inl err \<Rightarrow> Some (reportError w requestID err 500, c)
      | Inr requestBytes \<Rightarrow>
          (case postRequest s backendID requestID userEmail requestBytes c of
             (Inl err, c1) \<Rightarrow> Some (reportError w requestID err 500, c1)
           | (Inr _, c1) \<Rightarrow>
               (case waitForResponse s others backendID requestID c1 of
                  None \<Rightarrow> None
                | Some (Inl err, c2) \<Rightarrow> Some (reportError w requestID err 504, c2)
                | Some (Inr responseBytes, c2) \<Rightarrow>
                    (case readResponse fm responseBytes r of
                       Inl err \<Rightarrow> Some (reportError w requestID err 500, c2)
                     | Inr response \<Rightarrow>
                         (let c3 = (if hr_Method r = ''GET'' \<and> res_StatusCode response = 200
                                       \<and> headerGet (res_Header response) ''Cache-Control'' = []
                                    then snd (cacheResponse c2 cacheKey responseBytes) else c2)
                          in Some (forwardResponse w response, c3))))))"

definition proxyHandler ::
  "appengine \<Rightarrow> formats \<Rightarrow> (nat \<Rightarrow> store_op list) \<Rightarrow> ('d, 'm) ctx Store \<Rightarrow> string \<Rightarrow> responseWriter
   \<Rightarrow> httpRequest \<Rightarrow> ('d, 'm) ctx \<Rightarrow> (responseWriter \<times> ('d, 'm) ctx) option" where
  "proxyHandler ae fm others s requestID w r c =
     (case CurrentUser ae of
        None \<Rightarrow> Some (httpError w ''You must be signed in to App Engine'' 401, c)
      | Some userEmail \<Rightarrow>
          (case LookupBackend s c userEmail (hr_Path r) of
             Inl _ \<Rightarrow> Some (httpNotFound w, c)
           | Inr backendID \<Rightarrow>
               (let cacheKey = ''cache:'' @ pageKey (printable c) userEmail (hr_URL r) in
                case cachedPage fm c cacheKey r of
                  Some response \<Rightarrow> Some (forwardResponse w response, c)
                | None \<Rightarrow> relayRequest fm others s backendID userEmail cacheKey requestID w r c)))"

section \<open>API handlers\<close>

definition parseBackend :: "formats \<Rightarrow> httpRequest \<Rightarrow> error + Backend" where
  "parseBackend fm r =
     (case hr_Body r of
        Inl err \<Rightarrow> Inl err
      | Inr requestBytes \<Rightarrow>
          (case unmarshalBackend fm requestBytes of
             Inl err \<Rightarrow> Inl err
           | Inr backend \<Rightarrow>
               if be_BackendID backend = [] \<or> be_BackendUser backend = [] \<or> be_EndUser backend = []
                  \<or> be_PathPrefixes backend = []
               then Inl (ErrMsg ''Missing required fields'') else Inr backend))"

definition addBackendHandler ::
  "formats \<Rightarrow> ('d, 'm) ctx Store \<Rightarrow> responseWriter \<Rightarrow> httpRequest \<Rightarrow> ('d, 'm) ctx
   \<Rightarrow> (responseWriter \<times> ('d, 'm) ctx) option" where
  "addBackendHandler fm s w r c =
     (case parseBackend fm r of
        Inl _ \<Rightarrow> Some (httpError w ''Failed to parse the backend definition'' 400, c)
      | Inr backend \<Rightarrow>
          (case AddBackend s c backend of
             (Some _, c1) \<Rightarrow> Some (httpError w ''Failed to add a backend'' 500, c1)
           | (None, c1) \<Rightarrow> Some (WriteHeader w 200, c1)))"

definition listBackendsHandler ::
  "formats \<Rightarrow> ('d, 'm) ctx Store \<Rightarrow> responseWriter \<Rightarrow> ('d, 'm) ctx
   \<Rightarrow> (responseWriter \<times> ('d, 'm) ctx) option" where
  "listBackendsHandler fm s w c =
     (case ListBackends s c of
        Inl _ \<Rightarrow> Some (httpError w ''Failed to list backends'' 500, c)
      | Inr backends \<Rightarrow>
          (case marshalBackends fm backends of
             Inl _ \<Rightarrow> Some (httpError w ''Failed to list backends'' 500, c)
           | Inr responseBytes \<Rightarrow> Some (WriteBody w responseBytes, c)))"

definition TrimPrefix :: "string \<Rightarrow> string \<Rightarrow> string" where
  "TrimPrefix s p = (if prefix p s then drop (length p) s else s)"

definition deleteBackendHandler ::
  "('d, 'm) ctx Store \<Rightarrow> responseWriter \<Rightarrow> httpRequest \<Rightarrow> ('d, 'm) ctx
   \<Rightarrow> (responseWriter \<times> ('d, 'm) ctx) option" where
  "deleteBackendHandler s w r c =
     (let backendID = TrimPrefix (hr_Path r) ''/api/backends/'' in
      if backendID = [] then Some (httpError w ''No backend specified'' 400, c)
      else (case DeleteBackend s c backendID of
              None \<Rightarrow> None
            | Some (Some _, c1) \<Rightarrow> Some (httpError w ''Failed to delete the backend'' 500, c1)
            | Some (None, c1) \<Rightarrow> Some (WriteHeader w 200, c1)))"

section \<open>Routing of requests to handlers\<close>

definition isAgentRequest :: "appengine \<Rightarrow> bool" where
  "isAgentRequest ae = (ModuleName ae = ''agent'')"

definition isAPIRequest :: "appengine \<Rightarrow> bool" where
  "isAPIRequest ae = (ModuleName ae = ''api'')"

definition handleAgentRequest ::
  "appengine \<Rightarrow> formats \<Rightarrow> (nat \<Rightarrow> store_op list) \<Rightarrow> ('d, 'm) ctx Store \<Rightarrow> responseWriter \<Rightarrow> httpRequest
   \<Rightarrow> ('d, 'm) ctx \<Rightarrow> (responseWriter \<times> ('d, 'm) ctx) option" where
  "handleAgentRequest ae fm others s w r c =
     (if prefix ''/agent/pending'' (hr_Path r) then pendingHandler ae fm others s w r c
      else if prefix ''/agent/request'' (hr_Path r) then requestHandler ae s w r c
      else if prefix ''/agent/response'' (hr_Path r) then responseHandler ae s w r c
      else Some (httpError w ''Invalid request path'' 404, c))"

definition isAdminRequest :: "appengine \<Rightarrow> bool" where
  "isAdminRequest ae =
     (if IsAdmin ae then True
      else (case CurrentOAuth ae of Inl _ \<Rightarrow> False | Inr oauthUser \<Rightarrow> oauth_Admin oauthUser))"

definition handleAPIRequest ::
  "appengine \<Rightarrow> formats \<Rightarrow> ('d, 'm) ctx Store \<Rightarrow> responseWriter \<Rightarrow> httpRequest
   \<Rightarrow> ('d, 'm) ctx \<Rightarrow> (responseWriter \<times> ('d, 'm) ctx) option" where
  "handleAPIRequest ae fm s w r c =
     (if hr_Path r = ''/cron/delete'' then deleteHandler s w c
      else if \<not> isAdminRequest ae then Some (httpError w ''Forbidden'' 403, c)
      else if hr_Path r = ''/api/backends'' then
        (if hr_Method r = ''GET'' then listBackendsHandler fm s w c
         else if hr_Method r = ''POST'' then addBackendHandler fm s w r c
         else Some (httpError w (''Unsupported API method: '' @ hr_Method r) 405, c))
      else if prefix ''/api/backends/'' (hr_Path r) then
        (if hr_Method r = ''DELETE'' then deleteBackendHandler s w r c
         else Some (httpError w (''Unsupported API method: '' @ hr_Method r) 405, c))
      else Some (httpError w ''Invalid request path'' 404, c))"

definition serveApp ::
  "appengine \<Rightarrow> formats \<Rightarrow> (nat \<Rightarrow> store_op list) \<Rightarrow> responseWriter \<Rightarrow> httpRequest
   \<Rightarrow> ('d, 'm) ctx \<Rightarrow> (responseWriter \<times> ('d, 'm) ctx) option" where
  "serveApp ae fm others w r c =
     (if isAgentRequest ae then handleAgentRequest ae fm others appStore w r c
      else if isAPIRequest ae then handleAPIRequest ae fm appStore w r c
      else proxyHandler ae fm others appStore (AppRequestID ae) w r c)"

end
