(* ===== verification/App_Proxy_Correct.thy ===== *)
theory App_Proxy_Correct
  imports App_Proxy
begin

text \<open>
  Lemmas on the handlers: the polling loops, proved once for every store that keeps the contract
  \<open>request_store\<close>, and the effect of each handler on the deployed store.
\<close>

section \<open>The polling loops\<close>

definition pollOps :: "(nat \<Rightarrow> store_op list) \<Rightarrow> string \<Rightarrow> nat \<Rightarrow> store_op list" where
  "pollOps others b i = OpListPendingRequests b # sleepOps others i"

definition rounds :: "(nat \<Rightarrow> store_op list) \<Rightarrow> nat \<Rightarrow> nat \<Rightarrow> store_op list" where
  "rounds f i n = concat (map f [i..<i + n])"

lemma rounds_0 [simp]: "rounds f i 0 = []"
  by (simp add: rounds_def)

lemma rounds_Suc: "rounds f i (Suc n) = f i @ rounds f (Suc i) n"
  by (simp add: rounds_def upt_conv_Cons del: upt_Suc)

lemma exec_ops_append_Some:
  "exec_ops S ops c = Some (es, c1) \<Longrightarrow> exec_ops S ops' c1 = Some (es', c2) \<Longrightarrow>
     exec_ops S (ops @ ops') c = Some (es @ es', c2)"
  by (simp add: exec_ops_append)

context request_store
begin

lemma sleep_step:
  assumes "invar c"
  obtains es c1 where "exec_ops S (sleepOps others i) c = Some (es, c1)" "invar c1" "now c < now c1"
proof -
  obtain es c0 where e: "exec_ops S (others i) c = Some (es, c0)" "invar c0"
    using exec_ops_total [OF assms] by blast
  let ?c1 = "c0\<lparr>now := now c0 + int pollInterval\<rparr>"
  have "exec_ops S (sleepOps others i) c = Some (es @ [None], ?c1)"
    unfolding sleepOps_def by (rule exec_ops_append_Some [OF e(1)]) simp
  moreover have "invar ?c1" using exec_invar [OF e(2), of "OpTick pollInterval"] by simp
  moreover have "now c < now ?c1"
    using exec_ops_time [OF assms e(1)] by (simp add: pollInterval_def Millisecond_def)
  ultimately show thesis by (rule that)
qed

lemma waitForResponseLoop_result:
  assumes "invar c"
  shows "\<exists>res c' n errs. waitForResponseLoop S others deadline b rid i c = Some (res, c')
    \<and> exec_ops S (rounds (sleepOps others) i n) c = Some (errs, c') \<and> invar c'
    \<and> (case res of Inl _ \<Rightarrow> deadline \<le> now c'
        | Inr bs \<Rightarrow> bs \<noteq> [] \<and> (\<exists>r. ReadResponse S c' b rid = Inr r \<and> resp_Contents r = bs))"
  using assms
proof (induction "nat (deadline - now c)" arbitrary: c i rule: less_induct)
  case less
  let ?loop = "waitForResponseLoop S others deadline b rid"
  show ?case
  proof (cases "deadline \<le> now c \<or> (\<exists>r. ReadResponse S c b rid = Inr r \<and> resp_Contents r \<noteq> [])")
    case True
    then have "\<exists>res. ?loop i c = Some (res, c) \<and> (case res of Inl _ \<Rightarrow> deadline \<le> now c
        | Inr bs \<Rightarrow> bs \<noteq> [] \<and> (\<exists>r. ReadResponse S c b rid = Inr r \<and> resp_Contents r = bs))"
      by (subst waitForResponseLoop.simps) (auto split: sum.splits)
    moreover have "exec_ops S (rounds (sleepOps others) i 0) c = Some ([], c)" by simp
    ultimately show ?thesis using less.prems by blast
  next
    case False
    obtain es c1 where s: "exec_ops S (sleepOps others i) c = Some (es, c1)" "invar c1" "now c < now c1"
      using sleep_step [OF less.prems] by blast
    have next_round: "?loop i c = ?loop (Suc i) c1"
      using False s(1) by (subst waitForResponseLoop.simps) (auto split: sum.splits)
    have "nat (deadline - now c1) < nat (deadline - now c)"
      using s(3) False by simp
    then obtain res c' n errs where r: "?loop (Suc i) c1 = Some (res, c')"
        "exec_ops S (rounds (sleepOps others) (Suc i) n) c1 = Some (errs, c')" "invar c'"
        "case res of Inl _ \<Rightarrow> deadline \<le> now c'
         | Inr bs \<Rightarrow> bs \<noteq> [] \<and> (\<exists>r. ReadResponse S c' b rid = Inr r \<and> resp_Contents r = bs)"
      using less.hyps [OF _ s(2), of "Suc i"] by blast
    have "exec_ops S (rounds (sleepOps others) i (Suc n)) c = Some (es @ errs, c')"
      unfolding rounds_Suc by (rule exec_ops_append_Some [OF s(1) r(2)])
    then show ?thesis
      unfolding next_round by (intro exI conjI) (rule r(1), assumption, rule r(3), rule r(4))
  qed
qed

lemma ListPending_exec:
  "ListPendingRequests S c b = (res, c') \<Longrightarrow>
     exec_op S (OpListPendingRequests b) c = Some (case res of Inl e \<Rightarrow> Some e | Inr _ \<Rightarrow> None, c')"
  by (simp split: sum.split)

text \<open>A round of the loop that lists nothing is one of \<open>pollOps\<close>, and time passes.\<close>

lemma empty_poll:
  assumes "invar c" and "\<not> deadline \<le> now c" and "ListPendingRequests S c b = (res, c1)"
    and "\<nexists>rs. res = Inr rs \<and> rs \<noteq> []"
  obtains es c2 where "exec_ops S (pollOps others b i) c = Some (es, c2)" "invar c2" "now c < now c2"
    "waitForNextRequestsLoop S others deadline b i c = waitForNextRequestsLoop S others deadline b (Suc i) c2"
proof -
  note ex = ListPending_exec [OF assms(3)]
  have i1: "invar c1" by (rule exec_invar [OF assms(1) ex])
  obtain es c2 where s: "exec_ops S (sleepOps others i) c1 = Some (es, c2)" "invar c2" "now c1 < now c2"
    using sleep_step [OF i1] by blast
  have "exec_ops S (pollOps others b i) c = Some ((case res of Inl e \<Rightarrow> Some e | Inr _ \<Rightarrow> None) # es, c2)"
    using ex s(1) unfolding pollOps_def exec_ops_Cons by blast
  moreover have "now c < now c2" using exec_time [OF assms(1) ex] s(3) by simp
  moreover have "waitForNextRequestsLoop S others deadline b i c = waitForNextRequestsLoop S others deadline b (Suc i) c2"
    using assms(2-4) s(1) by (subst waitForNextRequestsLoop.simps) (auto split: sum.splits)
  ultimately show thesis using that s(2) by blast
qed

lemma waitForNextRequestsLoop_result:
  assumes "invar c"
  shows "\<exists>res c' c0 n errs. waitForNextRequestsLoop S others deadline b i c = Some (res, c')
    \<and> exec_ops S (rounds (pollOps others b) i n) c = Some (errs, c0) \<and> invar c0 \<and> invar c'
    \<and> (case res of Inl _ \<Rightarrow> deadline \<le> now c' \<and> c' = c0
        | Inr rs \<Rightarrow> rs \<noteq> [] \<and> ListPendingRequests S c0 b = (Inr rs, c'))"
  using assms
proof (induction "nat (deadline - now c)" arbitrary: c i rule: less_induct)
  case less
  let ?loop = "waitForNextRequestsLoop S others deadline b"
  have none: "exec_ops S (rounds (pollOps others b) i 0) c = Some ([], c)" by simp
  obtain res c1 where l: "ListPendingRequests S c b = (res, c1)" by fastforce
  consider "deadline \<le> now c" | rs where "\<not> deadline \<le> now c" "res = Inr rs" "rs \<noteq> []"
    | "\<not> deadline \<le> now c" "\<nexists>rs. res = Inr rs \<and> rs \<noteq> []"
    by blast
  then show ?case
  proof cases
    case 1
    then obtain e where e: "?loop i c = Some (Inl e, c)"
      by (subst (asm) waitForNextRequestsLoop.simps) simp
    show ?thesis
      by (intro exI conjI) (rule e, rule none, rule less.prems, rule less.prems, simp add: 1)
  next
    case (2 rs)
    then have "?loop i c = Some (Inr rs, c1)"
      using l by (subst waitForNextRequestsLoop.simps) simp
    moreover have "invar c1" by (rule exec_invar [OF less.prems ListPending_exec [OF l]])
    ultimately show ?thesis using none less.prems 2 l by (intro exI conjI) (assumption+, simp)
  next
    case 3
    obtain es c2 where s: "exec_ops S (pollOps others b i) c = Some (es, c2)" "invar c2" "now c < now c2"
        "?loop i c = ?loop (Suc i) c2"
      by (rule empty_poll [OF less.prems 3(1) l 3(2)])
    have "nat (deadline - now c2) < nat (deadline - now c)" using s(3) 3(1) by simp
    then obtain res' c' c0 n errs where r: "?loop (Suc i) c2 = Some (res', c')"
        "exec_ops S (rounds (pollOps others b) (Suc i) n) c2 = Some (errs, c0)" "invar c0" "invar c'"
        "case res' of Inl _ \<Rightarrow> deadline \<le> now c' \<and> c' = c0
         | Inr rs \<Rightarrow> rs \<noteq> [] \<and> ListPendingRequests S c0 b = (Inr rs, c')"
      using less.hyps [OF _ s(2), of "Suc i"] by blast
    have "exec_ops S (rounds (pollOps others b) i (Suc n)) c = Some (es @ errs, c0)"
      unfolding rounds_Suc by (rule exec_ops_append_Some [OF s(1) r(2)])
    then show ?thesis
      unfolding s(4) by (intro exI conjI) (rule r(1), assumption, rule r(3), rule r(4), rule r(5))
  qed
qed

end

section \<open>The deployed store\<close>

lemma appStore_sel [simp]:
  "LookupBackend appStore = persistentStore_LookupBackend"
  "IsBackendUserAllowed appStore = persistentStore_IsBackendUserAllowed"
  "AddBackend appStore = persistentStore_AddBackend"
  "DeleteBackend appStore = persistentStore_DeleteBackend"
  "DeleteOldBackends appStore = persistentStore_DeleteOldBackends"
  "DeleteOldRequests appStore = persistentStore_DeleteOldRequests"
  "ListPendingRequests appStore = persistentStore_ListPendingRequests"
  "ListBackends appStore = persistentStore_ListBackends"
  by (simp_all add: appStore_def NewCachingStore_def)

definition authorised :: "appengine \<Rightarrow> ('d, 'm) ctx \<Rightarrow> httpRequest \<Rightarrow> string \<Rightarrow> bool" where
  "authorised ae c r b \<longleftrightarrow>
     b = headerGet (hr_Header r) HeaderBackendID \<and> b \<noteq> []
     \<and> (\<exists>u be. CurrentOAuth ae = Inr u \<and> backendRecord c b = Some be \<and> be_BackendUser be = oauth_Email u)"

lemma checkBackendID_authorised:
  assumes "store_inv c" and "checkBackendID ae appStore r c = Inr b"
  shows "authorised ae c r b"
  using assms(2) IsBackendUserAllowed_answer [OF assms(1)]
  by (auto simp: checkBackendID_def authorised_def Let_def split: sum.splits if_splits)

section \<open>Posting a response\<close>

text \<open>The two concurrent writes of \<^verbatim>\<open>postResponse\<close> as a sequence of store operations.\<close>

definition completionOps :: "Response \<Rightarrow> Request \<Rightarrow> bool \<Rightarrow> store_op list" where
  "completionOps w q swapped =
     (let ops = [OpWriteResponse (w\<lparr>resp_StartTime := req_StartTime q\<rparr>), OpWriteRequest (q\<lparr>req_Completed := True\<rparr>)]
      in if swapped then rev ops else ops)"

lemma sendAll_Some: "sendAll n es = Some xs \<Longrightarrow> (xs = [] \<longleftrightarrow> set es \<subseteq> {None})"
  by (auto simp: sendAll_def Let_def filter_empty_conv split: if_splits)

lemma sendAll_pair: "sendAll 1 [e1, e2] = None \<longleftrightarrow> e1 \<noteq> None \<and> e2 \<noteq> None"
  by (simp add: sendAll_def Let_def)

lemma postResponse_cases:
  obtains (unknown) e where "ReadRequest s c (resp_BackendID w) (resp_RequestID w) = Inl e"
      "\<exists>e. postResponse s 1 w c = Some ([e], c)"
    | (known) q swapped e1 e2 c' where "ReadRequest s c (resp_BackendID w) (resp_RequestID w) = Inr q"
      "exec_ops s (completionOps w q swapped) c = Some ([e1, e2], c')"
      "postResponse s 1 w c = None \<longleftrightarrow> e1 \<noteq> None \<and> e2 \<noteq> None"
      "\<And>errs c''. postResponse s 1 w c = Some (errs, c'') \<Longrightarrow> c'' = c' \<and> (errs = [] \<longleftrightarrow> e1 = None \<and> e2 = None)"
proof (cases "ReadRequest s c (resp_BackendID w) (resp_RequestID w)")
  case (Inl e)
  moreover have "\<exists>e. postResponse s 1 w c = Some ([e], c)"
    by (simp add: postResponse_def Inl sendAll_def)
  ultimately show thesis by (rule unknown)
next
  case (Inr q)
  let ?w = "w\<lparr>resp_StartTime := req_StartTime q\<rparr>" and ?q = "q\<lparr>req_Completed := True\<rparr>"
  obtain x y c' where g: "go2 (sched c 2) (\<lambda>c. WriteResponse s c ?w) (\<lambda>c. WriteRequest s c ?q) c = (x, y, c')"
    by (metis surj_pair)
  then have p: "postResponse s 1 w c = map_option (\<lambda>errs. (errs, c')) (sendAll 1 [x, y])"
    by (simp add: postResponse_def Inr)
  have pNone: "postResponse s 1 w c = None \<longleftrightarrow> x \<noteq> None \<and> y \<noteq> None"
    by (simp only: p option.map_disc_iff sendAll_pair)
  have pSome: "c'' = c' \<and> (errs = [] \<longleftrightarrow> x = None \<and> y = None)"
    if "postResponse s 1 w c = Some (errs, c'')" for errs c''
    using that sendAll_Some [of 1 "[x, y]" errs] unfolding p by auto
  from g show thesis
  proof (rule go2_cases)
    fix c1 assume "WriteResponse s c ?w = (x, c1)" "WriteRequest s c1 ?q = (y, c')"
    then have "exec_ops s (completionOps w q False) c = Some ([x, y], c')"
      by (simp add: completionOps_def)
    then show thesis
      by (rule known [OF Inr]) (use pNone pSome in blast)+
  next
    fix c1 assume "WriteRequest s c ?q = (y, c1)" "WriteResponse s c1 ?w = (x, c')"
    then have "exec_ops s (completionOps w q True) c = Some ([y, x], c')"
      by (simp add: completionOps_def)
    then show thesis
      by (rule known [OF Inr]) (use pNone pSome in blast)+
  qed
qed

lemma completionOps_set: "set (completionOps w q swapped) =
    {OpWriteResponse (w\<lparr>resp_StartTime := req_StartTime q\<rparr>), OpWriteRequest (q\<lparr>req_Completed := True\<rparr>)}"
  by (auto simp: completionOps_def Let_def)

lemma responses_frame:
  assumes "app_inv c" and "exec_ops appStore ops c = Some (errs, c')"
    and "\<And>op. op \<in> set ops \<Longrightarrow> \<not> writesResponse rid op"
  shows "visibleResponses c' rid \<subseteq> visibleResponses c rid"
proof -
  have "length errs = length ops"
    using assms(2) by (induction ops arbitrary: c errs) (auto simp: exec_ops_Cons simp del: exec_ops.simps(2))
  then have "allSucceed (writesResponse rid) ops errs"
    using assms(3) by (auto simp: allSucceed_def list_all2_conv_all_nth)
  moreover have "responseWrites rid ops = {}"
    using assms(3) by (force simp: responseWrites_def)
  ultimately show ?thesis using app.exec_ops_responses [OF assms(1,2), of rid] by simp
qed

lemma exec_two:
  assumes "exec_ops s [op1, op2] c = Some ([e1, e2], c')"
  obtains c1 where "exec_op s op1 c = Some (e1, c1)" "exec_op s op2 c1 = Some (e2, c')"
  using assms by (auto simp: exec_ops_Cons simp del: exec_ops.simps(2))

lemma completion_stores:
  assumes "app_inv c" and "exec_ops appStore (completionOps w q swapped) c = Some ([None, None], c')"
  shows "storedResponses c' (resp_RequestID w) = {canonResponse w}"
    and "storedRequests c' (req_BackendID q) (req_RequestID q) = {canonRequest (q\<lparr>req_Completed := True\<rparr>)}"
proof -
  let ?w = "w\<lparr>resp_StartTime := req_StartTime q\<rparr>" and ?q = "q\<lparr>req_Completed := True\<rparr>"
  have canon: "canonResponse ?w = canonResponse w" by (simp add: canonResponse_def)
  have "storedResponses c' (resp_RequestID ?w) = {canonResponse ?w}
      \<and> storedRequests c' (req_BackendID ?q) (req_RequestID ?q) = {canonRequest ?q}"
  proof (cases swapped)
    case False
    then have "exec_ops appStore [OpWriteResponse ?w, OpWriteRequest ?q] c = Some ([None, None], c')"
      using assms(2) by (simp add: completionOps_def Let_def)
    then obtain c1 where s: "exec_op appStore (OpWriteResponse ?w) c = Some (None, c1)"
        "exec_op appStore (OpWriteRequest ?q) c1 = Some (None, c')" by (rule exec_two)
    have i: "store_inv c" "store_inv c1"
      using app_inv_step [OF assms(1) s(1)] assms(1) by (simp_all add: app_inv_def)
    show ?thesis
      using app_response_kept [OF i(2) s(2)] app_response_written [OF i(1) s(1)] app_request_written [OF i(2) s(2)]
      by simp
  next
    case True
    then have "exec_ops appStore [OpWriteRequest ?q, OpWriteResponse ?w] c = Some ([None, None], c')"
      using assms(2) by (simp add: completionOps_def Let_def)
    then obtain c1 where s: "exec_op appStore (OpWriteRequest ?q) c = Some (None, c1)"
        "exec_op appStore (OpWriteResponse ?w) c1 = Some (None, c')" by (rule exec_two)
    have i: "store_inv c" "store_inv c1"
      using app_inv_step [OF assms(1) s(1)] assms(1) by (simp_all add: app_inv_def)
    show ?thesis
      using app_request_kept [OF i(2) s(2)] app_request_written [OF i(1) s(1)] app_response_written [OF i(2) s(2)]
      by simp
  qed
  then show "storedResponses c' (resp_RequestID w) = {canonResponse w}"
    "storedRequests c' (req_BackendID q) (req_RequestID q) = {canonRequest ?q}"
    by (simp_all add: canon)
qed

section \<open>The handlers\<close>

lemma handler_unauthorised:
  assumes "app_inv c" and "\<forall>b. \<not> authorised ae c r b"
  obtains e where "checkBackendID ae appStore r c = Inl e"
  using checkBackendID_authorised [OF app_inv_stored [OF assms(1)]] assms(2)
  by (cases "checkBackendID ae appStore r c") auto

lemma parseResponse_Inr:
  "parseResponse b r = Inr w \<Longrightarrow> resp_BackendID w = b \<and> resp_RequestID w = headerGet (hr_Header r) HeaderRequestID
     \<and> resp_RequestID w \<noteq> [] \<and> hr_Body r = Inr (resp_Contents w)"
  by (auto simp: parseResponse_def Let_def split: if_splits sum.splits)

lemma waitForResponse_app:
  assumes "app_inv c"
  obtains res c' n errs where "waitForResponse appStore others b rid c = Some (res, c')"
    "exec_ops appStore (rounds (sleepOps others) 0 n) c = Some (errs, c')" "app_inv c'"
    "\<And>bs. res = Inr bs \<Longrightarrow> allSucceed (writesResponse rid) (rounds (sleepOps others) 0 n) errs \<Longrightarrow>
       \<exists>x \<in> visibleResponses c rid \<union> responseWrites rid (rounds (sleepOps others) 0 n). resp_Contents x = bs"
proof -
  obtain res c' n errs where r: "waitForResponse appStore others b rid c = Some (res, c')"
      "exec_ops appStore (rounds (sleepOps others) 0 n) c = Some (errs, c')" "app_inv c'"
      "case res of Inl _ \<Rightarrow> now c + responseWaitTimeout \<le> now c'
       | Inr bs \<Rightarrow> bs \<noteq> [] \<and> (\<exists>x. ReadResponse appStore c' b rid = Inr x \<and> resp_Contents x = bs)"
    unfolding waitForResponse_def using app.waitForResponseLoop_result [OF assms] by blast
  show thesis
  proof (rule that [OF r(1-3)])
    fix bs assume "res = Inr bs" and ok: "allSucceed (writesResponse rid) (rounds (sleepOps others) 0 n) errs"
    then obtain x where x: "ReadResponse appStore c' b rid = Inr x" "resp_Contents x = bs" using r(4) by auto
    show "\<exists>x \<in> visibleResponses c rid \<union> responseWrites rid (rounds (sleepOps others) 0 n). resp_Contents x = bs"
      using app.responses_from_writes [OF assms r(2) ok x(1)] x(2) by (metis canonResponse_simps(3))
  qed
qed

lemma waitForNextRequests_app:
  assumes "app_inv c"
  obtains res c' c0 where "waitForNextRequests appStore others b c = Some (res, c')" "app_inv c'" "app_inv c0"
    "\<And>e. res = Inl e \<Longrightarrow> now c + requestsWaitTimeout \<le> now c'"
    "\<And>rs. res = Inr rs \<Longrightarrow> rs \<noteq> [] \<and> persistentStore_ListPendingRequests c0 b = (Inr rs, c')"
proof -
  obtain res c' c0 where r: "waitForNextRequests appStore others b c = Some (res, c')" "app_inv c0" "app_inv c'"
      "case res of Inl _ \<Rightarrow> now c + requestsWaitTimeout \<le> now c' \<and> c' = c0
       | Inr rs \<Rightarrow> rs \<noteq> [] \<and> ListPendingRequests appStore c0 b = (Inr rs, c')"
    unfolding waitForNextRequests_def using app.waitForNextRequestsLoop_result [OF assms] by blast
  show thesis
    by (rule that [OF r(1,3,2)]) (use r(4) in auto)
qed

section \<open>The proxy handler\<close>

lemma cachedPage_Some:
  assumes "app_inv c" and "cachedPage fm c key r = Some resp"
  shows "\<exists>bs. hr_Method r = ''GET'' \<and> cached c key = Some (RawBytes bs) \<and> readResponse fm bs r = Inr resp"
  using assms(2) CacheGet_cached [OF store_invD(1) [OF app_inv_stored [OF assms(1)]]]
  by (auto simp: cachedPage_def readCachedResponse_def split: if_splits sum.splits cacheValue.splits)

text \<open>Relaying a request returns; its outcome is an error of the proxy or the parsed bytes of a response
  found under the request's own ID after the request was stored.\<close>

definition relayed ::
  "formats \<Rightarrow> (nat \<Rightarrow> store_op list) \<Rightarrow> string \<Rightarrow> string \<Rightarrow> string \<Rightarrow> httpRequest \<Rightarrow> ('d, 'm) ctx \<Rightarrow> bytes \<Rightarrow> bool" where
  "relayed fm others b u rid r c bs \<longleftrightarrow>
     (\<exists>body n errs c2. writeRequest fm r = Inr body
        \<and> exec_ops appStore (OpWriteRequest (NewRequest (now c) b rid u body) # rounds (sleepOps others) 0 n) c
          = Some (None # errs, c2)
        \<and> (allSucceed (writesResponse rid) (rounds (sleepOps others) 0 n) errs \<longrightarrow>
             (\<exists>x \<in> visibleResponses c rid \<union> responseWrites rid (rounds (sleepOps others) 0 n).
                resp_Contents x = bs)))"

lemma app_inv_cacheResponse:
  assumes "app_inv c" shows "app_inv (snd (cacheResponse c (''cache:'' @ k) bs))"
  using app_inv_step [OF assms, of "OpCacheResponse k bs" "fst (cacheResponse c (''cache:'' @ k) bs)"
      "snd (cacheResponse c (''cache:'' @ k) bs)"]
  by (simp add: cacheResponse_def)

text \<open>The part after the request was posted.\<close>

definition relayFound ::
  "formats \<Rightarrow> string \<Rightarrow> string \<Rightarrow> responseWriter \<Rightarrow> httpRequest \<Rightarrow> (error + bytes) \<Rightarrow> ('d, 'm) ctx
   \<Rightarrow> responseWriter \<times> ('d, 'm) ctx" where
  "relayFound fm key rid w r res c =
     (case res of
        Inl err \<Rightarrow> (reportError w rid err 504, c)
      | Inr bs \<Rightarrow>
          (case readResponse fm bs r of
             Inl err \<Rightarrow> (reportError w rid err 500, c)
           | Inr response \<Rightarrow>
               (forwardResponse w response,
                if hr_Method r = ''GET'' \<and> res_StatusCode response = 200 \<and> headerGet (res_Header response) ''Cache-Control'' = []
                then snd (cacheResponse c key bs) else c)))"

lemma relayRequest_posted:
  assumes "writeRequest fm r = Inr body" "WriteRequest S c (NewRequest (now c) b rid u body) = (None, c1)"
    and "waitForResponse S others b rid c1 = Some (res, c2)"
  shows "relayRequest fm others S b u key rid w r c = Some (relayFound fm key rid w r res c2)"
  using assms by (simp add: relayRequest_def postRequest_def relayFound_def Let_def split: sum.split)

lemma relayFound_cases:
  assumes "app_inv c" and "relayFound fm (''cache:'' @ k) rid w r res c = (w', c')"
  shows "app_inv c' \<and> ((\<exists>e code. w' = reportError w rid e code \<and> code \<in> {500, 504})
      \<or> (\<exists>bs resp. res = Inr bs \<and> readResponse fm bs r = Inr resp \<and> w' = forwardResponse w resp))"
  using assms app_inv_cacheResponse [OF assms(1)]
  by (auto simp: relayFound_def split: sum.splits if_splits)

lemma relayRequest_result:
  assumes "app_inv c"
  shows "\<exists>w' c'. relayRequest fm others appStore b u (''cache:'' @ k) rid w r c = Some (w', c') \<and> app_inv c'
     \<and> ((\<exists>e code. w' = reportError w rid e code \<and> code \<in> {500, 504})
        \<or> (\<exists>bs resp. readResponse fm bs r = Inr resp \<and> w' = forwardResponse w resp \<and> relayed fm others b u rid r c bs))"
proof (cases "writeRequest fm r")
  case (Inl e)
  then show ?thesis using assms by (auto simp: relayRequest_def)
next
  case body: (Inr body)
  let ?req = "NewRequest (now c) b rid u body"
  obtain e1 c1 where wr: "WriteRequest appStore c ?req = (e1, c1)" by fastforce
  have ex: "exec_op appStore (OpWriteRequest ?req) c = Some (e1, c1)" by (simp add: wr)
  have i1: "app_inv c1" by (rule app_inv_step [OF assms ex])
  show ?thesis
  proof (cases e1)
    case (Some e)
    then have "relayRequest fm others appStore b u (''cache:'' @ k) rid w r c = Some (reportError w rid e 500, c1)"
      by (simp add: relayRequest_def body postRequest_def wr)
    then show ?thesis using i1 by blast
  next
    case None
    obtain res c2 n errs where wt: "waitForResponse appStore others b rid c1 = Some (res, c2)"
        "exec_ops appStore (rounds (sleepOps others) 0 n) c1 = Some (errs, c2)" "app_inv c2"
        "\<And>bs. res = Inr bs \<Longrightarrow> allSucceed (writesResponse rid) (rounds (sleepOps others) 0 n) errs \<Longrightarrow>
           \<exists>x \<in> visibleResponses c1 rid \<union> responseWrites rid (rounds (sleepOps others) 0 n). resp_Contents x = bs"
      by (rule waitForResponse_app [where others = others and b = b and rid = rid, OF i1]) (rule that)
    have "exec_ops appStore (OpWriteRequest ?req # rounds (sleepOps others) 0 n) c = Some (None # errs, c2)"
      using ex wt(2) None unfolding exec_ops_Cons by blast
    moreover have "visibleResponses c1 rid \<subseteq> visibleResponses c rid"
      by (rule app.resps_frame [OF assms ex]) simp
    ultimately have found: "relayed fm others b u rid r c bs" if "res = Inr bs" for bs
      unfolding relayed_def using wt(4) [OF that] body by blast
    obtain w' c' where f: "relayFound fm (''cache:'' @ k) rid w r res c2 = (w', c')" by fastforce
    have "relayRequest fm others appStore b u (''cache:'' @ k) rid w r c = Some (w', c')"
      using relayRequest_posted [OF body _ wt(1)] wr None f by simp
    then show ?thesis using relayFound_cases [OF wt(3) f] found by blast
  qed
qed

lemma header_names_distinct:
  "CanonicalHeaderKey HeaderRequestID \<noteq> CanonicalHeaderKey HeaderUserID"
  "CanonicalHeaderKey HeaderRequestID \<noteq> CanonicalHeaderKey HeaderRequestStartTime"
  "CanonicalHeaderKey HeaderUserID \<noteq> CanonicalHeaderKey HeaderRequestStartTime"
  "CanonicalHeaderKey HeaderUserID \<noteq> CanonicalHeaderKey HeaderRequestID"
  "CanonicalHeaderKey HeaderRequestStartTime \<noteq> CanonicalHeaderKey HeaderRequestID"
  "CanonicalHeaderKey HeaderRequestStartTime \<noteq> CanonicalHeaderKey HeaderUserID"
  by code_simp+

section \<open>Every handler answers\<close>

lemma rwStatus_forwardResponse [simp]: "rwStatus (forwardResponse newResponseWriter resp) = Some (res_StatusCode resp)"
  by (simp add: forwardResponse_def Let_def rwStatus_def WriteBody_def WriteHeader_def newResponseWriter_def)

lemma rwStatus_reportError [simp]: "rwStatus (reportError newResponseWriter rid e code) = Some code"
  by (simp add: reportError_def)

lemma pendingHandler_answers:
  assumes "app_inv c"
  shows "\<exists>w c'. pendingHandler ae fm others appStore newResponseWriter r c = Some (w, c') \<and> app_inv c' \<and> rwStatus w \<noteq> None"
proof (cases "checkBackendID ae appStore r c")
  case (Inr b)
  obtain res c' where "waitForNextRequests appStore others b c = Some (res, c')" "app_inv c'"
    by (rule waitForNextRequests_app [where others = others and b = b, OF assms])
  then show ?thesis
    by (cases "marshalStrings fm (case res of Inl _ \<Rightarrow> [] | Inr rs \<Rightarrow> rs)") (simp_all add: pendingHandler_def Inr Let_def)
qed (use assms in \<open>simp add: pendingHandler_def\<close>)

lemma responseHandler_answers:
  assumes "app_inv c" and "responseHandler ae appStore newResponseWriter r c = Some (w, c')"
  shows "app_inv c' \<and> rwStatus w \<noteq> None"
proof (cases "\<exists>b resp errs. checkBackendID ae appStore r c = Inr b \<and> parseResponse b r = Inr resp
    \<and> postResponse appStore 1 resp c = Some (errs, c')")
  case False
  then show ?thesis
    using assms by (auto simp: responseHandler_def split: sum.splits option.splits list.splits)
next
  case True
  then obtain b resp errs where p: "checkBackendID ae appStore r c = Inr b" "parseResponse b r = Inr resp"
      "postResponse appStore 1 resp c = Some (errs, c')" by blast
  have "app_inv c'"
  proof (cases rule: postResponse_cases [of appStore c resp])
    case (unknown e)
    then show ?thesis using p(3) assms(1) by auto
  next
    case (known q swapped e1 e2 c1)
    then show ?thesis using app.exec_ops_invar [OF assms(1) known(2)] known(4) [OF p(3)] by simp
  qed
  then show ?thesis
    using assms(2) p by (auto simp: responseHandler_def split: list.splits)
qed

lemma deleteHandler_answers:
  assumes "app_inv c"
  shows "\<exists>w c'. deleteHandler appStore newResponseWriter c = Some (w, c') \<and> app_inv c' \<and> rwStatus w \<noteq> None"
proof -
  obtain e1 c1 where d1: "DeleteOldBackends appStore c = Some (e1, c1)" "app_inv c1"
    using app.exec_total [OF assms, of OpDeleteOldBackends] app_inv_step [OF assms, of OpDeleteOldBackends] by fastforce
  obtain e2 c2 where d2: "DeleteOldRequests appStore c1 = Some (e2, c2)" "app_inv c2"
    using app.exec_total [OF d1(2), of OpDeleteOldRequests] app_inv_step [OF d1(2), of OpDeleteOldRequests] by fastforce
  show ?thesis using d1 d2 by (cases e1; cases e2) (simp_all add: deleteHandler_def)
qed

lemma handleAPIRequest_answers:
  assumes "app_inv c"
  shows "\<exists>w c'. handleAPIRequest ae fm appStore newResponseWriter r c = Some (w, c') \<and> app_inv c' \<and> rwStatus w \<noteq> None"
proof -
  have lst: "\<exists>w c'. listBackendsHandler fm appStore newResponseWriter c = Some (w, c') \<and> app_inv c' \<and> rwStatus w \<noteq> None"
    using assms by (simp add: listBackendsHandler_def split: sum.split)
  have add: "\<exists>w c'. addBackendHandler fm appStore newResponseWriter r c = Some (w, c') \<and> app_inv c' \<and> rwStatus w \<noteq> None"
  proof (cases "parseBackend fm r")
    case (Inr b)
    obtain e c1 where a: "AddBackend appStore c b = (e, c1)" by fastforce
    then have "app_inv c1" using app_inv_step [OF assms, of "OpAddBackend b" e c1] by simp
    then show ?thesis using a Inr by (cases e) (simp_all add: addBackendHandler_def)
  qed (use assms in \<open>simp add: addBackendHandler_def\<close>)
  have del: "\<exists>w c'. deleteBackendHandler appStore newResponseWriter r c = Some (w, c') \<and> app_inv c' \<and> rwStatus w \<noteq> None"
  proof -
    let ?b = "TrimPrefix (hr_Path r) ''/api/backends/''"
    obtain e c1 where d: "DeleteBackend appStore c ?b = Some (e, c1)" "app_inv c1"
      using app.exec_total [OF assms, of "OpDeleteBackend ?b"] app_inv_step [OF assms, of "OpDeleteBackend ?b"] by fastforce
    show ?thesis
    proof (cases "?b = []")
      case False
      then show ?thesis using d by (cases e) (simp_all add: deleteBackendHandler_def Let_def)
    qed (use assms in \<open>simp add: deleteBackendHandler_def Let_def\<close>)
  qed
  show ?thesis
    using deleteHandler_answers [OF assms] lst add del assms by (simp add: handleAPIRequest_def)
qed

lemma proxyHandler_answers:
  assumes "app_inv c"
  shows "\<exists>w c'. proxyHandler ae fm others appStore rid newResponseWriter r c = Some (w, c') \<and> app_inv c' \<and> rwStatus w \<noteq> None"
proof (cases "CurrentUser ae")
  case (Some u)
  let ?k = "pageKey (printable c) u (hr_URL r)"
  show ?thesis
  proof (cases "persistentStore_LookupBackend c u (hr_Path r)")
    case (Inr b)
    have "\<exists>w c'. relayRequest fm others appStore b u (''cache:'' @ ?k) rid newResponseWriter r c = Some (w, c')
        \<and> app_inv c' \<and> rwStatus w \<noteq> None"
      using relayRequest_result [OF assms, of fm others b u ?k rid newResponseWriter r] by auto
    then show ?thesis
      using assms by (cases "cachedPage fm c (''cache:'' @ ?k) r") (simp_all add: proxyHandler_def Some Inr)
  qed (use assms Some in \<open>simp add: proxyHandler_def httpNotFound_def\<close>)
qed (use assms in \<open>simp add: proxyHandler_def\<close>)

end
