(* ===== verification/App_Store_Properties.thy ===== *)
theory App_Store_Properties
  imports App_Store_Provides
begin

text \<open>
  The properties of the persistent store and of the store the application runs with, stated over
  the definitions of \<open>App_Store\<close> and \<open>App_Cache\<close>, each with a run on the in-memory
  services where it has hypotheses.
\<close>

section \<open>Concrete services for the runs\<close>

definition exampleRequest :: Request where
  "exampleRequest =
     \<lparr>req_BackendID = ''b1'', req_RequestID = ''r1'', req_User = ''u1'', req_Contents = ''GET'',
      req_StartTime = 5000, req_Completed = False\<rparr>"

definition exampleResponse :: Response where
  "exampleResponse =
     \<lparr>resp_BackendID = ''b1'', resp_RequestID = ''r1'', resp_Contents = ''OK'', resp_StartTime = 5000\<rparr>"

definition exampleBackend :: Backend where
  "exampleBackend =
     \<lparr>be_BackendID = ''b1'', be_BackendUser = ''agent'', be_EndUser = ''u1'', be_PathPrefixes = [''/''],
      be_LastUsed = []\<rparr>"

lemma store_inv_empty [simp]: "store_inv (memCtx [] m t)"
  by (simp add: store_inv_def committed_def, simp add: memCtx_def memDatastore_def)

lemma app_inv_empty [simp]: "app_inv (memCtx [] [] t)"
  by (simp add: app_inv_def cacheIdsOk_def cachedRequests_def cachedResponses_def)
    (simp add: cached_def memCtx_def memCache_def)

lemma upt_2: "[0..<2] = [0, Suc 0]"
  by (simp add: numeral_2_eq_2)

lemma memCtx_available [simp]: "ds_available memDatastore d" "dsvc (memCtx d m t) = memDatastore"
  by (auto simp: ds_available_def memDatastore_def memCtx_def memGetMulti_Inr)

lemmas run_simps =
  memCtx_def memDatastore_def memCache_def Put_def Get_def CacheSet_def CacheGet_def GetAll_def
  memGetAll_def newBlob_def fieldByteLimit_def cacheEntrySizeLimit_def go2_def Let_def upt_2
  persistentStore_WriteRequest_def newStoredRequest_def
  persistentStore_WriteResponse_def newStoredResponse_def registerBackendAsActive_def
  persistentStore_AddBackend_def
  registerBackendAsSeen_def exampleRequest_def exampleResponse_def exampleBackend_def

section \<open>Requests and responses\<close>

text \<open>C1. A request written to the Datastore is read back unchanged (up to the nanoseconds the
  Datastore drops) after any interleaving of other operations that neither delete nor write the same
  request ID, large contents split over several entities included, for every schedule of the
  concurrent part writes.\<close>

theorem request_read_back:
  assumes "store_inv c"
    and "exec_ops NewPersistentStore (OpWriteRequest r # ops) c = Some (None # errs, c')"
    and "ds_available (dsvc c') (ds c')"
    and "\<forall>op \<in> set ops. \<not> isDelete op \<and> \<not> writesRequest (req_RequestID r) op"
  shows "\<exists>r'. persistentStore_ReadRequest c' (req_BackendID r) (req_RequestID r) = Inr r'
              \<and> canonRequest r' = canonRequest r"
  using persistent.write_read_request [OF assms(1-3)] assms(4) by simp

lemma exampleRequest_write:
  "exec_ops NewPersistentStore (OpWriteRequest exampleRequest # [OpWriteResponse exampleResponse]) (memCtx [] [] 9000)
   = Some ([None, None], memCtx
       [(requestKey (\<lambda>_. True) ''b1'' ''r1'',
         ERequest \<lparr>sr_BackendID = ''b1'', sr_RequestID = ''r1'', sr_User = ''u1'', sr_StartTime = 5000,
           sr_Completed = False, sr_RequestBytes = \<lparr>Inlined = ''GET'', Parts = []\<rparr>\<rparr>),
        (activityKey ''b1'', EActivityTracker \<lparr>LastActive = 9000\<rparr>),
        (responseKey ''r1'',
         EResponse \<lparr>sp_BackendID = ''b1'', sp_RequestID = ''r1'',
           sp_ResponseBytes = \<lparr>Inlined = ''OK'', Parts = []\<rparr>, sp_StartTime = 0, sp_Latency = 4000,
           sp_ResponseSize = 2\<rparr>)] [] 9000)"
  by (simp add: run_simps micros_def key_defs)

theorem request_read_back_witness:
  "\<exists>r'. persistentStore_ReadRequest (snd (the (exec_ops NewPersistentStore
        [OpWriteRequest exampleRequest, OpWriteResponse exampleResponse] (memCtx [] [] 9000))))
        (req_BackendID exampleRequest) (req_RequestID exampleRequest) = Inr r'
      \<and> canonRequest r' = canonRequest exampleRequest"
  unfolding exampleRequest_write option.sel snd_conv
  by (rule request_read_back [OF store_inv_empty exampleRequest_write]) simp_all

text \<open>A response written to the Datastore is read back unchanged (its start time is not kept)
  after any interleaving of other operations that neither delete nor write the same request ID.\<close>

theorem response_read_back:
  assumes "store_inv c"
    and "exec_ops NewPersistentStore (OpWriteResponse w # ops) c = Some (None # errs, c')"
    and "ds_available (dsvc c') (ds c')"
    and "\<forall>op \<in> set ops. \<not> isDelete op \<and> \<not> writesResponse (resp_RequestID w) op"
  shows "\<exists>w'. persistentStore_ReadResponse c' b (resp_RequestID w) = Inr w'
              \<and> canonResponse w' = canonResponse w"
  using persistent.write_read_response [OF assms(1-3)] assms(4) by simp

lemma exampleResponse_write:
  "exec_ops NewPersistentStore (OpWriteResponse exampleResponse # [OpWriteRequest exampleRequest]) (memCtx [] [] 9000)
   = Some ([None, None], memCtx
       [(activityKey ''b1'', EActivityTracker \<lparr>LastActive = 9000\<rparr>),
        (responseKey ''r1'',
         EResponse \<lparr>sp_BackendID = ''b1'', sp_RequestID = ''r1'',
           sp_ResponseBytes = \<lparr>Inlined = ''OK'', Parts = []\<rparr>, sp_StartTime = 0, sp_Latency = 4000,
           sp_ResponseSize = 2\<rparr>),
        (requestKey (\<lambda>_. True) ''b1'' ''r1'',
         ERequest \<lparr>sr_BackendID = ''b1'', sr_RequestID = ''r1'', sr_User = ''u1'', sr_StartTime = 5000,
           sr_Completed = False, sr_RequestBytes = \<lparr>Inlined = ''GET'', Parts = []\<rparr>\<rparr>)] [] 9000)"
  by (simp add: run_simps micros_def key_defs)

theorem response_read_back_witness:
  "\<exists>w'. persistentStore_ReadResponse (snd (the (exec_ops NewPersistentStore
        [OpWriteResponse exampleResponse, OpWriteRequest exampleRequest] (memCtx [] [] 9000))))
        ''b1'' (resp_RequestID exampleResponse) = Inr w' \<and> canonResponse w' = canonResponse exampleResponse"
  unfolding exampleResponse_write option.sel snd_conv
  by (rule response_read_back [OF store_inv_empty exampleResponse_write]) simp_all


lemma exampleApp_write:
  "exec_ops appStore [OpWriteResponse exampleResponse] (memCtx [] [] 9000)
   = Some ([None], memCtx
       [(activityKey ''b1'', EActivityTracker \<lparr>LastActive = 9000\<rparr>),
        (responseKey ''r1'',
         EResponse \<lparr>sp_BackendID = ''b1'', sp_RequestID = ''r1'',
           sp_ResponseBytes = \<lparr>Inlined = ''OK'', Parts = []\<rparr>, sp_StartTime = 0, sp_Latency = 4000,
           sp_ResponseSize = 2\<rparr>)]
       [(memcacheResponseKey (\<lambda>_. True) ''b1'' ''r1'', GobResponse exampleResponse)] 9000)"
  by (simp add: run_simps micros_def key_defs appStore_def NewCachingStore_def cachingStore_WriteResponse_def)



lemma exampleApp_write_request:
  "exec_ops appStore [OpWriteRequest exampleRequest] (memCtx [] [] 9000)
   = Some ([None], memCtx
       [(requestKey (\<lambda>_. True) ''b1'' ''r1'',
         ERequest \<lparr>sr_BackendID = ''b1'', sr_RequestID = ''r1'', sr_User = ''u1'', sr_StartTime = 5000,
           sr_Completed = False, sr_RequestBytes = \<lparr>Inlined = ''GET'', Parts = []\<rparr>\<rparr>)]
       [(memcacheRequestKey (\<lambda>_. True) ''b1'' ''r1'', GobRequest exampleRequest)] 9000)"
  by (simp add: run_simps micros_def key_defs appStore_def NewCachingStore_def cachingStore_WriteRequest_def)


text \<open>C22. Every sequence of operations of the deployed store returns, the batched deletions
  included, and leaves the store well-formed, whatever fails on the way: cached copies carry the IDs of their key, every entity sits under its
  own key, blobs refer to their own parts and no field exceeds the Datastore's size limit.\<close>

theorem appStore_total_and_wellformed:
  assumes "app_inv c"
  shows "\<exists>errs c'. exec_ops appStore ops c = Some (errs, c') \<and> app_inv c'"
  by (rule app.exec_ops_total [OF assms])

theorem appStore_total_and_wellformed_witness:
  "\<exists>errs c'. exec_ops appStore [OpAddBackend exampleBackend, OpDeleteOldRequests, OpDeleteBackend ''b1'']
      (memCtx [] [] 9000) = Some (errs, c') \<and> app_inv c'"
  by (rule appStore_total_and_wellformed) simp

section \<open>Routing and authorization\<close>

text \<open>Routing picks the most specific backend: the scan over backends and path prefixes returns
  the first backend, in query order, whose prefix of the path is longest, and fails exactly when no
  prefix matches.\<close>

theorem mostSpecific_longest_prefix:
  assumes "\<forall>b \<in> set bs. be_BackendID b \<noteq> []"
  shows "case mostSpecificMatchingBackend P path bs of
           Inr i \<Rightarrow> (\<exists>p. firstLongest path (candidates bs) (i, p))
         | Inl _ \<Rightarrow> (\<forall>b \<in> set bs. \<forall>p \<in> set (be_PathPrefixes b). \<not> prefix p path)"
  using mostSpecific_spec [of bs P path] assms by (auto split: sum.split)

theorem mostSpecific_longest_prefix_witness:
  "mostSpecificMatchingBackend (\<lambda>_. True) ''/ab/c''
     [exampleBackend, exampleBackend\<lparr>be_BackendID := ''b2'', be_PathPrefixes := [''/x'', ''/ab'']\<rparr>] = Inr ''b2''
   \<and> (\<exists>p. firstLongest ''/ab/c'' (candidates
       [exampleBackend, exampleBackend\<lparr>be_BackendID := ''b2'', be_PathPrefixes := [''/x'', ''/ab'']\<rparr>]) (''b2'', p))"
proof -
  let ?bs = "[exampleBackend, exampleBackend\<lparr>be_BackendID := ''b2'', be_PathPrefixes := [''/x'', ''/ab'']\<rparr>]"
  have "mostSpecificMatchingBackend (\<lambda>_. True) ''/ab/c'' ?bs = Inr ''b2''"
    by (simp add: mostSpecificMatchingBackend_def exampleBackend_def)
  then show ?thesis
    using mostSpecific_longest_prefix [where bs = ?bs and P = "\<lambda>_. True" and path = "''/ab/c''"] by (simp add: exampleBackend_def)
qed

text \<open>C23. A successful lookup names a registered backend whose agent was seen less than five minutes
  ago and one of whose prefixes matches the path; the backend belongs to the user, or it is shared
  and the user has no matching backend of their own.\<close>

theorem lookupBackend_sound:
  assumes "store_inv c" and "persistentStore_LookupBackend c u path = Inr i"
    and "\<forall>b. backendRecord c (be_BackendID b) = Some b \<longrightarrow> be_BackendID b \<noteq> []"
  shows "routable c u path i \<or> routable c sharedBackendUser path i \<and> \<not> userHasMatch c u path"
proof -
  obtain bs where bs: "queryBackendsFor c u = Inr bs"
    using assms(2) by (auto simp: persistentStore_LookupBackend_def split: sum.splits)
  note own = userHasMatch_iff [OF bs assms(1), of "printable c" path]
  show ?thesis
  proof (cases "mostSpecificMatchingBackend (printable c) path bs")
    case (Inr j)
    then have "j = i" "hasBackend c i backendTimeout"
      using assms(2) bs by (auto simp: persistentStore_LookupBackend_def split: if_splits)
    then show ?thesis using routableI [OF bs Inr] assms(1) by simp
  next
    case (Inl e)
    then obtain sbs where s: "queryBackendsFor c sharedBackendUser = Inr sbs"
        "mostSpecificMatchingBackend (printable c) path sbs = Inr i" "hasBackend c i backendTimeout"
      using assms(2) bs
      by (auto simp: persistentStore_LookupBackend_def lookupSharedBackend_def split: sum.splits if_splits)
    moreover have "\<not> userHasMatch c u path" using own assms(3) Inl by auto
    ultimately show ?thesis using routableI [OF s assms(1)] by simp
  qed
qed

definition exampleStore :: "(memDs, memMc) ctx" where
  "exampleStore = memCtx [(backendKey ''b1'', EBackend exampleBackend),
      (trackerKey ''b1'', EBackendTracker \<lparr>LastSeen = 8000\<rparr>)] [] 9000"

lemma committed_exampleStore:
  "committed exampleStore = [backendKey ''b1'' \<mapsto> EBackend exampleBackend,
      trackerKey ''b1'' \<mapsto> EBackendTracker \<lparr>LastSeen = 8000\<rparr>]"
  by (auto simp: exampleStore_def committed_def memCtx_def memDatastore_def key_defs)

lemma exampleStore_inv [simp]: "store_inv exampleStore"
  by (simp add: store_inv_def committed_exampleStore)
    (simp add: exampleStore_def exampleBackend_def trackerKey_def)

lemma exampleStore_ids: "backendRecord exampleStore i = Some b \<Longrightarrow> i = ''b1''"
  by (auto simp: backendRecord_eq_Some committed_exampleStore key_defs split: if_splits)

lemma exampleStore_lookup: "persistentStore_LookupBackend exampleStore ''u1'' ''/x'' = Inr ''b1''"
  by (simp add: persistentStore_LookupBackend_def queryBackendsFor_def GetAllAs_def GetAll_def exampleStore_def
      memCtx_def memDatastore_def memGetAll_def selects_def exampleBackend_def
      mostSpecificMatchingBackend_def hasBackend_def backendLastSeen_def Get_def backendTimeout_def
      duration_defs key_defs AList.clearjunk.simps)

theorem lookupBackend_sound_witness:
  "routable exampleStore ''u1'' ''/x'' ''b1''
   \<or> routable exampleStore sharedBackendUser ''/x'' ''b1'' \<and> \<not> userHasMatch exampleStore ''u1'' ''/x''"
  by (rule lookupBackend_sound [OF exampleStore_inv exampleStore_lookup])
    (use exampleStore_ids in \<open>fastforce\<close>)

text \<open>Authorization of agents: the answer of \<^verbatim>\<open>IsBackendUserAllowed\<close> is yes exactly when the
  backend is registered with this user as its agent's account.\<close>

theorem isBackendUserAllowed_iff:
  assumes "store_inv c" and "persistentStore_IsBackendUserAllowed c u i = Inr a"
  shows "a \<longleftrightarrow> (\<exists>b. backendRecord c i = Some b \<and> be_BackendUser b = u)"
  by (rule IsBackendUserAllowed_answer [OF assms])

theorem isBackendUserAllowed_iff_witness:
  "persistentStore_IsBackendUserAllowed exampleStore ''agent'' ''b1'' = Inr True
   \<and> (\<exists>b. backendRecord exampleStore ''b1'' = Some b \<and> be_BackendUser b = ''agent'')"
proof -
  have "persistentStore_IsBackendUserAllowed exampleStore ''agent'' ''b1'' = Inr True"
    by (simp add: persistentStore_IsBackendUserAllowed_def Get_def exampleStore_def memCtx_def
        memDatastore_def exampleBackend_def)
  then show ?thesis using isBackendUserAllowed_iff [OF exampleStore_inv, of "''agent''" "''b1''" True] by simp
qed

text \<open>A backend just added gets no requests until its agent is seen (at any later time its last-seen
  time is too old to be routed to), and a cleanup within the next 55 minutes does not delete it.\<close>

theorem addBackend_unroutable_but_kept:
  assumes "store_inv c" and "persistentStore_AddBackend c b = (None, c')" and "now c \<le> t"
  shows "backendRecord c' (be_BackendID b) = Some (b\<lparr>be_LastUsed := []\<rparr>)
       \<and> \<not> hasBackend (c'\<lparr>now := t\<rparr>) (be_BackendID b) backendTimeout
       \<and> (t \<le> now c + 55 * Minute \<longrightarrow>
           (\<exists>err c''. persistentStore_DeleteOldBackends (c'\<lparr>now := t\<rparr>) = Some (err, c'')
              \<and> backendRecord c'' (be_BackendID b) = Some (b\<lparr>be_LastUsed := []\<rparr>)))"
proof -
  let ?i = "be_BackendID b" and ?b = "b\<lparr>be_LastUsed := []\<rparr>" and ?c = "c'\<lparr>now := t\<rparr>"
  note ok = store_invD(1) [OF assms(1)]
  obtain c1 where p: "Put c (trackerKey ?i) (EBackendTracker \<lparr>LastSeen = now c - backendTimeout\<rparr>) = (None, c1)"
      "Put c1 (backendKey ?i) (EBackend ?b) = (None, c')"
    using assms(2) by (auto simp: persistentStore_AddBackend_def Let_def split: prod.splits option.splits)
  have ok1: "services_ok c1" using Put_frame(1) [OF p(1)] ok by (simp add: services_ok_same)
  have com: "committed c' = (committed c)(trackerKey ?i \<mapsto> EBackendTracker \<lparr>LastSeen = micros (now c - backendTimeout)\<rparr>,
      backendKey ?i \<mapsto> EBackend ?b)"
    using Put_ok [OF p(2) ok1] Put_ok [OF p(1) ok] by simp
  have ok': "services_ok ?c"
    using store_step_same(3) [OF AddBackend_step [OF assms(2)]] ok by (simp add: services_ok_def)
  have com': "committed ?c = committed c'" by (simp add: committed_def)
  have rec: "backendRecord c' ?i = Some ?b" by (simp add: backendRecord_eq_Some com)
  moreover have "\<not> hasBackend ?c ?i backendTimeout"
  proof
    assume "hasBackend ?c ?i backendTimeout"
    then have "t - micros (now c - backendTimeout) < backendTimeout"
      using hasBackend_seen [OF _ ok'] by (fastforce simp: com' com key_defs)
    then show False using micros_le [of "now c - backendTimeout"] assms(3) by simp
  qed
  moreover have "\<exists>err c''. persistentStore_DeleteOldBackends ?c = Some (err, c'') \<and> backendRecord c'' ?i = Some ?b"
    if "t \<le> now c + 55 * Minute"
  proof -
    have "micros (t - Hour) \<le> micros (now c - backendTimeout)"
      by (rule micros_mono) (use that in \<open>simp add: duration_defs backendTimeout_def\<close>)
    then have "trackerKey ?i \<notin> oldBackendKeys ?c"
      by (auto simp: oldBackendKeys_def selectedKeys_def selects_def com' com key_defs)
    moreover have "k = trackerKey (key_name k)" if "k \<in> oldBackendKeys ?c" for k
      using that by (cases k) (auto simp: oldBackendKeys_def selectedKeys_def selects_def trackerKey_def)
    ultimately have "backendKey ?i \<notin> (\<Union>k \<in> oldBackendKeys ?c. backendFootprint (printable ?c) (key_name k))"
      by (auto simp: backendFootprint_def backendKey_def trackerKey_def) (metis key.inject key.sel(2) kind_neq(1))+
    moreover obtain err c'' where d: "persistentStore_DeleteOldBackends ?c = Some (err, c'')"
        "store_step {} (\<Union>k \<in> oldBackendKeys ?c. backendFootprint (printable ?c) (key_name k)) ?c c''"
      using DeleteOldBackends_result [OF ok'] by blast
    ultimately have "committed c'' (backendKey ?i) = committed ?c (backendKey ?i)"
      by (intro store_step_frame [OF d(2) ok']) auto
    then show ?thesis using d(1) rec by (simp add: backendRecord_def com')
  qed
  ultimately show ?thesis by simp
qed

theorem addBackend_unroutable_but_kept_witness:
  "\<exists>c'. persistentStore_AddBackend (memCtx [] [] 9000) exampleBackend = (None, c')
      \<and> backendRecord c' ''b1'' = Some (exampleBackend\<lparr>be_LastUsed := []\<rparr>)"
proof -
  obtain c' where c': "persistentStore_AddBackend (memCtx [] [] 9000) exampleBackend = (None, c')"
    by (auto simp: run_simps)
  show ?thesis
    using addBackend_unroutable_but_kept [OF store_inv_empty c', of 9000] c'
    by (simp add: exampleBackend_def memCtx_def)
qed

section \<open>Deletion\<close>

text \<open>Deleting a backend returns; when it succeeds, the backend and its tracker are gone, nobody may
  act as it any more, and the records and requests of every other backend are as they were.\<close>

theorem deleteBackend_removes:
  assumes "store_inv c" and "persistentStore_DeleteBackend c i = Some (None, c')"
  shows "backendRecord c' i = None
       \<and> persistentStore_IsBackendUserAllowed c' u i \<noteq> Inr True
       \<and> \<not> hasBackend c' i d
       \<and> (\<forall>j rid. j \<noteq> i \<longrightarrow> backendRecord c' j = backendRecord c j
                     \<and> absRequest c' j rid = absRequest c j rid)"
proof -
  note ok = store_invD(1) [OF assms(1)]
  have s: "store_step {} (backendFootprint (printable c) i) c c'"
    and gone: "committed c' (backendKey i) = None" "committed c' (trackerKey i) = None"
    using DeleteBackend_result [OF ok, of i] assms(2) by auto
  have inv: "store_inv c'" by (rule store_step_inv [OF s assms(1)])
  have no: "backendRecord c' i = None" using gone(1) by (simp add: backendRecord_def)
  have "\<not> hasBackend c' i d"
    using hasBackend_seen [of c' i d] gone(2) store_invD(1) [OF inv] by auto
  moreover have "committed c' (backendKey j) = committed c (backendKey j)" if "j \<noteq> i" for j
    by (rule store_step_frame [OF s ok]) (use that in \<open>auto simp: backendFootprint_def key_defs\<close>)
  moreover have "absRequest c' j rid = absRequest c j rid" if "j \<noteq> i" for j rid
    by (rule absRequest_frame [OF s assms(1)])
      (use that in \<open>auto simp: backendFootprint_def requestFootprint_def key_defs\<close>)
  ultimately show ?thesis
    using IsBackendUserAllowed_answer [OF inv, of u i True] no by (auto simp: backendRecord_def)
qed

lemma exampleStore_delete: "\<exists>c'. persistentStore_DeleteBackend exampleStore ''b1'' = Some (None, c')"
proof -
  obtain err c' where r: "persistentStore_DeleteBackend exampleStore ''b1'' = Some (err, c')"
    using DeleteBackend_result [OF store_invD(1) [OF exampleStore_inv], of "''b1''"] by blast
  have "err = None"
    using r by (simp add: persistentStore_DeleteBackend_def exampleStore_def memCtx_def memDatastore_def
        deleteBackendTransaction_def deleteRequestsForBackend_def GetKeys_def GetAll_def memGetAll_def
        oldRequestsQuery_def selects_def key_defs deleteLoop.simps multiOpSizeLimit_def
        AList.clearjunk.simps AList.delete_eq)
  with r show ?thesis by blast
qed

theorem deleteBackend_removes_witness:
  "\<exists>c'. persistentStore_DeleteBackend exampleStore ''b1'' = Some (None, c') \<and> backendRecord c' ''b1'' = None"
proof -
  obtain c' where c': "persistentStore_DeleteBackend exampleStore ''b1'' = Some (None, c')"
    using exampleStore_delete by blast
  show ?thesis using deleteBackend_removes [OF exampleStore_inv c'] c' by blast
qed

text \<open>The periodic cleanup of requests returns and only deletes what is older than two minutes:
  requests started later keep their record, their contents unless a part of them is itself old, and
  backends and trackers are never touched. When it succeeds, no request older than two minutes is
  left for any backend seen within the hour.\<close>

theorem deleteOldRequests_old_only:
  assumes "store_inv c"
  shows "\<exists>err c'. persistentStore_DeleteOldRequests c = Some (err, c')
    \<and> (\<forall>b rid sr. committed c (requestKey (printable c) b rid) = Some (ERequest sr)
          \<and> micros (now c - 2 * Minute) \<le> sr_StartTime sr \<longrightarrow>
          committed c' (requestKey (printable c) b rid) = Some (ERequest sr)
          \<and> absRequest c' b rid \<in> {absRequest c b rid, None})
    \<and> (\<forall>i. committed c' (backendKey i) = committed c (backendKey i)
          \<and> committed c' (trackerKey i) = committed c (trackerKey i))
    \<and> (err = None \<longrightarrow>
        (\<forall>b t rid sr. committed c (trackerKey b) = Some (EBackendTracker \<lparr>LastSeen = t\<rparr>)
           \<and> micros (now c - Hour) < t
           \<and> committed c' (requestKey (printable c) b rid) = Some (ERequest sr) \<longrightarrow>
           micros (now c - 2 * Minute) \<le> sr_StartTime sr))"
proof -
  note ok = store_invD(1) [OF assms]
  obtain err c' where r: "persistentStore_DeleteOldRequests c = Some (err, c')"
      "store_step {} (oldRequestKeys c) c c'"
      "err = None \<longrightarrow> (\<forall>b t. committed c (trackerKey b) = Some (EBackendTracker \<lparr>LastSeen = t\<rparr>)
           \<and> micros (now c - Hour) < t \<longrightarrow>
         selectedKeys (oldRequestsQuery (printable c) b (now c - 2 * Minute)) c' = {})"
    using DeleteOldRequests_result [OF ok] by blast
  have "committed c' (requestKey (printable c) b rid) = Some (ERequest sr)"
    if "committed c (requestKey (printable c) b rid) = Some (ERequest sr)"
      "micros (now c - 2 * Minute) \<le> sr_StartTime sr" for b rid sr
  proof -
    have "requestKey (printable c) b rid \<notin> oldRequestKeys c"
      using that by (auto simp: oldRequestKeys_def selectedKeys_def selects_def oldRequestsQuery_def
          oldOfKindQuery_def requestKey_def)
    then show ?thesis using store_step_frame [OF r(2) ok] that(1) by auto
  qed
  moreover have "absRequest c' b rid \<in> {absRequest c b rid, None}" for b rid
    using absRequest_shrink [OF r(2) assms, of b rid] by simp
  moreover have "committed c' k = committed c k" if "k = backendKey i \<or> k = trackerKey i" for k i
    by (rule store_step_frame [OF r(2) ok])
      (use that in \<open>auto simp: oldRequestKeys_def oldOfKindQuery_def key_defs dest!: selectedKeys_kind\<close>)
  moreover have "micros (now c - 2 * Minute) \<le> sr_StartTime sr"
    if "err = None" "committed c (trackerKey b) = Some (EBackendTracker \<lparr>LastSeen = t\<rparr>)"
      "micros (now c - Hour) < t" "committed c' (requestKey (printable c) b rid) = Some (ERequest sr)" for b t rid sr
  proof (rule ccontr)
    assume "\<not> ?thesis"
    then have "requestKey (printable c) b rid
        \<in> selectedKeys (oldRequestsQuery (printable c) b (now c - 2 * Minute)) c'"
      using that(4) by (simp add: selectedKeys_def selects_def oldRequestsQuery_def requestKey_def)
    then show False using r(3) that(1-3) by blast
  qed
  ultimately show ?thesis using r(1) by blast
qed

text \<open>A store ten minutes into its life, with a backend seen, a request and a response written ten
  seconds ago.\<close>

definition exampleStoredRequest :: storedRequest where
  "exampleStoredRequest = \<lparr>sr_BackendID = ''b1'', sr_RequestID = ''r1'', sr_User = ''u1'', sr_StartTime = 590000000000,
     sr_Completed = False, sr_RequestBytes = \<lparr>Inlined = ''GET'', Parts = []\<rparr>\<rparr>"

definition exampleStoredResponse :: storedResponse where
  "exampleStoredResponse = \<lparr>sp_BackendID = ''b1'', sp_RequestID = ''r1'',
     sp_ResponseBytes = \<lparr>Inlined = ''OK'', Parts = []\<rparr>, sp_StartTime = 0, sp_Latency = 4000, sp_ResponseSize = 2\<rparr>"

definition exampleFull :: "(memDs, memMc) ctx" where
  "exampleFull = memCtx [(backendKey ''b1'', EBackend exampleBackend),
      (trackerKey ''b1'', EBackendTracker \<lparr>LastSeen = 590000000000\<rparr>),
      (requestKey (\<lambda>_. True) ''b1'' ''r1'', ERequest exampleStoredRequest),
      (responseKey ''r1'', EResponse exampleStoredResponse)] [] 600000000000"

lemma exampleFull_sel [simp]: "now exampleFull = 600000000000" "printable exampleFull = (\<lambda>_. True)"
  by (simp_all add: exampleFull_def memCtx_def)

lemma committed_exampleFull:
  "committed exampleFull = [backendKey ''b1'' \<mapsto> EBackend exampleBackend,
      trackerKey ''b1'' \<mapsto> EBackendTracker \<lparr>LastSeen = 590000000000\<rparr>,
      requestKey (\<lambda>_. True) ''b1'' ''r1'' \<mapsto> ERequest exampleStoredRequest,
      responseKey ''r1'' \<mapsto> EResponse exampleStoredResponse]"
  by (auto simp: exampleFull_def committed_def memCtx_def memDatastore_def key_defs)

lemma exampleFull_inv [simp]: "store_inv exampleFull"
  by (simp add: store_inv_def committed_exampleFull)
    (simp add: exampleFull_def exampleBackend_def exampleStoredRequest_def exampleStoredResponse_def
      trackerKey_def wf_blob_def fieldByteLimit_def)

theorem deleteOldRequests_old_only_witness:
  "\<exists>err c'. persistentStore_DeleteOldRequests exampleFull = Some (err, c')
     \<and> committed c' (requestKey (\<lambda>_. True) ''b1'' ''r1'') = Some (ERequest exampleStoredRequest)"
proof -
  have "committed exampleFull (requestKey (\<lambda>_. True) ''b1'' ''r1'') = Some (ERequest exampleStoredRequest)"
    by (simp add: committed_exampleFull key_defs)
  moreover have "micros (now exampleFull - 2 * Minute) \<le> sr_StartTime exampleStoredRequest"
    by (simp add: micros_def duration_defs exampleStoredRequest_def)
  moreover obtain err c' where "persistentStore_DeleteOldRequests exampleFull = Some (err, c')"
      "\<forall>b rid sr. committed exampleFull (requestKey (printable exampleFull) b rid) = Some (ERequest sr)
          \<and> micros (now exampleFull - 2 * Minute) \<le> sr_StartTime sr \<longrightarrow>
          committed c' (requestKey (printable exampleFull) b rid) = Some (ERequest sr)
          \<and> absRequest c' b rid \<in> {absRequest exampleFull b rid, None}"
    using deleteOldRequests_old_only [OF exampleFull_inv] by (elim exE conjE) (rule that)
  ultimately show ?thesis by simp
qed

text \<open>C37. The cleanup deletes every stored response, however recent, once a run succeeds with fewer than
  500 responses stored: responses are stored without a start time, so the age filter selects all of them.\<close>

theorem deleteOldRequests_deletes_fresh_responses:
  assumes "store_inv c" and "persistentStore_DeleteOldRequests c = Some (None, c')"
    and "card {k \<in> dom (committed c). key_kind k = responseKind} < multiOpSizeLimit"
    and "2 * Minute + 1000 \<le> now c"
  shows "committed c' (responseKey rid) = None"
proof (rule ccontr)
  let ?q = "oldOfKindQuery responseKind (now c - 2 * Minute)"
  note ok = store_invD(1) [OF assms(1)]
  assume "committed c' (responseKey rid) \<noteq> None"
  then obtain e where e: "committed c' (responseKey rid) = Some e" by blast
  have r: "store_step {} (oldRequestKeys c) c c'"
      "card (selectedKeys ?q c) < multiOpSizeLimit \<longrightarrow> selectedKeys ?q c' = {}"
    using DeleteOldRequests_result [OF ok] assms(2) by auto
  have "wf_entity (printable c') (responseKey rid) e"
    by (rule store_invD(2) [OF store_step_inv [OF r(1) assms(1)] e])
  then obtain sr where "e = EResponse sr" "sp_StartTime sr = 0"
    using wf_entity_kind(3) [of "printable c'" "responseKey rid" e] by (auto simp: responseKey_def)
  moreover have "0 < micros (now c - 2 * Minute)"
    using micros_gt [of "now c - 2 * Minute"] assms(4) by simp
  ultimately have "responseKey rid \<in> selectedKeys ?q c'"
    using e by (simp add: selectedKeys_def selects_def oldOfKindQuery_def responseKey_def)
  moreover have "card (selectedKeys ?q c) \<le> card {k \<in> dom (committed c). key_kind k = responseKind}"
    by (rule card_mono) (use services_okD(8) [OF ok] selectedKeys_dom in
        \<open>auto simp: oldOfKindQuery_def dest: selectedKeys_kind\<close>)
  ultimately show False using r(2) assms(3) by simp
qed

lemma exampleFull_cleanup: "\<exists>c'. persistentStore_DeleteOldRequests exampleFull = Some (None, c')"
  by (simp add: persistentStore_DeleteOldRequests_def listRecentBackends_def GetKeys_def GetAll_def
      exampleFull_def memCtx_def memDatastore_def memGetAll_def selects_def key_defs deleteRequestsForBackend_def
      oldRequestsQuery_def deleteLoop.simps deleteOldOfKind_def DeleteMulti_def multiOpSizeLimit_def
      exampleStoredRequest_def exampleStoredResponse_def micros_def duration_defs AList.clearjunk.simps AList.delete_eq)

theorem deleteOldRequests_deletes_fresh_responses_witness:
  "\<exists>c'. persistentStore_DeleteOldRequests exampleFull = Some (None, c') \<and> committed c' (responseKey ''r1'') = None"
proof -
  obtain c' where c': "persistentStore_DeleteOldRequests exampleFull = Some (None, c')"
    using exampleFull_cleanup ..
  have "{k \<in> dom (committed exampleFull). key_kind k = responseKind} \<subseteq> {responseKey ''r1''}"
    by (auto simp: committed_exampleFull key_defs split: if_splits)
  then have "card {k \<in> dom (committed exampleFull). key_kind k = responseKind} \<le> card {responseKey ''r1''}"
    by (intro card_mono) auto
  then have "card {k \<in> dom (committed exampleFull). key_kind k = responseKind} < multiOpSizeLimit"
    by (simp add: multiOpSizeLimit_def)
  then show ?thesis
    using deleteOldRequests_deletes_fresh_responses [OF exampleFull_inv c'] c' by (simp add: duration_defs)
qed

text \<open>The cleanup of backends returns and spares every backend whose agent was seen within the last
  hour: its record, its tracker and all of its requests.\<close>

theorem deleteOldBackends_spares_seen:
  assumes "store_inv c" and "committed c (trackerKey i) = Some (EBackendTracker \<lparr>LastSeen = t\<rparr>)"
    and "micros (now c - Hour) \<le> t"
  shows "\<exists>err c'. persistentStore_DeleteOldBackends c = Some (err, c')
       \<and> backendRecord c' i = backendRecord c i
       \<and> committed c' (trackerKey i) = committed c (trackerKey i)
       \<and> (\<forall>rid. absRequest c' i rid = absRequest c i rid)"
proof -
  note ok = store_invD(1) [OF assms(1)]
  let ?E = "\<Union>k \<in> oldBackendKeys c. backendFootprint (printable c) (key_name k)"
  obtain err c' where d: "persistentStore_DeleteOldBackends c = Some (err, c')" "store_step {} ?E c c'"
    using DeleteOldBackends_result [OF ok] by blast
  have names: "key_name k \<noteq> i" if "k \<in> oldBackendKeys c" for k
  proof
    assume "key_name k = i"
    with that have "k = trackerKey i"
      by (cases k) (auto simp: oldBackendKeys_def selectedKeys_def selects_def trackerKey_def)
    with that assms(2,3) show False
      by (simp add: oldBackendKeys_def selectedKeys_def selects_def trackerKey_def)
  qed
  have "backendKey i \<notin> ?E" "trackerKey i \<notin> ?E" and req: "requestFootprint (printable c) i rid \<inter> ?E = {}" for rid
    using names by (auto simp: backendFootprint_def requestFootprint_def backendKey_def trackerKey_def
        requestKey_def partKey_def)
  then show ?thesis
    using d(1) store_step_frame [OF d(2) ok] absRequest_frame [OF d(2) assms(1)]
    by (simp add: backendRecord_def)
qed

theorem deleteOldBackends_spares_seen_witness:
  "\<exists>err c'. persistentStore_DeleteOldBackends exampleFull = Some (err, c')
     \<and> backendRecord c' ''b1'' = backendRecord exampleFull ''b1''"
proof -
  have "committed exampleFull (trackerKey ''b1'') = Some (EBackendTracker \<lparr>LastSeen = 590000000000\<rparr>)"
    by (simp add: committed_exampleFull key_defs)
  then show ?thesis
    using deleteOldBackends_spares_seen [OF exampleFull_inv] by (fastforce simp: micros_def duration_defs)
qed

lemma ListPendingRequests_query:
  assumes "persistentStore_ListPendingRequests c b = (Inr ids, c')"
  obtains c1 rs where "store_step {trackerKey b} {} c c1"
    "GetAllAs c1 asRequest (pendingQuery (printable c1) b) = Inr rs" "ids = map sr_RequestID rs"
proof -
  obtain x rs where g: "go2 (sched c 2) (\<lambda>c. registerBackendAsSeen c b)
      (\<lambda>c. (GetAllAs c asRequest (pendingQuery (printable c) b), c)) c = (x, Inr rs, c')"
      and ids: "ids = map sr_RequestID rs"
    using assms by (auto simp: persistentStore_ListPendingRequests_def split: prod.splits sum.splits)
  from g show thesis
  proof (rule go2_cases)
    fix c1 assume "registerBackendAsSeen c b = (x, c1)"
      and q: "(GetAllAs c1 asRequest (pendingQuery (printable c1) b), c1) = (Inr rs, c')"
    then have "store_step {trackerKey b} {} c c1" by (intro registerBackendAsSeen_step) auto
    then show thesis using that [of c1 rs] q ids by blast
  next
    fix c1 assume "(GetAllAs c asRequest (pendingQuery (printable c) b), c) = (Inr rs, c1)"
    then show thesis using ids by (intro that [OF store_step_refl]) auto
  qed
qed

text \<open>The rows of the query are the pending requests of the backend, under their own keys.\<close>

lemma pendingQuery_rows:
  assumes "GetAllAs c asRequest (pendingQuery (printable c) b) = Inr rs" and "store_inv c"
  shows "GetAll c (pendingQuery (printable c) b)
      = Inr (map (\<lambda>r. (requestKey (printable c) b (sr_RequestID r), ERequest r)) rs)"
    and "\<And>r. r \<in> set rs \<Longrightarrow>
      committed c (requestKey (printable c) b (sr_RequestID r)) = Some (ERequest r) \<and> \<not> sr_Completed r"
proof -
  obtain rows where rows: "GetAll c (pendingQuery (printable c) b) = Inr rows" "loadAll asRequest (map snd rows) = Inr rs"
    using assms(1) by (auto simp: GetAllAs_def split: sum.splits)
  have snds: "map snd rows = map ERequest rs"
    using rows(2) by (auto simp: loadAll_eq_Inr list_eq_iff_nth_eq asRequest_eq_Some)
  have row: "k = requestKey (printable c) b (sr_RequestID r) \<and> \<not> sr_Completed r \<and> committed c k = Some (ERequest r)"
    if "(k, ERequest r) \<in> set rows" for k r
    using GetAll_sound(2) [OF store_invD(1) [OF assms(2)] rows(1) that] store_invD(2) [OF assms(2), of k "ERequest r"]
    by (auto simp: selects_def pendingQuery_def requestKey_def)
  have eq: "rows = map (\<lambda>r. (requestKey (printable c) b (sr_RequestID r), ERequest r)) rs"
  proof (rule nth_equalityI)
    show len: "length rows = length (map (\<lambda>r. (requestKey (printable c) b (sr_RequestID r), ERequest r)) rs)"
      using arg_cong [OF snds, of length] by simp
    fix i assume i: "i < length rows"
    then have "rows ! i = (fst (rows ! i), ERequest (rs ! i))"
      using arg_cong [OF snds, of "\<lambda>xs. xs ! i"] len by (simp add: prod_eq_iff)
    then show "rows ! i = map (\<lambda>r. (requestKey (printable c) b (sr_RequestID r), ERequest r)) rs ! i"
      using row [of "fst (rows ! i)" "rs ! i"] i len nth_mem [OF i] by simp
  qed
  show "GetAll c (pendingQuery (printable c) b)
      = Inr (map (\<lambda>r. (requestKey (printable c) b (sr_RequestID r), ERequest r)) rs)"
    using rows(1) by (simp only: eq)
  show "committed c (requestKey (printable c) b (sr_RequestID r)) = Some (ERequest r) \<and> \<not> sr_Completed r"
    if "r \<in> set rs" for r
    using row [of "requestKey (printable c) b (sr_RequestID r)" r] that by (auto simp: eq)
qed

lemma pendingQuery_result:
  assumes "GetAllAs c asRequest (pendingQuery (printable c) b) = Inr rs" and "store_inv c"
  shows "distinct (map sr_RequestID rs)" "length rs \<le> 100"
    "set (map sr_RequestID rs) \<subseteq>
       {rid. \<exists>sr. committed c (requestKey (printable c) b rid) = Some (ERequest sr) \<and> \<not> sr_Completed sr}"
    "length rs < 100 \<Longrightarrow> set (map sr_RequestID rs) =
       {rid. \<exists>sr. committed c (requestKey (printable c) b rid) = Some (ERequest sr) \<and> \<not> sr_Completed sr}"
proof -
  note ok = store_invD(1) [OF assms(2)]
  note rows = pendingQuery_rows [OF assms]
  show "distinct (map sr_RequestID rs)"
    using GetAll_sound(1) [OF ok rows(1)] by (simp add: distinct_map inj_on_def comp_def)
  show "length rs \<le> 100"
    using GetAll_sound(3) [OF ok rows(1), of 100] by (simp add: pendingQuery_def)
  show sub: "set (map sr_RequestID rs) \<subseteq>
      {rid. \<exists>sr. committed c (requestKey (printable c) b rid) = Some (ERequest sr) \<and> \<not> sr_Completed sr}"
    using rows(2) by auto
  assume few: "length rs < 100"
  have "rid \<in> set (map sr_RequestID rs)"
    if "committed c (requestKey (printable c) b rid) = Some (ERequest sr)" "\<not> sr_Completed sr" for rid sr
  proof -
    have "(requestKey (printable c) b rid, ERequest sr)
        \<in> set (map (\<lambda>r. (requestKey (printable c) b (sr_RequestID r), ERequest r)) rs)"
      by (rule GetAll_complete [OF ok rows(1)])
        (use that few in \<open>auto simp: selects_def pendingQuery_def requestKey_def\<close>)
    then have "sr \<in> set rs" by auto
    then show ?thesis using request_parts(1) [OF assms(2) that(1)] by force
  qed
  with sub show "set (map sr_RequestID rs) =
      {rid. \<exists>sr. committed c (requestKey (printable c) b rid) = Some (ERequest sr) \<and> \<not> sr_Completed sr}"
    by blast
qed

text \<open>C27. Polling for pending requests returns request IDs of this backend that are not completed, each
  once and at most 100 of them, and all of them when there are fewer than 100;
  the stored requests stay as they are.\<close>

theorem listPendingRequests_spec:
  assumes "store_inv c" and "persistentStore_ListPendingRequests c b = (Inr ids, c')"
  shows "distinct ids \<and> length ids \<le> 100
       \<and> (let pending = {rid. \<exists>sr. committed c (requestKey (printable c) b rid) = Some (ERequest sr) \<and> \<not> sr_Completed sr}
          in set ids \<subseteq> pending \<and> (length ids < 100 \<longrightarrow> set ids = pending))
       \<and> (\<forall>rid j. absRequest c' j rid = absRequest c j rid)"
proof -
  note ok = store_invD(1) [OF assms(1)] and s = ListPendingRequests_step [OF assms(2)]
  obtain c1 rs where c1: "store_step {trackerKey b} {} c c1" and rs: "GetAllAs c1 asRequest (pendingQuery (printable c1) b) = Inr rs"
      and ids: "ids = map sr_RequestID rs"
    using assms(2) by (rule ListPendingRequests_query)
  have inv1: "store_inv c1" by (rule store_step_inv [OF c1 assms(1)])
  have same: "committed c1 (requestKey (printable c) b rid) = committed c (requestKey (printable c) b rid)" for rid
    by (rule store_step_frame [OF c1 ok]) (simp_all add: key_defs)
  note pq = pendingQuery_result [OF rs inv1]
  have "absRequest c' j rid = absRequest c j rid" for j rid
    by (rule absRequest_frame [OF s assms(1)]) (auto simp: requestFootprint_def key_defs)
  then show ?thesis
    using pq store_step_same(4) [OF c1] by (auto simp: Let_def ids same)
qed

lemma exampleFull_pending: "\<exists>c'. persistentStore_ListPendingRequests exampleFull ''b1'' = (Inr [''r1''], c')"
  by (simp add: persistentStore_ListPendingRequests_def go2_def exampleFull_def memCtx_def memDatastore_def upt_2
      registerBackendAsSeen_def Put_def GetAllAs_def GetAll_def memGetAll_def pendingQuery_def selects_def
      exampleStoredRequest_def key_defs AList.clearjunk.simps AList.delete_eq)

theorem listPendingRequests_spec_witness:
  "\<exists>c'. persistentStore_ListPendingRequests exampleFull ''b1'' = (Inr [''r1''], c')
     \<and> {rid. \<exists>sr. committed exampleFull (requestKey (\<lambda>_. True) ''b1'' rid) = Some (ERequest sr) \<and> \<not> sr_Completed sr}
       = {''r1''}"
proof -
  obtain c' where c': "persistentStore_ListPendingRequests exampleFull ''b1'' = (Inr [''r1''], c')"
    using exampleFull_pending ..
  show ?thesis
    using listPendingRequests_spec [OF exampleFull_inv c'] c' by (simp add: Let_def)
qed

section \<open>Blobs\<close>

text \<open>A byte string of any size is stored in pieces that respect the Datastore's limit of one
  million bytes per field and read back exactly, for every order in which the concurrent part
  writes take effect; other entities are not touched.\<close>

theorem newBlob_round_trip:
  assumes "store_inv c" and "newBlob c bs n t = (Inr b, c')" and "ds_available (dsvc c') (ds c')"
  shows "blob_read c' b = Inr bs
       \<and> length (Inlined b) \<le> fieldByteLimit
       \<and> (\<forall>m p. committed c' (Key blobPartsKind m) = Some (EBlobPart p) \<longrightarrow> length (bp_Bytes p) \<le> fieldByteLimit)
       \<and> (\<forall>k. k \<notin> range (partKey n) \<longrightarrow> committed c' k = committed c k)"
proof -
  have s: "store_step (range (partKey n)) {} c c'"
    by (rule newBlob_step [OF assms(2)]) simp
  have "length (bp_Bytes p) \<le> fieldByteLimit" if "committed c' (Key blobPartsKind m) = Some (EBlobPart p)" for m p
    using store_invD(2) [OF store_step_inv [OF s assms(1)] that] by simp
  moreover have "committed c' k = committed c k" if "k \<notin> range (partKey n)" for k
    using store_step_frame [OF s store_invD(1) [OF assms(1)] that] by simp
  ultimately show ?thesis
    using blob_read_available [OF assms(3)] newBlob_ok [OF assms(2) store_invD(1) [OF assms(1)]]
    by (simp add: wf_blob_def)
qed

theorem newBlob_round_trip_witness:
  "\<exists>b c'. newBlob (memCtx [] [] 9000) (replicate 1000001 CHR ''x'') ''r1.request'' 5000 = (Inr b, c')
     \<and> blob_read c' b = Inr (replicate 1000001 CHR ''x'')"
proof -
  let ?bs = "replicate 1000001 CHR ''x''"
  have len: "length (drop fieldByteLimit ?bs) = 1" "\<not> length ?bs < fieldByteLimit"
    by (simp_all add: fieldByteLimit_def)
  then have "partCount (drop fieldByteLimit ?bs) = 1"
    by (simp add: partCount_def fieldByteLimit_def)
  then obtain b c' where w: "newBlob (memCtx [] [] 9000) ?bs ''r1.request'' 5000 = (Inr b, c')" "dsvc c' = memDatastore"
    using len(2) by (simp add: newBlob_def writeBlobParts_def Let_def putAll_Cons putAll_Nil Put_def memCtx_def memDatastore_def
        del: length_replicate drop_replicate)
  then show ?thesis
    using newBlob_round_trip [OF store_inv_empty w(1)] by auto
qed

end
