(* ===== verification/App_Proxy_Properties.thy ===== *)
theory App_Proxy_Properties
  imports App_Proxy_Correct App_Store_Properties
begin

text \<open>
  The properties of the request handlers over the deployed store: who may do what, what a client or
  an agent is told, and that every handler returns, with the one exception the code has.
\<close>

section \<open>Concrete parameters for the runs\<close>

definition exampleFormats :: formats where
  "exampleFormats =
     \<lparr>writeRequest = (\<lambda>r. Inr (hr_Method r @ '' '' @ hr_URL r)),
      readResponse = (\<lambda>bs r. Inr \<lparr>res_StatusCode = 200, res_Header = [], res_Body = bs\<rparr>),
      marshalStrings = (\<lambda>xs. Inr (concat xs)),
      marshalBackends = (\<lambda>bs. Inr (concat (map be_BackendID bs))),
      unmarshalBackend = (\<lambda>bs. Inl (ErrMsg ''no JSON''))\<rparr>"

definition exampleUser :: appengine where
  "exampleUser =
     \<lparr>CurrentUser = Some ''u1'', CurrentOAuth = Inl (ErrService ''no OAuth header''), IsAdmin = False,
      ModuleName = ''default'', AppRequestID = ''r1''\<rparr>"

definition exampleAgent :: appengine where
  "exampleAgent =
     \<lparr>CurrentUser = None, CurrentOAuth = Inr \<lparr>oauth_Email = ''agent'', oauth_Admin = False\<rparr>, IsAdmin = False,
      ModuleName = ''agent'', AppRequestID = ''r2''\<rparr>"

definition examplePost :: httpRequest where
  "examplePost = \<lparr>hr_Method = ''POST'', hr_Path = ''/x'', hr_URL = ''/x'', hr_Header = [], hr_Body = Inr []\<rparr>"

definition exampleAnswer :: httpRequest where
  "exampleAnswer =
     \<lparr>hr_Method = ''POST'', hr_Path = ''/agent/response'', hr_URL = ''/agent/response'',
      hr_Header = [(''X-Inverting-Proxy-Backend-Id'', [''b1'']), (''X-Inverting-Proxy-Request-Id'', [''r1''])],
      hr_Body = Inr ''NEW''\<rparr>"

lemma exampleAnswer_header [simp]:
  "headerGet (hr_Header exampleAnswer) HeaderBackendID = ''b1''"
  "headerGet (hr_Header exampleAnswer) HeaderRequestID = ''r1''"
  "headerGet (hr_Header examplePost) HeaderBackendID = []"
  by code_simp+

lemma exampleFull_app [simp]: "app_inv exampleFull"
  by (simp add: app_inv_def cacheIdsOk_def cachedRequests_def cachedResponses_def)
    (simp add: cached_def exampleFull_def memCtx_def memCache_def)

lemma exampleFull_record: "backendRecord exampleFull ''b1'' = Some exampleBackend"
  by (simp add: backendRecord_eq_Some committed_exampleFull key_defs)

lemma exampleAnswer_authorised: "authorised exampleAgent exampleFull exampleAnswer ''b1''"
  by (simp add: authorised_def exampleAgent_def exampleFull_record exampleBackend_def)

lemma exampleAgent_check: "checkBackendID exampleAgent appStore exampleAnswer exampleFull = Inr ''b1''"
  by (simp add: checkBackendID_def exampleAgent_def persistentStore_IsBackendUserAllowed_def Get_def exampleFull_def
      memCtx_def memDatastore_def exampleBackend_def)

definition exampleNewResponse :: Response where
  "exampleNewResponse =
     \<lparr>resp_BackendID = ''b1'', resp_RequestID = ''r1'', resp_Contents = ''NEW'', resp_StartTime = 0\<rparr>"

lemma exampleAnswer_parse: "parseResponse ''b1'' exampleAnswer = Inr exampleNewResponse"
  by (simp add: parseResponse_def exampleNewResponse_def) (simp add: exampleAnswer_def)

lemma exampleFull_read:
  "ReadRequest appStore exampleFull ''b1'' ''r1'' = Inr \<lparr>req_BackendID = ''b1'', req_RequestID = ''r1'', req_User = ''u1'',
     req_Contents = ''GET'', req_StartTime = 590000000000, req_Completed = False\<rparr>"
  by (simp add: appStore_def NewCachingStore_def cachingStore_ReadRequest_def CacheGet_def exampleFull_def memCtx_def
      memCache_def persistentStore_ReadRequest_def readStoredRequest_def toRequest_def Get_def memDatastore_def
      exampleStoredRequest_def blob_read_def key_defs)

lemma exampleAnswer_run:
  "\<exists>c'. postResponse appStore 1 exampleNewResponse exampleFull = Some ([], c')
     \<and> responseHandler exampleAgent appStore newResponseWriter exampleAnswer exampleFull
       = Some (WriteHeader newResponseWriter 200, c')"
proof -
  have "\<exists>c'. postResponse appStore 1 exampleNewResponse exampleFull = Some ([], c')"
    unfolding postResponse_def exampleNewResponse_def Response.simps exampleFull_read
    by (simp add: exampleFull_def appStore_def NewCachingStore_def cachingStore_WriteRequest_def
        cachingStore_WriteResponse_def run_simps sendAll_def)
  then show ?thesis by (auto simp: responseHandler_def exampleAgent_check exampleAnswer_parse)
qed

lemma exampleFull_responses: "visibleResponses exampleFull ''r1'' =
    {\<lparr>resp_BackendID = ''b1'', resp_RequestID = ''r1'', resp_Contents = ''OK'', resp_StartTime = 0\<rparr>}"
proof -
  have "absResponse exampleFull ''r1'' = Some \<lparr>resp_BackendID = ''b1'', resp_RequestID = ''r1'',
      resp_Contents = ''OK'', resp_StartTime = 0\<rparr>"
    by (simp add: absResponse_eq_Some committed_exampleFull exampleStoredResponse_def blobBytes_def responseOf_def)
  moreover have "cachedResponses exampleFull ''r1'' = {}"
    by (simp add: cachedResponses_def cached_def exampleFull_def memCtx_def memCache_def)
  ultimately show ?thesis
    by (simp add: visibleResponses_def storedResponses_def canonResponse_def)
qed

section \<open>Authorization\<close>

text \<open>C4. A request to an agent endpoint that is not authenticated as the account registered for the
  backend it names changes nothing and is answered 401 (404 for an unknown path).\<close>

theorem agent_requests_need_authorization:
  assumes "app_inv c" and "\<forall>b. \<not> authorised ae c r b"
  shows "\<exists>w. handleAgentRequest ae fm others appStore newResponseWriter r c = Some (w, c)
           \<and> (rwStatus w = Some 401 \<or>
               rwStatus w = Some 404 \<and> \<not> prefix ''/agent/pending'' (hr_Path r)
               \<and> \<not> prefix ''/agent/request'' (hr_Path r) \<and> \<not> prefix ''/agent/response'' (hr_Path r))"
proof -
  obtain e where e: "checkBackendID ae appStore r c = Inl e"
    using handler_unauthorised [OF assms] by blast
  show ?thesis
    by (auto simp: handleAgentRequest_def pendingHandler_def requestHandler_def responseHandler_def e)
qed

theorem agent_requests_need_authorization_witness:
  "\<exists>w. handleAgentRequest exampleUser exampleFormats (\<lambda>_. []) appStore newResponseWriter exampleAnswer exampleFull
         = Some (w, exampleFull) \<and> rwStatus w = Some 401"
proof -
  have "\<forall>b. \<not> authorised exampleUser exampleFull exampleAnswer b"
    by (simp add: authorised_def exampleUser_def)
  moreover have "prefix ''/agent/response'' (hr_Path exampleAnswer)"
    by (simp add: exampleAnswer_def)
  ultimately show ?thesis
    using agent_requests_need_authorization [OF exampleFull_app] by blast
qed

text \<open>The administrative API changes nothing and answers 403 unless the caller is an administrator,
  by login or by OAuth; the cron path alone is left to the platform's access control.\<close>

theorem api_admin_only:
  assumes "\<not> IsAdmin ae" and "\<forall>u. CurrentOAuth ae = Inr u \<longrightarrow> \<not> oauth_Admin u" and "hr_Path r \<noteq> ''/cron/delete''"
  shows "\<exists>w. handleAPIRequest ae fm s newResponseWriter r c = Some (w, c) \<and> rwStatus w = Some 403"
  using assms by (auto simp: handleAPIRequest_def isAdminRequest_def split: sum.splits)

theorem api_admin_only_witness:
  "\<exists>w. handleAPIRequest exampleAgent exampleFormats appStore newResponseWriter
         (examplePost\<lparr>hr_Path := ''/api/backends''\<rparr>) exampleFull = Some (w, exampleFull) \<and> rwStatus w = Some 403"
  by (rule api_admin_only) (simp_all add: exampleAgent_def)

section \<open>Responses posted by agents\<close>

text \<open>C5. An agent can only answer requests of its own backend: when the response endpoint makes a
  response visible, its request ID is the one the agent named, the agent is authenticated for the backend
  it named, and a request of this backend with this ID is in the store.\<close>

theorem responses_only_to_own_requests:
  assumes "app_inv c" and "responseHandler ae appStore w r c = Some (w', c')"
    and "x \<in> visibleResponses c' rid" and "x \<notin> visibleResponses c rid"
  shows "rid = headerGet (hr_Header r) HeaderRequestID
       \<and> (\<exists>b. authorised ae c r b \<and> visibleRequests c b rid \<noteq> {})"
proof -
  have ne: "c' \<noteq> c" using assms(3,4) by auto
  obtain b where b: "checkBackendID ae appStore r c = Inr b"
    using assms(2) ne by (auto simp: responseHandler_def split: sum.splits)
  obtain resp where p: "parseResponse b r = Inr resp"
    using assms(2) b ne by (auto simp: responseHandler_def split: sum.splits)
  note resp = parseResponse_Inr [OF p]
  obtain errs where post: "postResponse appStore 1 resp c = Some (errs, c')"
    using assms(2) b p by (auto simp: responseHandler_def split: option.splits list.splits)
  show ?thesis
  proof (cases rule: postResponse_cases [of appStore c resp])
    case (unknown e)
    then show ?thesis using post ne by auto
  next
    case (known q swapped e1 e2 c1)
    have c1: "c1 = c'" using known(4) [OF post] by simp
    have rid: "rid = resp_RequestID resp"
    proof (rule ccontr)
      assume "rid \<noteq> resp_RequestID resp"
      then have "visibleResponses c1 rid \<subseteq> visibleResponses c rid"
        by (intro responses_frame [OF assms(1) known(2)]) (auto simp: completionOps_set)
      then show False using assms(3,4) c1 by blast
    qed
    moreover have "canonRequest q \<in> visibleRequests c b rid"
      using app.read_request [OF assms(1) known(1)] resp rid by simp
    ultimately show ?thesis
      using checkBackendID_authorised [OF app_inv_stored [OF assms(1)] b] resp by auto
  qed
qed

lemma exampleAnswer_stored:
  assumes post: "postResponse appStore 1 exampleNewResponse exampleFull = Some ([], c')"
  shows "exampleNewResponse \<in> visibleResponses c' ''r1''"
proof -
  have "storedResponses c' ''r1'' = {exampleNewResponse}"
  proof (cases rule: postResponse_cases [of appStore exampleFull exampleNewResponse])
    case (unknown e)
    then show ?thesis using post by auto
  next
    case (known q swapped e1 e2 c1)
    have e: "e1 = None" "e2 = None" "c1 = c'" using known(4) [OF post] by auto
    show ?thesis
      using completion_stores(1) [OF exampleFull_app known(2) [unfolded e]]
      by (simp add: exampleNewResponse_def canonResponse_def)
  qed
  then show ?thesis by (simp add: visibleResponses_def)
qed

theorem responses_only_to_own_requests_witness:
  "visibleRequests exampleFull ''b1'' ''r1'' \<noteq> {} \<and> authorised exampleAgent exampleFull exampleAnswer ''b1''"
proof -
  obtain c' where p: "postResponse appStore 1 exampleNewResponse exampleFull = Some ([], c')"
      and c': "responseHandler exampleAgent appStore newResponseWriter exampleAnswer exampleFull
     = Some (WriteHeader newResponseWriter 200, c')"
    using exampleAnswer_run by blast
  have "exampleNewResponse \<notin> visibleResponses exampleFull ''r1''"
    by (simp add: exampleFull_responses exampleNewResponse_def)
  then obtain b where "authorised exampleAgent exampleFull exampleAnswer b" "visibleRequests exampleFull b ''r1'' \<noteq> {}"
    using responses_only_to_own_requests [OF exampleFull_app c' exampleAnswer_stored [OF p]] by blast
  moreover from this(1) have "b = ''b1''" by (simp add: authorised_def)
  ultimately show ?thesis by simp
qed

text \<open>When the response endpoint answers 200, the posted body is stored as the response to the request,
  and the request is stored as completed, so that polling no longer returns it, whichever of the two
  concurrent writes comes first.\<close>

theorem accepted_response_is_stored:
  assumes "app_inv c" and "responseHandler ae appStore newResponseWriter r c = Some (w, c')"
    and "rwStatus w = Some 200"
  shows "\<exists>b q body. authorised ae c r b \<and> hr_Body r = Inr body
       \<and> canonRequest q \<in> visibleRequests c b (headerGet (hr_Header r) HeaderRequestID)
       \<and> storedResponses c' (headerGet (hr_Header r) HeaderRequestID) =
           {\<lparr>resp_BackendID = b, resp_RequestID = headerGet (hr_Header r) HeaderRequestID,
             resp_Contents = body, resp_StartTime = 0\<rparr>}
       \<and> storedRequests c' b (headerGet (hr_Header r) HeaderRequestID) =
           {canonRequest (q\<lparr>req_Completed := True\<rparr>)}"
proof -
  let ?rid = "headerGet (hr_Header r) HeaderRequestID"
  obtain b where b: "checkBackendID ae appStore r c = Inr b"
    using assms(2,3) by (auto simp: responseHandler_def split: sum.splits)
  obtain resp where p: "parseResponse b r = Inr resp"
    using assms(2,3) b by (auto simp: responseHandler_def split: sum.splits)
  note resp = parseResponse_Inr [OF p]
  have post: "postResponse appStore 1 resp c = Some ([], c')"
    using assms(2,3) b p by (auto simp: responseHandler_def split: option.splits list.splits)
  show ?thesis
  proof (cases rule: postResponse_cases [of appStore c resp])
    case (unknown e)
    then show ?thesis using post by auto
  next
    case (known q swapped e1 e2 c1)
    have e: "e1 = None" "e2 = None" "c1 = c'" using known(4) [OF post] by auto
    note st = completion_stores [OF assms(1) known(2) [unfolded e]]
    have q: "canonRequest q \<in> visibleRequests c b ?rid"
      using app.read_request [OF assms(1) known(1)] resp by simp
    moreover have "req_BackendID q = b" "req_RequestID q = ?rid"
      using visibleRequests_ids [OF assms(1) q] by simp_all
    moreover have "canonResponse resp = \<lparr>resp_BackendID = b, resp_RequestID = ?rid,
        resp_Contents = resp_Contents resp, resp_StartTime = 0\<rparr>"
      using resp by (simp add: canonResponse_def)
    ultimately show ?thesis
      using st checkBackendID_authorised [OF app_inv_stored [OF assms(1)] b] resp by auto
  qed
qed

theorem accepted_response_is_stored_witness:
  "\<exists>c'. responseHandler exampleAgent appStore newResponseWriter exampleAnswer exampleFull
        = Some (WriteHeader newResponseWriter 200, c')
     \<and> (\<exists>x. storedResponses c' ''r1'' = {x} \<and> resp_Contents x = ''NEW'')"
proof -
  obtain c' where c': "responseHandler exampleAgent appStore newResponseWriter exampleAnswer exampleFull
     = Some (WriteHeader newResponseWriter 200, c')"
    using exampleAnswer_run by blast
  moreover have "hr_Body exampleAnswer = Inr ''NEW''" by (simp add: exampleAnswer_def)
  ultimately show ?thesis
    using accepted_response_is_stored [OF exampleFull_app c'] by auto
qed

text \<open>The response endpoint never returns exactly when both of its concurrent writes fail: they report on
  a channel of capacity one that is read only after both are done, so the second send blocks forever
  and with it the wait for the two goroutines.\<close>

theorem responseHandler_blocks_on_double_failure:
  assumes "checkBackendID ae s r c = Inr b" and "parseResponse b r = Inr resp"
    and "ReadRequest s c b (resp_RequestID resp) = Inr q"
    and "go2 (sched c 2) (\<lambda>c. WriteResponse s c (resp\<lparr>resp_StartTime := req_StartTime q\<rparr>))
           (\<lambda>c. WriteRequest s c (q\<lparr>req_Completed := True\<rparr>)) c = (e1, e2, c')"
  shows "responseHandler ae s w r c = None \<longleftrightarrow> e1 \<noteq> None \<and> e2 \<noteq> None"
proof -
  have "postResponse s 1 resp c = map_option (\<lambda>errs. (errs, c')) (sendAll 1 [e1, e2])"
    using assms(3,4) parseResponse_Inr [OF assms(2)] by (simp add: postResponse_def)
  then have "postResponse s 1 resp c = None \<longleftrightarrow> e1 \<noteq> None \<and> e2 \<noteq> None"
    by (simp only: option.map_disc_iff sendAll_pair)
  moreover have "responseHandler ae s w r c = None \<longleftrightarrow> postResponse s 1 resp c = None"
    by (auto simp: responseHandler_def assms(1,2) split: option.splits list.splits)
  ultimately show ?thesis by simp
qed

text \<open>A Datastore that answers reads and refuses writes, as during a read-only outage.\<close>

definition downDatastore :: "memDs datastore" where
  "downDatastore = memDatastore\<lparr>ds_Put := \<lambda>d k e. (Some (ErrService ''read-only''), d)\<rparr>"

definition exampleOutage :: "(memDs, memMc) ctx" where
  "exampleOutage = exampleFull\<lparr>dsvc := downDatastore\<rparr>"

lemma downDatastore_laws: "ds_laws downDatastore"
proof -
  have same: "ds_committed downDatastore = ds_committed memDatastore" "ds_Get downDatastore = ds_Get memDatastore"
    "ds_GetMulti downDatastore = ds_GetMulti memDatastore" "ds_Delete downDatastore = ds_Delete memDatastore"
    "ds_DeleteMulti downDatastore = ds_DeleteMulti memDatastore" "ds_GetAll downDatastore = ds_GetAll memDatastore"
    "ds_RunInTransaction downDatastore = ds_RunInTransaction memDatastore"
    by (simp_all add: downDatastore_def)
  have "ds_get_law downDatastore = ds_get_law memDatastore" "ds_query_law downDatastore = ds_query_law memDatastore"
    "ds_delete_law downDatastore = ds_delete_law memDatastore"
    "ds_transaction_law downDatastore = ds_transaction_law memDatastore"
    by (simp_all only: ds_get_law_def ds_query_law_def ds_delete_law_def ds_transaction_law_def same)
  moreover have "ds_put_law downDatastore" by (simp add: ds_put_law_def downDatastore_def)
  ultimately show ?thesis using memDatastore_laws unfolding ds_laws_def same by blast
qed

lemma exampleOutage_inv: "store_inv exampleOutage"
  using exampleFull_inv downDatastore_laws
  by (simp add: store_inv_def services_ok_def committed_def exampleOutage_def exampleFull_def memCtx_def)
    (simp add: downDatastore_def)

theorem responseHandler_blocks_on_double_failure_witness:
  "store_inv exampleOutage
   \<and> responseHandler exampleAgent appStore newResponseWriter exampleAnswer exampleOutage = None"
proof -
  let ?q = "\<lparr>req_BackendID = ''b1'', req_RequestID = ''r1'', req_User = ''u1'',
     req_Contents = ''GET'', req_StartTime = 590000000000, req_Completed = False\<rparr>"
  have check: "checkBackendID exampleAgent appStore exampleAnswer exampleOutage = Inr ''b1''"
    by (simp add: checkBackendID_def exampleAgent_def persistentStore_IsBackendUserAllowed_def Get_def exampleOutage_def
        exampleFull_def memCtx_def memDatastore_def downDatastore_def exampleBackend_def)
  have read: "ReadRequest appStore exampleOutage ''b1'' (resp_RequestID exampleNewResponse) = Inr ?q"
    by (simp add: exampleNewResponse_def appStore_def NewCachingStore_def cachingStore_ReadRequest_def CacheGet_def
        exampleOutage_def exampleFull_def memCtx_def memCache_def persistentStore_ReadRequest_def readStoredRequest_def
        toRequest_def Get_def downDatastore_def memDatastore_def exampleStoredRequest_def blob_read_def key_defs)
  have "\<exists>e1 e2 c'. go2 (sched exampleOutage 2)
      (\<lambda>c. WriteResponse appStore c (exampleNewResponse\<lparr>resp_StartTime := req_StartTime ?q\<rparr>))
      (\<lambda>c. WriteRequest appStore c (?q\<lparr>req_Completed := True\<rparr>)) exampleOutage = (Some e1, Some e2, c')"
    by (simp add: exampleOutage_def downDatastore_def exampleFull_def appStore_def NewCachingStore_def
        cachingStore_WriteRequest_def cachingStore_WriteResponse_def exampleNewResponse_def run_simps)
  then show ?thesis
    using responseHandler_blocks_on_double_failure [OF check exampleAnswer_parse read] exampleOutage_inv by fastforce
qed

section \<open>Requests of end users\<close>


lemma exampleFull_lookup: "persistentStore_LookupBackend exampleFull ''u1'' ''/x'' = Inr ''b1''"
  by (simp add: persistentStore_LookupBackend_def queryBackendsFor_def GetAllAs_def GetAll_def exampleFull_def
      memCtx_def memDatastore_def memGetAll_def selects_def exampleBackend_def
      mostSpecificMatchingBackend_def hasBackend_def backendLastSeen_def Get_def backendTimeout_def
      duration_defs key_defs AList.clearjunk.simps AList.delete_eq exampleStoredRequest_def exampleStoredResponse_def)

lemma examplePost_run:
  "\<exists>c'. proxyHandler exampleUser exampleFormats (\<lambda>_. []) appStore ''r1'' newResponseWriter examplePost exampleFull
     = Some (forwardResponse newResponseWriter \<lparr>res_StatusCode = 200, res_Header = [], res_Body = ''OK''\<rparr>, c')"
proof -
  have "\<exists>c1. postRequest appStore ''b1'' ''r1'' ''u1'' (hr_Method examplePost @ '' '' @ hr_URL examplePost) exampleFull
        = (Inr (NewRequest 600000000000 ''b1'' ''r1'' ''u1'' (hr_Method examplePost @ '' '' @ hr_URL examplePost)), c1)
      \<and> waitForResponse appStore (\<lambda>_. []) ''b1'' ''r1'' c1 = Some (Inr ''OK'', c1)"
    by (simp add: postRequest_def NewRequest_def examplePost_def exampleFull_def appStore_def NewCachingStore_def
        cachingStore_WriteRequest_def run_simps waitForResponse_def waitForResponseLoop.simps responseWaitTimeout_def
        cachingStore_ReadResponse_def persistentStore_ReadResponse_def readStoredResponse_def toResponse_def
        exampleStoredResponse_def blob_read_def key_defs duration_defs)
  then show ?thesis
    by (auto simp: proxyHandler_def exampleUser_def exampleFormats_def cachedPage_def relayRequest_def
        exampleFull_lookup [unfolded examplePost_def] examplePost_def)
qed


section \<open>Requests fetched by agents\<close>

text \<open>C24. What the request endpoint gives an agent: with status 200, the contents, user and start time of a
  request that is in the store under the backend the agent is authenticated for and the ID it asked
  for; and it never changes the store.\<close>

theorem requestHandler_own_requests:
  assumes "app_inv c" and "requestHandler ae appStore newResponseWriter r c = Some (w, c')"
  shows "c' = c \<and> (rwStatus w = Some 200 \<longrightarrow>
     (\<exists>b q. authorised ae c r b
        \<and> canonRequest q \<in> visibleRequests c b (headerGet (hr_Header r) HeaderRequestID)
        \<and> rw_Body w = req_Contents q
        \<and> headerValues (rw_Header w) HeaderRequestID = [headerGet (hr_Header r) HeaderRequestID]
        \<and> headerValues (rw_Header w) HeaderUserID = [req_User q]
        \<and> headerValues (rw_Header w) HeaderRequestStartTime = [formatRFC3339Nano (req_StartTime q)]))"
proof (cases "checkBackendID ae appStore r c")
  case (Inl e)
  then show ?thesis using assms(2) by (auto simp: requestHandler_def)
next
  case (Inr b)
  let ?rid = "headerGet (hr_Header r) HeaderRequestID"
  show ?thesis
  proof (cases "ReadRequest appStore c b ?rid")
    case (Inl e)
    then show ?thesis using assms(2) Inr by (auto simp: requestHandler_def Let_def split: if_splits)
  next
    case q: (Inr q)
    show ?thesis
    proof (cases "?rid = []")
      case False
      then have w: "w = WriteBody (HeaderAdd (HeaderAdd (HeaderAdd newResponseWriter HeaderRequestID ?rid) HeaderUserID (req_User q))
          HeaderRequestStartTime (formatRFC3339Nano (req_StartTime q))) (req_Contents q)" "c' = c"
        using assms(2) Inr q by (simp_all add: requestHandler_def Let_def)
      have "rw_Body w = req_Contents q" "headerValues (rw_Header w) HeaderRequestID = [?rid]"
        "headerValues (rw_Header w) HeaderUserID = [req_User q]"
        "headerValues (rw_Header w) HeaderRequestStartTime = [formatRFC3339Nano (req_StartTime q)]"
        unfolding w by (simp_all add: WriteBody_def WriteHeader_def HeaderAdd_def newResponseWriter_def Let_def
            header_simps header_names_distinct) (simp_all add: headerValues_def)
      then show ?thesis
        using w(2) checkBackendID_authorised [OF app_inv_stored [OF assms(1)] Inr] app.read_request [OF assms(1) q]
        by blast
    qed (use assms(2) Inr in \<open>auto simp: requestHandler_def\<close>)
  qed
qed

theorem requestHandler_own_requests_witness:
  "\<exists>w. requestHandler exampleAgent appStore newResponseWriter exampleAnswer exampleFull = Some (w, exampleFull)
     \<and> rw_Body w = ''GET''"
proof -
  obtain w c' where r: "requestHandler exampleAgent appStore newResponseWriter exampleAnswer exampleFull = Some (w, c')"
    and st: "rwStatus w = Some 200" and b: "rw_Body w = ''GET''"
    by (simp add: requestHandler_def exampleAgent_check exampleFull_read Let_def)
      (simp add: WriteBody_def WriteHeader_def HeaderAdd_def newResponseWriter_def Let_def rwStatus_def)
  show ?thesis using requestHandler_own_requests [OF exampleFull_app r] r b by simp
qed

text \<open>C25. The long poll of an authenticated agent always ends: with the nonempty list of pending request
  IDs that one of its queries returned, or with an empty list after at least thirty seconds.\<close>

theorem pendingHandler_long_poll:
  assumes "app_inv c" and "checkBackendID ae appStore r c = Inr b"
    and "\<forall>ids. \<exists>bytes. marshalStrings fm ids = Inr bytes"
  shows "\<exists>ids bytes c'. pendingHandler ae fm others appStore newResponseWriter r c
           = Some (WriteBody newResponseWriter bytes, c')
       \<and> marshalStrings fm ids = Inr bytes \<and> app_inv c'
       \<and> (ids = [] \<and> now c + 30 * Second \<le> now c'
          \<or> ids \<noteq> [] \<and> (\<exists>c0. app_inv c0 \<and> persistentStore_ListPendingRequests c0 b = (Inr ids, c')))"
proof -
  obtain res c' c0 where wt: "waitForNextRequests appStore others b c = Some (res, c')" "app_inv c'" "app_inv c0"
      "\<And>e. res = Inl e \<Longrightarrow> now c + requestsWaitTimeout \<le> now c'"
      "\<And>rs. res = Inr rs \<Longrightarrow> rs \<noteq> [] \<and> persistentStore_ListPendingRequests c0 b = (Inr rs, c')"
    by (rule waitForNextRequests_app [where others = others and b = b, OF assms(1)]) (rule that)
  define ids where "ids = (case res of Inl _ \<Rightarrow> [] | Inr rs \<Rightarrow> rs)"
  obtain bytes where bytes: "marshalStrings fm ids = Inr bytes" using assms(3) by blast
  have "pendingHandler ae fm others appStore newResponseWriter r c = Some (WriteBody newResponseWriter bytes, c')"
    using bytes by (simp add: pendingHandler_def assms(2) wt(1) Let_def ids_def)
  moreover have "ids = [] \<and> now c + 30 * Second \<le> now c'
      \<or> ids \<noteq> [] \<and> (\<exists>c0. app_inv c0 \<and> persistentStore_ListPendingRequests c0 b = (Inr ids, c'))"
    using wt(3-5) by (cases res) (auto simp: ids_def requestsWaitTimeout_def)
  ultimately show ?thesis using bytes wt(2) by blast
qed

theorem pendingHandler_long_poll_witness:
  "\<exists>bytes c'. pendingHandler exampleAgent exampleFormats (\<lambda>_. []) appStore newResponseWriter exampleAnswer exampleFull
     = Some (WriteBody newResponseWriter bytes, c') \<and> app_inv c'"
  using pendingHandler_long_poll [OF exampleFull_app exampleAgent_check, of exampleFormats "\<lambda>_. []"]
  by (auto simp: exampleFormats_def)

section \<open>The application\<close>

text \<open>C26. Every request to the application is answered: the handler returns with a status and leaves the
  store well-formed, whatever other handlers do in between and whatever fails, except that a posted
  response may block forever.\<close>

theorem serveApp_answers:
  assumes "app_inv c"
  shows "case serveApp ae fm others newResponseWriter r c of
           Some (w, c') \<Rightarrow> app_inv c' \<and> rwStatus w \<noteq> None
         | None \<Rightarrow> isAgentRequest ae \<and> prefix ''/agent/response'' (hr_Path r)"
proof -
  have pend: "\<exists>w c'. pendingHandler ae fm others appStore newResponseWriter r c = Some (w, c') \<and> app_inv c' \<and> rwStatus w \<noteq> None"
    by (rule pendingHandler_answers [OF assms])
  have req: "\<exists>w c'. requestHandler ae appStore newResponseWriter r c = Some (w, c') \<and> app_inv c' \<and> rwStatus w \<noteq> None"
    using assms by (auto simp: requestHandler_def Let_def split: sum.split)
  have resp: "app_inv c' \<and> rwStatus w \<noteq> None" if "responseHandler ae appStore newResponseWriter r c = Some (w, c')" for w c'
    by (rule responseHandler_answers [OF assms that])
  have api: "\<exists>w c'. handleAPIRequest ae fm appStore newResponseWriter r c = Some (w, c') \<and> app_inv c' \<and> rwStatus w \<noteq> None"
    by (rule handleAPIRequest_answers [OF assms])
  have proxy: "\<exists>w c'. proxyHandler ae fm others appStore (AppRequestID ae) newResponseWriter r c = Some (w, c')
      \<and> app_inv c' \<and> rwStatus w \<noteq> None"
    by (rule proxyHandler_answers [OF assms])
  have agent: "case handleAgentRequest ae fm others appStore newResponseWriter r c of
      Some (w, c') \<Rightarrow> app_inv c' \<and> rwStatus w \<noteq> None | None \<Rightarrow> prefix ''/agent/response'' (hr_Path r)"
  proof (cases "prefix ''/agent/pending'' (hr_Path r) \<or> prefix ''/agent/request'' (hr_Path r)")
    case True
    then show ?thesis using pend req by (auto simp only: handleAgentRequest_def split: if_split option.split)
  next
    case False
    then show ?thesis
      using resp assms by (cases "prefix ''/agent/response'' (hr_Path r)") (auto simp: handleAgentRequest_def split: option.split)
  qed
  show ?thesis
  proof (cases "isAgentRequest ae")
    case True
    then show ?thesis using agent by (auto simp: serveApp_def split: option.splits)
  next
    case False
    then show ?thesis using api proxy by (cases "isAPIRequest ae") (auto simp: serveApp_def)
  qed
qed

theorem serveApp_answers_witness:
  "case serveApp exampleUser exampleFormats (\<lambda>_. [OpDeleteOldRequests]) newResponseWriter examplePost exampleFull of
     Some (w, c') \<Rightarrow> app_inv c' \<and> rwStatus w \<noteq> None
   | None \<Rightarrow> isAgentRequest exampleUser \<and> prefix ''/agent/response'' (hr_Path examplePost)"
  by (rule serveApp_answers) simp

text \<open>No two records share a storage location: Memcache keys of requests, responses and cached pages,
  and Datastore keys of requests, determine the strings they were made from (backend and request ID,
  user and URL), for any strings whatever, quotes and colons included, and the three kinds of Memcache
  items never collide.\<close>

theorem storage_keys_injective:
  "(memcacheRequestKey P b r = memcacheRequestKey P b' r' \<longleftrightarrow> b = b' \<and> r = r')
   \<and> (memcacheResponseKey P b r = memcacheResponseKey P b' r' \<longleftrightarrow> b = b' \<and> r = r')
   \<and> (requestKey P b r = requestKey P b' r' \<longleftrightarrow> b = b' \<and> r = r')
   \<and> (pageKey P u url = pageKey P u' url' \<longleftrightarrow> u = u' \<and> url = url')
   \<and> memcacheRequestKey P b r \<noteq> memcacheResponseKey P b' r'
   \<and> memcacheRequestKey P b r \<noteq> ''cache:'' @ pageKey P u url
   \<and> memcacheResponseKey P b r \<noteq> ''cache:'' @ pageKey P u url"
  using Quote_pair_inject [of P u url u' url'] by (simp add: pageKey_def)

end
