(* ===== verification/App_Round_Trip.thy ===== *)
theory App_Round_Trip
  imports App_Proxy_Properties
begin

text \<open>
  The App Engine proxy from the end user to the agent and back: a request waits in the store, the
  agent lists it, fetches it and posts the response, and the waiting handler gives the response to
  the user. The wait is the list of the store operations of other handlers, round by round (\<open>rounds\<close>);
  in the last round the response endpoint runs.
\<close>

section \<open>Waiting until the response is there\<close>

context request_store
begin

lemma exec_ops_resps_frame:
  assumes "invar c" and "exec_ops S ops c = Some (errs, c')" and "\<And>op. op \<in> set ops \<Longrightarrow> \<not> writesResponse rid op"
  shows "resps c' rid \<subseteq> resps c rid"
  using assms
proof (induction ops arbitrary: c errs)
  case (Cons op ops)
  obtain err c1 es where s: "exec_op S op c = Some (err, c1)" "exec_ops S ops c1 = Some (es, c')"
    using Cons.prems(2) by (auto simp only: exec_ops_Cons)
  have "resps c' rid \<subseteq> resps c1 rid" using Cons.IH [OF exec_invar [OF Cons.prems(1) s(1)] s(2)] Cons.prems(3) by simp
  then show ?case using resps_frame [OF Cons.prems(1) s(1)] Cons.prems(3) by fastforce
qed simp

lemma exec_ops_reqs_frame:
  assumes "invar c" and "exec_ops S ops c = Some (errs, c')" and "\<And>op. op \<in> set ops \<Longrightarrow> \<not> writesRequest rid op"
  shows "reqs c' b rid \<subseteq> reqs c b rid"
  using assms
proof (induction ops arbitrary: c errs)
  case (Cons op ops)
  obtain err c1 es where s: "exec_op S op c = Some (err, c1)" "exec_ops S ops c1 = Some (es, c')"
    using Cons.prems(2) by (auto simp only: exec_ops_Cons)
  have "reqs c' b rid \<subseteq> reqs c1 b rid" using Cons.IH [OF exec_invar [OF Cons.prems(1) s(1)] s(2)] Cons.prems(3) by simp
  then show ?case using reqs_frame [OF Cons.prems(1) s(1)] Cons.prems(3) by fastforce
qed simp

text \<open>While no response can be read, the loop goes on to the next round.\<close>

lemma waitForResponseLoop_skips:
  assumes "invar c" and "exec_ops S (rounds (sleepOps others) i n) c = Some (errs, c')" and "resps c rid = {}"
    and "\<And>op. op \<in> set (rounds (sleepOps others) i n) \<Longrightarrow> \<not> writesResponse rid op" and "now c' < deadline"
  shows "waitForResponseLoop S others deadline b rid i c = waitForResponseLoop S others deadline b rid (i + n) c'"
  using assms
proof (induction n arbitrary: i c errs)
  case (Suc n)
  obtain es1 c1 es2 where s: "exec_ops S (sleepOps others i) c = Some (es1, c1)"
      "exec_ops S (rounds (sleepOps others) (Suc i) n) c1 = Some (es2, c')"
    using Suc.prems(2) by (auto simp: rounds_Suc exec_ops_append split: option.splits)
  have i1: "invar c1" by (rule exec_ops_invar [OF Suc.prems(1) s(1)])
  have "now c < deadline" using exec_ops_time [OF Suc.prems(1,2)] Suc.prems(5) by simp
  moreover have "ReadResponse S c b rid \<noteq> Inr w" for w using read_response [OF Suc.prems(1)] Suc.prems(3) by blast
  ultimately have "waitForResponseLoop S others deadline b rid i c = waitForResponseLoop S others deadline b rid (Suc i) c1"
    using s(1) by (subst waitForResponseLoop.simps) (auto split: sum.splits)
  moreover have "resps c1 rid = {}"
    using exec_ops_resps_frame [OF Suc.prems(1) s(1), of rid] Suc.prems(3,4) by (auto simp: rounds_Suc)
  ultimately show ?case using Suc.IH [OF i1 s(2)] Suc.prems(4,5) by (simp add: rounds_Suc)
qed simp

end

section \<open>Reading what is stored\<close>

lemma app_read_response:
  assumes "app_inv c" and "ds_available (dsvc c) (ds c)" and "storedResponses c rid \<noteq> {}"
  obtains w where "ReadResponse appStore c b rid = Inr w"
proof -
  obtain w where "persistentStore_ReadResponse c b rid = Inr w"
    using persistent.response_available [OF app_inv_stored [OF assms(1)] assms(2)] assms(3) by fastforce
  then have "\<exists>w. ReadResponse appStore c b rid = Inr w"
    by (simp add: appStore_def NewCachingStore_def cachingStore_ReadResponse_def split: sum.split cacheValue.split)
  then show thesis using that by blast
qed

lemma app_read_request:
  assumes "app_inv c" and "ds_available (dsvc c) (ds c)" and "storedRequests c b rid \<noteq> {}"
  obtains q where "ReadRequest appStore c b rid = Inr q"
proof -
  obtain q where "persistentStore_ReadRequest c b rid = Inr q"
    using persistent.request_available [OF app_inv_stored [OF assms(1)] assms(2)] assms(3) by fastforce
  then have "\<exists>q. ReadRequest appStore c b rid = Inr q"
    by (simp add: appStore_def NewCachingStore_def cachingStore_ReadRequest_def split: sum.split cacheValue.split)
  then show thesis using that by blast
qed

lemma app_exec_ops_request_kept:
  assumes "app_inv c" and "exec_ops appStore ops c = Some (errs, c')"
    and "\<And>op. op \<in> set ops \<Longrightarrow> \<not> isDelete op \<and> \<not> writesRequest rid op"
  shows "storedRequests c' b rid = storedRequests c b rid"
  using assms
proof (induction ops arbitrary: c errs)
  case (Cons op ops)
  obtain err c1 es where s: "exec_op appStore op c = Some (err, c1)" "exec_ops appStore ops c1 = Some (es, c')"
    using Cons.prems(2) by (auto simp only: exec_ops_Cons)
  have "storedRequests c' b rid = storedRequests c1 b rid" using Cons.IH [OF app_inv_step [OF Cons.prems(1) s(1)] s(2)] Cons.prems(3) by simp
  then show ?case using app_request_kept [OF app_inv_stored [OF Cons.prems(1)] s(1)] Cons.prems(3) by simp
qed simp

lemma app_exec_ops_response_kept:
  assumes "app_inv c" and "exec_ops appStore ops c = Some (errs, c')"
    and "\<And>op. op \<in> set ops \<Longrightarrow> \<not> isDelete op \<and> \<not> writesResponse rid op"
  shows "storedResponses c' rid = storedResponses c rid"
  using assms
proof (induction ops arbitrary: c errs)
  case (Cons op ops)
  obtain err c1 es where s: "exec_op appStore op c = Some (err, c1)" "exec_ops appStore ops c1 = Some (es, c')"
    using Cons.prems(2) by (auto simp only: exec_ops_Cons)
  have "storedResponses c' rid = storedResponses c1 rid" using Cons.IH [OF app_inv_step [OF Cons.prems(1) s(1)] s(2)] Cons.prems(3) by simp
  then show ?case using app_response_kept [OF app_inv_stored [OF Cons.prems(1)] s(1)] Cons.prems(3) by simp
qed simp

text \<open>What an accepted POST of an agent does to the store: the two writes of \<open>completionOps\<close>.\<close>

lemma accepted_post:
  assumes "app_inv c" and "responseHandler ae appStore newResponseWriter r c = Some (w, c')" and "rwStatus w = Some 200"
    and "hr_Body r = Inr body"
  obtains x q swapped where "resp_RequestID x = headerGet (hr_Header r) HeaderRequestID" "resp_Contents x = body"
    "exec_ops appStore (completionOps x q swapped) c = Some ([None, None], c')"
    "storedResponses c' (resp_RequestID x) = {canonResponse x}"
    "visibleResponses c' (resp_RequestID x) \<subseteq> insert (canonResponse x) (visibleResponses c (resp_RequestID x))"
proof -
  obtain b where b: "checkBackendID ae appStore r c = Inr b" using assms(2,3) by (auto simp: responseHandler_def split: sum.splits)
  obtain x where p: "parseResponse b r = Inr x" using assms(2,3) b by (auto simp: responseHandler_def split: sum.splits)
  note x = parseResponse_Inr [OF p]
  have post: "postResponse appStore 1 x c = Some ([], c')"
    using assms(2,3) b p by (auto simp: responseHandler_def split: option.splits list.splits)
  show thesis
  proof (cases rule: postResponse_cases [of appStore c x])
    case (unknown e)
    then show ?thesis using post by auto
  next
    case (known q swapped e1 e2 c1)
    then have ex: "exec_ops appStore (completionOps x q swapped) c = Some ([None, None], c')" using known(4) [OF post] by auto
    have "allSucceed P (completionOps x q swapped) [None, None]" for P
      by (simp add: allSucceed_def completionOps_def Let_def)
    moreover have "responseWrites (resp_RequestID x) (completionOps x q swapped) = {canonResponse x}"
      by (auto simp: responseWrites_def completionOps_set canonResponse_def)
    ultimately have "visibleResponses c' (resp_RequestID x) \<subseteq> insert (canonResponse x) (visibleResponses c (resp_RequestID x))"
      using app.exec_ops_responses [OF assms(1) ex, of "resp_RequestID x"] by simp
    moreover have "storedResponses c' (resp_RequestID x) = {canonResponse x}" by (rule completion_stores(1) [OF assms(1) ex])
    ultimately show ?thesis using that [of x q swapped] x assms(4) ex by simp
  qed
qed

text \<open>A waiting request reads back as it was posted.\<close>

lemma waiting_request_readable:
  assumes "app_inv c" and "WriteRequest appStore c q = (None, c1)" and "visibleRequests c (req_BackendID q) (req_RequestID q) = {}"
    and "exec_ops appStore ops c1 = Some (errs, c2)" and "ds_available (dsvc c2) (ds c2)"
    and "\<And>op. op \<in> set ops \<Longrightarrow> \<not> isDelete op \<and> \<not> writesRequest (req_RequestID q) op"
  shows "\<exists>q'. ReadRequest appStore c2 (req_BackendID q) (req_RequestID q) = Inr q' \<and> canonRequest q' = canonRequest q"
proof -
  have ex: "exec_op appStore (OpWriteRequest q) c = Some (None, c1)" using assms(2) by simp
  have i1: "app_inv c1" by (rule app_inv_step [OF assms(1) ex])
  have i2: "app_inv c2" by (rule app.exec_ops_invar [OF i1 assms(4)])
  have "storedRequests c2 (req_BackendID q) (req_RequestID q) = {canonRequest q}"
    using app_exec_ops_request_kept [OF i1 assms(4,6)] app_request_written [OF app_inv_stored [OF assms(1)] ex] by simp
  then obtain q' where q': "ReadRequest appStore c2 (req_BackendID q) (req_RequestID q) = Inr q'"
    using app_read_request [OF i2 assms(5)] by blast
  have "visibleRequests c2 (req_BackendID q) (req_RequestID q) \<subseteq> {canonRequest q}"
    using app.exec_ops_reqs_frame [OF i1 assms(4), of "req_RequestID q" "req_BackendID q"] assms(3,6) app.write_request [OF assms(1) ex] by auto
  then show ?thesis using q' app.read_request [OF i2 q'] by blast
qed

section \<open>The round trip\<close>

lemma fetched_request:
  assumes "checkBackendID ae s r c = Inr b" and "headerGet (hr_Header r) HeaderRequestID = rid" and "rid \<noteq> []"
    and "ReadRequest s c b rid = Inr q"
  shows "\<exists>w. requestHandler ae s newResponseWriter r c = Some (w, c) \<and> rwStatus w = Some 200
     \<and> rw_Body w = req_Contents q \<and> headerValues (rw_Header w) HeaderUserID = [req_User q]"
proof -
  define w where "w = WriteBody (HeaderAdd (HeaderAdd (HeaderAdd newResponseWriter HeaderRequestID rid) HeaderUserID (req_User q))
      HeaderRequestStartTime (formatRFC3339Nano (req_StartTime q))) (req_Contents q)"
  have "requestHandler ae s newResponseWriter r c = Some (w, c)"
    using assms by (simp add: requestHandler_def w_def Let_def)
  moreover have "rwStatus w = Some 200" "rw_Body w = req_Contents q" "headerValues (rw_Header w) HeaderUserID = [req_User q]"
    by (simp_all add: w_def WriteBody_def WriteHeader_def HeaderAdd_def newResponseWriter_def Let_def rwStatus_def
        header_simps header_names_distinct) (simp_all add: headerValues_def)
  ultimately show ?thesis by blast
qed

lemma canonResponse_contents: "canonResponse y = canonResponse x \<Longrightarrow> resp_Contents y = resp_Contents x"
  by (drule arg_cong [where f = resp_Contents]) (simp add: canonResponse_def)

lemma rounds_cong: "(\<And>j. i \<le> j \<Longrightarrow> j < i + n \<Longrightarrow> f j = g j) \<Longrightarrow> rounds f i n = rounds g i n"
  unfolding rounds_def by (rule arg_cong [where f = concat]) simp

text \<open>The handler that waits finds a response posted in round \<open>n\<close> when it wakes up from it.\<close>

lemma answered_wait:
  assumes "app_inv c" and "visibleResponses c rid = {}"
    and before: "exec_ops appStore (rounds (sleepOps others) 0 n) c = Some (errs, c2)"
    and answer: "responseHandler ae appStore newResponseWriter r c2 = Some (w, c3)" "rwStatus w = Some 200"
      "hr_Body r = Inr body" "body \<noteq> []" "headerGet (hr_Header r) HeaderRequestID = rid"
    and after: "exec_ops appStore (others n) c3 = Some (errs', c4)"
    and quiet: "\<And>op. op \<in> set (rounds (sleepOps others) 0 n @ others n) \<Longrightarrow> \<not> isDelete op \<and> \<not> writesResponse rid op"
    and available: "ds_available (dsvc c4) (ds c4)"
    and in_time: "now c4 + int pollInterval < now c + responseWaitTimeout"
  shows "\<exists>x q swapped c5. exec_ops appStore (completionOps x q swapped) c2 = Some ([None, None], c3)
     \<and> waitForResponse appStore (others(n := completionOps x q swapped @ others n)) b rid c = Some (Inr body, c5)"
proof -
  obtain x q swapped where x: "resp_RequestID x = rid" "resp_Contents x = body"
      and ex: "exec_ops appStore (completionOps x q swapped) c2 = Some ([None, None], c3)"
      and st: "storedResponses c3 rid = {canonResponse x}"
      and vis: "visibleResponses c3 rid \<subseteq> insert (canonResponse x) (visibleResponses c2 rid)"
    using accepted_post [OF app.exec_ops_invar [OF assms(1) before] answer(1-3)] answer(5) by auto
  let ?others = "others(n := completionOps x q swapped @ others n)" and ?d = "now c + responseWaitTimeout"
  let ?c5 = "c4\<lparr>now := now c4 + int pollInterval\<rparr>"
  have i2: "app_inv c2" by (rule app.exec_ops_invar [OF assms(1) before])
  have i3: "app_inv c3" by (rule app.exec_ops_invar [OF i2 ex])
  have i4: "app_inv c4" by (rule app.exec_ops_invar [OF i3 after])
  have i5: "app_inv ?c5" using app_inv_step [OF i4, of "OpTick pollInterval"] by simp
  have same: "rounds (sleepOps ?others) 0 n = rounds (sleepOps others) 0 n"
    by (rule rounds_cong) (simp add: sleepOps_def)
  have "now c2 < ?d"
    using app.exec_ops_time [OF i2 ex] app.exec_ops_time [OF i3 after] in_time by simp
  then have "waitForResponse appStore ?others b rid c = waitForResponseLoop appStore ?others ?d b rid n c2"
    unfolding waitForResponse_def using app.waitForResponseLoop_skips [OF assms(1) before [folded same] assms(2)] quiet same by simp
  also have "visibleResponses c2 rid = {}"
    using app.exec_ops_resps_frame [OF assms(1) before, of rid] assms(2) quiet by auto
  then have "ReadResponse appStore c2 b rid \<noteq> Inr w" for w using app.read_response [OF i2] by blast
  moreover have "exec_ops appStore (sleepOps ?others n) c2 = Some ([None, None] @ (errs' @ [None]), ?c5)"
    unfolding sleepOps_def fun_upd_same append_assoc
    by (rule exec_ops_append_Some [OF ex]) (rule exec_ops_append_Some [OF after], simp)
  ultimately have loop: "waitForResponse appStore ?others b rid c = waitForResponseLoop appStore ?others ?d b rid (Suc n) ?c5"
    using \<open>now c2 < ?d\<close> by (subst (asm) waitForResponseLoop.simps) (auto split: sum.splits)
  have "storedResponses ?c5 rid = {canonResponse x}"
    using app_exec_ops_response_kept [OF i3 after, of rid] quiet st stored_cong(2) [of ?c5 c4] by (simp add: committed_def)
  then obtain y where y: "ReadResponse appStore ?c5 b rid = Inr y"
    using app_read_response [OF i5, of rid b] available by auto
  have "visibleResponses c4 rid \<subseteq> {canonResponse x}"
    using app.exec_ops_resps_frame [OF i3 after, of rid] vis quiet \<open>visibleResponses c2 rid = {}\<close> by auto
  moreover have "visibleResponses ?c5 rid \<subseteq> visibleResponses c4 rid"
    using app.resps_frame [OF i4, of "OpTick pollInterval" None ?c5 rid] by simp
  ultimately have "canonResponse y = canonResponse x" using app.read_response [OF i5 y] by blast
  then have "resp_Contents y = body" unfolding x(2) [symmetric] by (rule canonResponse_contents)
  then have "waitForResponseLoop appStore ?others ?d b rid (Suc n) ?c5 = Some (Inr body, ?c5)"
    using in_time y answer(4) by (subst waitForResponseLoop.simps) simp
  then have "waitForResponse appStore ?others b rid c = Some (Inr body, ?c5)" unfolding loop .
  then show ?thesis using ex by blast
qed

text \<open>C7. A request goes all the way through the application. A signed-in user's request is stored for the backend
  the lookup names and waits; an authenticated agent that asks for it gets exactly the bytes written for the
  user's request and the user's name; and once the agent has posted a response that is accepted, the
  waiting handler answers the user with the posted bytes, parsed. The hypotheses are that the request ID is
  new, that its records are neither rewritten nor deleted by the other handlers, that the Datastore
  answers the reads, and that the response is there in time.\<close>

theorem app_round_trip:
  assumes inv: "app_inv c"
    and user: "CurrentUser ae = Some u" "persistentStore_LookupBackend c u (hr_Path r) = Inr b"
      "cachedPage fm c (''cache:'' @ pageKey (printable c) u (hr_URL r)) r = None" "writeRequest fm r = Inr bytes"
    and fresh: "visibleRequests c b rid = {}" "visibleResponses c rid = {}" "rid \<noteq> []"
    and stored: "WriteRequest appStore c (NewRequest (now c) b rid u bytes) = (None, c1)"
    and before: "exec_ops appStore (rounds (sleepOps others) 0 n) c1 = Some (errs, c2)"
    and fetch: "checkBackendID aa appStore rf c2 = Inr b" "headerGet (hr_Header rf) HeaderRequestID = rid"
    and answer: "responseHandler aa appStore newResponseWriter rp c2 = Some (w, c3)" "rwStatus w = Some 200"
      "hr_Body rp = Inr body" "body \<noteq> []" "headerGet (hr_Header rp) HeaderRequestID = rid"
      "readResponse fm body r = Inr resp"
    and after: "exec_ops appStore (others n) c3 = Some (errs', c4)"
    and quiet: "\<And>op. op \<in> set (rounds (sleepOps others) 0 n @ others n) \<Longrightarrow>
        \<not> isDelete op \<and> \<not> writesRequest rid op \<and> \<not> writesResponse rid op"
    and available: "ds_available (dsvc c2) (ds c2)" "ds_available (dsvc c4) (ds c4)"
    and in_time: "now c4 + int pollInterval < now c1 + responseWaitTimeout"
  shows "(\<exists>wf. requestHandler aa appStore newResponseWriter rf c2 = Some (wf, c2) \<and> rwStatus wf = Some 200
            \<and> rw_Body wf = bytes \<and> headerValues (rw_Header wf) HeaderUserID = [u])
     \<and> (\<exists>x q swapped c5. exec_ops appStore (completionOps x q swapped) c2 = Some ([None, None], c3)
            \<and> proxyHandler ae fm (others(n := completionOps x q swapped @ others n)) appStore rid newResponseWriter r c
              = Some (forwardResponse newResponseWriter resp, c5))"
proof
  let ?q = "NewRequest (now c) b rid u bytes"
  have ex: "exec_op appStore (OpWriteRequest ?q) c = Some (None, c1)" using stored by simp
  have q: "req_BackendID ?q = b" "req_RequestID ?q = rid" "req_User ?q = u" "req_Contents ?q = bytes"
    by (simp_all add: NewRequest_def)
  obtain q' where q': "ReadRequest appStore c2 b rid = Inr q'" "canonRequest q' = canonRequest ?q"
    using waiting_request_readable [OF inv stored _ before available(1)] fresh(1) quiet unfolding q by fastforce
  have "req_User q' = u" "req_Contents q' = bytes"
    using arg_cong [OF q'(2), of req_User] arg_cong [OF q'(2), of req_Contents] q by (simp_all add: canonRequest_def)
  then show "\<exists>wf. requestHandler aa appStore newResponseWriter rf c2 = Some (wf, c2) \<and> rwStatus wf = Some 200
            \<and> rw_Body wf = bytes \<and> headerValues (rw_Header wf) HeaderUserID = [u]"
    using fetched_request [OF fetch fresh(3) q'(1)] by simp
  have i1: "app_inv c1" by (rule app_inv_step [OF inv ex])
  have none: "visibleResponses c1 rid = {}" using app.resps_frame [OF inv ex, of rid] fresh(2) by simp
  obtain x y swapped c5 where x: "exec_ops appStore (completionOps x y swapped) c2 = Some ([None, None], c3)"
      "waitForResponse appStore (others(n := completionOps x y swapped @ others n)) b rid c1 = Some (Inr body, c5)"
    using answered_wait [OF i1 none before answer(1-5) after _ available(2) in_time] quiet by blast
  have "\<exists>c6. proxyHandler ae fm (others(n := completionOps x y swapped @ others n)) appStore rid newResponseWriter r c
      = Some (forwardResponse newResponseWriter resp, c6)"
    using user by (simp add: proxyHandler_def relayRequest_def postRequest_def stored x(2) answer(6) Let_def)
  then show "\<exists>x q swapped c5. exec_ops appStore (completionOps x q swapped) c2 = Some ([None, None], c3)
            \<and> proxyHandler ae fm (others(n := completionOps x q swapped @ others n)) appStore rid newResponseWriter r c
              = Some (forwardResponse newResponseWriter resp, c5)"
    using x(1) by blast
qed

text \<open>A second request of the user, fetched and answered by the agent in the first round of the wait.\<close>

definition exampleAnswer2 :: httpRequest where
  "exampleAnswer2 = exampleAnswer\<lparr>hr_Header := [(''X-Inverting-Proxy-Backend-Id'', [''b1'']), (''X-Inverting-Proxy-Request-Id'', [''r2''])]\<rparr>"

lemma exampleAnswer2_header [simp]:
  "headerGet (hr_Header exampleAnswer2) HeaderBackendID = ''b1''"
  "headerGet (hr_Header exampleAnswer2) HeaderRequestID = ''r2''"
  by code_simp+

lemma memory_writes:
  "length (req_Contents q) < fieldByteLimit \<Longrightarrow> \<exists>d' m'. WriteRequest appStore (memCtx d m t) q = (None, memCtx d' m' t)"
  "length (resp_Contents x) < fieldByteLimit \<Longrightarrow> \<exists>d' m'. WriteResponse appStore (memCtx d m t) x = (None, memCtx d' m' t)"
  by (simp_all add: appStore_def NewCachingStore_def cachingStore_WriteRequest_def cachingStore_WriteResponse_def run_simps)

lemma exampleWaiting:
  "\<exists>d m. WriteRequest appStore exampleFull (NewRequest 600000000000 ''b1'' ''r2'' ''u1'' ''POST /x'') = (None, memCtx d m 600000000000)
     \<and> map_of d (backendKey ''b1'') = Some (EBackend exampleBackend)"
  by (simp add: exampleFull_def NewRequest_def appStore_def NewCachingStore_def cachingStore_WriteRequest_def run_simps)
    (simp add: key_defs)

lemma exampleAnswer2_run:
  assumes "app_inv (memCtx d m t)" and "map_of d (backendKey ''b1'') = Some (EBackend exampleBackend)"
    and "ReadRequest appStore (memCtx d m t) ''b1'' ''r2'' = Inr q" and "length (req_Contents q) < fieldByteLimit"
  shows "checkBackendID exampleAgent appStore exampleAnswer2 (memCtx d m t) = Inr ''b1''"
    and "\<exists>d' m'. responseHandler exampleAgent appStore newResponseWriter exampleAnswer2 (memCtx d m t)
        = Some (WriteHeader newResponseWriter 200, memCtx d' m' t)"
proof -
  show check: "checkBackendID exampleAgent appStore exampleAnswer2 (memCtx d m t) = Inr ''b1''"
    using assms(2) by (simp add: checkBackendID_def exampleAgent_def persistentStore_IsBackendUserAllowed_def Get_def
        memCtx_def memDatastore_def exampleBackend_def)
  let ?x = "\<lparr>resp_BackendID = ''b1'', resp_RequestID = ''r2'', resp_Contents = ''NEW'', resp_StartTime = 0\<rparr>"
  have parse: "parseResponse ''b1'' exampleAnswer2 = Inr ?x"
    by (simp add: parseResponse_def) (simp add: exampleAnswer2_def exampleAnswer_def)
  have "length (resp_Contents (?x\<lparr>resp_StartTime := req_StartTime q\<rparr>)) < fieldByteLimit" by (simp add: fieldByteLimit_def)
  then obtain d1 m1 where w1: "WriteResponse appStore (memCtx d m t) (?x\<lparr>resp_StartTime := req_StartTime q\<rparr>) = (None, memCtx d1 m1 t)"
    using memory_writes(2) by blast
  obtain d2 m2 where w2: "WriteRequest appStore (memCtx d1 m1 t) (q\<lparr>req_Completed := True\<rparr>) = (None, memCtx d2 m2 t)"
    using memory_writes(1) [of "q\<lparr>req_Completed := True\<rparr>" d1 m1 t] assms(4) by auto
  have "postResponse appStore 1 ?x (memCtx d m t) = Some ([], memCtx d2 m2 t)"
    using assms(3) w1 w2 by (simp add: postResponse_def go2_def sendAll_def memCtx_def upt_2)
  then show "\<exists>d' m'. responseHandler exampleAgent appStore newResponseWriter exampleAnswer2 (memCtx d m t)
        = Some (WriteHeader newResponseWriter 200, memCtx d' m' t)"
    by (simp add: responseHandler_def check parse) blast
qed

lemma exampleFull_fresh: "visibleRequests exampleFull ''b1'' ''r2'' = {}" "visibleResponses exampleFull ''r2'' = {}"
proof -
  have "absRequest exampleFull ''b1'' ''r2'' = None" "absResponse exampleFull ''r2'' = None"
    by (simp_all add: absRequest_def absResponse_def committed_exampleFull key_defs)
  moreover have "cachedRequests exampleFull ''b1'' ''r2'' = {}" "cachedResponses exampleFull ''r2'' = {}"
    by (simp_all add: cachedRequests_def cachedResponses_def cached_def exampleFull_def memCtx_def memCache_def)
  ultimately show "visibleRequests exampleFull ''b1'' ''r2'' = {}" "visibleResponses exampleFull ''r2'' = {}"
    by (simp_all add: visibleRequests_def visibleResponses_def storedRequests_def storedResponses_def)
qed

theorem app_round_trip_witness:
  "\<exists>others c'. proxyHandler exampleUser exampleFormats others appStore ''r2'' newResponseWriter examplePost exampleFull
     = Some (forwardResponse newResponseWriter \<lparr>res_StatusCode = 200, res_Header = [], res_Body = ''NEW''\<rparr>, c')"
proof -
  let ?q = "NewRequest (now exampleFull) ''b1'' ''r2'' ''u1'' ''POST /x''"
  obtain d1 m1 where w: "WriteRequest appStore exampleFull ?q = (None, memCtx d1 m1 600000000000)"
      "map_of d1 (backendKey ''b1'') = Some (EBackend exampleBackend)"
    using exampleWaiting by auto
  let ?c1 = "memCtx d1 m1 600000000000"
  have i1: "app_inv ?c1" using app_inv_step [OF exampleFull_app, of "OpWriteRequest ?q"] w(1) by simp
  obtain q where q: "ReadRequest appStore ?c1 ''b1'' ''r2'' = Inr q" "canonRequest q = canonRequest ?q"
    using waiting_request_readable [OF exampleFull_app w(1), of "[]"] exampleFull_fresh(1) by (auto simp: NewRequest_def)
  have "req_Contents q = ''POST /x''"
    using arg_cong [OF q(2), of req_Contents] by (simp add: canonRequest_def NewRequest_def)
  then have len: "length (req_Contents q) < fieldByteLimit" by (simp add: fieldByteLimit_def)
  obtain d3 m3 where p: "responseHandler exampleAgent appStore newResponseWriter exampleAnswer2 ?c1
      = Some (WriteHeader newResponseWriter 200, memCtx d3 m3 600000000000)"
    using exampleAnswer2_run(2) [OF i1 w(2) q(1) len] by blast
  have posted: "hr_Body exampleAnswer2 = Inr ''NEW''" by (simp add: exampleAnswer2_def exampleAnswer_def)
  have user: "CurrentUser exampleUser = Some ''u1''" "hr_Path examplePost = ''/x''"
      "cachedPage exampleFormats exampleFull k examplePost = None" "writeRequest exampleFormats examplePost = Inr ''POST /x''"
      "readResponse exampleFormats bs r = Inr \<lparr>res_StatusCode = 200, res_Header = [], res_Body = bs\<rparr>" for k bs r
    by (simp_all add: exampleUser_def examplePost_def exampleFormats_def cachedPage_def)
  have times: "now (memCtx d m t) = t" for d m t by (simp add: memCtx_def)
  show ?thesis
    using app_round_trip [OF exampleFull_app, of exampleUser "''u1''" examplePost "''b1''" exampleFormats "''POST /x''" "''r2''"
        ?c1 "\<lambda>_. []" 0 "[]" ?c1 exampleAgent exampleAnswer2 exampleAnswer2 "WriteHeader newResponseWriter 200"
        "memCtx d3 m3 600000000000" "''NEW''" "\<lparr>res_StatusCode = 200, res_Header = [], res_Body = ''NEW''\<rparr>" "[]"
        "memCtx d3 m3 600000000000"]
      exampleFull_lookup exampleFull_fresh w(1) exampleAnswer2_run(1) [OF i1 w(2) q(1) len] p
    by (simp add: user times posted responseWaitTimeout_def pollInterval_def duration_defs) blast
qed

end
