(* ===== verification/Agent_Utils.thy ===== *)
theory Agent_Utils
  imports Complex_Main Http Go_Strings
begin

text \<open>
  The agent's HTTP utilities, \<^verbatim>\<open>agent/utils/utils.go\<close>: reading requests from the proxy and
  posting responses to it with retries, the seekable buffer that replays the start of a response
  on a retry, the streaming response writer that strips hop-by-hop headers, and the backoff.

  The network is a parameter: \<open>Do\<close> maps its state and a request to a response or an error, and
  \<open>badURL\<close> is the error \<^verbatim>\<open>http.NewRequest\<close> reports for a URL it cannot parse. \<open>metric\<close> is
  \<^verbatim>\<open>WriteResponseCodeMetric\<close>, acting on the same state. A
  reader is a function from its state and the size of the destination slice to the bytes read and
  an error; \<open>EOF\<close> is the error of a reader at its end. The jitter's random number is an argument.
\<close>

section \<open>Constants\<close>

definition PendingPath :: string where
  "PendingPath = ''agent/pending''"

definition RequestPath :: string where
  "RequestPath = ''agent/request''"

definition ResponsePath :: string where
  "ResponsePath = ''agent/response''"

definition utilHeaderUserID :: string where
  "utilHeaderUserID = ''X-Inverting-Proxy-User-ID''"

definition utilHeaderBackendID :: string where
  "utilHeaderBackendID = ''X-Inverting-Proxy-Backend-ID''"

definition HeaderVMID :: string where
  "HeaderVMID = ''X-Inverting-Proxy-VM-ID''"

definition utilHeaderRequestID :: string where
  "utilHeaderRequestID = ''X-Inverting-Proxy-Request-ID''"

definition utilHeaderRequestStartTime :: string where
  "utilHeaderRequestStartTime = ''X-Inverting-Proxy-Request-Start-Time''"

definition maxBackoffDuration :: duration where
  "maxBackoffDuration = 3 * Second"

definition firstRetryWaitDuration :: duration where
  "firstRetryWaitDuration = Millisecond"

definition maxReadRequestRetryCount :: nat where
  "maxReadRequestRetryCount = 2"

definition maxWriteResponseRetryCount :: nat where
  "maxWriteResponseRetryCount = 2"

definition readResponseBufSize :: nat where
  "readResponseBufSize = 4096"

definition hopHeaders :: "string list" where
  "hopHeaders =
     [''Connection'', ''Proxy-Connection'', ''Keep-Alive'', ''Proxy-Authenticate'',
      ''Proxy-Authorization'', ''Te'', ''Trailer'', ''Transfer-Encoding'', ''Upgrade'']"

section \<open>Talking to the proxy\<close>

text \<open>A request the agent sends: method, URL, header. Its body, when it has one, is read separately.\<close>

record clientRequest =
  cr_Method :: string
  cr_URL :: string
  cr_Header :: header

text \<open>A response of the proxy; reading its body may fail (within the bytes that are read of it).\<close>

record clientResponse =
  cl_StatusCode :: nat
  cl_Header :: header
  cl_Body :: "error + bytes"

definition isServerError :: "nat \<Rightarrow> bool" where
  "isServerError code \<longleftrightarrow> 500 \<le> code \<and> code < 600"

definition parseRequestIDs ::
  "(nat \<Rightarrow> bool) \<Rightarrow> (bytes \<Rightarrow> error + string list) \<Rightarrow> clientResponse \<Rightarrow> error + string list" where
  "parseRequestIDs P unmarshal response =
     (case map_sum id (take (1024 * 1024)) (cl_Body response) of
        Inl err \<Rightarrow> Inl (ErrMsg (''failed to read the forwarded request: '' @ Quote P (errorText err)))
      | Inr responseBytes \<Rightarrow>
          if cl_StatusCode response \<noteq> 200
          then Inl (ErrMsg (''failed to list pending requests: '' @ Itoa (cl_StatusCode response) @ '', ''
                            @ Quote P responseBytes))
          else if responseBytes = [] then Inr []
          else (case unmarshal responseBytes of
                  Inl err \<Rightarrow> Inl (ErrMsg (''failed to parse the requests: '' @ Quote P (errorText err)))
                | Inr requests \<Rightarrow> Inr requests))"

definition agentListPendingRequests ::
  "(nat \<Rightarrow> bool) \<Rightarrow> (bytes \<Rightarrow> error + string list) \<Rightarrow> (string \<Rightarrow> error option)
   \<Rightarrow> ('n \<Rightarrow> clientRequest \<Rightarrow> (error + clientResponse) \<times> 'n)
   \<Rightarrow> string \<Rightarrow> string \<Rightarrow> 'n \<Rightarrow> (error + string list) \<times> 'n" where
  "agentListPendingRequests P unmarshal badURL Do proxyHost backendID n =
     (let proxyURL = proxyHost @ PendingPath in
      case badURL proxyURL of
        Some err \<Rightarrow> (Inl err, n)
      | None \<Rightarrow>
          (let proxyReq = \<lparr>cr_Method = ''GET'', cr_URL = proxyURL,
                           cr_Header = headerAdd [] utilHeaderBackendID backendID\<rparr>
           in case Do n proxyReq of
                (Inl err, n') \<Rightarrow> (Inl (ErrMsg (''A proxy request failed: '' @ Quote P (errorText err))), n')
              | (Inr proxyResp, n') \<Rightarrow> (parseRequestIDs P unmarshal proxyResp, n')))"

text \<open>
  The retry loop: \<open>left\<close> attempts remain, the last argument is the pair of the last response and
  the last error, which the loop returns when all attempts are used up.
\<close>

fun getLoop ::
  "('n \<Rightarrow> clientRequest \<Rightarrow> (error + clientResponse) \<times> 'n) \<Rightarrow> clientRequest \<Rightarrow> nat \<Rightarrow> 'n
   \<Rightarrow> error + clientResponse \<Rightarrow> (error + clientResponse) \<times> 'n" where
  "getLoop Do req 0 n res = (res, n)"
| "getLoop Do req (Suc left) n res =
     (case Do n req of
        (Inl err, n') \<Rightarrow> getLoop Do req left n' (Inl err)
      | (Inr resp, n') \<Rightarrow>
          if isServerError (cl_StatusCode resp)
          then getLoop Do req left n' (Inr (resp\<lparr>cl_Body := Inl (ErrMsg ''http: read on closed response body'')\<rparr>))
          else (Inr resp, n'))"

definition getRequestWithRetries ::
  "(string \<Rightarrow> error option) \<Rightarrow> ('n \<Rightarrow> clientRequest \<Rightarrow> (error + clientResponse) \<times> 'n)
   \<Rightarrow> string \<Rightarrow> string \<Rightarrow> string \<Rightarrow> 'n \<Rightarrow> (error + clientResponse) \<times> 'n" where
  "getRequestWithRetries badURL Do proxyURL backendID requestID n =
     (case badURL proxyURL of
        Some err \<Rightarrow> (Inl err, n)
      | None \<Rightarrow>
          (let proxyReq = \<lparr>cr_Method = ''GET'', cr_URL = proxyURL,
                           cr_Header = headerAdd (headerAdd [] utilHeaderBackendID backendID) utilHeaderRequestID requestID\<rparr>
           in getLoop Do proxyReq (maxReadRequestRetryCount + 1) n (Inl (ErrMsg []))))"

record 'q ForwardedRequest =
  fr_BackendID :: string
  fr_RequestID :: string
  fr_User :: string
  fr_StartTime :: time
  fr_Contents :: 'q

definition parseRequestFromProxyResponse ::
  "(nat \<Rightarrow> bool) \<Rightarrow> (string \<Rightarrow> error + time) \<Rightarrow> (error + bytes \<Rightarrow> error + 'q) \<Rightarrow> (nat \<Rightarrow> 'n \<Rightarrow> 'n)
   \<Rightarrow> string \<Rightarrow> string \<Rightarrow> clientResponse \<Rightarrow> 'n \<Rightarrow> (error + 'q ForwardedRequest) \<times> 'n" where
  "parseRequestFromProxyResponse P parseTime parseReq metric backendID requestID proxyResp n =
     (let user = headerGet (cl_Header proxyResp) utilHeaderUserID;
          startTimeStr = headerGet (cl_Header proxyResp) utilHeaderRequestStartTime
      in if cl_StatusCode proxyResp \<noteq> 200
         then (Inl (ErrMsg (''Error status while reading '' @ Quote P requestID @ '' from the proxy'')),
               metric (cl_StatusCode proxyResp) n)
         else (case parseTime startTimeStr of
                 Inl err \<Rightarrow> (Inl err, n)
               | Inr startTime \<Rightarrow>
                   (case parseReq (cl_Body proxyResp) of
                      Inl err \<Rightarrow> (Inl err, n)
                    | Inr contents \<Rightarrow>
                        (Inr \<lparr>fr_BackendID = backendID, fr_RequestID = requestID, fr_User = user,
                              fr_StartTime = startTime, fr_Contents = contents\<rparr>, n))))"

definition agentReadRequest ::
  "(nat \<Rightarrow> bool) \<Rightarrow> (string \<Rightarrow> error + time) \<Rightarrow> (error + bytes \<Rightarrow> error + 'q) \<Rightarrow> (nat \<Rightarrow> 'n \<Rightarrow> 'n)
   \<Rightarrow> (string \<Rightarrow> error option) \<Rightarrow> ('n \<Rightarrow> clientRequest \<Rightarrow> (error + clientResponse) \<times> 'n) \<Rightarrow> string \<Rightarrow> string \<Rightarrow> string
   \<Rightarrow> ('n \<Rightarrow> 'q ForwardedRequest \<Rightarrow> error option \<times> 'n) \<Rightarrow> 'n \<Rightarrow> error option \<times> 'n" where
  "agentReadRequest P parseTime parseReq metric badURL Do proxyHost backendID requestID callback n =
     (case getRequestWithRetries badURL Do (proxyHost @ RequestPath) backendID requestID n of
        (Inl err, n') \<Rightarrow> (Some (ErrMsg (''A proxy request failed: '' @ Quote P (errorText err))), n')
      | (Inr proxyResp, n') \<Rightarrow>
          (case parseRequestFromProxyResponse P parseTime parseReq metric backendID requestID proxyResp n' of
             (Inl err, n2) \<Rightarrow> (Some err, n2)
           | (Inr fr, n2) \<Rightarrow> callback n2 fr))"

section \<open>The seekable buffer\<close>

datatype readErr = EOF | ReadErr error

text \<open>\<open>readFrom r s k\<close>: one call of the wrapped reader's \<^verbatim>\<open>Read\<close> with a slice of \<open>k\<close> bytes.\<close>

type_synonym 'r reader = "'r \<Rightarrow> nat \<Rightarrow> (bytes \<times> readErr option) \<times> 'r"

record 'r bufferedReadSeeker =
  brs_r :: 'r
  brs_buf :: bytes
  brs_writeHead :: nat
  brs_readHead :: nat

definition newBufferedReadSeeker :: "'r \<Rightarrow> nat \<Rightarrow> 'r bufferedReadSeeker" where
  "newBufferedReadSeeker r bufSize =
     \<lparr>brs_r = r, brs_buf = replicate bufSize (CHR 0x00), brs_writeHead = 0, brs_readHead = 0\<rparr>"

text \<open>\<^verbatim>\<open>copy(b.buf[b.writeHead:], src)\<close>: the new buffer and the number of bytes copied.\<close>

definition copyInto :: "bytes \<Rightarrow> nat \<Rightarrow> bytes \<Rightarrow> bytes \<times> nat" where
  "copyInto buf start src =
     (let n = min (length buf - start) (length src)
      in (take start buf @ take n src @ drop (start + n) buf, n))"

definition brs_Read ::
  "'r reader \<Rightarrow> 'r bufferedReadSeeker \<Rightarrow> nat \<Rightarrow> (bytes \<times> readErr option) \<times> 'r bufferedReadSeeker" where
  "brs_Read rd b lenp =
     (let fromBuf = take lenp (slice (brs_readHead b) (brs_writeHead b) (brs_buf b));
          readFromBuf = length fromBuf
      in case rd (brs_r b) (lenp - readFromBuf) of
           ((src, err), r') \<Rightarrow>
             (case copyInto (brs_buf b) (brs_writeHead b) src of
                (buf', written) \<Rightarrow>
                  ((fromBuf @ src, err),
                   \<lparr>brs_r = r', brs_buf = buf', brs_writeHead = brs_writeHead b + written,
                    brs_readHead = brs_readHead b + readFromBuf + written\<rparr>)))"

datatype whence = SeekStart | SeekCurrent | SeekEnd

definition brs_Seek ::
  "'r bufferedReadSeeker \<Rightarrow> int \<Rightarrow> whence \<Rightarrow> (error + int) \<times> 'r bufferedReadSeeker" where
  "brs_Seek b offset wh =
     (if wh \<noteq> SeekStart then (Inl (ErrMsg ''only SeekStart offset is supported''), b)
      else if offset < 0 \<or> int (length (brs_buf b)) \<le> offset then (Inl (ErrMsg ''invalid offset value''), b)
      else if length (brs_buf b) \<le> brs_writeHead b
      then (Inl (ErrMsg ''cannot seek, possible buffer overflow''), b)
      else (Inr offset, b\<lparr>brs_readHead := nat offset\<rparr>))"

text \<open>
  The reading end of an \<^verbatim>\<open>io.Pipe\<close> whose writer writes the given slices and closes it: a read
  returns bytes of one write only.
\<close>

fun pipeRead :: "bytes list reader" where
  "pipeRead [] k = (([], Some EOF), [])"
| "pipeRead (w # ws) k = ((take k w, None), if length w \<le> k then ws else drop k w # ws)"

section \<open>Posting a response with retries\<close>

text \<open>
  One attempt of \<^verbatim>\<open>client.Do\<close>: the transport reads the body with slices of the given sizes and
  the exchange ends with an error or a status. \<open>attempt\<close> yields the bytes it read.
\<close>

fun readBody :: "'r reader \<Rightarrow> 'r bufferedReadSeeker \<Rightarrow> nat list \<Rightarrow> bytes \<times> 'r bufferedReadSeeker" where
  "readBody rd b [] = ([], b)"
| "readBody rd b (k # ks) =
     (case brs_Read rd b k of
        ((bs, err), b1) \<Rightarrow>
          if err \<noteq> None then (bs, b1)
          else (case readBody rd b1 ks of (rest, b2) \<Rightarrow> (bs @ rest, b2)))"

record exchange =
  ex_reads :: "nat list"
  ex_result :: "error + nat"

text \<open>
  The loop over the attempts still to come: the bodies sent so far (one per attempt), and the value
  of \<^verbatim>\<open>err\<close> when the attempts are used up.
\<close>

fun postLoop ::
  "'r reader \<Rightarrow> 'r bufferedReadSeeker \<Rightarrow> exchange list \<Rightarrow> error option \<Rightarrow> error option \<times> bytes list" where
  "postLoop rd b [] err = (err, [])"
| "postLoop rd b (x # xs) err =
     (case readBody rd b (ex_reads x) of
        (sent, b1) \<Rightarrow>
          (case ex_result x of
             Inl e \<Rightarrow>
               (case brs_Seek b1 0 SeekStart of
                  (Inl _, _) \<Rightarrow> (Some e, [sent])
                | (Inr _, b2) \<Rightarrow>
                    (case postLoop rd b2 xs (Some e) of (res, bodies) \<Rightarrow> (res, sent # bodies)))
           | Inr status \<Rightarrow>
               if isServerError status
               then (case brs_Seek b1 0 SeekStart of
                       (Inl _, _) \<Rightarrow> (None, [sent])
                     | (Inr _, b2) \<Rightarrow>
                         (case postLoop rd b2 xs None of (res, bodies) \<Rightarrow> (res, sent # bodies)))
               else (None, [sent])))"

definition postResponseWithRetries ::
  "'r reader \<Rightarrow> (string \<Rightarrow> error option) \<Rightarrow> exchange list \<Rightarrow> string \<Rightarrow> string \<Rightarrow> string \<Rightarrow> 'r
   \<Rightarrow> clientRequest \<times> error option \<times> bytes list" where
  "postResponseWithRetries rd badURL attempts proxyURL backendID requestID proxyReader =
     (let proxyReadSeeker = newBufferedReadSeeker proxyReader readResponseBufSize;
          header = headerSet (headerSet (headerSet [] utilHeaderBackendID backendID) utilHeaderRequestID requestID)
                     ''Content-Type'' ''text/plain'';
          proxyReq = \<lparr>cr_Method = ''POST'', cr_URL = proxyURL, cr_Header = header\<rparr>
      in case badURL proxyURL of
           Some err \<Rightarrow> (proxyReq, Some err, [])
         | None \<Rightarrow> (proxyReq, postLoop rd proxyReadSeeker (take (maxWriteResponseRetryCount + 1) attempts) None))"

section \<open>The streaming response writer\<close>

text \<open>
  \<open>srw_proto\<close> is the protocol version of the request (which is never nil: \<^verbatim>\<open>WriteHeader\<close>
  dereferences it), \<open>srw_contextDone\<close> whether the select of \<^verbatim>\<open>WriteHeader\<close> finds its context
  done, \<open>srw_sent\<close> the response sent on the channel, \<open>srw_body\<close> what went through the body pipe;
  \<open>srw_readClosed\<close> is the error of writes to the pipe once its reader is closed and
  \<open>srw_writeClosed\<close> that the writing end is.
\<close>

record streamedResponse =
  sr_Proto :: "string \<times> nat \<times> nat"
  sr_Status :: nat
  sr_Header :: header
  sr_Trailer :: header

record streamingResponseWriter =
  srw_proto :: "string \<times> nat \<times> nat"
  srw_header :: header
  srw_trailer :: header
  srw_wroteHeader :: bool
  srw_sent :: "streamedResponse option"
  srw_contextDone :: bool
  srw_body :: bytes
  srw_readClosed :: "error option"
  srw_writeClosed :: bool

definition NewStreamingResponseWriter :: "string \<times> nat \<times> nat \<Rightarrow> bool \<Rightarrow> streamingResponseWriter" where
  "NewStreamingResponseWriter proto contextDone =
     \<lparr>srw_proto = proto, srw_header = [], srw_trailer = [], srw_wroteHeader = False, srw_sent = None,
      srw_contextDone = contextDone, srw_body = [], srw_readClosed = None, srw_writeClosed = False\<rparr>"

text \<open>\<^verbatim>\<open>strings.Split(s, ",")\<close> and \<^verbatim>\<open>strings.TrimSpace\<close> (ASCII white space).\<close>

fun splitComma :: "string \<Rightarrow> string list" where
  "splitComma [] = [[]]"
| "splitComma (c # cs) =
     (if c = CHR '','' then [] # splitComma cs
      else (case splitComma cs of [] \<Rightarrow> [[c]] | w # ws \<Rightarrow> (c # w) # ws))"

definition isSpace :: "char \<Rightarrow> bool" where
  "isSpace c \<longleftrightarrow> of_char c \<in> {9, 10, 11, 12, 13, 32 :: nat}"

definition TrimSpace :: "string \<Rightarrow> string" where
  "TrimSpace s = rev (dropWhile isSpace (rev (dropWhile isSpace s)))"

definition declareTrailer :: "string \<Rightarrow> header \<Rightarrow> header" where
  "declareTrailer k0 t =
     (let k = TrimSpace k0 in
      if k = [] then t
      else if k \<in> set hopHeaders then t
      else headerAssign t (CanonicalHeaderKey k) [])"

definition declaredTrailers :: "header \<Rightarrow> header" where
  "declaredTrailers h =
     fold (\<lambda>joined t. fold declareTrailer (splitComma joined) t) (headerValues h ''Trailer'') []"

definition addValues :: "string \<Rightarrow> string list \<Rightarrow> header \<Rightarrow> header" where
  "addValues k vs h = fold (\<lambda>v h. headerAdd h k v) vs h"

definition filterHopHeaders :: "header \<Rightarrow> header" where
  "filterHopHeaders h =
     fold (\<lambda>(k, vs) h'. if k \<in> set hopHeaders then h' else addValues k vs h') h []"

text \<open>
  The handler edits the map it gets from \<^verbatim>\<open>Header\<close>. \<^verbatim>\<open>WriteHeader\<close> makes a new map the writer's header
  and puts the same map in the response, so an edit after it changes the response too.
\<close>

definition srw_editHeader :: "(header \<Rightarrow> header) \<Rightarrow> streamingResponseWriter \<Rightarrow> streamingResponseWriter" where
  "srw_editHeader f w =
     w\<lparr>srw_header := f (srw_header w),
       srw_sent := map_option (\<lambda>r. r\<lparr>sr_Header := f (srw_header w)\<rparr>) (srw_sent w)\<rparr>"

definition srw_WriteHeader :: "streamingResponseWriter \<Rightarrow> nat \<Rightarrow> streamingResponseWriter" where
  "srw_WriteHeader w status =
     (if srw_wroteHeader w then w
      else
        (let trailer = declaredTrailers (srw_header w);
             header = filterHopHeaders (srw_header w);
             w1 = w\<lparr>srw_wroteHeader := True, srw_trailer := trailer, srw_header := header\<rparr>
         in if srw_contextDone w1
            then w1\<lparr>srw_readClosed := Some (ErrMsg ''io: read/write on closed pipe'')\<rparr>
            else w1\<lparr>srw_sent := Some \<lparr>sr_Proto = srw_proto w1, sr_Status = status, sr_Header = header, sr_Trailer = trailer\<rparr>\<rparr>))"

definition srw_Write :: "streamingResponseWriter \<Rightarrow> bytes \<Rightarrow> (error + nat) \<times> streamingResponseWriter" where
  "srw_Write w bs =
     (let w1 = (if \<not> srw_wroteHeader w then srw_WriteHeader w 200 else w) in
      if srw_writeClosed w1 then (Inl (ErrMsg ''io: read/write on closed pipe''), w1)
      else (case srw_readClosed w1 of
              Some err \<Rightarrow> (Inl err, w1)
            | None \<Rightarrow> (Inr (length bs), w1\<lparr>srw_body := srw_body w1 @ bs\<rparr>)))"

definition TrailerPrefix :: string where
  "TrailerPrefix = ''Trailer:''"

definition closeDeclared :: "header \<Rightarrow> header \<Rightarrow> header" where
  "closeDeclared h t = fold (\<lambda>k t. addValues k (headerValues h k) t) (map fst t) t"

definition closePrefixed :: "header \<Rightarrow> header \<Rightarrow> header" where
  "closePrefixed h t =
     fold (\<lambda>(k, vs) t.
             if \<not> take (length TrailerPrefix) k = TrailerPrefix then t
             else (let k' = drop (length TrailerPrefix) k in
                   if k' \<in> set hopHeaders then t else addValues k' vs t)) h t"

text \<open>The trailer map is shared with the response already sent, so the trailers show up there.\<close>

definition srw_Close :: "streamingResponseWriter \<Rightarrow> streamingResponseWriter" where
  "srw_Close w =
     (let w1 = (if \<not> srw_wroteHeader w then srw_WriteHeader w 200 else w);
          trailer = closePrefixed (srw_header w1) (closeDeclared (srw_header w1) (srw_trailer w1))
      in w1\<lparr>srw_trailer := trailer,
            srw_sent := map_option (\<lambda>r. r\<lparr>sr_Trailer := trailer\<rparr>) (srw_sent w1),
            srw_writeClosed := True\<rparr>)"

definition srw_CloseWithError :: "streamingResponseWriter \<Rightarrow> error \<Rightarrow> streamingResponseWriter" where
  "srw_CloseWithError w err =
     (if srw_readClosed w = None then w\<lparr>srw_readClosed := Some err\<rparr> else w)"

text \<open>\<^verbatim>\<open>responseForwarder.Close\<close>: the first error of the writer, the post and the write.\<close>

definition responseForwarder_Close ::
  "error option \<Rightarrow> error option \<Rightarrow> streamingResponseWriter \<Rightarrow> error option \<times> streamingResponseWriter" where
  "responseForwarder_Close postErr writeErr w =
     (let w' = srw_Close w in
      (case postErr of Some err \<Rightarrow> Some err
       | None \<Rightarrow> (case writeErr of Some err \<Rightarrow> Some err | None \<Rightarrow> None), w'))"

section \<open>Backoff\<close>

text \<open>\<^verbatim>\<open>uint(math.Log2(3000))\<close>: the integer part of the binary logarithm.\<close>

definition maxRetryCount :: nat where
  "maxRetryCount = nat \<lfloor>log 2 (real_of_int (maxBackoffDuration div firstRetryWaitDuration))\<rfloor>"

definition JitterPercent :: real where
  "JitterPercent = 1 / 10"

text \<open>\<open>u\<close> is the value of \<^verbatim>\<open>rand.Float64()\<close>, in [0, 1).\<close>

definition addJitter :: "real \<Rightarrow> duration \<Rightarrow> real \<Rightarrow> duration" where
  "addJitter u d jitterPercent =
     (let jitter = 1 - jitterPercent + u * (jitterPercent * 2) in \<lfloor>real_of_int d * jitter\<rfloor>)"

definition targetDuration :: "nat \<Rightarrow> duration" where
  "targetDuration retryCount =
     (if maxRetryCount < retryCount then maxBackoffDuration else 2 ^ retryCount * firstRetryWaitDuration)"

definition ExponentialBackoffDuration :: "real \<Rightarrow> nat \<Rightarrow> duration" where
  "ExponentialBackoffDuration u retryCount = addJitter u (targetDuration retryCount) JitterPercent"

end
