(* ===== verification/Agent_Utils_Correct.thy ===== *)
theory Agent_Utils_Correct
  imports Agent_Utils
begin

text \<open>
  Correctness of the agent's utilities: the seekable buffer is a stream that can be rewound as long
  as it did not overflow, for every source of bytes (the locale \<open>byte_source\<close>, interpreted on
  the pipe the agent uses), so retries never send a body that starts in the middle; retries are
  bounded; hop-by-hop headers are removed; the backoff stays within its bounds.
\<close>

section \<open>The seekable buffer as a stream\<close>

text \<open>What is left to read: the buffered bytes ahead of the read head and the rest of the source.\<close>

definition buffered :: "'r bufferedReadSeeker \<Rightarrow> bytes" where
  "buffered b = slice (brs_readHead b) (brs_writeHead b) (brs_buf b)"

definition remaining :: "('r \<Rightarrow> bytes) \<Rightarrow> 'r bufferedReadSeeker \<Rightarrow> bytes" where
  "remaining rest b = buffered b @ rest (brs_r b)"

definition brs_inv :: "('r \<Rightarrow> bytes) \<Rightarrow> bytes \<Rightarrow> 'r bufferedReadSeeker \<Rightarrow> bool" where
  "brs_inv rest allBytes b \<longleftrightarrow>
     brs_readHead b \<le> brs_writeHead b
     \<and> (\<exists>consumed. allBytes = consumed @ rest (brs_r b)
          \<and> brs_writeHead b = min (length (brs_buf b)) (length consumed)
          \<and> take (brs_writeHead b) (brs_buf b) = take (brs_writeHead b) consumed)"

text \<open>Copying new bytes behind the write head keeps the buffer a prefix of the bytes consumed.\<close>

lemma copyInto_prefix:
  assumes wh: "wh = min (length buf) (length consumed)" and buf: "take wh buf = take wh consumed"
    and c: "copyInto buf wh src = (buf', n)"
  shows "length buf' = length buf" and "wh + n = min (length buf') (length (consumed @ src))"
    and "take (wh + n) buf' = take (wh + n) (consumed @ src)" and "n \<le> length src"
proof -
  have n: "n = min (length buf - wh) (length src)" and b: "buf' = take wh buf @ take n src @ drop (wh + n) buf"
    using c by (auto simp: copyInto_def Let_def)
  show "n \<le> length src" by (simp add: n)
  show len: "length buf' = length buf" using wh by (simp add: b n min_def)
  show "wh + n = min (length buf') (length (consumed @ src))" using wh by (simp add: len n)
  have "take (wh + n) buf' = take wh consumed @ take n src"
    using wh buf \<open>n \<le> length src\<close> by (simp add: b)
  also have "\<dots> = take (wh + n) (consumed @ src)"
    using wh n by (cases "length consumed \<le> length buf") auto
  finally show "take (wh + n) buf' = take (wh + n) (consumed @ src)" .
qed

locale byte_source =
  fixes rd :: "'r reader" and rest :: "'r \<Rightarrow> bytes"
  assumes read_size: "rd s k = ((bs, e), s') \<Longrightarrow> length bs \<le> k"
    and read_stream: "rd s k = ((bs, e), s') \<Longrightarrow> rest s = bs @ rest s'"
    and read_eof: "rd s k = ((bs, Some EOF), s') \<Longrightarrow> rest s' = []"
begin

lemma brs_inv_new: "brs_inv rest (rest r) (newBufferedReadSeeker r n)"
  and remaining_new: "remaining rest (newBufferedReadSeeker r n) = rest r"
  by (simp_all add: brs_inv_def newBufferedReadSeeker_def remaining_def buffered_def slice_def)

lemma brs_Read_stream:
  assumes "brs_inv rest allBytes b" and "brs_Read rd b k = ((bs, e), b')"
  shows "remaining rest b = bs @ remaining rest b'" and "length bs \<le> k" and "brs_inv rest allBytes b'"
    and "length (brs_buf b') = length (brs_buf b)"
    and "e = Some EOF \<Longrightarrow> length (buffered b) \<le> k \<Longrightarrow> remaining rest b' = []"
proof -
  let ?rh = "brs_readHead b" and ?wh = "brs_writeHead b" and ?from = "take k (buffered b)"
  obtain src r' buf' n where rd: "rd (brs_r b) (k - length ?from) = ((src, e), r')" and bs: "bs = ?from @ src"
      and copy: "copyInto (brs_buf b) ?wh src = (buf', n)"
      and b': "b' = \<lparr>brs_r = r', brs_buf = buf', brs_writeHead = ?wh + n, brs_readHead = ?rh + length ?from + n\<rparr>"
    using assms(2) by (auto simp: brs_Read_def buffered_def Let_def split: prod.splits)
  obtain consumed where inv: "?rh \<le> ?wh" "allBytes = consumed @ rest (brs_r b)"
      "?wh = min (length (brs_buf b)) (length consumed)" "take ?wh (brs_buf b) = take ?wh consumed"
    using assms(1) by (auto simp: brs_inv_def)
  note prefix = copyInto_prefix [OF inv(3,4) copy]
  have size: "length src \<le> k - length ?from" by (rule read_size [OF rd])
  have stream: "rest (brs_r b) = src @ rest r'" by (rule read_stream [OF rd])
  have wh: "?wh \<le> length (brs_buf b)" using inv(3) by simp
  have len: "length (buffered b) = ?wh - ?rh" using inv(3) by (simp add: buffered_def slice_def)
  show "length bs \<le> k" using size bs by (simp add: min_def split: if_splits)
  show "length (brs_buf b') = length (brs_buf b)" by (simp add: b' prefix(1))
  have rem: "remaining rest b = bs @ remaining rest b' \<and> (length (buffered b) \<le> k \<longrightarrow> buffered b' = [])"
  proof (cases "length (buffered b) \<le> k")
    case True
    then have "brs_readHead b' = brs_writeHead b'" using inv(1) by (simp add: b' len)
    then have "buffered b' = []" by (simp add: buffered_def slice_def)
    then show ?thesis using True by (simp add: remaining_def bs stream b')
  next
    case False
    then have "src = []" "n = 0" using size prefix(4) by simp_all
    then have "buffered b' = drop k (buffered b)"
      using False copy wh by (simp add: buffered_def slice_def b' copyInto_def Let_def take_drop add.commute)
    then show ?thesis using False \<open>src = []\<close> stream by (simp add: remaining_def bs b')
  qed
  then show "remaining rest b = bs @ remaining rest b'" ..
  show "e = Some EOF \<Longrightarrow> length (buffered b) \<le> k \<Longrightarrow> remaining rest b' = []"
    using rem read_eof rd by (auto simp: remaining_def b')
  have "brs_readHead b' \<le> brs_writeHead b'" using inv(1) len by (simp add: b')
  moreover have "allBytes = (consumed @ src) @ rest (brs_r b')" using inv(2) stream by (simp add: b')
  ultimately show "brs_inv rest allBytes b'"
    using prefix(2,3) unfolding brs_inv_def by (auto simp: b')
qed

lemma brs_Seek_rewinds:
  assumes "brs_inv rest allBytes b" and "brs_Seek b 0 SeekStart = (Inr i, b')"
  shows "remaining rest b' = allBytes" and "brs_inv rest allBytes b'"
proof -
  have b': "b' = b\<lparr>brs_readHead := 0\<rparr>" and wh: "brs_writeHead b < length (brs_buf b)"
    using assms(2) by (auto simp: brs_Seek_def split: if_splits)
  obtain consumed where c: "allBytes = consumed @ rest (brs_r b)"
      "brs_writeHead b = min (length (brs_buf b)) (length consumed)"
      "take (brs_writeHead b) (brs_buf b) = take (brs_writeHead b) consumed"
    using assms(1) by (auto simp: brs_inv_def)
  have "brs_writeHead b = length consumed" using c(2) wh by simp
  then show "remaining rest b' = allBytes"
    using c(1,3) by (simp add: remaining_def buffered_def slice_def b')
  show "brs_inv rest allBytes b'" using assms(1) by (auto simp: brs_inv_def b')
qed

lemma readBody_stream:
  assumes "brs_inv rest allBytes b" and "readBody rd b ks = (sent, b')"
  shows "remaining rest b = sent @ remaining rest b' \<and> brs_inv rest allBytes b'"
  using assms
proof (induction ks arbitrary: b sent)
  case (Cons k ks)
  obtain bs e b1 where r: "brs_Read rd b k = ((bs, e), b1)" by (metis surj_pair)
  note st = brs_Read_stream(1,3) [OF Cons.prems(1) r]
  show ?case
  proof (cases "e = None")
    case True
    then obtain more where "readBody rd b1 ks = (more, b')" "sent = bs @ more"
      using Cons.prems(2) r by (auto split: prod.splits)
    then show ?thesis using Cons.IH [OF st(2)] st(1) by auto
  next
    case False
    then show ?thesis using Cons.prems(2) r st by auto
  qed
qed simp

lemma postLoop_prefixes:
  assumes "brs_inv rest allBytes b" and "remaining rest b = allBytes" and "postLoop rd b xs err = (res, bodies)"
    and "body \<in> set bodies"
  shows "\<exists>more. allBytes = body @ more"
  using assms
proof (induction xs arbitrary: b err res bodies)
  case (Cons x xs)
  obtain sent b1 where r: "readBody rd b (ex_reads x) = (sent, b1)" by fastforce
  note st = readBody_stream [OF Cons.prems(1) r]
  have sent: "\<exists>more. allBytes = sent @ more" using st Cons.prems(2) by metis
  show ?case
  proof (cases "body = sent")
    case False
    then obtain i b2 err' res' bodies' where "brs_Seek b1 0 SeekStart = (Inr i, b2)"
        "postLoop rd b2 xs err' = (res', bodies')" "body \<in> set bodies'"
      using Cons.prems(3,4) r by (auto split: prod.splits sum.splits if_splits)
    then show ?thesis
      using Cons.IH brs_Seek_rewinds [of allBytes b1 i b2] st by blast
  qed (use sent in simp)
qed simp

end

interpretation pipe: byte_source pipeRead concat
proof
  fix s k bs e s' assume r: "pipeRead s k = ((bs, e), s')"
  show "length bs \<le> k" "concat s = bs @ concat s'"
    using r by (cases s; auto split: if_splits)+
next
  fix s k bs s' assume "pipeRead s k = ((bs, Some EOF), s')"
  then show "concat s' = []" by (cases s) auto
qed

section \<open>Retries\<close>

lemma postLoop_server_errors:
  assumes "\<And>x. x \<in> set xs \<Longrightarrow> \<exists>st. ex_result x = Inr st \<and> isServerError st"
  shows "fst (postLoop rd b xs None) = None"
  using assms
proof (induction xs arbitrary: b)
  case (Cons x xs)
  obtain st where "ex_result x = Inr st" "isServerError st" using Cons.prems [of x] by auto
  moreover have "fst (postLoop rd b2 xs None) = None" for b2
    by (rule Cons.IH) (use Cons.prems in auto)
  ultimately show ?case by (auto split: prod.split sum.split) (metis fst_conv)
qed simp

lemma postLoop_length: "length (snd (postLoop rd b xs err)) \<le> length xs"
proof (induction xs arbitrary: b err)
  case (Cons x xs)
  have "length bodies \<le> length xs" if "postLoop rd b2 xs e = (r, bodies)" for b2 e r bodies
    using Cons.IH [of b2 e] that by simp
  then show ?case by (auto split: prod.split sum.split)
qed simp

text \<open>The network after \<open>i\<close> attempts, and the outcome of the next one.\<close>

fun networkAfter :: "('n \<Rightarrow> clientRequest \<Rightarrow> (error + clientResponse) \<times> 'n) \<Rightarrow> clientRequest \<Rightarrow> 'n \<Rightarrow> nat \<Rightarrow> 'n" where
  "networkAfter Do req n 0 = n"
| "networkAfter Do req n (Suc i) = networkAfter Do req (snd (Do n req)) i"

definition outcome ::
  "('n \<Rightarrow> clientRequest \<Rightarrow> (error + clientResponse) \<times> 'n) \<Rightarrow> clientRequest \<Rightarrow> 'n \<Rightarrow> nat \<Rightarrow> error + clientResponse" where
  "outcome Do req n i = fst (Do (networkAfter Do req n i) req)"

definition retryable :: "error + clientResponse \<Rightarrow> bool" where
  "retryable res = (case res of Inl _ \<Rightarrow> True | Inr resp \<Rightarrow> isServerError (cl_StatusCode resp))"

definition sameStatus :: "error + clientResponse \<Rightarrow> error + clientResponse \<Rightarrow> bool" where
  "sameStatus x y =
     (case (x, y) of
        (Inl e, Inl e') \<Rightarrow> e = e'
      | (Inr r, Inr r') \<Rightarrow> cl_StatusCode r = cl_StatusCode r' \<and> cl_Header r = cl_Header r'
      | _ \<Rightarrow> False)"

lemma outcome_Suc: "outcome Do req n (Suc i) = outcome Do req (snd (Do n req)) i"
  by (simp add: outcome_def)

lemma getLoop_spec:
  "0 < k \<Longrightarrow> \<exists>i<k. (\<forall>j<i. retryable (outcome Do req n j))
     \<and> sameStatus (fst (getLoop Do req k n res)) (outcome Do req n i)
     \<and> snd (getLoop Do req k n res) = networkAfter Do req n (Suc i)
     \<and> (if retryable (outcome Do req n i) then i = k - 1
        else fst (getLoop Do req k n res) = outcome Do req n i)"
proof (induction k arbitrary: n res)
  case (Suc k)
  obtain out n' where d: "Do n req = (out, n')" by fastforce
  have o0: "outcome Do req n 0 = out" by (simp add: outcome_def d)
  define res' where "res' = (case out of Inl e \<Rightarrow> Inl e
      | Inr resp \<Rightarrow> Inr (resp\<lparr>cl_Body := Inl (ErrMsg ''http: read on closed response body'')\<rparr>))"
  have step: "getLoop Do req (Suc k) n res = (if retryable out then getLoop Do req k n' res' else (out, n'))"
    by (auto simp: d retryable_def res'_def split: sum.split)
  have same: "sameStatus res' out" "sameStatus out out"
    by (simp_all add: sameStatus_def res'_def split: sum.split)
  show ?case
  proof (cases "retryable out \<and> 0 < k")
    case True
    then obtain i where i: "i < k" "\<forall>j<i. retryable (outcome Do req n' j)"
        "sameStatus (fst (getLoop Do req k n' res')) (outcome Do req n' i)"
        "snd (getLoop Do req k n' res') = networkAfter Do req n' (Suc i)"
        "if retryable (outcome Do req n' i) then i = k - 1 else fst (getLoop Do req k n' res') = outcome Do req n' i"
      using Suc.IH [of n' res'] by blast
    have "\<forall>j<Suc i. retryable (outcome Do req n j)"
    proof (intro allI impI)
      fix j assume "j < Suc i"
      then show "retryable (outcome Do req n j)"
        using i(2) True o0 by (cases j) (simp_all add: outcome_Suc d)
    qed
    moreover have "outcome Do req n (Suc i) = outcome Do req n' i" by (simp add: outcome_Suc d)
    ultimately show ?thesis
      using i True unfolding step by (intro exI [of _ "Suc i"]) (auto simp: d)
  next
    case False
    then show ?thesis
      unfolding step using o0 same d by (intro exI [of _ 0]) auto
  qed
qed simp

section \<open>Headers\<close>

lemma headerValues_addValues [header_simps]:
  "headerValues (addValues k vs h) k' =
     (if CanonicalHeaderKey k = CanonicalHeaderKey k' then headerValues h k' @ vs else headerValues h k')"
  by (induction vs arbitrary: h) (simp_all add: addValues_def header_simps)

definition canonicalHeader :: "header \<Rightarrow> bool" where
  "canonicalHeader h \<longleftrightarrow> distinct (map fst h) \<and> (\<forall>k \<in> set (map fst h). CanonicalHeaderKey k = k)"

lemma hopHeaders_canonical: "k \<in> set hopHeaders \<Longrightarrow> CanonicalHeaderKey k = k"
proof -
  have "list_all (\<lambda>k. CanonicalHeaderKey k = k) hopHeaders" by code_simp
  then show "k \<in> set hopHeaders \<Longrightarrow> ?thesis" by (simp add: list_all_iff)
qed

lemma filterHopHeaders_acc:
  "headerValues (fold (\<lambda>(k, vs) h'. if k \<in> set hopHeaders then h' else addValues k vs h') h acc) k' =
     headerValues acc k' @ concat (map snd (filter (\<lambda>(k, vs). k \<notin> set hopHeaders
       \<and> CanonicalHeaderKey k = CanonicalHeaderKey k') h))"
proof (induction h arbitrary: acc)
  case (Cons x h)
  obtain k vs where x: "x = (k, vs)" by fastforce
  show ?case
    unfolding x by (simp add: Cons.IH headerValues_addValues)
qed simp

lemma filter_unique_key:
  assumes "distinct (map fst h)"
  shows "concat (map snd (filter (\<lambda>(k, vs). k = c) h)) = (case map_of h c of None \<Rightarrow> [] | Some vs \<Rightarrow> vs)"
  using assms
proof (induction h)
  case (Cons x h)
  have "filter (\<lambda>(k, vs). k = c) h = []" if "c \<notin> fst ` set h"
    using that by (force simp: filter_empty_conv)
  then show ?case
    using Cons by (cases x) (auto simp: map_of_eq_None_iff [symmetric] split: option.splits)
qed simp

lemma filterHopHeaders_values:
  assumes "canonicalHeader h"
  shows "headerValues (filterHopHeaders h) k =
    (if CanonicalHeaderKey k \<in> set hopHeaders then [] else headerValues h k)"
proof -
  have "headerValues (filterHopHeaders h) k = concat (map snd (filter (\<lambda>(k', vs). k' \<notin> set hopHeaders
      \<and> CanonicalHeaderKey k' = CanonicalHeaderKey k) h))"
    by (simp add: filterHopHeaders_def filterHopHeaders_acc) (simp add: headerValues_def)
  also have "filter (\<lambda>(k', vs). k' \<notin> set hopHeaders \<and> CanonicalHeaderKey k' = CanonicalHeaderKey k) h
      = (if CanonicalHeaderKey k \<in> set hopHeaders then [] else filter (\<lambda>(k', vs). k' = CanonicalHeaderKey k) h)"
    using assms by (fastforce simp: canonicalHeader_def filter_empty_conv intro!: filter_cong)
  finally show ?thesis
    using filter_unique_key [of h "CanonicalHeaderKey k"] assms
    by (simp add: headerValues_def canonicalHeader_def)
qed

end
