(* ===== verification/Agent_Utils_Properties.thy ===== *)
theory Agent_Utils_Properties
  imports Agent_Utils_Correct
begin

text \<open>
  The properties of the agent's utilities. The operations a handler performs on the streaming
  response writer, in any order, are \<open>srwOp\<close>; changing the header map is an operation too.
\<close>

section \<open>Operations on the streaming response writer\<close>

datatype srwOp =
    SetHeaders header
  | DoWriteHeader nat
  | DoWrite bytes
  | DoClose
  | DoCloseWithError error

fun srwStep :: "srwOp \<Rightarrow> streamingResponseWriter \<Rightarrow> streamingResponseWriter" where
  "srwStep (SetHeaders h) w = srw_editHeader (\<lambda>_. h) w"
| "srwStep (DoWriteHeader st) w = srw_WriteHeader w st"
| "srwStep (DoWrite bs) w = snd (srw_Write w bs)"
| "srwStep DoClose w = srw_Close w"
| "srwStep (DoCloseWithError e) w = srw_CloseWithError w e"

text \<open>The header of the response sent, after operations that follow \<open>WriteHeader\<close>.\<close>

fun headerAfter :: "srwOp list \<Rightarrow> header \<Rightarrow> header" where
  "headerAfter [] h = h"
| "headerAfter (SetHeaders h' # ops) h = headerAfter ops h'"
| "headerAfter (_ # ops) h = headerAfter ops h"

lemma headerAfter_append: "headerAfter (ops @ ops') h = headerAfter ops' (headerAfter ops h)"
  by (induction ops h rule: headerAfter.induct) auto

lemma headerAfter_unedited: "\<forall>h. SetHeaders h \<notin> set ops \<Longrightarrow> headerAfter ops h = h"
  by (induction ops h rule: headerAfter.induct) auto

definition sentAs :: "streamingResponseWriter \<Rightarrow> nat \<Rightarrow> string \<times> nat \<times> nat \<Rightarrow> header \<Rightarrow> bool" where
  "sentAs w status proto h \<longleftrightarrow>
     srw_wroteHeader w \<and> (\<exists>r. srw_sent w = Some r \<and> sr_Status r = status \<and> sr_Proto r = proto \<and> sr_Header r = h)"

lemma srwStep_sent: "sentAs w status proto h \<Longrightarrow> sentAs (srwStep op w) status proto (headerAfter [op] h)"
  by (cases op)
    (auto simp: sentAs_def srw_editHeader_def srw_WriteHeader_def srw_Write_def srw_Close_def srw_CloseWithError_def Let_def
      split: option.splits)

lemma srw_run_sent: "sentAs w status proto h \<Longrightarrow> sentAs (fold srwStep ops w) status proto (headerAfter ops h)"
proof (induction ops arbitrary: w h)
  case (Cons op ops)
  then show ?case
    using Cons.IH [OF srwStep_sent [OF Cons.prems, of op]] headerAfter_append [of "[op]" ops h] by simp
qed simp

lemma srw_WriteHeader_sent:
  assumes "\<not> srw_wroteHeader w" and "\<not> srw_contextDone w"
  shows "sentAs (srw_WriteHeader w status) status (srw_proto w) (filterHopHeaders (srw_header w))"
  using assms by (simp add: sentAs_def srw_WriteHeader_def Let_def)

section \<open>Responses\<close>

text \<open>C28. The first status wins, and the response streamed to the proxy has exactly the headers the handler
  had set at that moment without the hop-by-hop ones, whatever the handler does to its writer afterwards,
  as long as it does not edit the header again.\<close>

theorem streamed_response_header:
  assumes "\<not> srw_wroteHeader w" and "\<not> srw_contextDone w" and "canonicalHeader (srw_header w)"
    and "\<forall>h. SetHeaders h \<notin> set ops"
  shows "\<exists>r. srw_sent (fold srwStep ops (srw_WriteHeader w status)) = Some r
       \<and> sr_Status r = status \<and> sr_Proto r = srw_proto w
       \<and> (\<forall>k. headerValues (sr_Header r) k =
              (if CanonicalHeaderKey k \<in> set hopHeaders then [] else headerValues (srw_header w) k))"
proof -
  have "sentAs (fold srwStep ops (srw_WriteHeader w status)) status (srw_proto w) (filterHopHeaders (srw_header w))"
    using srw_run_sent [OF srw_WriteHeader_sent [OF assms(1,2)]] headerAfter_unedited [OF assms(4)] by metis
  then show ?thesis
    using filterHopHeaders_values [OF assms(3)] by (auto simp: sentAs_def)
qed

text \<open>The header map of the response stays shared with the writer: an edit of the header after
  \<open>WriteHeader\<close> replaces the header of the response that was already sent, hop-by-hop headers included.\<close>

theorem late_header_edit_shows:
  assumes "\<not> srw_wroteHeader w" and "\<not> srw_contextDone w"
  shows "\<exists>r. srw_sent (fold srwStep (ops @ [SetHeaders h]) (srw_WriteHeader w status)) = Some r
       \<and> sr_Status r = status \<and> sr_Header r = h"
  using srw_run_sent [OF srw_WriteHeader_sent [OF assms], where ops = "ops @ [SetHeaders h]"]
  unfolding headerAfter_append by (auto simp: sentAs_def)

definition exampleWriter :: streamingResponseWriter where
  "exampleWriter = (NewStreamingResponseWriter (''HTTP/1.1'', 1, 1) False)
     \<lparr>srw_header := [(''Connection'', [''close'']), (''Content-Type'', [''text/html''])]\<rparr>"

theorem streamed_response_header_witness:
  "\<exists>r. srw_sent (fold srwStep [DoWrite ''x'', DoWriteHeader 500, DoClose] (srw_WriteHeader exampleWriter 200))
       = Some r \<and> sr_Status r = 200 \<and> headerValues (sr_Header r) ''connection'' = []"
proof -
  have "canonicalHeader (srw_header exampleWriter)" "\<not> srw_wroteHeader exampleWriter" "\<not> srw_contextDone exampleWriter"
    "CanonicalHeaderKey ''connection'' \<in> set hopHeaders"
    by (simp add: canonicalHeader_def exampleWriter_def, code_simp) (simp_all add: exampleWriter_def NewStreamingResponseWriter_def, code_simp)
  then show ?thesis
    using streamed_response_header [of exampleWriter "[DoWrite ''x'', DoWriteHeader 500, DoClose]" 200] by auto
qed

theorem late_header_edit_shows_witness:
  "\<exists>r. srw_sent (fold srwStep ([] @ [SetHeaders [(''Connection'', [''close''])]]) (srw_WriteHeader exampleWriter 200)) = Some r
     \<and> sr_Status r = 200 \<and> sr_Header r = [(''Connection'', [''close''])]"
  by (rule late_header_edit_shows) (simp_all add: exampleWriter_def NewStreamingResponseWriter_def)

text \<open>A hop-by-hop header declared as a trailer under a name that is not in canonical form, such as
  \<^verbatim>\<open>connection\<close>, is announced as a trailer of the streamed response under its canonical name: the
  check against the hop-by-hop names is made before the name is canonicalised.\<close>

theorem hop_trailer_passes:
  assumes "\<not> srw_wroteHeader w" and "\<not> srw_contextDone w"
    and "srw_header w = [(''Trailer'', [k])]"
    and "splitComma k = [k]" and "TrimSpace k = k"
    and "k \<notin> set hopHeaders" and "CanonicalHeaderKey k \<in> set hopHeaders"
  shows "\<exists>r. srw_sent (srw_WriteHeader w status) = Some r \<and> CanonicalHeaderKey k \<in> fst ` set (sr_Trailer r)"
proof -
  have ne: "k \<noteq> []" using assms(7) by (auto simp: CanonicalHeaderKey_def hopHeaders_def)
  have t: "CanonicalHeaderKey ''Trailer'' = ''Trailer''" by code_simp
  have "declaredTrailers (srw_header w) = [(CanonicalHeaderKey k, [])]"
    using ne assms(3-6) by (simp add: declaredTrailers_def headerValues_def t declareTrailer_def headerAssign_def)
  then show ?thesis
    using assms(1,2) by (simp add: srw_WriteHeader_def Let_def)
qed

theorem hop_trailer_passes_witness:
  "\<exists>r. srw_sent (srw_WriteHeader (exampleWriter\<lparr>srw_header := [(''Trailer'', [''connection''])]\<rparr>) 200) = Some r
     \<and> CanonicalHeaderKey ''connection'' \<in> fst ` set (sr_Trailer r)"
proof (rule hop_trailer_passes)
  show "\<not> srw_wroteHeader (exampleWriter\<lparr>srw_header := [(''Trailer'', [''connection''])]\<rparr>)"
    "\<not> srw_contextDone (exampleWriter\<lparr>srw_header := [(''Trailer'', [''connection''])]\<rparr>)"
    by (simp_all add: exampleWriter_def NewStreamingResponseWriter_def)
  show "splitComma ''connection'' = [''connection'']" "TrimSpace ''connection'' = ''connection''"
    "''connection'' \<notin> set hopHeaders" "CanonicalHeaderKey ''connection'' \<in> set hopHeaders"
    by code_simp+
qed simp

section \<open>The seekable buffer and retries\<close>

text \<open>The seekable buffer over the pipe the agent reads the response from is a stream that can be
  rewound: every read returns the next bytes of what is left, for every size of the slice, rewinding
  either fails and changes nothing or makes the whole response readable again, and the end is reported
  only at the end when the slice has room for the buffered bytes.\<close>

theorem bufferedReadSeeker_rewindable:
  assumes "brs_inv concat response b"
  shows "(\<forall>k bs e b'. brs_Read pipeRead b k = ((bs, e), b') \<longrightarrow>
            brs_inv concat response b' \<and> remaining concat b = bs @ remaining concat b' \<and> length bs \<le> k
            \<and> (e = Some EOF \<and> length (buffered b) \<le> k \<longrightarrow> remaining concat b' = []))
       \<and> (case brs_Seek b 0 SeekStart of
            (Inl _, b') \<Rightarrow> b' = b
          | (Inr _, b') \<Rightarrow> brs_inv concat response b' \<and> remaining concat b' = response)"
proof
  show "\<forall>k bs e b'. brs_Read pipeRead b k = ((bs, e), b') \<longrightarrow>
      brs_inv concat response b' \<and> remaining concat b = bs @ remaining concat b' \<and> length bs \<le> k
      \<and> (e = Some EOF \<and> length (buffered b) \<le> k \<longrightarrow> remaining concat b' = [])"
    using pipe.brs_Read_stream [OF assms] by blast
  show "case brs_Seek b 0 SeekStart of (Inl _, b') \<Rightarrow> b' = b
      | (Inr _, b') \<Rightarrow> brs_inv concat response b' \<and> remaining concat b' = response"
  proof (cases "brs_Seek b 0 SeekStart")
    case (Pair r b')
    then show ?thesis
    proof (cases r)
      case (Inl e)
      then show ?thesis using Pair by (auto simp: brs_Seek_def split: if_splits)
    next
      case (Inr i)
      then show ?thesis using Pair pipe.brs_Seek_rewinds [OF assms, of i b'] by simp
    qed
  qed
qed

theorem bufferedReadSeeker_rewindable_witness:
  "case brs_Read pipeRead (newBufferedReadSeeker [''ab'', ''c''] 8) 1 of ((bs, e), b') \<Rightarrow>
     bs = ''a'' \<and> remaining concat b' = ''bc''"
proof -
  have i: "brs_inv concat ''abc'' (newBufferedReadSeeker [''ab'', ''c''] 8)"
    using pipe.brs_inv_new [of "[''ab'', ''c'']" 8] by simp
  obtain e b' where r: "brs_Read pipeRead (newBufferedReadSeeker [''ab'', ''c''] 8) 1 = ((''a'', e), b')"
    by (simp add: brs_Read_def newBufferedReadSeeker_def slice_def copyInto_def Let_def)
  have "remaining concat (newBufferedReadSeeker [''ab'', ''c''] 8) = ''a'' @ remaining concat b'"
    using bufferedReadSeeker_rewindable [OF i] r by blast
  then show ?thesis using r pipe.remaining_new [of "[''ab'', ''c'']" 8] by simp
qed

text \<open>No attempt to post a response sends a body that starts in the middle: in each of the at most three
  attempts the bytes sent are a prefix of the response, whatever part of it earlier attempts consumed.\<close>

theorem posted_bodies_are_prefixes:
  assumes "postResponseWithRetries pipeRead badURL attempts url b rid response = (req, res, bodies)"
  shows "length bodies \<le> 3 \<and> (\<forall>body \<in> set bodies. \<exists>more. concat response = body @ more)
       \<and> headerValues (cr_Header req) utilHeaderBackendID = [b]
       \<and> headerValues (cr_Header req) utilHeaderRequestID = [rid]"
proof -
  let ?b = "newBufferedReadSeeker response readResponseBufSize"
  have l: "bodies = [] \<or> postLoop pipeRead ?b (take 3 attempts) None = (res, bodies)"
    and req: "cr_Header req = headerSet (headerSet (headerSet [] utilHeaderBackendID b) utilHeaderRequestID rid)
       ''Content-Type'' ''text/plain''"
    using assms by (auto simp: postResponseWithRetries_def maxWriteResponseRetryCount_def Let_def numeral_3_eq_3 split: option.splits)
  have "length bodies \<le> length (take 3 attempts)"
    using postLoop_length [of pipeRead ?b "take 3 attempts" None] l by auto
  moreover have "\<exists>more. concat response = body @ more" if "body \<in> set bodies" for body
    using pipe.postLoop_prefixes [OF pipe.brs_inv_new pipe.remaining_new _ that] l that by auto
  moreover have "CanonicalHeaderKey utilHeaderRequestID \<noteq> CanonicalHeaderKey utilHeaderBackendID"
    "CanonicalHeaderKey ''Content-Type'' \<noteq> CanonicalHeaderKey utilHeaderBackendID"
    "CanonicalHeaderKey ''Content-Type'' \<noteq> CanonicalHeaderKey utilHeaderRequestID"
    by code_simp+
  ultimately show ?thesis by (auto simp: req header_simps)
qed

theorem posted_bodies_are_prefixes_witness:
  "\<exists>req res bodies. postResponseWithRetries pipeRead (\<lambda>_. None)
      [\<lparr>ex_reads = [2], ex_result = Inl (ErrService ''reset'')\<rparr>, \<lparr>ex_reads = [8, 8, 8], ex_result = Inr 200\<rparr>]
      ''http://proxy/agent/response'' ''b1'' ''r1'' [''abc'', ''d''] = (req, res, bodies)
    \<and> (\<forall>body \<in> set bodies. \<exists>more. ''abcd'' = body @ more)"
proof -
  let ?post = "postResponseWithRetries pipeRead (\<lambda>_. None)
      [\<lparr>ex_reads = [2], ex_result = Inl (ErrService ''reset'')\<rparr>, \<lparr>ex_reads = [8, 8, 8], ex_result = Inr 200\<rparr>]
      ''http://proxy/agent/response'' ''b1'' ''r1'' [''abc'', ''d'']"
  obtain req res bodies where p: "?post = (req, res, bodies)" by (metis surj_pair)
  show ?thesis using posted_bodies_are_prefixes [OF p] p by auto
qed

text \<open>When every attempt is answered with a server error, posting the response reports success: the
  response is lost and the agent does not notice.\<close>

theorem server_errors_reported_as_success:
  assumes "\<forall>x \<in> set attempts. \<exists>status. ex_result x = Inr status \<and> isServerError status"
  shows "fst (snd (postResponseWithRetries rd (\<lambda>_. None) attempts url b rid response)) = None"
proof -
  have "fst (postLoop rd (newBufferedReadSeeker response readResponseBufSize)
      (take (maxWriteResponseRetryCount + 1) attempts) None) = None"
    by (rule postLoop_server_errors) (use assms in \<open>auto dest: in_set_takeD\<close>)
  then show ?thesis by (simp add: postResponseWithRetries_def Let_def)
qed

theorem server_errors_reported_as_success_witness:
  "fst (snd (postResponseWithRetries pipeRead (\<lambda>_. None) (replicate 3 \<lparr>ex_reads = [8, 8], ex_result = Inr 503\<rparr>)
      ''http://proxy/agent/response'' ''b1'' ''r1'' [''abc''])) = None"
  by (rule server_errors_reported_as_success) (simp add: isServerError_def)

text \<open>Reading a request from the proxy makes at most three attempts: it returns the first answer that is
  not a server error, and the outcome of the third attempt when there is none.\<close>

theorem getRequestWithRetries_first_answer:
  assumes "badURL url = None"
  shows "\<exists>req. cr_Method req = ''GET'' \<and> cr_URL req = url
     \<and> (\<exists>i\<le>2. (\<forall>j<i. retryable (outcome Do req n j))
          \<and> sameStatus (fst (getRequestWithRetries badURL Do url b rid n)) (outcome Do req n i)
          \<and> snd (getRequestWithRetries badURL Do url b rid n) = networkAfter Do req n (Suc i)
          \<and> (if retryable (outcome Do req n i) then i = 2
             else fst (getRequestWithRetries badURL Do url b rid n) = outcome Do req n i))"
proof -
  let ?req = "\<lparr>cr_Method = ''GET'', cr_URL = url,
     cr_Header = headerAdd (headerAdd [] utilHeaderBackendID b) utilHeaderRequestID rid\<rparr>"
  have g: "getRequestWithRetries badURL Do url b rid n = getLoop Do ?req 3 n (Inl (ErrMsg []))"
    by (simp only: getRequestWithRetries_def Let_def maxReadRequestRetryCount_def assms) simp
  obtain i where "i < 3" "\<forall>j<i. retryable (outcome Do ?req n j)"
      "sameStatus (fst (getLoop Do ?req 3 n (Inl (ErrMsg [])))) (outcome Do ?req n i)"
      "snd (getLoop Do ?req 3 n (Inl (ErrMsg []))) = networkAfter Do ?req n (Suc i)"
      "if retryable (outcome Do ?req n i) then i = 3 - 1
       else fst (getLoop Do ?req 3 n (Inl (ErrMsg []))) = outcome Do ?req n i"
    using getLoop_spec [of 3 Do ?req n "Inl (ErrMsg [])"] by auto
  then show ?thesis
    unfolding g by (intro exI [of _ ?req] conjI exI [of _ i]) auto
qed

theorem getRequestWithRetries_first_answer_witness:
  "\<exists>req. cr_Method req = ''GET'' \<and> cr_URL req = ''u''
     \<and> (\<exists>i\<le>2. (\<forall>j<i. retryable (outcome (\<lambda>n r. (if n < (2 :: nat) then Inl (ErrService ''down'') else
           Inr \<lparr>cl_StatusCode = 200, cl_Header = [], cl_Body = Inr []\<rparr>, Suc n)) req 0 j)))"
  using getRequestWithRetries_first_answer [of "\<lambda>_. None" "''u''" "\<lambda>n r. (if n < (2 :: nat) then Inl (ErrService ''down'') else
           Inr \<lparr>cl_StatusCode = 200, cl_Header = [], cl_Body = Inr []\<rparr>, Suc n)" 0 "''b''" "''r''", OF refl] by blast

section \<open>Backoff\<close>

lemma maxRetryCount_eq: "maxRetryCount = 11"
proof -
  have "\<lfloor>log 2 3000\<rfloor> = (11 :: int)"
  proof (rule floor_unique)
    show "real_of_int 11 \<le> log 2 3000" by (simp add: le_log_iff)
    show "log 2 3000 < real_of_int 11 + 1" by (simp add: log_less_iff)
  qed
  then show ?thesis
    by (simp add: maxRetryCount_def maxBackoffDuration_def firstRetryWaitDuration_def duration_defs)
qed

lemma targetDuration_cases:
  "targetDuration n = (if 11 < n then 3 * Second else 2 ^ n * Millisecond)"
  by (simp add: targetDuration_def maxRetryCount_eq maxBackoffDuration_def firstRetryWaitDuration_def)

lemma targetDuration_bounds: "Millisecond \<le> targetDuration n" "targetDuration n \<le> 3 * Second"
proof -
  have "(2 :: int) ^ n \<le> 2 ^ 11" if "n \<le> 11" using that by (intro power_increasing) auto
  then show "targetDuration n \<le> 3 * Second" "Millisecond \<le> targetDuration n"
    by (auto simp: targetDuration_cases duration_defs)
qed



end
