(* ===== verification/Agent_Metrics.thy ===== *)
theory Agent_Metrics
  imports Prelude Go_Strings
begin

text \<open>
  The agent's metrics, \<^verbatim>\<open>agent/metrics/metrics.go\<close>: parsing the labels of the monitored resource,
  counting response codes and emitting the counts once per sample period.

  The monitoring client is a service: its call is the argument \<open>create\<close>, whose error is only
  logged. Maps are association lists; where the code ranges over a map, the order is the one of the
  list or an argument. \<^verbatim>\<open>codeCount\<close> is a global variable and passed explicitly.
\<close>

section \<open>Resource labels\<close>

text \<open>\<^verbatim>\<open>strings.Split\<close> with a one-character separator.\<close>

fun splitOn :: "char \<Rightarrow> string \<Rightarrow> string list" where
  "splitOn sep [] = [[]]"
| "splitOn sep (c # cs) =
     (if c = sep then [] # splitOn sep cs
      else (case splitOn sep cs of [] \<Rightarrow> [[c]] | w # ws \<Rightarrow> (c # w) # ws))"

type_synonym labels = "(string \<times> string) list"

definition responseCountResourceKeyToFlagName :: labels where
  "responseCountResourceKeyToFlagName = [(''instance_id'', ''instance-id''), (''zone'', ''instance-zone'')]"

text \<open>The loop over the pairs, with the labels as it leaves them.\<close>

fun parsePairs :: "string list \<Rightarrow> labels \<Rightarrow> error option \<times> labels" where
  "parsePairs [] labels = (None, labels)"
| "parsePairs (p # pairs) labels =
     (case splitOn (CHR ''='') p of
        [key, value] \<Rightarrow>
          parsePairs pairs (if map_of labels key \<noteq> None then AList.update key value labels else labels)
      | pair \<Rightarrow>
          (Some (ErrMsg (''Error parsing monitoringKeyValue('' @ [CHR 0x27] @ p @ [CHR 0x27] @ ''): got '' @ Itoa (length pair)
                         @ '' expressions, wanted 2'')), labels))"

definition parseResourceLabels :: "string \<Rightarrow> labels \<Rightarrow> error option \<times> labels" where
  "parseResourceLabels resourceKeyValues labels =
     (if resourceKeyValues = [] then (None, labels) else parsePairs (splitOn (CHR '','') resourceKeyValues) labels)"

text \<open>The value of a key that is missing from a Go map is the empty string.\<close>

definition mapGet :: "labels \<Rightarrow> string \<Rightarrow> string" where
  "mapGet m k = (case map_of m k of None \<Rightarrow> [] | Some v \<Rightarrow> v)"

fun fillLabels :: "string list \<Rightarrow> labels \<Rightarrow> labels \<Rightarrow> error option \<times> labels" where
  "fillLabels [] flags res = (None, res)"
| "fillLabels (key # keys) flags res =
     (let flagValue = mapGet flags (mapGet responseCountResourceKeyToFlagName key) in
      if flagValue = []
      then (Some (ErrMsg (''Failed to create metric handler: missing gce_instance resource label ('' @ key @ '')'')), res)
      else fillLabels keys flags (AList.update key flagValue res))"

text \<open>\<open>order\<close> is the order in which the map \<^verbatim>\<open>res\<close> is ranged over.\<close>

definition parseGCEResourceLabels :: "string list \<Rightarrow> string \<Rightarrow> labels \<times> error option" where
  "parseGCEResourceLabels order resourceKeyValues =
     (case parseResourceLabels resourceKeyValues [(''instance-id'', []), (''instance-zone'', [])] of
        (err, flags) \<Rightarrow>
          (case fillLabels order flags [(''instance_id'', []), (''zone'', [])] of
             (Some err2, res) \<Rightarrow> (res, Some err2)
           | (None, res) \<Rightarrow> (res, err)))"

section \<open>The handler\<close>

record MetricHandler =
  mh_projectID :: string
  mh_metricDomain :: string
  mh_resourceType :: string
  mh_resourceLabels :: labels

type_synonym codeCounts = "(string \<times> nat) list"

definition newMetricHandlerHelper ::
  "string list \<Rightarrow> string \<Rightarrow> string \<Rightarrow> string \<Rightarrow> string \<Rightarrow> codeCounts \<Rightarrow> (error + MetricHandler) \<times> codeCounts" where
  "newMetricHandlerHelper order projectID resourceType resourceKeyValues metricDomain codeCount =
     (if projectID = [] then (Inl (ErrMsg ''Failed to create metric handler: missing projectID''), codeCount)
      else if metricDomain = [] then (Inl (ErrMsg ''Failed to create metric handler: missing metricDomain''), codeCount)
      else if resourceType = [] then (Inl (ErrMsg ''Failed to create metric handler: missing resourceType''), codeCount)
      else if resourceType = ''gce_instance'' then
        (case parseGCEResourceLabels order resourceKeyValues of
           (_, Some err) \<Rightarrow> (Inl err, codeCount)
         | (res, None) \<Rightarrow>
             (Inr \<lparr>mh_projectID = projectID, mh_metricDomain = metricDomain, mh_resourceType = resourceType,
                   mh_resourceLabels = res\<rparr>, []))
      else (Inl (ErrMsg (''Failed to create metric handler: unknown resource type '' @ resourceType)), codeCount))"

text \<open>
  \<^verbatim>\<open>NewMetricHandler\<close>, up to the start of its goroutine; \<open>None\<close> is the nil handler. \<open>newClient\<close> is the
  error of the client's constructor, which ends the process.
\<close>

definition NewMetricHandler ::
  "error option \<Rightarrow> string list \<Rightarrow> string \<Rightarrow> string \<Rightarrow> string \<Rightarrow> string \<Rightarrow> string \<Rightarrow> codeCounts
   \<Rightarrow> ((error + MetricHandler option) \<times> codeCounts) option" where
  "NewMetricHandler newClient order projectID resourceType resourceKeyValues metricDomain endpoint codeCount =
     (if projectID = [] \<or> resourceType = [] \<or> resourceKeyValues = [] \<or> metricDomain = [] \<or> endpoint = []
      then Some (Inr None, codeCount)
      else (case newClient of
              Some err \<Rightarrow> None
            | None \<Rightarrow>
                (case newMetricHandlerHelper order projectID resourceType resourceKeyValues metricDomain codeCount of
                   (Inl err, cc) \<Rightarrow> Some (Inl err, cc)
                 | (Inr h, cc) \<Rightarrow> Some (Inr (Some h), cc))))"

definition GetResponseCountMetricType :: "MetricHandler option \<Rightarrow> string" where
  "GetResponseCountMetricType h =
     (case h of None \<Rightarrow> [] | Some h \<Rightarrow> mh_metricDomain h @ ''/instance/proxy_agent/response_count'')"

definition countOf :: "codeCounts \<Rightarrow> string \<Rightarrow> nat" where
  "countOf cc code = (case map_of cc code of None \<Rightarrow> 0 | Some n \<Rightarrow> n)"

definition WriteResponseCodeMetric :: "MetricHandler option \<Rightarrow> nat \<Rightarrow> codeCounts \<Rightarrow> codeCounts" where
  "WriteResponseCodeMetric h statusCode codeCount =
     (if h = None then codeCount
      else (let responseCode = Itoa statusCode
            in AList.update responseCode (countOf codeCount responseCode + 1) codeCount))"

section \<open>Emitting\<close>

record dataPoint =
  dp_StartTime :: int
  dp_EndTime :: int
  dp_Value :: nat

record timeSeries =
  ts_Type :: string
  ts_Labels :: labels
  ts_ResourceType :: string
  ts_ResourceLabels :: labels
  ts_Points :: "dataPoint list"

definition newDataPoint :: "int \<Rightarrow> nat \<Rightarrow> dataPoint" where
  "newDataPoint nowUnix count = \<lparr>dp_StartTime = nowUnix, dp_EndTime = nowUnix + 1, dp_Value = count\<rparr>"

definition newTimeSeries :: "MetricHandler \<Rightarrow> string \<Rightarrow> labels \<Rightarrow> dataPoint \<Rightarrow> timeSeries" where
  "newTimeSeries h metricType metricLabels dataPt =
     \<lparr>ts_Type = metricType, ts_Labels = metricLabels, ts_ResourceType = mh_resourceType h,
      ts_ResourceLabels = mh_resourceLabels h, ts_Points = [dataPt]\<rparr>"

definition responseCodeSeries :: "MetricHandler \<Rightarrow> int \<Rightarrow> string \<times> nat \<Rightarrow> timeSeries" where
  "responseCodeSeries h nowUnix x =
     (case x of (responseCode, count) \<Rightarrow>
        newTimeSeries h (GetResponseCountMetricType (Some h))
          [(''response_code'', responseCode), (''response_code_class'', take 1 responseCode @ ''XX'')]
          (newDataPoint nowUnix count))"

text \<open>\<open>create\<close>: the call of \<^verbatim>\<open>CreateTimeSeries\<close> for a project, on the service's state.\<close>

definition emitResponseCodeMetric ::
  "(string \<Rightarrow> timeSeries \<Rightarrow> 'n \<Rightarrow> error option \<times> 'n) \<Rightarrow> MetricHandler \<Rightarrow> int \<Rightarrow> codeCounts \<Rightarrow> 'n \<Rightarrow> 'n" where
  "emitResponseCodeMetric create h nowUnix codeCount n =
     fold (\<lambda>x n. snd (create (''projects/'' @ mh_projectID h) (responseCodeSeries h nowUnix x) n)) codeCount n"

text \<open>
  The counting goroutines and the emitting one. \<open>mt_emitted\<close> says that the counts of the period were
  emitted and the map was not yet replaced; the histories have every recorded code, those of them
  recorded in such a state, and every series sent. Ranging over the map while emitting is one step.
\<close>

record metricState =
  mt_codeCount :: codeCounts
  mt_emitted :: bool
  mt_recorded :: "nat list"
  mt_late :: "nat list"
  mt_sent :: "timeSeries list"

datatype metricEvent = Record nat | Emit int | Reset

fun metricStep :: "MetricHandler \<Rightarrow> metricEvent \<Rightarrow> metricState \<Rightarrow> metricState option" where
  "metricStep h (Record code) s =
     Some (s\<lparr>mt_codeCount := WriteResponseCodeMetric (Some h) code (mt_codeCount s), mt_recorded := mt_recorded s @ [code],
             mt_late := mt_late s @ (if mt_emitted s then [code] else [])\<rparr>)"
| "metricStep h (Emit nowUnix) s =
     (if mt_emitted s then None
      else Some (s\<lparr>mt_emitted := True,
                   mt_sent := emitResponseCodeMetric (\<lambda>_ t sent. (None, sent @ [t])) h nowUnix (mt_codeCount s) (mt_sent s)\<rparr>))"
| "metricStep h Reset s = (if mt_emitted s then Some (s\<lparr>mt_emitted := False, mt_codeCount := []\<rparr>) else None)"

definition newMetricState :: metricState where
  "newMetricState = \<lparr>mt_codeCount = [], mt_emitted = False, mt_recorded = [], mt_late = [], mt_sent = []\<rparr>"

end
