(* ===== verification/Event_Systems.thy ===== *)
theory Event_Systems
  imports Main
begin

text \<open>
  Systems of threads as event systems: \<open>step e s\<close> is the state after the event \<open>e\<close>, or
  \<open>None\<close> where the event is not enabled. A run is a list of events, a state is reachable when
  some run leads to it. The locale \<open>event_system\<close> is the interface between a component that
  proves an invariant of its steps and the facts on its runs that follow.
\<close>

fun run_events :: "('e \<Rightarrow> 's \<Rightarrow> 's option) \<Rightarrow> 'e list \<Rightarrow> 's \<Rightarrow> 's option" where
  "run_events step [] s = Some s"
| "run_events step (e # es) s = (case step e s of None \<Rightarrow> None | Some s' \<Rightarrow> run_events step es s')"

inductive reachable :: "('e \<Rightarrow> 's \<Rightarrow> 's option) \<Rightarrow> 's \<Rightarrow> 's \<Rightarrow> bool" for step s where
  reach_init: "reachable step s s"
| reach_step: "reachable step s t \<Longrightarrow> step e t = Some u \<Longrightarrow> reachable step s u"

lemma run_events_append:
  "run_events step (es @ es') s = (case run_events step es s of None \<Rightarrow> None | Some t \<Rightarrow> run_events step es' t)"
  by (induction es arbitrary: s) (auto split: option.split)

lemma run_events_reachable: "run_events step es s = Some t \<Longrightarrow> reachable step s t"
proof (induction es arbitrary: t rule: rev_induct)
  case (snoc e es)
  then obtain u where "run_events step es s = Some u" "step e u = Some t"
    by (auto simp: run_events_append split: option.splits)
  then show ?case using snoc.IH reach_step by metis
qed (simp add: reach_init)

lemma reachable_run: "reachable step s t \<Longrightarrow> \<exists>es. run_events step es s = Some t"
proof (induction rule: reachable.induct)
  case (reach_step t e u)
  then obtain es where "run_events step es s = Some t" by blast
  then have "run_events step (es @ [e]) s = Some u"
    using reach_step.hyps(2) by (simp add: run_events_append)
  then show ?case ..
qed (intro exI [of _ "[]"], simp)

lemma reachable_trans: "reachable step s t \<Longrightarrow> reachable step t u \<Longrightarrow> reachable step s u"
  by (rotate_tac, induction rule: reachable.induct) (auto intro: reach_step)

locale event_system =
  fixes step :: "'e \<Rightarrow> 's \<Rightarrow> 's option" and inv :: "'s \<Rightarrow> bool"
  assumes inv_step: "inv s \<Longrightarrow> step e s = Some t \<Longrightarrow> inv t"
begin

lemma inv_reachable: "reachable step s t \<Longrightarrow> inv s \<Longrightarrow> inv t"
  by (induction rule: reachable.induct) (auto intro: inv_step)

text \<open>A relation between states that every step from a state of the invariant extends.\<close>

lemma reachable_relation:
  assumes "reachable step s t" and "inv s" and "\<And>u. inv u \<Longrightarrow> R u u"
    and "\<And>u v w e. R u v \<Longrightarrow> inv v \<Longrightarrow> step e v = Some w \<Longrightarrow> R u w"
  shows "R s t"
  using assms(1)
proof (induction rule: reachable.induct)
  case (reach_step t e u)
  then show ?case using assms(4) inv_reachable [OF reach_step.hyps(1) assms(2)] by blast
qed (rule assms(3) [OF assms(2)])

end

end
