(* ===== verification/Agent_Metrics_Properties.thy ===== *)
theory Agent_Metrics_Properties
  imports Agent_Metrics Event_Systems
begin

text \<open>
  Correctness of the metrics: label lists printed as key-value pairs are parsed back, and the
  accounting of response codes is exact, which also shows what is lost.
\<close>

section \<open>Labels\<close>

definition clean :: "string \<Rightarrow> bool" where
  "clean s \<longleftrightarrow> CHR '','' \<notin> set s \<and> CHR ''='' \<notin> set s"

definition printPair :: "string \<times> string \<Rightarrow> string" where
  "printPair kv = fst kv @ CHR ''='' # snd kv"

fun printPairs :: "(string \<times> string) list \<Rightarrow> string" where
  "printPairs [] = []"
| "printPairs [kv] = printPair kv"
| "printPairs (kv # kvs) = printPair kv @ CHR '','' # printPairs kvs"

lemma splitOn_none: "sep \<notin> set s \<Longrightarrow> splitOn sep s = [s]"
  by (induction s) auto

lemma splitOn_append: "sep \<notin> set s \<Longrightarrow> splitOn sep (s @ sep # t) = s # splitOn sep t"
  by (induction s) auto

lemma split_printPair: "clean (fst kv) \<Longrightarrow> clean (snd kv) \<Longrightarrow> splitOn (CHR ''='') (printPair kv) = [fst kv, snd kv]"
  by (simp add: clean_def printPair_def splitOn_append splitOn_none)

lemma split_printPairs:
  "kvs \<noteq> [] \<Longrightarrow> \<forall>kv \<in> set kvs. clean (fst kv) \<and> clean (snd kv) \<Longrightarrow> splitOn (CHR '','') (printPairs kvs) = map printPair kvs"
proof (induction kvs rule: printPairs.induct)
  case (2 kv)
  then show ?case by (auto simp: clean_def printPair_def intro: splitOn_none)
next
  case (3 kv kv' kvs)
  have "CHR '','' \<notin> set (printPair kv)" using "3.prems" by (auto simp: clean_def printPair_def)
  then show ?case using 3 by (simp add: splitOn_append)
qed simp

definition setKnown :: "string \<times> string \<Rightarrow> labels \<Rightarrow> labels" where
  "setKnown kv labels = (if map_of labels (fst kv) \<noteq> None then AList.update (fst kv) (snd kv) labels else labels)"

lemma parsePairs_printed:
  "\<forall>kv \<in> set kvs. clean (fst kv) \<and> clean (snd kv) \<Longrightarrow> parsePairs (map printPair kvs) labels = (None, fold setKnown kvs labels)"
  by (induction kvs arbitrary: labels) (auto simp: split_printPair setKnown_def)

lemma mapGet_setKnown:
  "mapGet (setKnown (k, v) labels) k' = (if k = k' \<and> map_of labels k \<noteq> None then v else mapGet labels k')"
  by (auto simp: mapGet_def setKnown_def update_conv')

lemma dom_setKnown: "map_of (setKnown kv labels) k = None \<longleftrightarrow> map_of labels k = None"
  by (auto simp: setKnown_def update_conv')

lemma mapGet_fold_setKnown:
  "map_of labels k \<noteq> None \<Longrightarrow> mapGet (fold setKnown kvs labels) k = (case map_of (rev kvs) k of None \<Rightarrow> mapGet labels k | Some v \<Rightarrow> v)"
proof (induction kvs arbitrary: labels)
  case (Cons kv kvs)
  then have "mapGet (fold setKnown kvs (setKnown kv labels)) k =
      (case map_of (rev kvs) k of None \<Rightarrow> mapGet (setKnown kv labels) k | Some v \<Rightarrow> v)"
    using dom_setKnown by metis
  then show ?case using Cons.prems by (cases kv) (auto simp: mapGet_setKnown map_add_def split: option.splits)
qed simp

text \<open>Labels given as a comma-separated list of key-value pairs, whose keys and values have no
  comma or equals sign, are parsed to the labels of the monitored resource: each is the value given
  last for its flag, other flags are ignored, and it is an error exactly when one of the two is
  missing or empty. The order in which the code ranges over the map does not matter.\<close>

theorem labels_parsed:
  assumes "kvs \<noteq> []" and "\<forall>kv \<in> set kvs. clean (fst kv) \<and> clean (snd kv)"
    and "order = [''instance_id'', ''zone''] \<or> order = [''zone'', ''instance_id'']"
    and "inst = mapGet (rev kvs) ''instance-id''" and "zone = mapGet (rev kvs) ''instance-zone''"
  shows "(snd (parseGCEResourceLabels order (printPairs kvs)) = None \<longleftrightarrow> inst \<noteq> [] \<and> zone \<noteq> [])
    \<and> (inst \<noteq> [] \<and> zone \<noteq> [] \<longrightarrow>
        fst (parseGCEResourceLabels order (printPairs kvs)) = [(''instance_id'', inst), (''zone'', zone)])"
proof -
  let ?init = "[(''instance-id'', []), (''instance-zone'', [])]" and ?flags = "fold setKnown kvs [(''instance-id'', []), (''instance-zone'', [])]"
  have "printPairs kvs \<noteq> []" using assms(1) by (cases kvs rule: printPairs.cases) (auto simp: printPair_def)
  then have p: "parseResourceLabels (printPairs kvs) ?init = (None, ?flags)"
    using assms(1,2) by (simp add: parseResourceLabels_def split_printPairs parsePairs_printed)
  have init: "mapGet ?init ''instance-id'' = []" "mapGet ?init ''instance-zone'' = []" by code_simp+
  have "mapGet ?flags ''instance-id'' = inst"
    using assms(4) mapGet_fold_setKnown [of ?init "''instance-id''" kvs] by (simp add: init mapGet_def [of "rev kvs"] split: option.splits)
  moreover have "mapGet ?flags ''instance-zone'' = zone"
    using assms(5) mapGet_fold_setKnown [of ?init "''instance-zone''" kvs] by (simp add: init mapGet_def [of "rev kvs"] split: option.splits)
  moreover have "mapGet responseCountResourceKeyToFlagName ''instance_id'' = ''instance-id''"
    "mapGet responseCountResourceKeyToFlagName ''zone'' = ''instance-zone''" by code_simp+
  ultimately show ?thesis
    using assms(3) p by (auto simp: parseGCEResourceLabels_def Let_def split: if_splits)
qed

theorem labels_parsed_witness:
  "parseGCEResourceLabels [''zone'', ''instance_id''] (printPairs [(''instance-zone'', ''us-west1-a''), (''x'', ''y''), (''instance-id'', ''12'')])
   = ([(''instance_id'', ''12''), (''zone'', ''us-west1-a'')], None)"
  using labels_parsed [of "[(''instance-zone'', ''us-west1-a''), (''x'', ''y''), (''instance-id'', ''12'')]"
      "[''zone'', ''instance_id'']" "''12''" "''us-west1-a''"]
  by (simp add: clean_def mapGet_def prod_eq_iff)

section \<open>Accounting\<close>

definition sentFor :: "string \<Rightarrow> timeSeries list \<Rightarrow> nat" where
  "sentFor code sent = sum_list (map (\<lambda>t. if mapGet (ts_Labels t) ''response_code'' = code then sum_list (map dp_Value (ts_Points t)) else 0) sent)"

definition metric_inv :: "metricState \<Rightarrow> bool" where
  "metric_inv s \<longleftrightarrow> distinct (map fst (mt_codeCount s))
     \<and> (\<forall>code. count_list (mt_recorded s) code =
          sentFor (Itoa code) (mt_sent s) + (if mt_emitted s then 0 else countOf (mt_codeCount s) (Itoa code)) + count_list (mt_late s) code)"

lemma sentFor_series: "sentFor code (map (responseCodeSeries h now) cc) = sum_list (map (\<lambda>x. if fst x = code then snd x else 0) cc)"
  by (induction cc) (auto simp: sentFor_def responseCodeSeries_def newTimeSeries_def newDataPoint_def mapGet_def)

lemma sum_distinct: "distinct (map fst cc) \<Longrightarrow> sum_list (map (\<lambda>x. if fst x = code then snd x else 0) cc) = countOf cc code"
proof (induction cc)
  case (Cons x cc)
  moreover have "map_of cc (fst x) = None" using Cons.prems by (simp add: map_of_eq_None_iff)
  then have "countOf cc (fst x) = 0" by (simp add: countOf_def)
  ultimately show ?case by (cases x) (auto simp: countOf_def split: option.splits)
qed (simp add: countOf_def)

lemma sentFor_append: "sentFor code (xs @ ys) = sentFor code xs + sentFor code ys"
  by (simp add: sentFor_def)

lemma emit_map:
  "emitResponseCodeMetric (\<lambda>_ t sent. (None, sent @ [t])) h now cc sent = sent @ map (responseCodeSeries h now) cc"
  unfolding emitResponseCodeMetric_def by (induction cc arbitrary: sent) auto

lemma countOf_record:
  "countOf (WriteResponseCodeMetric (Some h) code cc) c = countOf cc c + (if c = Itoa code then 1 else 0)"
  by (simp add: WriteResponseCodeMetric_def countOf_def Let_def update_conv')

lemma distinct_record: "distinct (map fst cc) \<Longrightarrow> distinct (map fst (WriteResponseCodeMetric (Some h) code cc))"
  by (simp add: WriteResponseCodeMetric_def Let_def distinct_update)

lemma metric_inv_step: "metric_inv s \<Longrightarrow> metricStep h e s = Some t \<Longrightarrow> metric_inv t"
proof (cases e)
  case (Record code)
  assume "metric_inv s" "metricStep h e s = Some t"
  then show ?thesis
    using Record by (auto simp: metric_inv_def countOf_record distinct_record)
next
  case (Emit now)
  assume "metric_inv s" "metricStep h e s = Some t"
  then show ?thesis
    using Emit by (auto simp: metric_inv_def emit_map sentFor_series sum_distinct sentFor_append split: if_splits)
next
  case Reset
  assume "metric_inv s" "metricStep h e s = Some t"
  then show ?thesis using Reset by (auto simp: metric_inv_def countOf_def split: if_splits)
qed

interpretation metrics: event_system "metricStep h" metric_inv
  by unfold_locales (rule metric_inv_step)


definition demoHandler :: MetricHandler where
  "demoHandler = \<lparr>mh_projectID = ''p'', mh_metricDomain = ''d'', mh_resourceType = ''gce_instance'', mh_resourceLabels = []\<rparr>"


end
