(* ===== verification/Agent_Forwarder.thy ===== *)
theory Agent_Forwarder
  imports Agent_Utils_Properties Agent_Metrics_Properties
begin

text \<open>
  The rest of \<^verbatim>\<open>agent/utils/utils.go\<close>: the transport that adds the identity of the virtual machine to
  every request, and the response forwarder with its two goroutines. The metadata server is a
  parameter: the list of its answers. A request's header is a shared map, so a round trip returns the
  request as it leaves it.
\<close>

section \<open>The identity of the virtual machine\<close>

definition hasVMServiceAccount :: "bool \<Rightarrow> error + string \<Rightarrow> bool" where
  "hasVMServiceAccount onGCE email = (if \<not> onGCE then False else (case email of Inl _ \<Rightarrow> False | Inr _ \<Rightarrow> True))"

text \<open>
  The loop until the metadata server answers: the ID, and the answers that were not used; \<open>None\<close>
  while it goes on.
\<close>

fun getVMID :: "(error + string) list \<Rightarrow> (string \<times> (error + string) list) option" where
  "getVMID [] = None"
| "getVMID (Inl err # answers) = getVMID answers"
| "getVMID (Inr vmID # answers) = Some (vmID, answers)"

record vmTransport =
  vm_currID :: string

definition vm_RoundTrip ::
  "('n \<Rightarrow> clientRequest \<Rightarrow> 'r \<times> 'n) \<Rightarrow> vmTransport \<Rightarrow> clientRequest \<Rightarrow> 'n \<Rightarrow> 'r \<times> clientRequest \<times> 'n" where
  "vm_RoundTrip wrapped t r n =
     (let r' = r\<lparr>cr_Header := headerAdd (cr_Header r) HeaderVMID (vm_currID t)\<rparr>
      in case wrapped n r' of (res, n') \<Rightarrow> (res, r', n'))"

text \<open>\<open>None\<close> while the first ID is fetched, \<open>Some None\<close> the wrapped transport itself.\<close>

definition RoundTripperWithVMIdentity ::
  "bool \<Rightarrow> error + string \<Rightarrow> bool \<Rightarrow> (error + string) list \<Rightarrow> vmTransport option option" where
  "RoundTripperWithVMIdentity onGCE email disableGCEVM answers =
     (if \<not> hasVMServiceAccount onGCE email \<or> disableGCEVM then Some None
      else map_option (\<lambda>(vmID, _). Some \<lparr>vm_currID = vmID\<rparr>) (getVMID answers))"

text \<open>One tick of the refreshing goroutine.\<close>

definition refreshVMID :: "(error + string) list \<Rightarrow> vmTransport \<Rightarrow> vmTransport option" where
  "refreshVMID answers t = map_option (\<lambda>(nextID, _). t\<lparr>vm_currID := nextID\<rparr>) (getVMID answers)"

text \<open>Getting an ID ends exactly when the metadata server answers once.\<close>

lemma getVMID_ends: "getVMID answers \<noteq> None \<longleftrightarrow> (\<exists>vmID. Inr vmID \<in> set answers)"
  by (induction answers rule: getVMID.induct) auto

text \<open>Round trips of one request, as a loop over its retries makes them.\<close>

fun vm_RoundTrips ::
  "('n \<Rightarrow> clientRequest \<Rightarrow> 'r \<times> 'n) \<Rightarrow> vmTransport list \<Rightarrow> clientRequest \<Rightarrow> 'n \<Rightarrow> clientRequest \<times> 'n" where
  "vm_RoundTrips wrapped [] r n = (r, n)"
| "vm_RoundTrips wrapped (t # ts) r n =
     (case vm_RoundTrip wrapped t r n of (_, r', n') \<Rightarrow> vm_RoundTrips wrapped ts r' n')"

text \<open>The transport changes the request it is given, so every retry of a request sends one more value
  of the header, the IDs of all attempts in order.\<close>

theorem vm_ids_accumulate:
  "headerValues (cr_Header (fst (vm_RoundTrips wrapped ts r n))) HeaderVMID
   = headerValues (cr_Header r) HeaderVMID @ map vm_currID ts"
proof (induction ts arbitrary: r n)
  case (Cons t ts)
  obtain res r' n' where rt: "vm_RoundTrip wrapped t r n = (res, r', n')" by (metis surj_pair)
  then have "headerValues (cr_Header r') HeaderVMID = headerValues (cr_Header r) HeaderVMID @ [vm_currID t]"
    by (auto simp: vm_RoundTrip_def Let_def header_simps split: prod.splits)
  then show ?case using Cons rt by simp
qed simp

section \<open>The response forwarder\<close>

text \<open>
  What the writing goroutine's select receives: the end of the request's context, or the response,
  which it then writes to the pipe to the proxy with the given outcome. The result is the streaming
  writer, the error for the channel and the status code for the metric.
\<close>

datatype forwarderSelect = RequestCancelled | GotResponse streamedResponse "error option"

definition forwarderWrite ::
  "forwarderSelect \<Rightarrow> streamingResponseWriter \<Rightarrow> streamingResponseWriter \<times> error option \<times> nat" where
  "forwarderWrite sel rw =
     (case sel of
        RequestCancelled \<Rightarrow> (rw, None, 0)
      | GotResponse resp writeErr \<Rightarrow>
          (case writeErr of
             Some err \<Rightarrow> (srw_CloseWithError rw err, Some err, sr_Status resp)
           | None \<Rightarrow> (rw, None, sr_Status resp)))"

text \<open>
  A whole exchange: the handler's calls before and after the writing goroutine is done, \<^verbatim>\<open>Close\<close>, the
  posting goroutine over the bytes of the pipe, and the metric. The result is the error of \<^verbatim>\<open>Close\<close>,
  the writer, the bodies posted and the counts.
\<close>

definition NewResponseForwarder ::
  "(string \<Rightarrow> error option) \<Rightarrow> exchange list \<Rightarrow> string \<Rightarrow> string \<Rightarrow> string \<Rightarrow> bytes list \<Rightarrow> MetricHandler option
   \<Rightarrow> srwOp list \<Rightarrow> forwarderSelect \<Rightarrow> srwOp list \<Rightarrow> string \<times> nat \<times> nat \<Rightarrow> bool \<Rightarrow> codeCounts
   \<Rightarrow> error option \<times> streamingResponseWriter \<times> bytes list \<times> codeCounts" where
  "NewResponseForwarder badURL attempts proxyHost backendID requestID wire mh before sel after proto contextDone cc =
     (let rw = fold srwStep before (NewStreamingResponseWriter proto contextDone) in
      case forwarderWrite sel rw of
        (rw1, writeErr, statusCode) \<Rightarrow>
          (case postResponseWithRetries pipeRead badURL attempts (proxyHost @ ResponsePath) backendID requestID wire of
             (_, postErr, bodies) \<Rightarrow>
               (case responseForwarder_Close postErr writeErr (fold srwStep after rw1) of
                  (err, rw2) \<Rightarrow> (err, rw2, bodies, WriteResponseCodeMetric mh statusCode cc))))"

text \<open>A request that is cancelled before its response is counted as a response with the status code 0.\<close>

theorem cancelled_request_counted:
  "countOf (snd (snd (snd (NewResponseForwarder badURL attempts proxyHost backendID requestID wire (Some h) before
       RequestCancelled after proto contextDone cc)))) ''0'' = countOf cc ''0'' + 1"
proof -
  have "Itoa 0 = ''0''" by code_simp
  then show ?thesis
    using countOf_record [of h 0 cc "''0''"]
    by (simp add: NewResponseForwarder_def forwarderWrite_def Let_def split: prod.split)
qed

text \<open>Once the forwarder fails to write the response, every later write of the handler fails.\<close>

lemma readClosed_kept: "srw_readClosed w = Some e \<Longrightarrow> srw_wroteHeader w \<Longrightarrow> srw_readClosed (srwStep op w) = Some e \<and> srw_wroteHeader (srwStep op w)"
  by (cases op) (auto simp: srw_editHeader_def srw_WriteHeader_def srw_Write_def srw_Close_def srw_CloseWithError_def Let_def
      split: option.splits)

lemma readClosed_run:
  "srw_readClosed w = Some e \<Longrightarrow> srw_wroteHeader w \<Longrightarrow> srw_readClosed (fold srwStep ops w) = Some e \<and> srw_wroteHeader (fold srwStep ops w)"
  by (induction ops arbitrary: w) (auto dest: readClosed_kept)

theorem write_after_failure_fails:
  assumes "forwarderWrite (GotResponse resp (Some err)) rw = (rw1, res)" and "srw_wroteHeader rw" and "srw_readClosed rw = None"
  shows "\<exists>e. fst (srw_Write (fold srwStep ops rw1) bs) = Inl e"
proof -
  have "srw_readClosed rw1 = Some err \<and> srw_wroteHeader rw1"
    using assms by (auto simp: forwarderWrite_def srw_CloseWithError_def)
  then have "srw_readClosed (fold srwStep ops rw1) = Some err \<and> srw_wroteHeader (fold srwStep ops rw1)"
    using readClosed_run by blast
  then show ?thesis by (auto simp: srw_Write_def Let_def)
qed

end
