(* ===== verification/Server_Proxy.thy ===== *)
theory Server_Proxy
  imports Agent_Utils Go_Time Event_Systems
begin

text \<open>
  The stand-alone proxy, \<^verbatim>\<open>server/server.go\<close>. Frontend requests register under a fresh ID,
  offer the ID on an unbuffered channel to the agents that list requests, and wait on a channel of
  their own for the response an agent posts under that ID; the body of the response then flows
  through a pipe from the agent's POST to the client.

  Every call of a handler is a thread. The state holds the map of pending requests and the threads:
  frontend handlers, list handlers and POST handlers, each with its program counter between two
  blocking operations. An \<open>event\<close> is one atomic step of one thread, or of two threads that
  meet on a channel or a pipe; \<open>serverStep\<close> says when it is enabled and what it does, so a
  run (\<open>run_events\<close>) is any interleaving. A response channel is named by the index of the handler that made it.

  Parameters (\<open>serverEnv\<close>): the flag \<^verbatim>\<open>shim-path\<close> and the formats of the Go library.
\<close>

section \<open>Data\<close>

record pendingRequest =
  pr_startTime :: time
  pr_req :: httpRequest
  pr_respChan :: nat

definition newPendingRequest :: "time \<Rightarrow> httpRequest \<Rightarrow> nat \<Rightarrow> pendingRequest" where
  "newPendingRequest t r ch = \<lparr>pr_startTime = t, pr_req = r, pr_respChan = ch\<rparr>"

text \<open>
  The response an agent posts: status, header, trailer, and the body with the error that ends
  it early, if one does.
\<close>

record agentResponse =
  ar_StatusCode :: nat
  ar_Header :: header
  ar_Trailer :: header
  ar_Body :: bytes
  ar_BodyErr :: "error option"

record shimSession =
  ss_ID :: string
  ss_Version :: nat
  ss_Subprotocol :: string

record serverEnv =
  shimPath :: string
  printableRune :: "nat \<Rightarrow> bool"
  readAgentResponse :: "httpRequest \<Rightarrow> httpRequest \<Rightarrow> error + agentResponse"
  requestBytes :: "httpRequest \<Rightarrow> bytes"
  marshalIDs :: "string list \<Rightarrow> error + bytes"
  unmarshalSession :: "bytes \<Rightarrow> error + shimSession"

text \<open>
  How a frontend handler ends: \<open>Failed\<close> is a non-nil error; the others return nil, after
  the whole response (\<open>Completed\<close>), after a failed write to the client (\<open>Abandoned\<close>), or
  after a shim response, with what it hands to the websocket session.
\<close>

datatype frontResult =
    Failed error
  | Completed
  | Abandoned
  | ShimIgnored
  | ShimOpened shimSession
  | ShimPolled bytes

datatype frontPC =
    Registered
  | Enqueueing
  | Awaiting
  | Streaming nat agentResponse
  | ReadingAll nat agentResponse bytes
  | Returned frontResult

text \<open>
  A frontend handler. \<open>f_shim\<close>: called by the websocket handler (a non-nil session);
  \<open>f_enqueued\<close>: its ID was taken from the channel; \<open>f_from\<close>: the POST whose response it
  received; \<open>f_bodyClosed\<close>: it closed the body of that response.
\<close>

record frontend =
  f_id :: string
  f_pending :: pendingRequest
  f_shim :: bool
  f_pc :: frontPC
  f_w :: responseWriter
  f_enqueued :: bool
  f_from :: "nat option"
  f_bodyClosed :: bool

datatype pollerPC = Polling | Collecting | PollDone

record poller =
  po_ids :: "string list"
  po_pc :: pollerPC
  po_w :: responseWriter

text \<open>
  A POST handler, with the request \<open>ps_req\<close> it serves: offering its response on a channel, copying
  the rest of the body, or done.
\<close>

datatype posterPC = Offering nat | Copying nat bytes | PosterDone

record poster =
  ps_req :: httpRequest
  ps_id :: string
  ps_resp :: "agentResponse option"
  ps_pc :: posterPC
  ps_w :: responseWriter

record proxy =
  p_requests :: "(string \<times> pendingRequest) list"
  p_fronts :: "frontend list"
  p_pollers :: "poller list"
  p_posters :: "poster list"

definition newProxy :: proxy where
  "newProxy = \<lparr>p_requests = [], p_fronts = [], p_pollers = [], p_posters = []\<rparr>"

definition setFront :: "nat \<Rightarrow> frontend \<Rightarrow> proxy \<Rightarrow> proxy" where
  "setFront h f p = p\<lparr>p_fronts := (p_fronts p)[h := f]\<rparr>"

definition setPoller :: "nat \<Rightarrow> poller \<Rightarrow> proxy \<Rightarrow> proxy" where
  "setPoller k q p = p\<lparr>p_pollers := (p_pollers p)[k := q]\<rparr>"

definition setPoster :: "nat \<Rightarrow> poster \<Rightarrow> proxy \<Rightarrow> proxy" where
  "setPoster j q p = p\<lparr>p_posters := (p_posters p)[j := q]\<rparr>"

section \<open>Request IDs and headers\<close>

definition hexBytes :: "bytes \<Rightarrow> string" where
  "hexBytes bs = concat (map (\<lambda>c. [hexDigit (of_char c div 16), hexDigit (of_char c mod 16)]) bs)"

text \<open>\<open>sha\<close> is SHA-256 and \<open>n\<close> the random number drawn.\<close>

definition newID :: "(bytes \<Rightarrow> bytes) \<Rightarrow> nat \<Rightarrow> string" where
  "newID sha n = hexBytes (sha (Itoa n))"

definition isHopByHopHeader :: "string \<Rightarrow> bool" where
  "isHopByHopHeader name \<longleftrightarrow>
     ToLower name \<in> {''connection'', ''keep-alive'', ''proxy-authenticate'', ''proxy-authorization'',
                     ''te'', ''trailer'', ''transfer-encoding'', ''upgrade''}"

definition delHopHeaders :: "header \<Rightarrow> header" where
  "delHopHeaders hdr = fold (\<lambda>(name, vals) h. if isHopByHopHeader name then headerDel h name else h) hdr hdr"

definition copyResponseHeader :: "header \<Rightarrow> header \<Rightarrow> header" where
  "copyResponseHeader src hdr =
     fold (\<lambda>(name, vals) h. if isHopByHopHeader name then h else headerAssign h name vals) src hdr"

definition copyTrailer :: "header \<Rightarrow> header \<Rightarrow> header" where
  "copyTrailer trailer hdr =
     fold (\<lambda>(name, vals) h. if isHopByHopHeader name then h else addValues (TrailerPrefix @ name) vals h) trailer hdr"

section \<open>Agent handlers\<close>

definition handleAgentPostResponse :: "serverEnv \<Rightarrow> responseWriter \<Rightarrow> httpRequest \<Rightarrow> string \<Rightarrow> proxy \<Rightarrow> poster" where
  "handleAgentPostResponse env w r requestID p =
     (case map_of (p_requests p) requestID of
        None \<Rightarrow> \<lparr>ps_req = r, ps_id = requestID, ps_resp = None, ps_pc = PosterDone, ps_w = httpNotFound w\<rparr>
      | Some pending \<Rightarrow>
          (case readAgentResponse env r (pr_req pending) of
             Inl err \<Rightarrow> \<lparr>ps_req = r, ps_id = requestID, ps_resp = None, ps_pc = PosterDone,
                         ps_w = httpError w ''Failure parsing request body'' 400\<rparr>
           | Inr resp \<Rightarrow> \<lparr>ps_req = r, ps_id = requestID, ps_resp = Some resp,
                          ps_pc = Offering (pr_respChan pending), ps_w = w\<rparr>))"

definition handleAgentGetRequest :: "serverEnv \<Rightarrow> responseWriter \<Rightarrow> string \<Rightarrow> proxy \<Rightarrow> responseWriter" where
  "handleAgentGetRequest env w requestID p =
     (case map_of (p_requests p) requestID of
        None \<Rightarrow> httpNotFound w
      | Some pending \<Rightarrow>
          (let w1 = HeaderSet w utilHeaderRequestStartTime (formatRFC3339Nano (pr_startTime pending))
           in WriteBody (WriteHeader w1 200) (requestBytes env (pr_req pending))))"

text \<open>The answer of a list handler once \<^verbatim>\<open>waitForRequestIDs\<close> returned.\<close>

definition handleAgentListRequests :: "serverEnv \<Rightarrow> responseWriter \<Rightarrow> string list \<Rightarrow> responseWriter" where
  "handleAgentListRequests env w requestIDs =
     (case marshalIDs env requestIDs of
        Inl err \<Rightarrow> httpError w (''Failure serializing the request IDs: '' @ errorText err) 500
      | Inr respJSON \<Rightarrow> WriteBody (WriteHeader w 200) respJSON)"

section \<open>Routing\<close>

datatype route = ListRequests | PostResponse string | GetRequest string | Websocket | Frontend

definition routeAgent :: "httpRequest \<Rightarrow> route" where
  "routeAgent r =
     (let requestID = headerGet (hr_Header r) utilHeaderRequestID in
      if requestID = [] then ListRequests
      else if hr_Method r = ''POST'' then PostResponse requestID
      else GetRequest requestID)"

definition routeRequest :: "serverEnv \<Rightarrow> httpRequest \<Rightarrow> route" where
  "routeRequest env r =
     (if headerGet (hr_Header r) utilHeaderBackendID \<noteq> [] then routeAgent r
      else if shimPath env \<noteq> [] \<and> ToLower (headerGet (hr_Header r) ''Connection'') = ''upgrade''
              \<and> ToLower (headerGet (hr_Header r) ''Upgrade'') = ''websocket'' then Websocket
      else Frontend)"

section \<open>Frontend handler\<close>

text \<open>\<^verbatim>\<open>handleFrontendRequest\<close> up to the map update.\<close>

definition registerFront :: "string \<Rightarrow> time \<Rightarrow> bool \<Rightarrow> httpRequest \<Rightarrow> proxy \<Rightarrow> proxy" where
  "registerFront i t shim r p =
     (let r1 = r\<lparr>hr_Header := delHopHeaders (hr_Header r)\<rparr>;
          pending = newPendingRequest t r1 (length (p_fronts p));
          f = \<lparr>f_id = i, f_pending = pending, f_shim = shim, f_pc = Registered, f_w = newResponseWriter,
               f_enqueued = False, f_from = None, f_bodyClosed = False\<rparr>
      in p\<lparr>p_requests := AList.update i pending (p_requests p), p_fronts := p_fronts p @ [f]\<rparr>)"

text \<open>Returning runs the deferred deletion of the ID from the map.\<close>

definition returnFront :: "nat \<Rightarrow> frontend \<Rightarrow> frontResult \<Rightarrow> proxy \<Rightarrow> proxy" where
  "returnFront h f res p =
     (setFront h (f\<lparr>f_pc := Returned res\<rparr>) p)\<lparr>p_requests := AList.delete (f_id f) (p_requests p)\<rparr>"

definition readsShimBody :: "serverEnv \<Rightarrow> string \<Rightarrow> agentResponse \<Rightarrow> bool" where
  "readsShimBody env path resp \<longleftrightarrow>
     ar_StatusCode resp \<noteq> 200 \<or> path = shimPath env @ ''/open'' \<or> path = shimPath env @ ''/poll''"

text \<open>What happens when the response arrives from POST \<open>j\<close>.\<close>

definition receiveResponse :: "serverEnv \<Rightarrow> nat \<Rightarrow> frontend \<Rightarrow> nat \<Rightarrow> agentResponse \<Rightarrow> proxy \<Rightarrow> proxy" where
  "receiveResponse env h f j resp p =
     (let f1 = f\<lparr>f_from := Some j\<rparr> in
      if f_shim f
      then (if readsShimBody env (hr_Path (pr_req (f_pending f))) resp
            then setFront h (f1\<lparr>f_pc := ReadingAll j resp []\<rparr>) p
            else returnFront h f1 ShimIgnored p)
      else (let hdr = headerAdd (copyResponseHeader (ar_Header resp) (rw_Header (f_w f))) ''transfer-encoding'' ''chunked'';
                w = WriteHeader ((f_w f)\<lparr>rw_Header := hdr\<rparr>) (ar_StatusCode resp)
            in setFront h (f1\<lparr>f_w := w, f_pc := Streaming j resp\<rparr>) p))"

text \<open>A chunk of the body arrives through the pipe.\<close>

definition consumeChunk :: "frontend \<Rightarrow> bytes \<Rightarrow> frontend" where
  "consumeChunk f bs =
     (case f_pc f of
        Streaming j resp \<Rightarrow> f\<lparr>f_w := WriteBody (f_w f) bs\<rparr>
      | ReadingAll j resp got \<Rightarrow> f\<lparr>f_pc := ReadingAll j resp (got @ bs)\<rparr>
      | _ \<Rightarrow> f)"

definition websocketShimResponseHandlerOpen :: "serverEnv \<Rightarrow> bytes \<Rightarrow> frontResult" where
  "websocketShimResponseHandlerOpen env got =
     (case unmarshalSession env got of
        Inl err \<Rightarrow> Failed (ErrMsg (shimPath env @ ''/open: failed to parse JSON encoded data: '' @ errorText err))
      | Inr session \<Rightarrow> ShimOpened session)"

definition websocketShimResponseHandlerPoll :: "bytes \<Rightarrow> frontResult" where
  "websocketShimResponseHandlerPoll got = ShimPolled got"

definition shimResult :: "serverEnv \<Rightarrow> string \<Rightarrow> agentResponse \<Rightarrow> bytes \<Rightarrow> frontResult" where
  "shimResult env path resp got =
     (if ar_StatusCode resp \<noteq> 200
      then Failed (ErrMsg (path @ '': http status code '' @ Itoa (ar_StatusCode resp) @ '', response: '' @ got))
      else if path = shimPath env @ ''/open'' then websocketShimResponseHandlerOpen env got
      else websocketShimResponseHandlerPoll got)"

text \<open>The end of the body: reads of the pipe end with EOF, never with an error.\<close>

definition finishBody :: "serverEnv \<Rightarrow> nat \<Rightarrow> frontend \<Rightarrow> proxy \<Rightarrow> proxy" where
  "finishBody env h f p =
     (case f_pc f of
        Streaming j resp \<Rightarrow>
          (let w = (f_w f)\<lparr>rw_Header := copyTrailer (ar_Trailer resp) (rw_Header (f_w f))\<rparr>
           in returnFront h (f\<lparr>f_w := w, f_bodyClosed := True\<rparr>) Completed p)
      | ReadingAll j resp got \<Rightarrow> returnFront h f (shimResult env (hr_Path (pr_req (f_pending f))) resp got) p
      | _ \<Rightarrow> p)"

section \<open>Steps\<close>

datatype event =
    Arrive httpRequest string time
  | ShimArrive httpRequest string time
  | AtSelect nat
  | CancelFront nat
  | PollTake nat nat
  | PollTimeout nat
  | PollReturn nat
  | CancelPost nat
  | Deliver nat nat
  | Chunk nat nat
  | PostEnd nat
  | PostBroken nat
  | FrontEnd nat
  | ClientGone nat

definition ServeHTTP :: "serverEnv \<Rightarrow> httpRequest \<Rightarrow> string \<Rightarrow> time \<Rightarrow> proxy \<Rightarrow> proxy" where
  "ServeHTTP env r i t p =
     (case routeRequest env r of
        ListRequests \<Rightarrow> p\<lparr>p_pollers := p_pollers p @ [\<lparr>po_ids = [], po_pc = Polling, po_w = newResponseWriter\<rparr>]\<rparr>
      | PostResponse requestID \<Rightarrow>
          p\<lparr>p_posters := p_posters p @ [handleAgentPostResponse env newResponseWriter r requestID p]\<rparr>
      | GetRequest requestID \<Rightarrow> p
      | Websocket \<Rightarrow> p
      | Frontend \<Rightarrow> registerFront i t False r p)"

definition frontAt :: "proxy \<Rightarrow> nat \<Rightarrow> frontPC \<Rightarrow> bool" where
  "frontAt p h pc \<longleftrightarrow> h < length (p_fronts p) \<and> f_pc (p_fronts p ! h) = pc"

definition readsFrom :: "proxy \<Rightarrow> nat \<Rightarrow> nat \<Rightarrow> bool" where
  "readsFrom p h j \<longleftrightarrow>
     h < length (p_fronts p)
     \<and> (case f_pc (p_fronts p ! h) of Streaming j' _ \<Rightarrow> j' = j | ReadingAll j' _ _ \<Rightarrow> j' = j | _ \<Rightarrow> False)"

fun serverStep :: "serverEnv \<Rightarrow> event \<Rightarrow> proxy \<Rightarrow> proxy option" where
  "serverStep env (Arrive r i t) p = Some (ServeHTTP env r i t p)"
| "serverStep env (ShimArrive r i t) p = Some (registerFront i t True r p)"
| "serverStep env (AtSelect h) p =
     (if frontAt p h Registered then Some (setFront h ((p_fronts p ! h)\<lparr>f_pc := Enqueueing\<rparr>) p) else None)"
| "serverStep env (CancelFront h) p =
     (if (frontAt p h Enqueueing \<or> frontAt p h Awaiting) \<and> \<not> f_shim (p_fronts p ! h)
      then Some (returnFront h (p_fronts p ! h)
             (Failed (ErrMsg ((if frontAt p h Enqueueing then ''timeout waiting to enqueue the request ID for ''
                               else ''timeout waiting for the response to '')
                              @ Quote (printableRune env) (f_id (p_fronts p ! h))))) p)
      else None)"
| "serverStep env (PollTake k h) p =
     (if k < length (p_pollers p) \<and> po_pc (p_pollers p ! k) \<noteq> PollDone \<and> frontAt p h Enqueueing
      then (let f = p_fronts p ! h; q = p_pollers p ! k
            in Some (setFront h (f\<lparr>f_pc := Awaiting, f_enqueued := True\<rparr>)
                  (setPoller k (q\<lparr>po_ids := po_ids q @ [f_id f], po_pc := Collecting\<rparr>) p)))
      else None)"
| "serverStep env (PollTimeout k) p =
     (if k < length (p_pollers p) \<and> po_pc (p_pollers p ! k) = Polling
      then Some (setPoller k ((p_pollers p ! k)\<lparr>po_pc := PollDone, po_w := handleAgentListRequests env (po_w (p_pollers p ! k)) []\<rparr>) p)
      else None)"
| "serverStep env (PollReturn k) p =
     (if k < length (p_pollers p) \<and> po_pc (p_pollers p ! k) = Collecting
         \<and> list_all (\<lambda>f. f_pc f \<noteq> Enqueueing) (p_fronts p)
      then (let q = p_pollers p ! k
            in Some (setPoller k (q\<lparr>po_pc := PollDone, po_w := handleAgentListRequests env (po_w q) (po_ids q)\<rparr>) p))
      else None)"
| "serverStep env (CancelPost j) p =
     (if j < length (p_posters p) \<and> (case ps_pc (p_posters p ! j) of Offering _ \<Rightarrow> True | _ \<Rightarrow> False)
      then Some (setPoster j ((p_posters p ! j)\<lparr>ps_pc := PosterDone\<rparr>) p) else None)"
| "serverStep env (Deliver j h) p =
     (if j < length (p_posters p) \<and> ps_pc (p_posters p ! j) = Offering h \<and> frontAt p h Awaiting
      then (case ps_resp (p_posters p ! j) of
              None \<Rightarrow> None
            | Some resp \<Rightarrow>
                Some (receiveResponse env h (p_fronts p ! h) j resp
                       (setPoster j ((p_posters p ! j)\<lparr>ps_pc := Copying h (ar_Body resp)\<rparr>) p)))
      else None)"
| "serverStep env (Chunk j n) p =
     (if j < length (p_posters p)
      then (case ps_pc (p_posters p ! j) of
              Copying h rest \<Rightarrow>
                if 0 < n \<and> n \<le> length rest \<and> readsFrom p h j
                then Some (setFront h (consumeChunk (p_fronts p ! h) (take n rest))
                       (setPoster j ((p_posters p ! j)\<lparr>ps_pc := Copying h (drop n rest)\<rparr>) p))
                else None
            | _ \<Rightarrow> None)
      else None)"
| "serverStep env (PostEnd j) p =
     (if j < length (p_posters p)
      then (case (ps_pc (p_posters p ! j), ps_resp (p_posters p ! j)) of
              (Copying h [], Some resp) \<Rightarrow>
                Some (setPoster j ((p_posters p ! j)\<lparr>ps_pc := PosterDone,
                        ps_w := (if ar_BodyErr resp = None then ps_w (p_posters p ! j)
                                 else httpError (ps_w (p_posters p ! j)) ''Failure reading request body'' 500)\<rparr>) p)
            | _ \<Rightarrow> None)
      else None)"
| "serverStep env (PostBroken j) p =
     (if j < length (p_posters p)
      then (case ps_pc (p_posters p ! j) of
              Copying h rest \<Rightarrow>
                if rest \<noteq> [] \<and> h < length (p_fronts p) \<and> f_bodyClosed (p_fronts p ! h)
                then Some (setPoster j ((p_posters p ! j)\<lparr>ps_pc := PosterDone,
                        ps_w := httpError (ps_w (p_posters p ! j)) ''Failure reading request body'' 500\<rparr>) p)
                else None
            | _ \<Rightarrow> None)
      else None)"
| "serverStep env (FrontEnd h) p =
     (if h < length (p_fronts p)
      then (case f_from (p_fronts p ! h) of
              Some j \<Rightarrow>
                if j < length (p_posters p) \<and> ps_pc (p_posters p ! j) = PosterDone \<and> readsFrom p h j
                then Some (finishBody env h (p_fronts p ! h) p) else None
            | None \<Rightarrow> None)
      else None)"
| "serverStep env (ClientGone h) p =
     (if h < length (p_fronts p)
      then (case f_pc (p_fronts p ! h) of
              Streaming j resp \<Rightarrow>
                Some (returnFront h ((p_fronts p ! h)\<lparr>f_bodyClosed := True\<rparr>) Abandoned p)
            | _ \<Rightarrow> None)
      else None)"

end
