(* ===== verification/Server_Proxy_Correct.thy ===== *)
theory Server_Proxy_Correct
  imports Server_Proxy "HOL-Library.Multiset"
begin

text \<open>
  The invariant of the stand-alone proxy and its preservation by every event. It ties each frontend
  handler to the POST whose response it received (same request ID, the bytes written so far are the
  start of that response), each POST to the handler it delivers to, and the map of pending requests
  to the handlers that have not returned; and it counts the IDs handed out to agents.
\<close>

section \<open>The invariant\<close>

text \<open>What has come out of the pipe, given where the POST that fills it is.\<close>

definition carried :: "posterPC \<Rightarrow> nat \<Rightarrow> bytes \<Rightarrow> bytes \<Rightarrow> bool" where
  "carried pc h got body =
     (case pc of
        Offering _ \<Rightarrow> False
      | Copying h' rest \<Rightarrow> h' = h \<and> got @ rest = body
      | PosterDone \<Rightarrow> got = body)"

definition isReturned :: "frontPC \<Rightarrow> bool" where
  "isReturned pc = (case pc of Returned _ \<Rightarrow> True | _ \<Rightarrow> False)"

text \<open>The header and the trailer a client gets of a response.\<close>

definition clientHeader :: "agentResponse \<Rightarrow> header" where
  "clientHeader resp = headerAdd (copyResponseHeader (ar_Header resp) []) ''transfer-encoding'' ''chunked''"

definition receivedPlain :: "nat \<Rightarrow> frontend \<Rightarrow> nat \<Rightarrow> agentResponse \<Rightarrow> posterPC \<Rightarrow> bool" where
  "receivedPlain h f j resp pc \<longleftrightarrow>
     rw_Sent (f_w f) = Some (ar_StatusCode resp, clientHeader resp)
     \<and> (case f_pc f of
          Streaming j' resp' \<Rightarrow>
            j' = j \<and> resp' = resp \<and> \<not> f_bodyClosed f \<and> rw_Header (f_w f) = clientHeader resp
            \<and> carried pc h (rw_Body (f_w f)) (ar_Body resp)
        | Returned res \<Rightarrow>
            (case res of
               Completed \<Rightarrow> rw_Body (f_w f) = ar_Body resp \<and> pc = PosterDone
                 \<and> rw_Header (f_w f) = copyTrailer (ar_Trailer resp) (clientHeader resp)
             | Abandoned \<Rightarrow> f_bodyClosed f \<and> (\<exists>more. ar_Body resp = rw_Body (f_w f) @ more)
                 \<and> (case pc of Offering _ \<Rightarrow> False | Copying h' _ \<Rightarrow> h' = h | PosterDone \<Rightarrow> True)
             | _ \<Rightarrow> False)
        | _ \<Rightarrow> False)"

definition receivedShim :: "serverEnv \<Rightarrow> nat \<Rightarrow> frontend \<Rightarrow> nat \<Rightarrow> agentResponse \<Rightarrow> posterPC \<Rightarrow> bool" where
  "receivedShim env h f j resp pc \<longleftrightarrow>
     \<not> f_bodyClosed f
     \<and> (case f_pc f of
          ReadingAll j' resp' got \<Rightarrow> j' = j \<and> resp' = resp \<and> carried pc h got (ar_Body resp)
            \<and> readsShimBody env (hr_Path (pr_req (f_pending f))) resp
        | Returned res \<Rightarrow>
            if readsShimBody env (hr_Path (pr_req (f_pending f))) resp
            then res = shimResult env (hr_Path (pr_req (f_pending f))) resp (ar_Body resp) \<and> pc = PosterDone
            else res = ShimIgnored \<and> (pc = Copying h (ar_Body resp) \<or> pc = PosterDone \<and> ar_Body resp = [])
        | _ \<Rightarrow> False)"

definition frontOk :: "serverEnv \<Rightarrow> poster list \<Rightarrow> nat \<Rightarrow> frontend \<Rightarrow> bool" where
  "frontOk env posters h f \<longleftrightarrow>
     pr_respChan (f_pending f) = h
     \<and> (f_pc f = Registered \<or> f_pc f = Enqueueing \<longrightarrow> \<not> f_enqueued f)
     \<and> (f_pc f = Awaiting \<or> f_from f \<noteq> None \<longrightarrow> f_enqueued f)
     \<and> (case f_from f of
          None \<Rightarrow> f_w f = newResponseWriter \<and> \<not> f_bodyClosed f
            \<and> (f_pc f = Registered \<or> f_pc f = Enqueueing \<or> f_pc f = Awaiting \<or> (\<exists>e. f_pc f = Returned (Failed e)))
        | Some j \<Rightarrow> j < length posters \<and> ps_id (posters ! j) = f_id f
            \<and> (\<exists>resp. ps_resp (posters ! j) = Some resp
                 \<and> readAgentResponse env (ps_req (posters ! j)) (pr_req (f_pending f)) = Inr resp
                 \<and> (if f_shim f then receivedShim env h f j resp (ps_pc (posters ! j))
                    else receivedPlain h f j resp (ps_pc (posters ! j)))))"

definition posterOk :: "serverEnv \<Rightarrow> frontend list \<Rightarrow> nat \<Rightarrow> poster \<Rightarrow> bool" where
  "posterOk env fronts j q \<longleftrightarrow>
     ps_id q = headerGet (hr_Header (ps_req q)) utilHeaderRequestID
     \<and> (case ps_pc q of
        Offering h \<Rightarrow> h < length fronts \<and> f_id (fronts ! h) = ps_id q
          \<and> (\<exists>resp. ps_resp q = Some resp \<and> readAgentResponse env (ps_req q) (pr_req (f_pending (fronts ! h))) = Inr resp)
      | Copying h rest \<Rightarrow> h < length fronts \<and> f_from (fronts ! h) = Some j
      | PosterDone \<Rightarrow> True)"

definition requestOk :: "frontend list \<Rightarrow> string \<Rightarrow> pendingRequest \<Rightarrow> bool" where
  "requestOk fronts i pr \<longleftrightarrow>
     pr_respChan pr < length fronts
     \<and> (let f = fronts ! pr_respChan pr in f_id f = i \<and> f_pending f = pr \<and> \<not> isReturned (f_pc f))"

text \<open>No two handlers received the response of the same POST.\<close>

definition separateReceivers :: "frontend list \<Rightarrow> bool" where
  "separateReceivers fs \<longleftrightarrow>
     (\<forall>h<length fs. \<forall>k<length fs. \<forall>j. f_from (fs ! h) = Some j \<and> f_from (fs ! k) = Some j \<longrightarrow> h = k)"

lemma separateReceivers_update:
  assumes "separateReceivers fs" and "h < length fs"
    and "f_from f = f_from (fs ! h) \<or> (\<forall>k<length fs. f_from (fs ! k) \<noteq> f_from f)"
  shows "separateReceivers (fs[h := f])"
  unfolding separateReceivers_def
proof (intro allI impI)
  fix a b j assume ab: "a < length (fs[h := f])" "b < length (fs[h := f])"
    and j: "f_from (fs[h := f] ! a) = Some j \<and> f_from (fs[h := f] ! b) = Some j"
  then show "a = b"
    using assms unfolding separateReceivers_def by (cases "a = h"; cases "b = h") (auto, metis+)
qed

lemma separateReceivers_snoc: "separateReceivers fs \<Longrightarrow> f_from f = None \<Longrightarrow> separateReceivers (fs @ [f])"
  by (auto simp: separateReceivers_def nth_append less_Suc_eq)

definition takenIds :: "proxy \<Rightarrow> string list" where
  "takenIds p = concat (map po_ids (p_pollers p))"

definition server_inv :: "serverEnv \<Rightarrow> proxy \<Rightarrow> bool" where
  "server_inv env p \<longleftrightarrow>
     (\<forall>h<length (p_fronts p). frontOk env (p_posters p) h (p_fronts p ! h))
     \<and> (\<forall>j<length (p_posters p). posterOk env (p_fronts p) j (p_posters p ! j))
     \<and> (\<forall>i pr. map_of (p_requests p) i = Some pr \<longrightarrow> requestOk (p_fronts p) i pr)
     \<and> mset (takenIds p) = image_mset f_id (filter_mset f_enqueued (mset (p_fronts p)))
     \<and> separateReceivers (p_fronts p)"

lemma server_inv_new: "server_inv env newProxy"
  by (simp add: server_inv_def newProxy_def takenIds_def separateReceivers_def)

lemma server_invI:
  assumes "\<And>h. h < length (p_fronts p) \<Longrightarrow> frontOk env (p_posters p) h (p_fronts p ! h)"
    and "\<And>j. j < length (p_posters p) \<Longrightarrow> posterOk env (p_fronts p) j (p_posters p ! j)"
    and "\<And>i pr. map_of (p_requests p) i = Some pr \<Longrightarrow> requestOk (p_fronts p) i pr"
    and "mset (takenIds p) = image_mset f_id (filter_mset f_enqueued (mset (p_fronts p)))"
    and "separateReceivers (p_fronts p)"
  shows "server_inv env p"
  using assms by (simp add: server_inv_def)

lemma server_invD:
  assumes "server_inv env p"
  shows "\<And>h. h < length (p_fronts p) \<Longrightarrow> frontOk env (p_posters p) h (p_fronts p ! h)"
    and "\<And>j. j < length (p_posters p) \<Longrightarrow> posterOk env (p_fronts p) j (p_posters p ! j)"
    and "\<And>i pr. map_of (p_requests p) i = Some pr \<Longrightarrow> requestOk (p_fronts p) i pr"
    and "mset (takenIds p) = image_mset f_id (filter_mset f_enqueued (mset (p_fronts p)))"
    and "separateReceivers (p_fronts p)"
  using assms by (simp_all add: server_inv_def)

section \<open>Updates of one thread\<close>

lemma filter_enqueued_update:
  assumes "h < length fs"
  shows "image_mset f_id (filter_mset f_enqueued (mset (fs[h := f]))) =
     image_mset f_id (filter_mset f_enqueued (mset fs))
     - (if f_enqueued (fs ! h) then {#f_id (fs ! h)#} else {#})
     + (if f_enqueued f then {#f_id f#} else {#})"
proof -
  have m: "fs ! h \<in># mset fs" using assms by simp
  then obtain M where M: "mset fs = add_mset (fs ! h) M" by (metis multi_member_split)
  then show ?thesis using assms by (simp add: mset_update)
qed

lemma posterOk_setFront:
  assumes "posterOk env fs j q" and "h < length fs \<longrightarrow> f_id f = f_id (fs ! h) \<and> f_pending f = f_pending (fs ! h) \<and> (f_from (fs ! h) \<noteq> None \<longrightarrow> f_from f = f_from (fs ! h))"
  shows "posterOk env (fs[h := f]) j q"
  using assms by (cases "h < length fs") (auto simp: posterOk_def nth_list_update split: posterPC.splits)

lemma requestOk_setFront:
  assumes "requestOk fs i pr" and "h < length fs \<longrightarrow> f_id f = f_id (fs ! h) \<and> f_pending f = f_pending (fs ! h)"
    and "isReturned (f_pc f) \<longrightarrow> pr_respChan pr \<noteq> h"
  shows "requestOk (fs[h := f]) i pr"
  using assms by (cases "h < length fs") (auto simp: requestOk_def nth_list_update Let_def)

lemma requestOk_chan: "requestOk fs i pr \<Longrightarrow> f_id (fs ! pr_respChan pr) = i"
  by (simp add: requestOk_def Let_def)

text \<open>
  The general step of one handler \<open>h\<close> and one POST \<open>j\<close>: only the two threads, the map (from
  which entries may disappear) and the IDs handed out change.
\<close>

lemma inv_threads:
  assumes inv: "server_inv env p" and h: "h < length (p_fronts p)"
    and same: "f_id f = f_id (p_fronts p ! h)" "f_pending f = f_pending (p_fronts p ! h)"
      "f_enqueued (p_fronts p ! h) \<longrightarrow> f_enqueued f" "f_from (p_fronts p ! h) \<noteq> None \<longrightarrow> f_from f = f_from (p_fronts p ! h)"
    and p': "p_fronts p' = (p_fronts p)[h := f]" "p_posters p' = (p_posters p)[j := q]"
    and reqs: "\<And>i pr. map_of (p_requests p') i = Some pr \<Longrightarrow>
      map_of (p_requests p) i = Some pr \<and> (isReturned (f_pc f) \<longrightarrow> i \<noteq> f_id f)"
    and taken: "mset (takenIds p') = mset (takenIds p)
      + (if f_enqueued f \<and> \<not> f_enqueued (p_fronts p ! h) then {#f_id f#} else {#})"
    and front: "frontOk env (p_posters p') h f"
    and others: "\<And>k. k < length (p_fronts p) \<Longrightarrow> k \<noteq> h \<Longrightarrow> f_from (p_fronts p ! k) = Some j \<Longrightarrow>
      frontOk env (p_posters p') k (p_fronts p ! k)"
    and poster: "j < length (p_posters p) \<Longrightarrow> posterOk env (p_fronts p') j q"
    and fresh: "f_from f = f_from (p_fronts p ! h) \<or> (\<forall>k<length (p_fronts p). f_from (p_fronts p ! k) \<noteq> f_from f)"
  shows "server_inv env p'"
proof (rule server_invI)
  note D = server_invD [OF inv]
  show "frontOk env (p_posters p') k (p_fronts p' ! k)" if "k < length (p_fronts p')" for k
  proof (cases "k = h")
    case True
    then show ?thesis using that front p' by simp
  next
    case False
    then have k: "k < length (p_fronts p)" "p_fronts p' ! k = p_fronts p ! k" using that p' by simp_all
    show ?thesis
    proof (cases "f_from (p_fronts p ! k) = Some j")
      case True
      then show ?thesis using others [OF k(1) False] k(2) by simp
    next
      case other: False
      then have "frontOk env (p_posters p') k (p_fronts p ! k) = frontOk env (p_posters p) k (p_fronts p ! k)"
        by (cases "f_from (p_fronts p ! k)") (simp_all add: frontOk_def p')
      then show ?thesis using D(1) [OF k(1)] k(2) by simp
    qed
  qed
  show "posterOk env (p_fronts p') k (p_posters p' ! k)" if "k < length (p_posters p')" for k
  proof (cases "k = j")
    case True
    then show ?thesis using that poster p' by simp
  next
    case False
    then show ?thesis using that D(2) [of k] same p' by (simp add: posterOk_setFront)
  qed
  show "requestOk (p_fronts p') i pr" if "map_of (p_requests p') i = Some pr" for i pr
  proof -
    note r = reqs [OF that]
    then have ok: "requestOk (p_fronts p) i pr" using D(3) by blast
    then have "isReturned (f_pc f) \<longrightarrow> pr_respChan pr \<noteq> h" using requestOk_chan [OF ok] r same(1) by metis
    then show ?thesis using ok same by (simp add: p' requestOk_setFront)
  qed
  have "f_id (p_fronts p ! h) \<in># image_mset f_id (filter_mset f_enqueued (mset (p_fronts p)))"
    if "f_enqueued (p_fronts p ! h)"
    using h that by (auto intro!: imageI simp: set_conv_nth)
  then show "mset (takenIds p') = image_mset f_id (filter_mset f_enqueued (mset (p_fronts p')))"
    using D(4) filter_enqueued_update [OF h, of f] same taken by (auto simp: p')
  show "separateReceivers (p_fronts p')"
    using separateReceivers_update [OF D(5) h fresh] by (simp add: p')
qed

text \<open>One handler moves; the rest stays as it is.\<close>

lemma inv_setFront:
  assumes "server_inv env p" and "h < length (p_fronts p)"
    and "f_id f = f_id (p_fronts p ! h)" "f_pending f = f_pending (p_fronts p ! h)"
      "f_enqueued f = f_enqueued (p_fronts p ! h)" "f_from f = f_from (p_fronts p ! h)"
    and "frontOk env (p_posters p) h f" and "\<not> isReturned (f_pc f)"
  shows "server_inv env (setFront h f p)"
proof (rule inv_threads [where j = "length (p_posters p)" and q = undefined, OF assms(1-4)])
  fix k assume k: "k < length (p_fronts p)" "f_from (p_fronts p ! k) = Some (length (p_posters p))"
  then show "frontOk env (p_posters (setFront h f p)) k (p_fronts p ! k)"
    using server_invD(1) [OF assms(1) k(1)] by (simp add: setFront_def)
qed (use assms in \<open>simp_all add: setFront_def takenIds_def list_update_beyond\<close>)

text \<open>A handler returns and its ID leaves the map.\<close>

lemma inv_returnFront:
  assumes "server_inv env p" and "h < length (p_fronts p)"
    and "f_id f = f_id (p_fronts p ! h)" "f_pending f = f_pending (p_fronts p ! h)"
      "f_enqueued f = f_enqueued (p_fronts p ! h)" "f_from f = f_from (p_fronts p ! h)"
    and "frontOk env (p_posters p) h (f\<lparr>f_pc := Returned res\<rparr>)"
  shows "server_inv env (returnFront h f res p)"
proof (rule inv_threads [where j = "length (p_posters p)" and q = undefined and h = h and p = p and f = "f\<lparr>f_pc := Returned res\<rparr>"])
  fix k assume k: "k < length (p_fronts p)" "f_from (p_fronts p ! k) = Some (length (p_posters p))"
  then show "frontOk env (p_posters (returnFront h f res p)) k (p_fronts p ! k)"
    using server_invD(1) [OF assms(1) k(1)] by (simp add: returnFront_def setFront_def)
qed (use assms in \<open>auto simp: returnFront_def setFront_def takenIds_def delete_conv' list_update_beyond split: if_splits\<close>)

text \<open>One POST moves.\<close>

lemma inv_setPoster:
  assumes "server_inv env p" and "j < length (p_posters p)"
    and "posterOk env (p_fronts p) j q"
    and "\<And>k. k < length (p_fronts p) \<Longrightarrow> f_from (p_fronts p ! k) = Some j \<Longrightarrow>
      frontOk env ((p_posters p)[j := q]) k (p_fronts p ! k)"
  shows "server_inv env (setPoster j q p)"
proof (rule server_invI)
  note D = server_invD [OF assms(1)]
  show "frontOk env (p_posters (setPoster j q p)) k (p_fronts (setPoster j q p) ! k)"
    if "k < length (p_fronts (setPoster j q p))" for k
  proof (cases "f_from (p_fronts p ! k) = Some j")
    case True
    then show ?thesis using that assms(4) [of k] by (simp add: setPoster_def)
  next
    case False
    then have "frontOk env ((p_posters p)[j := q]) k (p_fronts p ! k) = frontOk env (p_posters p) k (p_fronts p ! k)"
      by (cases "f_from (p_fronts p ! k)") (simp_all add: frontOk_def)
    then show ?thesis using that D(1) [of k] by (simp add: setPoster_def)
  qed
  show "posterOk env (p_fronts (setPoster j q p)) k (p_posters (setPoster j q p) ! k)"
    if "k < length (p_posters (setPoster j q p))" for k
    using that D(2) [of k] assms(3) by (cases "k = j") (simp_all add: setPoster_def)
qed (use server_invD(3-5) [OF assms(1)] in \<open>simp_all add: setPoster_def takenIds_def\<close>)

text \<open>A list handler moves without taking an ID.\<close>

lemma inv_setPoller:
  assumes "server_inv env p" and "k < length (p_pollers p)" and "po_ids q = po_ids (p_pollers p ! k)"
  shows "server_inv env (setPoller k q p)"
proof (rule server_invI)
  have "map po_ids ((p_pollers p)[k := q]) = map po_ids (p_pollers p)"
    using assms(2,3) by (simp add: map_update list_update_same_conv)
  then show "mset (takenIds (setPoller k q p)) =
      image_mset f_id (filter_mset f_enqueued (mset (p_fronts (setPoller k q p))))"
    using server_invD(4) [OF assms(1)] by (simp add: setPoller_def takenIds_def)
qed (use server_invD(1-3,5) [OF assms(1)] in \<open>simp_all add: setPoller_def\<close>)

section \<open>Preservation, event by event\<close>

lemma mset_concat_update:
  "k < length xss \<Longrightarrow> mset (concat (xss[k := xss ! k @ [x]])) = mset (concat xss) + {#x#}"
proof (induction xss arbitrary: k)
  case (Cons xs xss)
  then show ?case by (cases k) simp_all
qed simp

lemma inv_registerFront:
  assumes inv: "server_inv env p"
  shows "server_inv env (registerFront i t shim r p)"
proof (rule server_invI)
  note D = server_invD [OF inv]
  let ?p = "registerFront i t shim r p"
  define pending where "pending = newPendingRequest t (r\<lparr>hr_Header := delHopHeaders (hr_Header r)\<rparr>) (length (p_fronts p))"
  define f where "f = \<lparr>f_id = i, f_pending = pending, f_shim = shim, f_pc = Registered, f_w = newResponseWriter,
      f_enqueued = False, f_from = None, f_bodyClosed = False\<rparr>"
  have p: "p_fronts ?p = p_fronts p @ [f]" "p_posters ?p = p_posters p" "p_pollers ?p = p_pollers p"
    "p_requests ?p = AList.update i pending (p_requests p)"
    by (simp_all add: registerFront_def f_def pending_def Let_def)
  have chan: "pr_respChan pending = length (p_fronts p)" by (simp add: pending_def newPendingRequest_def)
  show "frontOk env (p_posters ?p) k (p_fronts ?p ! k)" if "k < length (p_fronts ?p)" for k
    using that D(1) [of k] chan by (auto simp: p nth_append less_Suc_eq frontOk_def f_def)
  show "posterOk env (p_fronts ?p) j (p_posters ?p ! j)" if "j < length (p_posters ?p)" for j
    using that D(2) [of j] by (auto simp: p posterOk_def nth_append split: posterPC.splits)
  show "requestOk (p_fronts ?p) i' pr" if "map_of (p_requests ?p) i' = Some pr" for i' pr
  proof (cases "i' = i")
    case True
    then show ?thesis using that chan by (simp add: p update_conv' requestOk_def f_def isReturned_def)
  next
    case False
    then show ?thesis using that D(3) [of i' pr] by (auto simp: p update_conv' requestOk_def nth_append Let_def)
  qed
  show "mset (takenIds ?p) = image_mset f_id (filter_mset f_enqueued (mset (p_fronts ?p)))"
    using D(4) by (simp add: p takenIds_def f_def)
  show "separateReceivers (p_fronts ?p)"
    using D(5) by (simp add: p f_def separateReceivers_snoc)
qed

lemma inv_newPoster:
  assumes inv: "server_inv env p" and rid: "rid = headerGet (hr_Header r) utilHeaderRequestID"
  shows "server_inv env (p\<lparr>p_posters := p_posters p @ [handleAgentPostResponse env w r rid p]\<rparr>)"
proof (rule server_invI)
  note D = server_invD [OF inv]
  let ?q = "handleAgentPostResponse env w r rid p"
  have q: "posterOk env (p_fronts p) j ?q" for j
    using D(3) [of rid] rid by (auto simp: handleAgentPostResponse_def posterOk_def requestOk_def Let_def split: option.splits sum.splits)
  show "frontOk env (p_posters (p\<lparr>p_posters := p_posters p @ [?q]\<rparr>)) k (p_fronts (p\<lparr>p_posters := p_posters p @ [?q]\<rparr>) ! k)"
    if "k < length (p_fronts (p\<lparr>p_posters := p_posters p @ [?q]\<rparr>))" for k
    using that D(1) [of k] by (auto simp: frontOk_def nth_append split: option.splits)
  show "posterOk env (p_fronts (p\<lparr>p_posters := p_posters p @ [?q]\<rparr>)) j (p_posters (p\<lparr>p_posters := p_posters p @ [?q]\<rparr>) ! j)"
    if "j < length (p_posters (p\<lparr>p_posters := p_posters p @ [?q]\<rparr>))" for j
    using that D(2) [of j] q by (auto simp: nth_append less_Suc_eq)
qed (use server_invD(3-5) [OF inv] in \<open>simp_all add: takenIds_def\<close>)

lemma routeRequest_PostResponse:
  "routeRequest env r = PostResponse rid \<Longrightarrow> rid = headerGet (hr_Header r) utilHeaderRequestID"
  by (auto simp: routeRequest_def routeAgent_def Let_def split: if_splits)

lemma posterOk_id: "posterOk env fs j q \<Longrightarrow> ps_id q = headerGet (hr_Header (ps_req q)) utilHeaderRequestID"
  by (simp add: posterOk_def)

lemma inv_ServeHTTP:
  assumes "server_inv env p"
  shows "server_inv env (ServeHTTP env r i t p)"
proof (cases "routeRequest env r")
  case ListRequests
  then show ?thesis using assms by (simp add: ServeHTTP_def server_inv_def takenIds_def)
qed (simp_all add: ServeHTTP_def assms inv_newPoster inv_registerFront routeRequest_PostResponse)

lemma frontOk_waiting:
  assumes "frontOk env ps h f" and "f_pc f = Registered \<or> f_pc f = Enqueueing \<or> f_pc f = Awaiting"
  shows "f_from f = None" and "f_w f = newResponseWriter" and "\<not> f_bodyClosed f"
  using assms by (auto simp: frontOk_def receivedShim_def receivedPlain_def split: option.splits if_splits)

lemma receiver_unique:
  assumes "frontOk env ps k f" and "f_from f = Some j"
  shows "case ps_pc (ps ! j) of Offering _ \<Rightarrow> False | Copying h _ \<Rightarrow> h = k | PosterDone \<Rightarrow> True"
  using assms
  by (auto simp: frontOk_def receivedShim_def receivedPlain_def carried_def
      split: if_splits frontPC.splits frontResult.splits posterPC.splits)

lemma inv_AtSelect:
  assumes inv: "server_inv env p" and at: "frontAt p h Registered"
  shows "server_inv env (setFront h ((p_fronts p ! h)\<lparr>f_pc := Enqueueing\<rparr>) p)"
proof (rule inv_setFront [OF inv])
  have f: "frontOk env (p_posters p) h (p_fronts p ! h)" "f_pc (p_fronts p ! h) = Registered"
    using server_invD(1) [OF inv] at by (auto simp: frontAt_def)
  then show "frontOk env (p_posters p) h ((p_fronts p ! h)\<lparr>f_pc := Enqueueing\<rparr>)"
    using frontOk_waiting [OF f(1)] by (simp add: frontOk_def)
qed (use at in \<open>simp_all add: frontAt_def isReturned_def\<close>)

lemma inv_CancelFront:
  assumes inv: "server_inv env p" and at: "frontAt p h Enqueueing \<or> frontAt p h Awaiting"
  shows "server_inv env (returnFront h (p_fronts p ! h) (Failed e) p)"
proof (rule inv_returnFront [OF inv])
  have f: "frontOk env (p_posters p) h (p_fronts p ! h)" "f_pc (p_fronts p ! h) = Enqueueing \<or> f_pc (p_fronts p ! h) = Awaiting"
    using server_invD(1) [OF inv] at by (auto simp: frontAt_def)
  then show "frontOk env (p_posters p) h ((p_fronts p ! h)\<lparr>f_pc := Returned (Failed e)\<rparr>)"
    using frontOk_waiting [OF f(1)] by (auto simp: frontOk_def)
qed (use at in \<open>auto simp: frontAt_def\<close>)

lemma inv_PollTake:
  assumes inv: "server_inv env p" and k: "k < length (p_pollers p)" and at: "frontAt p h Enqueueing"
  shows "server_inv env (setFront h ((p_fronts p ! h)\<lparr>f_pc := Awaiting, f_enqueued := True\<rparr>)
     (setPoller k ((p_pollers p ! k)\<lparr>po_ids := po_ids (p_pollers p ! k) @ [f_id (p_fronts p ! h)], po_pc := pc\<rparr>) p))"
    (is "server_inv env ?p")
proof -
  let ?f = "p_fronts p ! h"
  have h: "h < length (p_fronts p)" "f_pc ?f = Enqueueing" using at by (auto simp: frontAt_def)
  note f = server_invD(1) [OF inv h(1)]
  have w: "f_from ?f = None" "f_w ?f = newResponseWriter" "\<not> f_bodyClosed ?f"
    using frontOk_waiting [OF f] h(2) by auto
  have e: "\<not> f_enqueued ?f" using f h(2) by (simp add: frontOk_def)
  have m: "mset (takenIds ?p) = mset (takenIds p) + {#f_id ?f#}"
    using mset_concat_update [of k "map po_ids (p_pollers p)" "f_id ?f"] k
    by (simp add: takenIds_def setFront_def setPoller_def map_update)
  show ?thesis
  proof (rule inv_threads [where j = "length (p_posters p)" and q = undefined and h = h and p = p, OF inv h(1)])
    show "frontOk env (p_posters ?p) h (?f\<lparr>f_pc := Awaiting, f_enqueued := True\<rparr>)"
      using f w by (simp add: frontOk_def)
    fix j assume j: "j < length (p_fronts p)" "f_from (p_fronts p ! j) = Some (length (p_posters p))"
    then show "frontOk env (p_posters ?p) j (p_fronts p ! j)"
      using server_invD(1) [OF inv j(1)] by (simp add: frontOk_def)
  qed (use m e in \<open>simp_all add: setFront_def setPoller_def list_update_beyond isReturned_def\<close>)
qed

lemma inv_CancelPost:
  assumes inv: "server_inv env p" and j: "j < length (p_posters p)" "ps_pc (p_posters p ! j) = Offering h"
  shows "server_inv env (setPoster j ((p_posters p ! j)\<lparr>ps_pc := PosterDone\<rparr>) p)"
proof (rule inv_setPoster [OF inv j(1)])
  fix k assume k: "k < length (p_fronts p)" "f_from (p_fronts p ! k) = Some j"
  then have False using receiver_unique [OF server_invD(1) [OF inv k(1)] k(2)] j(2) by simp
  then show "frontOk env ((p_posters p)[j := (p_posters p ! j)\<lparr>ps_pc := PosterDone\<rparr>]) k (p_fronts p ! k)" ..
qed (use posterOk_id [OF server_invD(2) [OF inv j(1)]] in \<open>simp add: posterOk_def\<close>)

lemma WriteHeader_new:
  "WriteHeader (newResponseWriter\<lparr>rw_Header := hdr\<rparr>) code = \<lparr>rw_Header = hdr, rw_Sent = Some (code, hdr), rw_Body = []\<rparr>"
  by (simp add: WriteHeader_def newResponseWriter_def)

text \<open>The handler of a delivery, in one equation: the new thread and whether it returned.\<close>

definition receivedFront :: "serverEnv \<Rightarrow> frontend \<Rightarrow> nat \<Rightarrow> agentResponse \<Rightarrow> frontend" where
  "receivedFront env f j resp =
     (if f_shim f
      then (if readsShimBody env (hr_Path (pr_req (f_pending f))) resp
            then f\<lparr>f_from := Some j, f_pc := ReadingAll j resp []\<rparr>
            else f\<lparr>f_from := Some j, f_pc := Returned ShimIgnored\<rparr>)
      else f\<lparr>f_from := Some j,
             f_w := \<lparr>rw_Header = clientHeader resp, rw_Sent = Some (ar_StatusCode resp, clientHeader resp), rw_Body = []\<rparr>,
             f_pc := Streaming j resp\<rparr>)"

lemma receiveResponse_fields:
  assumes "f_w f = newResponseWriter"
  shows "p_fronts (receiveResponse env h f j resp p) = (p_fronts p)[h := receivedFront env f j resp]"
    "p_posters (receiveResponse env h f j resp p) = p_posters p"
    "p_pollers (receiveResponse env h f j resp p) = p_pollers p"
    "p_requests (receiveResponse env h f j resp p) =
       (if isReturned (f_pc (receivedFront env f j resp)) then AList.delete (f_id f) (p_requests p) else p_requests p)"
  using assms WriteHeader_new
  by (simp_all add: receiveResponse_def receivedFront_def returnFront_def setFront_def Let_def isReturned_def
      clientHeader_def newResponseWriter_def)

lemma inv_Deliver:
  assumes inv: "server_inv env p" and j: "j < length (p_posters p)" "ps_pc (p_posters p ! j) = Offering h"
    and at: "frontAt p h Awaiting" and resp: "ps_resp (p_posters p ! j) = Some resp"
  shows "server_inv env (receiveResponse env h (p_fronts p ! h) j resp
     (setPoster j ((p_posters p ! j)\<lparr>ps_pc := Copying h (ar_Body resp)\<rparr>) p))" (is "server_inv env ?p")
proof -
  let ?f = "p_fronts p ! h" and ?q = "(p_posters p ! j)\<lparr>ps_pc := Copying h (ar_Body resp)\<rparr>"
  have h: "h < length (p_fronts p)" "f_pc ?f = Awaiting" using at by (auto simp: frontAt_def)
  note ok = server_invD(1) [OF inv h(1)]
  have w: "f_from ?f = None" "f_w ?f = newResponseWriter" "\<not> f_bodyClosed ?f"
    using frontOk_waiting [OF ok] h(2) by auto
  note fields = receiveResponse_fields [OF w(2), of env h j resp "setPoster j ?q p", unfolded setPoster_def]
  have same: "f_id (p_fronts p ! h) = ps_id (p_posters p ! j)"
    "readAgentResponse env (ps_req (p_posters p ! j)) (pr_req (f_pending ?f)) = Inr resp"
    using server_invD(2) [OF inv j(1)] j(2) resp by (auto simp: posterOk_def)
  show ?thesis
  proof (rule inv_threads [where h = h and j = j and q = ?q and f = "receivedFront env ?f j resp", OF inv h(1)])
    show "frontOk env (p_posters ?p) h (receivedFront env ?f j resp)"
      using ok j(1) resp same w h(2)
      by (simp add: fields setPoster_def frontOk_def receivedFront_def receivedShim_def receivedPlain_def carried_def)
    show "posterOk env (p_fronts ?p) j ?q"
      using h(1) posterOk_id [OF server_invD(2) [OF inv j(1)]] by (simp add: fields setPoster_def posterOk_def receivedFront_def)
    show "mset (takenIds ?p) = mset (takenIds p)
        + (if f_enqueued (receivedFront env ?f j resp) \<and> \<not> f_enqueued ?f then {#f_id (receivedFront env ?f j resp)#} else {#})"
      by (simp add: takenIds_def fields setPoster_def receivedFront_def)
    have none: False if "k < length (p_fronts p)" "f_from (p_fronts p ! k) = Some j" for k
      using that receiver_unique [OF server_invD(1) [OF inv], of k j] j(2) by simp
    then show "f_from (receivedFront env ?f j resp) = f_from ?f
        \<or> (\<forall>k<length (p_fronts p). f_from (p_fronts p ! k) \<noteq> f_from (receivedFront env ?f j resp))"
      by (auto simp: receivedFront_def)
    fix k assume "k < length (p_fronts p)" "f_from (p_fronts p ! k) = Some j"
    with none show "frontOk env (p_posters ?p) k (p_fronts p ! k)" by blast
  qed (auto simp: fields setPoster_def receivedFront_def w isReturned_def delete_conv' split: if_splits)
qed

lemma readsFrom_cases:
  assumes "frontOk env ps h f" and "case f_pc f of Streaming j' _ \<Rightarrow> j' = j | ReadingAll j' _ _ \<Rightarrow> j' = j | _ \<Rightarrow> False"
  obtains (plain) resp where "\<not> f_shim f" "f_pc f = Streaming j resp" "f_from f = Some j"
      "j < length ps" "ps_resp (ps ! j) = Some resp" "receivedPlain h f j resp (ps_pc (ps ! j))"
    | (shim) resp got where "f_shim f" "f_pc f = ReadingAll j resp got" "f_from f = Some j"
      "j < length ps" "ps_resp (ps ! j) = Some resp" "receivedShim env h f j resp (ps_pc (ps ! j))"
  using assms
  by (auto simp: frontOk_def receivedShim_def receivedPlain_def split: option.splits if_splits frontPC.splits)

lemma consumeChunk_same [simp]:
  "f_id (consumeChunk f bs) = f_id f" "f_pending (consumeChunk f bs) = f_pending f"
  "f_enqueued (consumeChunk f bs) = f_enqueued f" "f_from (consumeChunk f bs) = f_from f"
  "f_shim (consumeChunk f bs) = f_shim f" "f_bodyClosed (consumeChunk f bs) = f_bodyClosed f"
  by (simp_all add: consumeChunk_def split: frontPC.split)

lemma WriteBody_sent:
  "rw_Sent w = Some x \<Longrightarrow> WriteBody w bs = w\<lparr>rw_Body := rw_Body w @ bs\<rparr>"
  by (simp add: WriteBody_def WriteHeader_def Let_def)

lemma inv_Chunk:
  assumes inv: "server_inv env p" and j: "j < length (p_posters p)" "ps_pc (p_posters p ! j) = Copying h rest"
    and r: "readsFrom p h j"
  shows "server_inv env (setFront h (consumeChunk (p_fronts p ! h) (take n rest))
     (setPoster j ((p_posters p ! j)\<lparr>ps_pc := Copying h (drop n rest)\<rparr>) p))" (is "server_inv env ?p")
proof -
  let ?f = "p_fronts p ! h" and ?q = "(p_posters p ! j)\<lparr>ps_pc := Copying h (drop n rest)\<rparr>"
  let ?f' = "consumeChunk ?f (take n rest)"
  have h: "h < length (p_fronts p)"
    and pc: "case f_pc ?f of Streaming j' _ \<Rightarrow> j' = j | ReadingAll j' _ _ \<Rightarrow> j' = j | _ \<Rightarrow> False"
    using r by (auto simp: readsFrom_def)
  note ok = server_invD(1) [OF inv h]
  have new: "frontOk env ((p_posters p)[j := ?q]) h ?f' \<and> \<not> isReturned (f_pc ?f') \<and> f_from ?f = Some j"
    using ok pc
  proof (cases rule: readsFrom_cases)
    case (plain resp)
    then have "receivedPlain h ?f' j resp (Copying h (drop n rest))"
      using j(2) by (auto simp: receivedPlain_def consumeChunk_def carried_def WriteBody_sent)
    then show ?thesis
      using ok plain j by (auto simp: frontOk_def consumeChunk_def isReturned_def)
  next
    case (shim resp got)
    then have "receivedShim env h ?f' j resp (Copying h (drop n rest))"
      using j(2) by (auto simp: receivedShim_def consumeChunk_def carried_def)
    then show ?thesis
      using ok shim j by (auto simp: frontOk_def consumeChunk_def isReturned_def)
  qed
  show ?thesis
  proof (rule inv_threads [where h = h and j = j and q = ?q and f = ?f', OF inv h])
    show "frontOk env (p_posters ?p) h ?f'" using new by (simp add: setFront_def setPoster_def)
    show "posterOk env (p_fronts ?p) j ?q" using h new posterOk_id [OF server_invD(2) [OF inv j(1)]]
      by (simp add: setFront_def setPoster_def posterOk_def)
    fix k assume k: "k < length (p_fronts p)" "k \<noteq> h" "f_from (p_fronts p ! k) = Some j"
    then have False using receiver_unique [OF server_invD(1) [OF inv k(1)] k(3)] j(2) by simp
    then show "frontOk env (p_posters ?p) k (p_fronts p ! k)" ..
  qed (use new in \<open>simp_all add: setFront_def setPoster_def takenIds_def\<close>)
qed

text \<open>A POST that is past its offer ends: nothing is lost for its handler.\<close>

lemma inv_posterDone:
  assumes inv: "server_inv env p" and j: "j < length (p_posters p)" "ps_pc (p_posters p ! j) = Copying h rest"
    and rest: "rest = [] \<or> h < length (p_fronts p) \<and> f_bodyClosed (p_fronts p ! h)"
    and q: "ps_pc q = PosterDone" "ps_req q = ps_req (p_posters p ! j)" "ps_id q = ps_id (p_posters p ! j)" "ps_resp q = ps_resp (p_posters p ! j)"
  shows "server_inv env (setPoster j q p)"
proof (rule inv_setPoster [OF inv j(1)])
  fix k assume k: "k < length (p_fronts p)" "f_from (p_fronts p ! k) = Some j"
  note ok = server_invD(1) [OF inv k(1)]
  have "h = k" using receiver_unique [OF ok k(2)] j(2) by simp
  then show "frontOk env ((p_posters p)[j := q]) k (p_fronts p ! k)"
    using ok k(2) j rest q
    by (auto simp: frontOk_def receivedPlain_def receivedShim_def carried_def
        split: if_splits frontPC.splits frontResult.splits)
qed (use posterOk_id [OF server_invD(2) [OF inv j(1)]] in \<open>simp add: posterOk_def q\<close>)

lemma inv_FrontEnd:
  assumes inv: "server_inv env p" and h: "h < length (p_fronts p)" "f_from (p_fronts p ! h) = Some j"
    and j: "j < length (p_posters p)" "ps_pc (p_posters p ! j) = PosterDone" and r: "readsFrom p h j"
  shows "server_inv env (finishBody env h (p_fronts p ! h) p)"
proof -
  let ?f = "p_fronts p ! h"
  note ok = server_invD(1) [OF inv h(1)]
  have pc: "case f_pc ?f of Streaming j' _ \<Rightarrow> j' = j | ReadingAll j' _ _ \<Rightarrow> j' = j | _ \<Rightarrow> False"
    using r by (auto simp: readsFrom_def)
  show ?thesis using ok pc
  proof (cases rule: readsFrom_cases)
    case (plain resp)
    let ?f' = "?f\<lparr>f_w := (f_w ?f)\<lparr>rw_Header := copyTrailer (ar_Trailer resp) (rw_Header (f_w ?f))\<rparr>, f_bodyClosed := True\<rparr>"
    have "frontOk env (p_posters p) h (?f'\<lparr>f_pc := Returned Completed\<rparr>)"
      using ok plain j by (auto simp: frontOk_def receivedPlain_def carried_def)
    then have "server_inv env (returnFront h ?f' Completed p)"
      by (intro inv_returnFront [OF inv h(1)]) simp_all
    then show ?thesis using plain by (simp add: finishBody_def Let_def)
  next
    case (shim resp got)
    then have "frontOk env (p_posters p) h (?f\<lparr>f_pc := Returned (shimResult env (hr_Path (pr_req (f_pending ?f))) resp got)\<rparr>)"
      using ok j by (auto simp: frontOk_def receivedShim_def carried_def)
    then have "server_inv env (returnFront h ?f (shimResult env (hr_Path (pr_req (f_pending ?f))) resp got) p)"
      by (intro inv_returnFront [OF inv h(1)]) simp_all
    then show ?thesis using shim by (simp add: finishBody_def)
  qed
qed

lemma inv_ClientGone:
  assumes inv: "server_inv env p" and h: "h < length (p_fronts p)" "f_pc (p_fronts p ! h) = Streaming j resp"
  shows "server_inv env (returnFront h ((p_fronts p ! h)\<lparr>f_bodyClosed := True\<rparr>) Abandoned p)"
proof (rule inv_returnFront [OF inv h(1)])
  note ok = server_invD(1) [OF inv h(1)]
  have pc: "case f_pc (p_fronts p ! h) of Streaming j' _ \<Rightarrow> j' = j | ReadingAll j' _ _ \<Rightarrow> j' = j | _ \<Rightarrow> False"
    using h(2) by simp
  show "frontOk env (p_posters p) h ((p_fronts p ! h)\<lparr>f_bodyClosed := True, f_pc := Returned Abandoned\<rparr>)"
    using ok pc
  proof (cases rule: readsFrom_cases)
    case (plain resp')
    then show ?thesis using ok
      by (auto simp: frontOk_def receivedPlain_def carried_def split: posterPC.splits) metis
  qed (use h(2) in simp)
qed simp_all

lemma inv_serverStep:
  assumes inv: "server_inv env p" and step: "serverStep env e p = Some p'"
  shows "server_inv env p'"
proof (cases e)
  case (Deliver j h)
  then show ?thesis
    using step inv_Deliver [OF inv] by (auto split: if_splits option.splits)
next
  case (Chunk j n)
  then show ?thesis using step inv_Chunk [OF inv] by (auto split: if_splits posterPC.splits)
next
  case (PostEnd j)
  then show ?thesis
    using step inv_posterDone [OF inv] by (auto split: if_splits posterPC.splits list.splits option.splits)
next
  case (PostBroken j)
  then show ?thesis
    using step inv_posterDone [OF inv] by (auto split: if_splits posterPC.splits)
next
  case (FrontEnd h)
  then show ?thesis
    using step inv_FrontEnd [OF inv] by (auto split: if_splits option.splits)
next
  case (ClientGone h)
  then show ?thesis
    using step inv_ClientGone [OF inv] by (auto split: if_splits frontPC.splits)
next
  case (CancelPost j)
  then show ?thesis
    using step inv_CancelPost [OF inv] by (auto split: if_splits posterPC.splits)
next
  case (PollTake k h)
  then show ?thesis using step inv_PollTake [OF inv] by (auto simp: Let_def split: if_splits)
next
  case (CancelFront h)
  then show ?thesis using step inv_CancelFront [OF inv] by (auto split: if_splits)
qed (use step inv in \<open>auto simp: Let_def inv_ServeHTTP inv_registerFront inv_AtSelect inv_setPoller split: if_splits\<close>)

interpretation server: event_system "serverStep env" "server_inv env"
  by unfold_locales (rule inv_serverStep)

text \<open>The IDs handed out are different when the generated ones are.\<close>

lemma takenIds_distinct:
  assumes "server_inv env p" and "distinct (map f_id (p_fronts p))"
  shows "distinct (takenIds p)" and "set (takenIds p) \<subseteq> f_id ` set (p_fronts p)"
proof -
  have "mset (takenIds p) = mset (map f_id (filter f_enqueued (p_fronts p)))" using server_invD(4) [OF assms(1)] by simp
  moreover have "distinct (map f_id (filter f_enqueued (p_fronts p)))" using assms(2) by (simp add: distinct_map_filter)
  ultimately show "distinct (takenIds p)" "set (takenIds p) \<subseteq> f_id ` set (p_fronts p)"
    by (metis mset_eq_imp_distinct_iff, metis (no_types, lifting) filter_is_subset image_mono set_map set_mset_mset)
qed

end
