(* ===== verification/Server_Exchanges.thy ===== *)
theory Server_Exchanges
  imports Server_Proxy_Correct
begin

text \<open>
  What the stand-alone proxy promises, abstractly: every client request is an exchange that is waiting,
  then handed out to one agent, then answered with one response, then closed; before the answer it
  may be cancelled. The proxy's threads, channels and pipes implement this specification: every event
  is a sequence of steps of the exchanges.
\<close>

datatype clientExchange =
    Waiting
  | HandedOut
  | Answered agentResponse
  | Closed "agentResponse option"

inductive exchange_step :: "(string \<times> clientExchange) list \<Rightarrow> (string \<times> clientExchange) list \<Rightarrow> bool" where
  open_exchange: "exchange_step xs (xs @ [(i, Waiting)])"
| hand_out: "h < length xs \<Longrightarrow> xs ! h = (i, Waiting) \<Longrightarrow> exchange_step xs (xs[h := (i, HandedOut)])"
| answer: "h < length xs \<Longrightarrow> xs ! h = (i, HandedOut) \<Longrightarrow> exchange_step xs (xs[h := (i, Answered resp)])"
| close_exchange: "h < length xs \<Longrightarrow> xs ! h = (i, Answered resp) \<Longrightarrow> exchange_step xs (xs[h := (i, Closed (Some resp))])"
| cancel: "h < length xs \<Longrightarrow> xs ! h = (i, x) \<Longrightarrow> x = Waiting \<or> x = HandedOut \<Longrightarrow> exchange_step xs (xs[h := (i, Closed None)])"

inductive_cases exchange_stepE: "exchange_step xs ys"

section \<open>Phases\<close>

text \<open>The phases of an exchange in their order.\<close>

datatype phase = WaitingPhase | HandedOutPhase | AnsweredPhase | ClosedPhase

primrec phaseRank :: "phase \<Rightarrow> nat" where
  "phaseRank WaitingPhase = 0"
| "phaseRank HandedOutPhase = 1"
| "phaseRank AnsweredPhase = 2"
| "phaseRank ClosedPhase = 3"

lemma phaseRank_eq [simp]: "phaseRank a = phaseRank b \<longleftrightarrow> a = b"
  by (cases a; cases b) simp_all

instantiation phase :: linorder
begin

definition less_eq_phase :: "phase \<Rightarrow> phase \<Rightarrow> bool" where
  "less_eq_phase a b \<longleftrightarrow> phaseRank a \<le> phaseRank b"

definition less_phase :: "phase \<Rightarrow> phase \<Rightarrow> bool" where
  "less_phase a b \<longleftrightarrow> phaseRank a < phaseRank b"

instance
  by standard (auto simp: less_eq_phase_def less_phase_def)

end

fun phaseOf :: "clientExchange \<Rightarrow> phase" where
  "phaseOf Waiting = WaitingPhase"
| "phaseOf HandedOut = HandedOutPhase"
| "phaseOf (Answered resp) = AnsweredPhase"
| "phaseOf (Closed r) = ClosedPhase"

text \<open>
  \<open>later x y\<close>: the exchange \<open>y\<close> is what may have become of \<open>x\<close>: the same request, in the same or a later phase,
  and once there is an answer it is kept.
\<close>

definition later :: "string \<times> clientExchange \<Rightarrow> string \<times> clientExchange \<Rightarrow> bool" where
  "later x y \<longleftrightarrow> fst y = fst x \<and> phaseOf (snd x) \<le> phaseOf (snd y)
     \<and> (\<forall>resp. snd x = Answered resp \<longrightarrow> snd y \<in> {Answered resp, Closed (Some resp)})
     \<and> (\<forall>r. snd x = Closed r \<longrightarrow> snd y = Closed r)"

lemma later_refl [simp]: "later x x"
  by (simp add: later_def)

lemma later_trans [trans]: "later x y \<Longrightarrow> later y z \<Longrightarrow> later x z"
  by (auto simp: later_def)

lemma exchange_step_later:
  assumes "exchange_step xs ys" and "h < length xs"
  shows "h < length ys \<and> later (xs ! h) (ys ! h)"
  using assms by (elim exchange_stepE)
    (auto simp: nth_append nth_list_update later_def less_eq_phase_def)

lemma exchange_steps_later:
  assumes "exchange_step\<^sup>*\<^sup>* xs ys" and "h < length xs"
  shows "h < length ys \<and> later (xs ! h) (ys ! h)"
  using assms(1)
proof (induction rule: rtranclp_induct)
  case (step ys zs)
  then show ?case using exchange_step_later [OF step.hyps(2)] later_trans by blast
qed (simp add: assms(2))

section \<open>The exchanges of the proxy\<close>

definition absFront :: "poster list \<Rightarrow> frontend \<Rightarrow> string \<times> clientExchange" where
  "absFront ps f =
     (f_id f,
      case f_pc f of
        Registered \<Rightarrow> Waiting
      | Enqueueing \<Rightarrow> Waiting
      | Awaiting \<Rightarrow> HandedOut
      | Streaming j resp \<Rightarrow> Answered resp
      | ReadingAll j resp got \<Rightarrow> Answered resp
      | Returned res \<Rightarrow> Closed (case f_from f of None \<Rightarrow> None | Some j \<Rightarrow> ps_resp (ps ! j)))"

definition absProxy :: "proxy \<Rightarrow> (string \<times> clientExchange) list" where
  "absProxy p = map (absFront (p_posters p)) (p_fronts p)"

section \<open>Refinement\<close>

lemma absFront_posters:
  assumes "frontOk env ps h f" and "\<And>j. j < length ps \<Longrightarrow> ps_resp (ps' ! j) = ps_resp (ps ! j)"
  shows "absFront ps' f = absFront ps f"
  using assms by (auto simp: absFront_def frontOk_def split: frontPC.splits option.splits)

lemma absProxy_same:
  assumes "server_inv env p" and "p_fronts p' = p_fronts p"
    and "\<And>j. j < length (p_posters p) \<Longrightarrow> ps_resp (p_posters p' ! j) = ps_resp (p_posters p ! j)"
  shows "absProxy p' = absProxy p"
  unfolding absProxy_def assms(2)
proof (rule map_cong [OF refl])
  fix f assume "f \<in> set (p_fronts p)"
  then obtain h where "h < length (p_fronts p)" "f = p_fronts p ! h" by (auto simp: in_set_conv_nth)
  then show "absFront (p_posters p') f = absFront (p_posters p) f"
    using absFront_posters [OF server_invD(1) [OF assms(1)]] assms(3) by metis
qed

lemma absProxy_update:
  assumes "server_inv env p" and "p_fronts p' = (p_fronts p)[h := f]"
    and "\<And>j. j < length (p_posters p) \<Longrightarrow> ps_resp (p_posters p' ! j) = ps_resp (p_posters p ! j)"
  shows "absProxy p' = (absProxy p)[h := absFront (p_posters p') f]"
proof -
  have "absProxy (p\<lparr>p_posters := p_posters p'\<rparr>) = absProxy p"
    by (rule absProxy_same [OF assms(1)]) (simp_all add: assms(3))
  then have "map (absFront (p_posters p')) (p_fronts p) = map (absFront (p_posters p)) (p_fronts p)"
    unfolding absProxy_def by (cases p) simp
  then show ?thesis by (simp only: absProxy_def assms(2) map_update)
qed

lemma absProxy_nth: "h < length (p_fronts p) \<Longrightarrow> absProxy p ! h = absFront (p_posters p) (p_fronts p ! h)"
  by (simp add: absProxy_def)

lemma length_absProxy [simp]: "length (absProxy p) = length (p_fronts p)"
  by (simp add: absProxy_def)

lemma absProxy_unchanged:
  assumes "server_inv env p" and "h < length (p_fronts p)" and "p_fronts p' = (p_fronts p)[h := f]"
    and "\<And>j. j < length (p_posters p) \<Longrightarrow> ps_resp (p_posters p' ! j) = ps_resp (p_posters p ! j)"
    and "absFront (p_posters p') f = absFront (p_posters p) (p_fronts p ! h)"
  shows "absProxy p' = absProxy p"
proof -
  have "(absProxy p)[h := absFront (p_posters p') f] = absProxy p"
    using assms(2,5) by (metis absProxy_nth list_update_id)
  then show ?thesis using absProxy_update [OF assms(1,3,4)] by simp
qed

lemma absFront_pc:
  "f_pc f = Awaiting \<Longrightarrow> absFront ps f = (f_id f, HandedOut)"
  "f_pc f = Registered \<Longrightarrow> absFront ps f = (f_id f, Waiting)"
  "f_pc f = Enqueueing \<Longrightarrow> absFront ps f = (f_id f, Waiting)"
  "f_pc f = Streaming j resp \<Longrightarrow> absFront ps f = (f_id f, Answered resp)"
  "f_pc f = ReadingAll j resp got \<Longrightarrow> absFront ps f = (f_id f, Answered resp)"
  by (simp_all add: absFront_def)

lemma refine_register: "exchange_step (absProxy p) (absProxy (registerFront i t shim r p))"
proof -
  have "absProxy (registerFront i t shim r p) = absProxy p @ [(i, Waiting)]"
    by (simp add: absProxy_def registerFront_def Let_def absFront_def)
  then show ?thesis by (simp add: open_exchange)
qed

lemma refine_Arrive:
  assumes "server_inv env p"
  shows "exchange_step\<^sup>*\<^sup>* (absProxy p) (absProxy (ServeHTTP env r i t p))"
proof (cases "routeRequest env r")
  case Frontend
  then show ?thesis by (simp add: ServeHTTP_def refine_register r_into_rtranclp)
next
  case (PostResponse rid)
  then have "absProxy (ServeHTTP env r i t p) = absProxy p"
    by (intro absProxy_same [OF assms]) (simp_all add: ServeHTTP_def nth_append)
  then show ?thesis by simp
qed (simp_all add: ServeHTTP_def absProxy_def)

lemma refine_Deliver:
  assumes inv: "server_inv env p" and j: "j < length (p_posters p)"
    and at: "frontAt p h Awaiting" and resp: "ps_resp (p_posters p ! j) = Some resp"
  shows "exchange_step\<^sup>*\<^sup>* (absProxy p) (absProxy (receiveResponse env h (p_fronts p ! h) j resp
     (setPoster j ((p_posters p ! j)\<lparr>ps_pc := Copying h (ar_Body resp)\<rparr>) p)))" (is "_ (absProxy ?p)")
proof -
  let ?f = "p_fronts p ! h" and ?x = "(absProxy p)[h := (f_id (p_fronts p ! h), Answered resp)]"
  have h: "h < length (p_fronts p)" "f_pc ?f = Awaiting" using at by (auto simp: frontAt_def)
  have w: "f_w ?f = newResponseWriter"
    using frontOk_waiting [OF server_invD(1) [OF inv h(1)]] h(2) by auto
  note fields = receiveResponse_fields [OF w, of env h j resp, unfolded setPoster_def]
  have abs: "absProxy ?p = (absProxy p)[h := absFront (p_posters ?p) (receivedFront env ?f j resp)]"
    by (rule absProxy_update [OF inv]) (use j in \<open>simp_all add: fields setPoster_def nth_list_update\<close>)
  have one: "exchange_step (absProxy p) ?x"
    by (rule answer) (simp_all add: h absProxy_nth absFront_pc)
  show ?thesis
  proof (cases "isReturned (f_pc (receivedFront env ?f j resp))")
    case True
    then have "absFront (p_posters ?p) (receivedFront env ?f j resp) = (f_id ?f, Closed (Some resp))"
      using j resp by (auto simp: receivedFront_def absFront_def isReturned_def fields setPoster_def split: if_splits)
    then have "absProxy ?p = ?x[h := (f_id ?f, Closed (Some resp))]" using abs by simp
    moreover have "exchange_step ?x (?x[h := (f_id ?f, Closed (Some resp))])"
      by (rule close_exchange) (simp_all add: h)
    ultimately show ?thesis using one by (metis r_into_rtranclp rtranclp.rtrancl_into_rtrancl)
  next
    case False
    then have "absFront (p_posters ?p) (receivedFront env ?f j resp) = (f_id ?f, Answered resp)"
      by (auto simp: receivedFront_def absFront_def isReturned_def split: if_splits)
    then show ?thesis using one abs by (simp add: r_into_rtranclp)
  qed
qed

text \<open>A handler that has its response returns.\<close>

lemma refine_return:
  assumes inv: "server_inv env p" and h: "h < length (p_fronts p)"
    and f: "absFront (p_posters p) (p_fronts p ! h) = (i, Answered resp)"
    and f': "f_id f = i" "f_from f = Some j" "ps_resp (p_posters p ! j) = Some resp"
  shows "exchange_step\<^sup>*\<^sup>* (absProxy p) (absProxy (returnFront h f res p))"
proof -
  have "absProxy (returnFront h f res p) = (absProxy p)[h := absFront (p_posters (returnFront h f res p)) (f\<lparr>f_pc := Returned res\<rparr>)]"
    by (rule absProxy_update [OF inv]) (simp_all add: returnFront_def setFront_def)
  also have "absFront (p_posters (returnFront h f res p)) (f\<lparr>f_pc := Returned res\<rparr>) = (i, Closed (Some resp))"
    using f' by (simp add: returnFront_def setFront_def absFront_def)
  finally show ?thesis
    using close_exchange [of h "absProxy p" i resp] h f by (simp add: absProxy_nth r_into_rtranclp)
qed

lemma refine_cancel:
  assumes inv: "server_inv env p" and at: "frontAt p h Enqueueing \<or> frontAt p h Awaiting"
  shows "exchange_step\<^sup>*\<^sup>* (absProxy p) (absProxy (returnFront h (p_fronts p ! h) res p))"
proof -
  let ?f = "p_fronts p ! h"
  have h: "h < length (p_fronts p)" "f_pc ?f = Enqueueing \<or> f_pc ?f = Awaiting" using at by (auto simp: frontAt_def)
  have "f_from ?f = None" using frontOk_waiting [OF server_invD(1) [OF inv h(1)]] h(2) by auto
  then have "absProxy (returnFront h ?f res p) = (absProxy p)[h := (f_id ?f, Closed None)]"
    using absProxy_update [OF inv, of "returnFront h ?f res p" h "?f\<lparr>f_pc := Returned res\<rparr>"]
    by (simp add: returnFront_def setFront_def absFront_def)
  moreover obtain x where "absProxy p ! h = (f_id ?f, x)" "x = Waiting \<or> x = HandedOut"
    using h by (auto simp: absProxy_nth absFront_pc)
  then have "exchange_step (absProxy p) ((absProxy p)[h := (f_id ?f, Closed None)])"
    using h(1) by (intro cancel) auto
  ultimately show ?thesis by simp
qed

lemma refine_PollTake:
  assumes inv: "server_inv env p" and at: "frontAt p h Enqueueing"
  shows "exchange_step\<^sup>*\<^sup>* (absProxy p)
    (absProxy (setFront h ((p_fronts p ! h)\<lparr>f_pc := Awaiting, f_enqueued := True\<rparr>) (setPoller k q p)))"
proof -
  let ?p = "setFront h ((p_fronts p ! h)\<lparr>f_pc := Awaiting, f_enqueued := True\<rparr>) (setPoller k q p)"
  have h: "h < length (p_fronts p)" "f_pc (p_fronts p ! h) = Enqueueing" using at by (auto simp: frontAt_def)
  have "absProxy ?p = (absProxy p)[h := (f_id (p_fronts p ! h), HandedOut)]"
    using absProxy_update [OF inv, of ?p h "(p_fronts p ! h)\<lparr>f_pc := Awaiting, f_enqueued := True\<rparr>"]
    by (simp add: setFront_def setPoller_def absFront_def)
  moreover have "exchange_step (absProxy p) ((absProxy p)[h := (f_id (p_fronts p ! h), HandedOut)])"
    by (rule hand_out) (simp_all add: h absProxy_nth absFront_pc)
  ultimately show ?thesis by simp
qed

text \<open>Events that no exchange notices.\<close>

lemma absProxy_setPoster:
  assumes "server_inv env p" and "ps_resp q = ps_resp (p_posters p ! j)"
  shows "absProxy (setPoster j q p) = absProxy p"
proof (rule absProxy_same [OF assms(1)])
  fix k assume "k < length (p_posters p)"
  then show "ps_resp (p_posters (setPoster j q p) ! k) = ps_resp (p_posters p ! k)"
    using assms(2) by (cases "k = j") (simp_all add: setPoster_def)
qed (simp add: setPoster_def)

lemma absProxy_setPoller [simp]: "absProxy (setPoller k q p) = absProxy p"
  by (simp add: absProxy_def setPoller_def)

lemma absProxy_Chunk:
  assumes "server_inv env p" and "h < length (p_fronts p)" and "ps_resp q = ps_resp (p_posters p ! j)"
  shows "absProxy (setFront h (consumeChunk (p_fronts p ! h) bs) (setPoster j q p)) = absProxy p"
proof (rule absProxy_unchanged [OF assms(1,2)])
  fix k assume "k < length (p_posters p)"
  then show "ps_resp (p_posters (setFront h (consumeChunk (p_fronts p ! h) bs) (setPoster j q p)) ! k) = ps_resp (p_posters p ! k)"
    using assms(3) by (cases "k = j") (simp_all add: setFront_def setPoster_def)
next
  let ?ps = "p_posters (setFront h (consumeChunk (p_fronts p ! h) bs) (setPoster j q p))"
  have "ps_resp (?ps ! k) = ps_resp (p_posters p ! k)" if "k < length (p_posters p)" for k
    using that assms(3) by (cases "k = j") (simp_all add: setFront_def setPoster_def)
  then have "absFront ?ps (p_fronts p ! h) = absFront (p_posters p) (p_fronts p ! h)"
    by (rule absFront_posters [OF server_invD(1) [OF assms(1,2)]])
  moreover have "absFront ?ps (consumeChunk (p_fronts p ! h) bs) = absFront ?ps (p_fronts p ! h)"
    by (cases "f_pc (p_fronts p ! h)") (simp_all add: absFront_def consumeChunk_def)
  ultimately show "absFront ?ps (consumeChunk (p_fronts p ! h) bs) = absFront (p_posters p) (p_fronts p ! h)" by simp
qed (simp add: setFront_def setPoster_def)

lemma refine_FrontEnd:
  assumes inv: "server_inv env p" and h: "h < length (p_fronts p)" "f_from (p_fronts p ! h) = Some j" and r: "readsFrom p h j"
  shows "exchange_step\<^sup>*\<^sup>* (absProxy p) (absProxy (finishBody env h (p_fronts p ! h) p))"
proof -
  note ok = server_invD(1) [OF inv h(1)]
  have pc: "case f_pc (p_fronts p ! h) of Streaming j' _ \<Rightarrow> j' = j | ReadingAll j' _ _ \<Rightarrow> j' = j | _ \<Rightarrow> False"
    using r by (auto simp: readsFrom_def)
  show ?thesis using ok pc
  proof (cases rule: readsFrom_cases)
    case (plain resp)
    then show ?thesis
      by (auto simp: finishBody_def Let_def absFront_pc intro!: refine_return [OF inv h(1)])
  next
    case (shim resp got)
    then show ?thesis
      by (auto simp: finishBody_def absFront_pc intro!: refine_return [OF inv h(1)])
  qed
qed

lemma refine_ClientGone:
  assumes inv: "server_inv env p" and h: "h < length (p_fronts p)" "f_pc (p_fronts p ! h) = Streaming j resp"
  shows "exchange_step\<^sup>*\<^sup>* (absProxy p) (absProxy (returnFront h ((p_fronts p ! h)\<lparr>f_bodyClosed := True\<rparr>) Abandoned p))"
proof -
  note ok = server_invD(1) [OF inv h(1)]
  have pc: "case f_pc (p_fronts p ! h) of Streaming j' _ \<Rightarrow> j' = j | ReadingAll j' _ _ \<Rightarrow> j' = j | _ \<Rightarrow> False"
    using h(2) by simp
  show ?thesis using ok pc
  proof (cases rule: readsFrom_cases)
    case (plain resp')
    then show ?thesis by (intro refine_return [OF inv h(1)]) (simp_all add: absFront_pc)
  qed (use h(2) in simp)
qed

text \<open>Every event is a sequence of exchange steps.\<close>

lemma refine_step:
  assumes inv: "server_inv env p" and "serverStep env e p = Some p'"
  shows "exchange_step\<^sup>*\<^sup>* (absProxy p) (absProxy p')"
proof (cases e)
  case (AtSelect h)
  then have "absProxy p' = absProxy p"
    using assms(2) by (intro absProxy_unchanged [OF inv, where h = h])
      (auto simp: frontAt_def setFront_def absFront_pc split: if_splits)
  then show ?thesis by simp
next
  case (Deliver j h)
  then show ?thesis using assms(2) refine_Deliver [OF inv] by (auto split: if_splits option.splits)
next
  case (CancelFront h)
  then show ?thesis using assms(2) refine_cancel [OF inv] by (auto split: if_splits)
next
  case (FrontEnd h)
  then show ?thesis using assms(2) refine_FrontEnd [OF inv] by (auto split: if_splits option.splits)
next
  case (ClientGone h)
  then show ?thesis using assms(2) refine_ClientGone [OF inv] by (auto split: if_splits frontPC.splits)
next
  case (Chunk j n)
  then have "absProxy p' = absProxy p"
    using assms(2) absProxy_Chunk [OF inv] by (auto simp: readsFrom_def split: if_splits posterPC.splits)
  then show ?thesis by simp
next
  case (PostEnd j)
  then have "absProxy p' = absProxy p"
    using assms(2) absProxy_setPoster [OF inv] by (auto split: if_splits posterPC.splits list.splits option.splits)
  then show ?thesis by simp
qed (use assms(2) refine_Arrive [OF inv] refine_PollTake [OF inv] in
    \<open>auto simp: Let_def refine_register r_into_rtranclp absProxy_setPoster [OF inv] split: if_splits posterPC.splits\<close>)

text \<open>A client request never goes back: its exchange only gets later, and keeps its answer.\<close>

theorem requests_move_forward:
  assumes "reachable (serverStep env) newProxy p" and "reachable (serverStep env) p p'" and "h < length (p_fronts p)"
  shows "h < length (p_fronts p') \<and> later (absProxy p ! h) (absProxy p' ! h)"
proof -
  have "exchange_step\<^sup>*\<^sup>* (absProxy p) (absProxy p')"
    by (rule server.reachable_relation [OF assms(2) server.inv_reachable [OF assms(1) server_inv_new]])
      (blast dest: refine_step intro: rtranclp_trans)+
  then show ?thesis using exchange_steps_later [of "absProxy p" "absProxy p'" h] assms(3) by simp
qed

end
