(* ===== verification/Server_Proxy_Properties.thy ===== *)
theory Server_Proxy_Properties
  imports Server_Exchanges Agent_Utils_Correct
begin

text \<open>
  The properties of the stand-alone proxy: for every interleaving of clients and agents, responses
  reach the client they were posted for and only that one, request IDs are handed out once, the
  threads refine the exchanges of \<open>Server_Exchanges\<close>; hop-by-hop headers are removed; and two
  ways in which the handling of bodies goes wrong.
\<close>

section \<open>An example run\<close>

definition exampleEnv :: serverEnv where
  "exampleEnv = \<lparr>shimPath = ''/shim'', printableRune = (\<lambda>_. True),
     readAgentResponse = (\<lambda>r q. map_sum id (\<lambda>b. \<lparr>ar_StatusCode = 200,
        ar_Header = [(''Content-Type'', [''text/html'']), (''Connection'', [''close''])], ar_Trailer = [],
        ar_Body = b, ar_BodyErr = (if hr_Method q = ''GET'' then None else Some (ErrMsg ''unexpected EOF''))\<rparr>) (hr_Body r)),
     requestBytes = hr_Method, marshalIDs = (\<lambda>_. Inr ''[]''), unmarshalSession = (\<lambda>_. Inl (ErrMsg ''no session''))\<rparr>"

definition clientGet :: httpRequest where
  "clientGet = \<lparr>hr_Method = ''GET'', hr_Path = ''/'', hr_URL = ''/'', hr_Header = [], hr_Body = Inr []\<rparr>"

definition agentList :: httpRequest where
  "agentList = \<lparr>hr_Method = ''GET'', hr_Path = ''/agent/pending'', hr_URL = ''/agent/pending'',
     hr_Header = [(''X-Inverting-Proxy-Backend-Id'', [''b''])], hr_Body = Inr []\<rparr>"

definition agentPost :: "string \<Rightarrow> bytes \<Rightarrow> httpRequest" where
  "agentPost i body = \<lparr>hr_Method = ''POST'', hr_Path = ''/agent/response'', hr_URL = ''/agent/response'',
     hr_Header = [(''X-Inverting-Proxy-Backend-Id'', [''b'']), (''X-Inverting-Proxy-Request-Id'', [i])], hr_Body = Inr body\<rparr>"

definition exampleEvents :: "event list" where
  "exampleEvents = [Arrive clientGet ''r1'' 0, AtSelect 0, Arrive agentList [] 0, PollTake 0 0, PollReturn 0,
     Arrive (agentPost ''r1'' ''hi'') [] 0, Deliver 0 0, Chunk 0 2, PostEnd 0, FrontEnd 0]"

lemma exampleRun:
  "case run_events (serverStep exampleEnv) exampleEvents newProxy of
     None \<Rightarrow> False
   | Some p \<Rightarrow> length (p_fronts p) = 1 \<and> \<not> f_shim (p_fronts p ! 0) \<and> f_from (p_fronts p ! 0) = Some 0
       \<and> rw_Body (f_w (p_fronts p ! 0)) = ''hi'' \<and> f_id (p_fronts p ! 0) = ''r1'' \<and> takenIds p = [''r1'']
       \<and> map f_id (p_fronts p) = [''r1'']"
  by code_simp

definition exampleProxy :: proxy where
  "exampleProxy = the (run_events (serverStep exampleEnv) exampleEvents newProxy)"

lemma exampleProxy_reachable: "reachable (serverStep exampleEnv) newProxy exampleProxy"
  using exampleRun by (intro run_events_reachable [where es = exampleEvents])
    (auto simp: exampleProxy_def split: option.splits)

lemma exampleProxy_facts:
  "length (p_fronts exampleProxy) = 1" "\<not> f_shim (p_fronts exampleProxy ! 0)" "f_from (p_fronts exampleProxy ! 0) = Some 0"
  "rw_Body (f_w (p_fronts exampleProxy ! 0)) = ''hi''" "f_id (p_fronts exampleProxy ! 0) = ''r1''"
  "takenIds exampleProxy = [''r1'']" "map f_id (p_fronts exampleProxy) = [''r1'']"
  using exampleRun by (auto simp: exampleProxy_def split: option.splits)

section \<open>Routing of responses\<close>

text \<open>C3. No cross-talk in the stand-alone proxy: for every interleaving of clients and agents, what a client
  has been sent comes from one POST that named this client's own request ID, parsed against the client's
  own request; no other client is served from that POST; the status and header are those of the
  response without its hop-by-hop headers, the body sent so far is the start of the response's body, and
  the whole body with the trailers once the handler is done. A client without such a POST was
  sent nothing.\<close>

theorem server_no_crosstalk:
  assumes "reachable (serverStep env) newProxy p" and "h < length (p_fronts p)" and "f = p_fronts p ! h"
    and "\<not> f_shim f"
  shows "case f_from f of
      None \<Rightarrow> rw_Sent (f_w f) = None \<and> rw_Body (f_w f) = []
    | Some j \<Rightarrow> j < length (p_posters p)
        \<and> headerGet (hr_Header (ps_req (p_posters p ! j))) utilHeaderRequestID = f_id f
        \<and> (\<forall>k<length (p_fronts p). f_from (p_fronts p ! k) = Some j \<longrightarrow> k = h)
        \<and> (\<exists>resp. readAgentResponse env (ps_req (p_posters p ! j)) (pr_req (f_pending f)) = Inr resp
             \<and> rw_Sent (f_w f) = Some (ar_StatusCode resp, clientHeader resp)
             \<and> (\<exists>more. ar_Body resp = rw_Body (f_w f) @ more)
             \<and> (f_pc f = Returned Completed \<longrightarrow>
                  rw_Body (f_w f) = ar_Body resp
                  \<and> rw_Header (f_w f) = copyTrailer (ar_Trailer resp) (clientHeader resp)))"
proof -
  have inv: "server_inv env p" by (rule server.inv_reachable [OF assms(1) server_inv_new])
  note ok = server_invD(1) [OF inv assms(2), folded assms(3)]
  show ?thesis
  proof (cases "f_from f")
    case None
    then show ?thesis using ok by (simp add: frontOk_def newResponseWriter_def)
  next
    case (Some j)
    then obtain resp where j: "j < length (p_posters p)" "ps_id (p_posters p ! j) = f_id f"
        "readAgentResponse env (ps_req (p_posters p ! j)) (pr_req (f_pending f)) = Inr resp"
        "receivedPlain h f j resp (ps_pc (p_posters p ! j))"
      using ok assms(4) by (auto simp: frontOk_def)
    have "\<forall>k<length (p_fronts p). f_from (p_fronts p ! k) = Some j \<longrightarrow> k = h"
      using server_invD(5) [OF inv] assms(2,3) Some by (auto simp: separateReceivers_def)
    moreover have "\<exists>more. ar_Body resp = rw_Body (f_w f) @ more"
      using j(4) by (auto simp: receivedPlain_def carried_def split: frontPC.splits frontResult.splits posterPC.splits) metis
    moreover have "rw_Sent (f_w f) = Some (ar_StatusCode resp, clientHeader resp)"
      using j(4) by (simp add: receivedPlain_def)
    moreover have "f_pc f = Returned Completed \<longrightarrow>
        rw_Body (f_w f) = ar_Body resp \<and> rw_Header (f_w f) = copyTrailer (ar_Trailer resp) (clientHeader resp)"
      using j(4) by (auto simp: receivedPlain_def)
    ultimately show ?thesis
      using Some j posterOk_id [OF server_invD(2) [OF inv j(1)]] by auto
  qed
qed

theorem server_no_crosstalk_witness:
  "headerGet (hr_Header (ps_req (p_posters exampleProxy ! 0))) utilHeaderRequestID = ''r1''"
  using server_no_crosstalk [OF exampleProxy_reachable, of 0 "p_fronts exampleProxy ! 0"]
  by (simp add: exampleProxy_facts)



text \<open>C19. The threads, channels and pipes of the proxy implement the abstract exchanges: every event, in every
  reachable state, is a sequence of exchange steps (an exchange is opened, handed out, answered
  once, closed, or cancelled before an answer).\<close>

theorem server_refines_exchanges:
  assumes "reachable (serverStep env) newProxy p" and "serverStep env e p = Some p'"
  shows "exchange_step\<^sup>*\<^sup>* (absProxy p) (absProxy p')"
  by (rule refine_step [OF server.inv_reachable [OF assms(1) server_inv_new] assms(2)])

theorem server_refines_exchanges_witness:
  "exchange_step\<^sup>*\<^sup>* (absProxy exampleProxy) (absProxy (registerFront ''r2'' 0 True clientGet exampleProxy))"
  by (rule server_refines_exchanges [OF exampleProxy_reachable, of "ShimArrive clientGet ''r2'' 0"]) simp

section \<open>A request served end to end\<close>

definition serveEvents :: "proxy \<Rightarrow> httpRequest \<Rightarrow> httpRequest \<Rightarrow> httpRequest \<Rightarrow> string \<Rightarrow> time \<Rightarrow> agentResponse \<Rightarrow> event list" where
  "serveEvents p r rl rp i t resp =
     (let h = length (p_fronts p); k = length (p_pollers p); j = length (p_posters p)
      in [Arrive r i t, AtSelect h, Arrive rl [] t, PollTake k h, Arrive rp [] t, Deliver j h]
         @ (if ar_Body resp = [] then [] else [Chunk j (length (ar_Body resp))]) @ [PostEnd j, FrontEnd h])"



section \<open>Hop-by-hop headers\<close>

lemma map_of_fold_assign:
  assumes "distinct (map fst src)"
  shows "map_of (fold (\<lambda>(name, vals) h. if P name then h else headerAssign h name vals) src hdr) k =
    (if P k then map_of hdr k else case map_of src k of None \<Rightarrow> map_of hdr k | Some vals \<Rightarrow> Some vals)"
  using assms
proof (induction src arbitrary: hdr)
  case (Cons x src)
  obtain n vs where x: "x = (n, vs)" by fastforce
  have "map_of src n = None" using Cons.prems x by (auto simp: map_of_eq_None_iff)
  then show ?case
    using Cons.IH [of "if P n then hdr else headerAssign hdr n vs"] Cons.prems
    by (auto simp: x headerAssign_def update_conv' split: option.splits)
qed simp

lemma map_of_fold_del:
  assumes "\<forall>k \<in> set (map fst src). CanonicalHeaderKey k = k"
  shows "map_of (fold (\<lambda>(name, vals) h. if P name then headerDel h name else h) src hdr) k =
    (if P k \<and> k \<in> set (map fst src) then None else map_of hdr k)"
  using assms
proof (induction src arbitrary: hdr)
  case (Cons x src)
  obtain n vs where x: "x = (n, vs)" by fastforce
  then show ?case
    using Cons.IH [of "if P n then headerDel hdr n else hdr"] Cons.prems
    by (auto simp: headerDel_def delete_conv')
qed simp

text \<open>Hop-by-hop headers do not cross the proxy: the request stored for the agent has the client's headers
  without them, and the client gets the response's headers without them, save that the transfer
  encoding is announced as chunked; every other header is passed on unchanged.\<close>

theorem server_hop_by_hop:
  assumes "canonicalHeader hdr" and "canonicalHeader (ar_Header resp)"
  shows "headerValues (delHopHeaders hdr) k =
           (if isHopByHopHeader (CanonicalHeaderKey k) then [] else headerValues hdr k)
       \<and> headerValues (clientHeader resp) k =
           (if CanonicalHeaderKey k = ''Transfer-Encoding'' then [''chunked'']
            else if isHopByHopHeader (CanonicalHeaderKey k) then [] else headerValues (ar_Header resp) k)"
proof
  have "map_of (delHopHeaders hdr) k' = (if isHopByHopHeader k' \<and> k' \<in> set (map fst hdr) then None else map_of hdr k')" for k'
    unfolding delHopHeaders_def by (rule map_of_fold_del) (use assms(1) in \<open>simp add: canonicalHeader_def\<close>)
  moreover have "map_of hdr k' = None" if "k' \<notin> set (map fst hdr)" for k' using that by (simp add: map_of_eq_None_iff)
  ultimately show "headerValues (delHopHeaders hdr) k =
      (if isHopByHopHeader (CanonicalHeaderKey k) then [] else headerValues hdr k)"
    by (auto simp: headerValues_def simp del: set_map)
  have te: "CanonicalHeaderKey ''transfer-encoding'' = ''Transfer-Encoding''" "isHopByHopHeader ''Transfer-Encoding''"
    by code_simp+
  have copy: "map_of (copyResponseHeader (ar_Header resp) []) k' =
      (if isHopByHopHeader k' then None else map_of (ar_Header resp) k')" for k'
    unfolding copyResponseHeader_def using assms(2)
    by (subst map_of_fold_assign) (simp_all add: canonicalHeader_def split: option.splits)
  have cp: "headerValues (copyResponseHeader (ar_Header resp) []) k =
      (if isHopByHopHeader (CanonicalHeaderKey k) then [] else headerValues (ar_Header resp) k)"
    by (simp add: headerValues_def copy)
  show "headerValues (clientHeader resp) k = (if CanonicalHeaderKey k = ''Transfer-Encoding'' then [''chunked'']
      else if isHopByHopHeader (CanonicalHeaderKey k) then [] else headerValues (ar_Header resp) k)"
    using te cp by (auto simp: clientHeader_def headerValues_Add)
qed

theorem server_hop_by_hop_witness:
  "headerValues (clientHeader \<lparr>ar_StatusCode = 200, ar_Header = [(''Keep-Alive'', [''5'']), (''Etag'', [''x''])],
      ar_Trailer = [], ar_Body = [], ar_BodyErr = None\<rparr>) ''keep-alive'' = []"
proof -
  have "canonicalHeader []" "canonicalHeader [(''Keep-Alive'', [''5'']), (''Etag'', [''x''])]"
    "CanonicalHeaderKey ''keep-alive'' = ''Keep-Alive''" "isHopByHopHeader ''Keep-Alive''"
    by (simp add: canonicalHeader_def, simp add: canonicalHeader_def, code_simp+)
  then show ?thesis
    using server_hop_by_hop [of "[]" "\<lparr>ar_StatusCode = 200, ar_Header = [(''Keep-Alive'', [''5'']), (''Etag'', [''x''])],
      ar_Trailer = [], ar_Body = [], ar_BodyErr = None\<rparr>" "''keep-alive''"] by simp
qed

section \<open>Bodies that go wrong\<close>

text \<open>A response whose body breaks off is passed to the client as if it were complete: when the agent's
  POST fails in the middle of the body, the agent is answered 500, but the pipe to the client is closed
  without an error, and the client's handler ends normally with the truncated body.\<close>

theorem truncated_body_completes:
  assumes "reachable (serverStep env) newProxy p"
    and "h < length (p_fronts p)" and "f_pc (p_fronts p ! h) = Streaming j resp"
    and "ps_pc (p_posters p ! j) = Copying h []" and "ar_BodyErr resp = Some e" and "ps_w (p_posters p ! j) = newResponseWriter"
  shows "\<exists>p'. run_events (serverStep env) [PostEnd j, FrontEnd h] p = Some p'
     \<and> f_pc (p_fronts p' ! h) = Returned Completed
     \<and> rw_Body (f_w (p_fronts p' ! h)) = ar_Body resp
     \<and> rwStatus (ps_w (p_posters p' ! j)) = Some 500"
proof -
  have inv: "server_inv env p" by (rule server.inv_reachable [OF assms(1) server_inv_new])
  note ok = server_invD(1) [OF inv assms(2)]
  have pc: "case f_pc (p_fronts p ! h) of Streaming j' _ \<Rightarrow> j' = j | ReadingAll j' _ _ \<Rightarrow> j' = j | _ \<Rightarrow> False"
    using assms(3) by simp
  show ?thesis using ok pc
  proof (cases rule: readsFrom_cases)
    case (plain resp')
    then have j: "j < length (p_posters p)" "ps_resp (p_posters p ! j) = Some resp" "rw_Body (f_w (p_fronts p ! h)) = ar_Body resp"
      "f_from (p_fronts p ! h) = Some j"
      using assms(3,4) by (auto simp: receivedPlain_def carried_def)
    then show ?thesis
      using assms(2-6)
      by (simp add: setPoster_def readsFrom_def finishBody_def Let_def returnFront_def setFront_def)
  qed (use assms(3) in simp)
qed

definition truncatedEvents :: "event list" where
  "truncatedEvents = [Arrive (clientGet\<lparr>hr_Method := ''PUT''\<rparr>) ''r1'' 0, AtSelect 0, Arrive agentList [] 0, PollTake 0 0,
     Arrive (agentPost ''r1'' ''hi'') [] 0, Deliver 0 0, Chunk 0 2]"

theorem truncated_body_completes_witness:
  "\<exists>p'. run_events (serverStep exampleEnv) [PostEnd 0, FrontEnd 0]
      (the (run_events (serverStep exampleEnv) truncatedEvents newProxy)) = Some p'
     \<and> f_pc (p_fronts p' ! 0) = Returned Completed"
proof -
  let ?p = "the (run_events (serverStep exampleEnv) truncatedEvents newProxy)"
  have run: "case run_events (serverStep exampleEnv) truncatedEvents newProxy of None \<Rightarrow> False
    | Some p \<Rightarrow> p_fronts p \<noteq> [] \<and> (case f_pc (p_fronts p ! 0) of Streaming j resp \<Rightarrow> j = 0 \<and> ar_BodyErr resp \<noteq> None | _ \<Rightarrow> False)
       \<and> ps_pc (p_posters p ! 0) = Copying 0 [] \<and> ps_w (p_posters p ! 0) = newResponseWriter"
    by code_simp
  then have r: "reachable (serverStep exampleEnv) newProxy ?p"
    by (intro run_events_reachable [where es = truncatedEvents]) (auto split: option.splits)
  obtain resp e where "0 < length (p_fronts ?p)" "f_pc (p_fronts ?p ! 0) = Streaming 0 resp"
      "ps_pc (p_posters ?p ! 0) = Copying 0 []" "ar_BodyErr resp = Some e" "ps_w (p_posters ?p ! 0) = newResponseWriter"
    using run by (auto split: option.splits frontPC.splits)
  from truncated_body_completes [OF r this] show ?thesis by blast
qed

text \<open>A POST with a response to a websocket shim request that is neither an open nor a poll never
  returns when the response has a body: the frontend handler ends without reading or closing the body, so
  the copy into the pipe blocks forever, in every continuation of the run.\<close>

theorem shim_post_blocks_forever:
  assumes "reachable (serverStep env) newProxy p"
    and "h < length (p_fronts p)" and "f_pc (p_fronts p ! h) = Returned ShimIgnored"
    and "f_from (p_fronts p ! h) = Some j" and "f_shim (p_fronts p ! h)"
    and "ps_resp (p_posters p ! j) = Some resp" and "ar_Body resp \<noteq> []"
    and "reachable (serverStep env) p p'"
  shows "ps_pc (p_posters p' ! j) = Copying h (ar_Body resp)"
proof -
  have inv: "server_inv env p" by (rule server.inv_reachable [OF assms(1) server_inv_new])
  let ?stuck = "\<lambda>q. h < length (p_fronts q) \<and> j < length (p_posters q)
    \<and> isReturned (f_pc (p_fronts q ! h)) \<and> \<not> f_bodyClosed (p_fronts q ! h)
    \<and> ps_pc (p_posters q ! j) = Copying h (ar_Body resp)"
  have "receivedShim env h (p_fronts p ! h) j resp (ps_pc (p_posters p ! j)) \<and> j < length (p_posters p)"
    using server_invD(1) [OF inv assms(2)] assms(4-6) by (auto simp: frontOk_def)
  then have start: "?stuck p"
    using assms(2,3,7)
    by (auto simp: receivedShim_def isReturned_def shimResult_def websocketShimResponseHandlerOpen_def
        websocketShimResponseHandlerPoll_def split: if_splits sum.splits)
  have step: "?stuck u'" if "?stuck u" "serverStep env e u = Some u'" for u u' e
    using that assms(7)
    by (cases e) (auto simp: ServeHTTP_def registerFront_def frontAt_def setFront_def setPoller_def setPoster_def
        returnFront_def receiveResponse_def readsFrom_def finishBody_def Let_def nth_append nth_list_update isReturned_def
        split: if_splits route.splits option.splits posterPC.splits frontPC.splits list.splits)
  have "?stuck p'"
    using assms(8) by (induction rule: reachable.induct) (use start step in blast)+
  then show ?thesis by blast
qed

definition shimDataEvents :: "event list" where
  "shimDataEvents = [ShimArrive (clientGet\<lparr>hr_Method := ''POST'', hr_Path := ''/shim/data''\<rparr>) ''r1'' 0, AtSelect 0,
     Arrive agentList [] 0, PollTake 0 0, Arrive (agentPost ''r1'' ''ok'') [] 0, Deliver 0 0]"

theorem shim_post_blocks_forever_witness:
  "\<exists>resp :: agentResponse. ar_Body resp = ''ok'' \<and>
     ps_pc (p_posters (the (run_events (serverStep exampleEnv) shimDataEvents newProxy)) ! 0) = Copying 0 (ar_Body resp)"
proof -
  let ?p = "the (run_events (serverStep exampleEnv) shimDataEvents newProxy)"
  have run: "case run_events (serverStep exampleEnv) shimDataEvents newProxy of None \<Rightarrow> False
    | Some p \<Rightarrow> p_fronts p \<noteq> [] \<and> f_pc (p_fronts p ! 0) = Returned ShimIgnored \<and> f_from (p_fronts p ! 0) = Some 0
       \<and> f_shim (p_fronts p ! 0)
       \<and> (case ps_resp (p_posters p ! 0) of None \<Rightarrow> False | Some resp \<Rightarrow> ar_Body resp = ''ok'')"
    by code_simp
  then have r: "reachable (serverStep exampleEnv) newProxy ?p"
    by (intro run_events_reachable [where es = shimDataEvents]) (auto split: option.splits)
  obtain resp where "0 < length (p_fronts ?p)" "f_pc (p_fronts ?p ! 0) = Returned ShimIgnored"
      "f_from (p_fronts ?p ! 0) = Some 0" "f_shim (p_fronts ?p ! 0)" "ps_resp (p_posters ?p ! 0) = Some resp"
      and body: "ar_Body resp = ''ok''"
    using run by (auto split: option.splits)
  then have "ps_pc (p_posters ?p ! 0) = Copying 0 (ar_Body resp)"
    by (intro shim_post_blocks_forever [OF r]) (auto intro: reach_init)
  then show ?thesis using body by blast
qed

end
