(* ===== verification/Go_Encoding.thy ===== *)
theory Go_Encoding
  imports Go_Strings
begin

text \<open>
  What the websocket code uses of \<^verbatim>\<open>encoding/base64\<close> and \<^verbatim>\<open>encoding/json\<close>: standard base64 with
  padding (the decoder skips line breaks), and JSON values as \<^verbatim>\<open>json.Unmarshal\<close> into an
  \<^verbatim>\<open>interface{}\<close> builds them. Marshalling a Go string replaces every byte that is not part of a
  valid UTF-8 sequence by U+FFFD, so a value that goes over the wire arrives as \<open>jsonWire\<close> of it.

  Main results: \<open>base64Decode\<close> inverts \<open>base64Encode\<close> on every byte string, and base64
  text goes over the wire unchanged.
\<close>

section \<open>Base64\<close>

text \<open>The alphabet \<^verbatim>\<open>A-Za-z0-9+/\<close>.\<close>

definition enc6 :: "nat \<Rightarrow> char" where
  "enc6 n =
     (if n < 26 then char_of (65 + n)
      else if n < 52 then char_of (71 + n)
      else if n < 62 then char_of (n - 4)
      else if n = 62 then CHR ''+'' else CHR ''/'')"

definition dec6 :: "char \<Rightarrow> nat option" where
  "dec6 c =
     (let n = byte c in
      if 65 \<le> n \<and> n \<le> 90 then Some (n - 65)
      else if 97 \<le> n \<and> n \<le> 122 then Some (n - 71)
      else if 48 \<le> n \<and> n \<le> 57 then Some (n + 4)
      else if n = 43 then Some 62
      else if n = 47 then Some 63
      else None)"

fun base64Encode :: "bytes \<Rightarrow> string" where
  "base64Encode [] = []"
| "base64Encode [a] = [enc6 (byte a div 4), enc6 (byte a mod 4 * 16), CHR ''='', CHR ''='']"
| "base64Encode [a, b] =
     [enc6 (byte a div 4), enc6 (byte a mod 4 * 16 + byte b div 16), enc6 (byte b mod 16 * 4), CHR ''='']"
| "base64Encode (a # b # c # rest) =
     [enc6 (byte a div 4), enc6 (byte a mod 4 * 16 + byte b div 16),
      enc6 (byte b mod 16 * 4 + byte c div 64), enc6 (byte c mod 64)] @ base64Encode rest"

fun decodeQuads :: "string \<Rightarrow> bytes option" where
  "decodeQuads [] = Some []"
| "decodeQuads (a # b # c # d # rest) =
     (if d = CHR ''='' \<and> rest = []
      then (if c = CHR ''=''
            then (case (dec6 a, dec6 b) of
                    (Some w, Some x) \<Rightarrow> Some [char_of (w * 4 + x div 16)]
                  | _ \<Rightarrow> None)
            else (case (dec6 a, dec6 b, dec6 c) of
                    (Some w, Some x, Some y) \<Rightarrow> Some [char_of (w * 4 + x div 16), char_of (x mod 16 * 16 + y div 4)]
                  | _ \<Rightarrow> None))
      else (case (dec6 a, dec6 b, dec6 c, dec6 d) of
              (Some w, Some x, Some y, Some z) \<Rightarrow>
                map_option (\<lambda>bs. [char_of (w * 4 + x div 16), char_of (x mod 16 * 16 + y div 4), char_of (y mod 4 * 64 + z)] @ bs)
                  (decodeQuads rest)
            | _ \<Rightarrow> None))"
| "decodeQuads _ = None"

definition base64Decode :: "string \<Rightarrow> bytes option" where
  "base64Decode s = decodeQuads (filter (\<lambda>c. byte c \<noteq> 10 \<and> byte c \<noteq> 13) s)"

lemma byte_char_of: "n < 256 \<Longrightarrow> byte (char_of n) = n"
  by simp

lemma byte_enc6:
  "n < 64 \<Longrightarrow> byte (enc6 n) =
     (if n < 26 then 65 + n else if n < 52 then 71 + n else if n < 62 then n - 4 else if n = 62 then 43 else 47)"
  by (simp add: enc6_def)

lemma enc6_facts [simp]:
  assumes "n < 64"
  shows "dec6 (enc6 n) = Some n" and "enc6 n \<noteq> CHR ''=''" and "byte (enc6 n) \<noteq> 10" and "byte (enc6 n) \<noteq> 13"
    and "byte (enc6 n) < 128"
proof -
  show "dec6 (enc6 n) = Some n"
    using assms by (simp add: dec6_def byte_enc6 Let_def) linarith
  have "byte (enc6 n) \<noteq> 61" using assms by (auto simp: byte_enc6)
  then show "enc6 n \<noteq> CHR ''=''" by auto
qed (use assms in \<open>auto simp: byte_enc6\<close>)

lemma six_bits:
  fixes x y :: nat
  assumes "y < 16"
  shows "(x * 16 + y) div 16 = x" and "(x * 16 + y) mod 16 = y"
  using assms by simp_all

lemma two_bits:
  fixes x y :: nat
  assumes "y < 4"
  shows "(x * 4 + y) div 4 = x" and "(x * 4 + y) mod 4 = y"
  using assms by simp_all

lemma byte_div: "byte a div 4 < 64" "byte a div 16 < 16" "byte a div 64 < 4"
  using byte_less_256 [of a] by (simp_all add: div_less_iff_less_mult)

lemma byte_small:
  "byte b div 16 div 16 = 0" "byte b div 16 mod 16 = byte b div 16"
  "byte b div 64 div 4 = 0" "byte b div 64 mod 4 = byte b div 64"
  using byte_div(2,3) [of b] by simp_all

lemma byte_parts:
  "byte a div 4 < 64" "byte a mod 4 * 16 < 64" "byte a mod 4 * 16 + byte b div 16 < 64"
  "byte b mod 16 * 4 < 64" "byte b mod 16 * 4 + byte c div 64 < 64" "byte c mod 64 < 64"
proof -
  have "byte a mod 4 < 4" "byte b mod 16 < 16" by simp_all
  then show "byte a mod 4 * 16 < 64" "byte a mod 4 * 16 + byte b div 16 < 64" "byte b mod 16 * 4 < 64"
    "byte b mod 16 * 4 + byte c div 64 < 64"
    using byte_div(2) [of b] byte_div(3) [of c] by linarith+
qed (simp_all add: byte_div)

lemma base64Encode_chars:
  "c \<in> set (base64Encode bs) \<Longrightarrow> byte c \<noteq> 10 \<and> byte c \<noteq> 13 \<and> byte c < 128"
proof (induction bs rule: base64Encode.induct)
  case (4 a b d rest)
  then show ?case by (auto simp: byte_parts)
qed (auto simp: byte_parts)

text \<open>Four characters back to three bytes.\<close>

lemma regroup:
  "byte a div 4 * 4 + (byte a mod 4 * 16 + byte b div 16) div 16 = byte a"
  "(byte a mod 4 * 16 + byte b div 16) mod 16 * 16 + (byte b mod 16 * 4 + byte c div 64) div 4 = byte b"
  "(byte b mod 16 * 4 + byte c div 64) mod 4 * 64 + byte c mod 64 = byte c"
  "byte a div 4 * 4 + byte a mod 4 * 16 div 16 = byte a"
  "(byte a mod 4 * 16 + byte b div 16) mod 16 * 16 + byte b mod 16 * 4 div 4 = byte b"
  by (simp_all only: six_bits [OF byte_div(2)] two_bits [OF byte_div(3)] div_mult_mod_eq nonzero_mult_div_cancel_right
      zero_neq_numeral not_False_eq_True numeral_neq_zero)

lemma decodeQuads_Encode: "decodeQuads (base64Encode bs) = Some bs"
proof (induction bs rule: base64Encode.induct)
  case (2 a)
  show ?case by (simp add: byte_parts regroup del: mult_div_mod_eq)
next
  case (3 a b)
  show ?case by (simp add: byte_parts regroup byte_small)
next
  case (4 a b c rest)
  then show ?case by (simp add: byte_parts regroup byte_small)
qed simp

lemma base64_round_trip: "base64Decode (base64Encode bs) = Some bs"
proof -
  have "filter (\<lambda>c. byte c \<noteq> 10 \<and> byte c \<noteq> 13) (base64Encode bs) = base64Encode bs"
    by (rule filter_True) (auto dest: base64Encode_chars)
  then show ?thesis by (simp add: base64Decode_def decodeQuads_Encode)
qed

section \<open>JSON values\<close>

text \<open>A number is kept as its literal.\<close>

datatype json =
    JNull
  | JBool bool
  | JNum string
  | JStr string
  | JArr "json list"
  | JObj "(string \<times> json) list"

function toValidUTF8 :: "bytes \<Rightarrow> bytes" where
  "toValidUTF8 [] = []"
| "toValidUTF8 (a # s) =
     (case DecodeRune (a # s) of (r, width) \<Rightarrow>
        if r = RuneError \<and> width = 1 then EncodeRune RuneError @ toValidUTF8 s
        else take width (a # s) @ toValidUTF8 (drop (width - 1) s))"
  by pat_completeness auto
termination
  by (relation "measure length") auto

definition validUTF8 :: "bytes \<Rightarrow> bool" where
  "validUTF8 s \<longleftrightarrow> toValidUTF8 s = s"

fun jsonWire :: "json \<Rightarrow> json" where
  "jsonWire (JStr s) = JStr (toValidUTF8 s)"
| "jsonWire (JArr vs) = JArr (map jsonWire vs)"
| "jsonWire (JObj kvs) = JObj (map (\<lambda>(k, v). (toValidUTF8 k, jsonWire v)) kvs)"
| "jsonWire v = v"

lemma toValidUTF8_ascii: "list_all (\<lambda>c. byte c < 128) s \<Longrightarrow> toValidUTF8 s = s"
proof (induction s)
  case (Cons a s)
  then show ?case by (simp add: DecodeRune_def RuneError_def)
qed simp

lemma validUTF8_base64: "validUTF8 (base64Encode bs)"
  unfolding validUTF8_def by (rule toValidUTF8_ascii) (auto simp: list_all_iff dest: base64Encode_chars)

lemma toValidUTF8_base64 [simp]: "toValidUTF8 (base64Encode bs) = base64Encode bs"
  using validUTF8_base64 by (simp add: validUTF8_def)

lemma validUTF8_examples:
  "validUTF8 [CHR 0xC3, CHR 0xA9]" "\<not> validUTF8 [CHR 0xC3]"
  by (simp_all add: validUTF8_def DecodeRune_def RuneError_def cont_def EncodeRune_def ValidRune_def)

end
