(* ===== verification/Server_Websocket.thy ===== *)
theory Server_Websocket
  imports Server_Proxy Go_Encoding
begin

text \<open>
  What the websocket handler of the stand-alone proxy (\<^verbatim>\<open>handleWebsocketRequest\<close> in
  \<^verbatim>\<open>server/server.go\<close>) sends and receives: websocket messages of the client become POST requests to the
  agent's shim endpoints, and the answers of poll requests become websocket messages. The requests
  themselves are frontend requests of \<open>Server_Proxy\<close>. The handler and its goroutines are in
  \<open>Server_Ws_Session\<close>.

  Parameters: URL parsing.
\<close>

section \<open>Requests to the shim endpoints\<close>

definition newShimRequest :: "serverEnv \<Rightarrow> (string \<Rightarrow> error option) \<Rightarrow> string \<Rightarrow> string \<Rightarrow> bytes \<Rightarrow> error + httpRequest" where
  "newShimRequest env badURL host endpoint body =
     (let path = shimPath env @ ''/'' @ endpoint;
          url = ''http://'' @ host @ path
      in case badURL url of
           Some err \<Rightarrow> Inl (ErrMsg (''failed to create HTTP request: '' @ errorText err))
         | None \<Rightarrow> Inr \<lparr>hr_Method = ''POST'', hr_Path = path, hr_URL = url,
                        hr_Header = headerSet [] ''X-Websocket-Shim-Version'' ''1'', hr_Body = Inr body\<rparr>)"

fun joinComma :: "string list \<Rightarrow> string" where
  "joinComma [] = []"
| "joinComma [v] = v"
| "joinComma (v # vs) = v @ '', '' @ joinComma vs"

definition openHeader :: "header \<Rightarrow> header \<Rightarrow> header" where
  "openHeader clientHdr reqHdr =
     headerSet (fold (\<lambda>(k, v) h. if isHopByHopHeader k then h else headerSet h k (joinComma v)) clientHdr reqHdr)
       ''Origin'' []"

definition openRequest ::
  "serverEnv \<Rightarrow> (string \<Rightarrow> error option) \<Rightarrow> string \<Rightarrow> string \<Rightarrow> header \<Rightarrow> error + httpRequest" where
  "openRequest env badURL host requestURI clientHdr =
     (case newShimRequest env badURL host ''open'' (''ws://'' @ host @ requestURI) of
        Inl err \<Rightarrow> Inl (ErrMsg (''failed to create a new open request: '' @ errorText err))
      | Inr req \<Rightarrow> Inr (req\<lparr>hr_Header := openHeader clientHdr (hr_Header req)\<rparr>))"

section \<open>Messages\<close>

record messageData =
  md_data :: bytes
  md_text :: bool

record wsSessionMessage =
  wm_ID :: string
  wm_Message :: json
  wm_Version :: nat
  wm_Subprotocol :: string

text \<open>What the reading goroutine makes of one client message, given what each read of it returned.\<close>

definition readClientMessage :: "bool \<Rightarrow> bytes list \<Rightarrow> messageData list" where
  "readClientMessage mt reads = map (\<lambda>b. \<lparr>md_data = b, md_text = mt\<rparr>) (filter (\<lambda>b. b \<noteq> []) reads)"

text \<open>A byte slice inside an interface is marshalled as base64 text.\<close>

definition clientPayload :: "shimSession \<Rightarrow> messageData list \<Rightarrow> wsSessionMessage list" where
  "clientPayload session msg =
     map (\<lambda>md. \<lparr>wm_ID = ss_ID session,
               wm_Message = (if md_text md then JStr (md_data md) else JArr [JStr (base64Encode (md_data md))]),
               wm_Version = ss_Version session, wm_Subprotocol = ss_Subprotocol session\<rparr>) msg"

text \<open>\<open>None\<close> is a panic: the index into an empty array.\<close>

definition parseServerMessage :: "json \<Rightarrow> (error + messageData) option" where
  "parseServerMessage buf =
     (case buf of
        JStr data \<Rightarrow> Some (Inr \<lparr>md_data = data, md_text = True\<rparr>)
      | JArr [] \<Rightarrow> None
      | JArr (JStr b64data # _) \<Rightarrow>
          (case base64Decode b64data of
             Some data \<Rightarrow> Some (Inr \<lparr>md_data = data, md_text = False\<rparr>)
           | None \<Rightarrow> Some (Inl (ErrMsg ''unexpected data format from server'')))
      | _ \<Rightarrow> Some (Inl (ErrMsg ''unexpected data format from server'')))"

section \<open>Polling\<close>

text \<open>
  The polling goroutine: the results of its successive poll requests, and the bodies it hands to
  the session; an error ends it.
\<close>

fun pollLoop :: "frontResult list \<Rightarrow> bytes list \<times> bool" where
  "pollLoop [] = ([], True)"
| "pollLoop (Failed err # rs) = ([], False)"
| "pollLoop (ShimPolled p # rs) = (case pollLoop rs of (ps, alive) \<Rightarrow> (p # ps, alive))"
| "pollLoop (_ # rs) = pollLoop rs"

end
