(* ===== verification/Server_Ws_Session.thy ===== *)
theory Server_Ws_Session
  imports Server_Websocket Event_Systems
begin

text \<open>
  One call of the websocket handler, \<^verbatim>\<open>handleWebsocketRequest\<close> in \<^verbatim>\<open>server/server.go\<close>, as an event system
  (\<open>wsStep\<close>) of its three goroutines: the handler, which opens the session and then loops over client
  messages and poll answers, the goroutine that reads the client's websocket, and the one that polls the
  agent. A frontend request is made when an event leads to a state that waits for it; its result comes
  with the event that ends the wait (\<open>frontResult\<close> of \<open>Server_Proxy\<close>). \<open>readChan\<close> has no buffer: a
  message is handed over when the handler is at its select. \<open>writeChan\<close> has the buffer \<open>we_bufSize\<close>, which
  is assumed to be positive, as its default is.

  \<open>wh_read\<close>, \<open>wh_taken\<close>, \<open>wh_data\<close>, \<open>wh_polled\<close>, \<open>wh_decoded\<close> record the client messages read and those the handler
  took, the data requests made, the poll answers received and those decoded. \<open>cc_written\<close> are the messages
  written to the client, \<open>cc_error\<close> the error of a websocket that broke.

  Parameters (\<open>wsEnv\<close>): JSON printing and parsing, URL parsing, the host of the request.
\<close>

section \<open>Requests of a session\<close>

record wsEnv =
  we_marshal :: "wsSessionMessage list \<Rightarrow> error + bytes"
  we_marshalOne :: "wsSessionMessage \<Rightarrow> error + bytes"
  we_unmarshal :: "bytes \<Rightarrow> error + json list"
  we_badURL :: "string \<Rightarrow> error option"
  we_host :: string
  we_bufSize :: nat

definition idMessage :: "shimSession \<Rightarrow> wsSessionMessage" where
  "idMessage session = \<lparr>wm_ID = ss_ID session, wm_Message = JNull, wm_Version = 0, wm_Subprotocol = []\<rparr>"

definition dataRequest :: "serverEnv \<Rightarrow> wsEnv \<Rightarrow> shimSession \<Rightarrow> messageData list \<Rightarrow> error + httpRequest" where
  "dataRequest env we session msg =
     (case we_marshal we (clientPayload session msg) of
        Inl err \<Rightarrow> Inl (ErrMsg (''failed to encoded data in JSON format: '' @ errorText err))
      | Inr buf \<Rightarrow>
          (case newShimRequest env (we_badURL we) (we_host we) ''data'' buf of
             Inl err \<Rightarrow> Inl (ErrMsg (''failed to create a new data request: '' @ errorText err))
           | Inr req \<Rightarrow> Inr req))"

definition sessionRequest :: "serverEnv \<Rightarrow> wsEnv \<Rightarrow> string \<Rightarrow> shimSession \<Rightarrow> error + httpRequest" where
  "sessionRequest env we endpoint session =
     (case we_marshalOne we (idMessage session) of
        Inl err \<Rightarrow> Inl err
      | Inr buf \<Rightarrow> newShimRequest env (we_badURL we) (we_host we) endpoint buf)"

section \<open>State\<close>

record clientWs =
  cc_written :: "messageData list"
  cc_error :: "error option"

definition clientWrite :: "messageData \<Rightarrow> clientWs \<Rightarrow> error option \<times> clientWs" where
  "clientWrite m c =
     (case cc_error c of Some err \<Rightarrow> (Some err, c) | None \<Rightarrow> (None, c\<lparr>cc_written := cc_written c @ [m]\<rparr>))"

text \<open>How the handler returns: with an error, or by a panic.\<close>

datatype wsResult = Ended error | Panicked

text \<open>
  \<open>Opening\<close>, \<open>PostingData\<close>, \<open>Closing\<close>: waiting for the result of a frontend request. \<open>Writing\<close>: inside the
  loop over the messages of a poll answer.
\<close>

datatype wsMain =
    Opening httpRequest
  | Accepting
  | AtLoop
  | PostingData httpRequest
  | Writing "json list"
  | Closing httpRequest wsResult
  | HandlerDone wsResult

datatype wsReader = ReaderOff | WaitsFrame | Collects bool "bytes list" | Hands "messageData list" | ReaderGone

datatype wsPoller = PollerOff | Polls httpRequest | PutsBody bytes | PollerGone

record wsHandler =
  wh_main :: wsMain
  wh_session :: shimSession
  wh_reader :: wsReader
  wh_poller :: wsPoller
  wh_writeChan :: "bytes list"
  wh_ctxDone :: bool
  wh_client :: clientWs
  wh_read :: "messageData list list"
  wh_taken :: "messageData list list"
  wh_data :: "httpRequest list"
  wh_polled :: "bytes list"
  wh_decoded :: "bytes list"

definition newWsHandler :: "serverEnv \<Rightarrow> wsEnv \<Rightarrow> string \<Rightarrow> header \<Rightarrow> wsHandler" where
  "newWsHandler env we requestURI clientHdr =
     \<lparr>wh_main = (case openRequest env (we_badURL we) (we_host we) requestURI clientHdr of
                   Inl err \<Rightarrow> HandlerDone (Ended err) | Inr req \<Rightarrow> Opening req),
      wh_session = \<lparr>ss_ID = [], ss_Version = 0, ss_Subprotocol = []\<rparr>, wh_reader = ReaderOff, wh_poller = PollerOff,
      wh_writeChan = [], wh_ctxDone = False, wh_client = \<lparr>cc_written = [], cc_error = None\<rparr>, wh_read = [], wh_taken = [],
      wh_data = [], wh_polled = [], wh_decoded = []\<rparr>"

section \<open>Steps\<close>

text \<open>The begin of an iteration of the polling goroutine.\<close>

definition nextPoll :: "serverEnv \<Rightarrow> wsEnv \<Rightarrow> wsHandler \<Rightarrow> wsHandler" where
  "nextPoll env we h =
     h\<lparr>wh_poller := (case sessionRequest env we ''poll'' (wh_session h) of Inl err \<Rightarrow> PollerGone | Inr req \<Rightarrow> Polls req)\<rparr>"

text \<open>The deferred function; the context is cancelled after the answer to the close request.\<close>

definition leave :: "serverEnv \<Rightarrow> wsEnv \<Rightarrow> wsResult \<Rightarrow> wsHandler \<Rightarrow> wsHandler" where
  "leave env we res h =
     h\<lparr>wh_main := (case sessionRequest env we ''close'' (wh_session h) of
                     Inl err \<Rightarrow> HandlerDone res | Inr req \<Rightarrow> Closing req res)\<rparr>"

text \<open>One turn of the loop over the messages of a poll answer.\<close>

definition writeNext :: "serverEnv \<Rightarrow> wsEnv \<Rightarrow> json \<Rightarrow> json list \<Rightarrow> wsHandler \<Rightarrow> wsHandler" where
  "writeNext env we b bs h =
     (case parseServerMessage b of
        None \<Rightarrow> leave env we Panicked h
      | Some (Inl err) \<Rightarrow> leave env we (Ended err) h
      | Some (Inr msg) \<Rightarrow>
          (case clientWrite msg (wh_client h) of
             (Some err, c) \<Rightarrow> leave env we (Ended err) (h\<lparr>wh_client := c\<rparr>)
           | (None, c) \<Rightarrow> h\<lparr>wh_client := c, wh_main := (if bs = [] then AtLoop else Writing bs)\<rparr>))"

datatype wsEvent =
    OpenDone frontResult
  | AcceptDone "error option"
  | FrameBegins bool
  | FrameBytes bytes
  | FrameEnds
  | ReaderFails
  | TakeClient
  | DataDone frontResult
  | PollAnswered frontResult
  | PutBody
  | TakeServer
  | WriteOne
  | ClientBreaks error
  | LoopCtxDone
  | CloseDone frontResult

fun wsStep :: "serverEnv \<Rightarrow> wsEnv \<Rightarrow> wsEvent \<Rightarrow> wsHandler \<Rightarrow> wsHandler option" where
  "wsStep env we (OpenDone res) h =
     (case wh_main h of
        Opening req \<Rightarrow>
          Some (case res of
                  Failed err \<Rightarrow> h\<lparr>wh_main := HandlerDone (Ended err)\<rparr>
                | ShimOpened session \<Rightarrow> h\<lparr>wh_main := Accepting, wh_session := session\<rparr>
                | _ \<Rightarrow> h\<lparr>wh_main := Accepting\<rparr>)
      | _ \<Rightarrow> None)"
| "wsStep env we (AcceptDone res) h =
     (if wh_main h = Accepting
      then Some (case res of
                   Some err \<Rightarrow> h\<lparr>wh_main := HandlerDone (Ended err)\<rparr>
                 | None \<Rightarrow> nextPoll env we (h\<lparr>wh_main := AtLoop, wh_reader := WaitsFrame\<rparr>))
      else None)"
| "wsStep env we (FrameBegins mt) h =
     (if wh_reader h = WaitsFrame \<and> cc_error (wh_client h) = None \<and> \<not> wh_ctxDone h
      then Some (h\<lparr>wh_reader := Collects mt []\<rparr>) else None)"
| "wsStep env we (FrameBytes bs) h =
     (case wh_reader h of
        Collects mt reads \<Rightarrow> if length bs \<le> we_bufSize we then Some (h\<lparr>wh_reader := Collects mt (reads @ [bs])\<rparr>) else None
      | _ \<Rightarrow> None)"
| "wsStep env we FrameEnds h =
     (case wh_reader h of
        Collects mt reads \<Rightarrow>
          Some (h\<lparr>wh_reader := Hands (readClientMessage mt reads), wh_read := wh_read h @ [readClientMessage mt reads]\<rparr>)
      | _ \<Rightarrow> None)"
| "wsStep env we ReaderFails h = (if wh_reader h = WaitsFrame then Some (h\<lparr>wh_reader := ReaderGone\<rparr>) else None)"
| "wsStep env we TakeClient h =
     (case (wh_main h, wh_reader h) of
        (AtLoop, Hands msg) \<Rightarrow>
          (let h1 = h\<lparr>wh_reader := WaitsFrame, wh_taken := wh_taken h @ [msg]\<rparr>
           in Some (case dataRequest env we (wh_session h) msg of
                      Inl err \<Rightarrow> leave env we (Ended err) h1
                    | Inr req \<Rightarrow> h1\<lparr>wh_main := PostingData req, wh_data := wh_data h @ [req]\<rparr>))
      | _ \<Rightarrow> None)"
| "wsStep env we (DataDone res) h =
     (case wh_main h of
        PostingData req \<Rightarrow> Some (case res of Failed err \<Rightarrow> leave env we (Ended err) h | _ \<Rightarrow> h\<lparr>wh_main := AtLoop\<rparr>)
      | _ \<Rightarrow> None)"
| "wsStep env we (PollAnswered res) h =
     (case wh_poller h of
        Polls req \<Rightarrow>
          Some (case res of
                  Failed err \<Rightarrow> h\<lparr>wh_poller := PollerGone\<rparr>
                | ShimPolled p \<Rightarrow> h\<lparr>wh_poller := PutsBody p, wh_polled := wh_polled h @ [p]\<rparr>
                | _ \<Rightarrow> nextPoll env we h)
      | _ \<Rightarrow> None)"
| "wsStep env we PutBody h =
     (case wh_poller h of
        PutsBody p \<Rightarrow>
          if length (wh_writeChan h) < we_bufSize we
          then Some (nextPoll env we (h\<lparr>wh_writeChan := wh_writeChan h @ [p]\<rparr>)) else None
      | _ \<Rightarrow> None)"
| "wsStep env we TakeServer h =
     (case (wh_main h, wh_writeChan h) of
        (AtLoop, p # ps) \<Rightarrow>
          (let h1 = h\<lparr>wh_writeChan := ps\<rparr>
           in Some (case we_unmarshal we p of
                      Inl err \<Rightarrow> leave env we (Ended err) h1
                    | Inr bs \<Rightarrow> h1\<lparr>wh_main := (if bs = [] then AtLoop else Writing bs), wh_decoded := wh_decoded h @ [p]\<rparr>))
      | _ \<Rightarrow> None)"
| "wsStep env we WriteOne h = (case wh_main h of Writing (b # bs) \<Rightarrow> Some (writeNext env we b bs h) | _ \<Rightarrow> None)"
| "wsStep env we (ClientBreaks err) h =
     (if cc_error (wh_client h) = None then Some (h\<lparr>wh_client := (wh_client h)\<lparr>cc_error := Some err\<rparr>\<rparr>) else None)"
| "wsStep env we LoopCtxDone h =
     (if wh_main h = AtLoop \<and> wh_ctxDone h then Some (leave env we (Ended (ErrMsg ''context closed'')) h) else None)"
| "wsStep env we (CloseDone res) h =
     (case wh_main h of Closing req r \<Rightarrow> Some (h\<lparr>wh_main := HandlerDone r, wh_ctxDone := True\<rparr>) | _ \<Rightarrow> None)"

end
