(* ===== verification/Agent_Websockets.thy ===== *)
theory Agent_Websockets
  imports Go_Encoding Agent_Utils
begin

text \<open>
  The agent's websocket connections, \<^verbatim>\<open>agent/websockets/connection.go\<close>: messages and their
  JSON form, the client connection with its two buffered channels and the goroutines that drain and
  fill them, and the injection of header values into JSON messages.

  Operations on channels may block or panic: \<open>outcome\<close>. The goroutines and the calls of the
  endpoints are the events of \<open>connStep\<close>. The fields \<open>cn_accepted\<close>, \<open>cn_written\<close>,
  \<open>cn_received\<close> and \<open>cn_returned\<close> record the messages that passed each end of the connection;
  the code has no such fields and no step reads them.

  Parameters: the websocket dialer, JSON parsing and printing of whole messages, and \<open>showV\<close>,
  the \<^verbatim>\<open>%+v\<close> format of a JSON value in error texts.
\<close>

section \<open>Messages\<close>

definition TextMessage :: nat where
  "TextMessage = 1"

definition BinaryMessage :: nat where
  "BinaryMessage = 2"

definition CloseMessage :: nat where
  "CloseMessage = 8"

record wsMessage =
  m_Type :: nat
  m_Data :: bytes

definition Serialize :: "int \<Rightarrow> wsMessage \<Rightarrow> json" where
  "Serialize version m =
     (if m_Type m = TextMessage then JStr (m_Data m)
      else if version = 0 then JArr [JStr (m_Data m)]
      else JArr [JStr (base64Encode (m_Data m))])"

section \<open>The connection\<close>

datatype 'a outcome = Returns 'a | Blocks | Panics

definition chanCapacity :: nat where
  "chanCapacity = 10"

text \<open>A send on a buffered channel of that capacity.\<close>

definition chanSend :: "bool \<Rightarrow> 'a list \<Rightarrow> 'a \<Rightarrow> 'a list outcome" where
  "chanSend isClosed q x =
     (if isClosed then Panics else if length q < chanCapacity then Returns (q @ [x]) else Blocks)"

text \<open>
  \<open>cn_done\<close>: the context is cancelled; \<open>cn_inflight\<close>: the message the reading goroutine
  holds while it waits to send it; \<open>cn_reading\<close>, \<open>cn_writing\<close>: the goroutines run.
\<close>

record connection =
  cn_protocolVersion :: int
  cn_subprotocol :: string
  cn_lastActivity :: time
  cn_done :: bool
  cn_client :: "wsMessage option list"
  cn_clientClosed :: bool
  cn_server :: "wsMessage list"
  cn_serverClosed :: bool
  cn_inflight :: "wsMessage option"
  cn_reading :: bool
  cn_writing :: bool
  cn_accepted :: "wsMessage list"
  cn_written :: "wsMessage list"
  cn_received :: "wsMessage list"
  cn_returned :: "wsMessage list"

definition stripHeaderNames :: "string list" where
  "stripHeaderNames =
     [''Upgrade'', ''Connection'', ''Sec-Websocket-Key'', ''Sec-Websocket-Version'', ''Sec-Websocket-Extensions'']"

definition stripWSHeader :: "header \<Rightarrow> header" where
  "stripWSHeader h = filter (\<lambda>(k, v). k \<notin> set stripHeaderNames) h"

definition updateActivity :: "time \<Rightarrow> connection \<Rightarrow> connection" where
  "updateActivity t c = c\<lparr>cn_lastActivity := t\<rparr>"

definition lastActivity :: "connection \<Rightarrow> time" where
  "lastActivity c = cn_lastActivity c"

definition NewConnection ::
  "(string \<Rightarrow> header \<Rightarrow> error + string) \<Rightarrow> time \<Rightarrow> string \<Rightarrow> header \<Rightarrow> error + connection" where
  "NewConnection dial t targetURL header =
     (case dial targetURL (stripWSHeader header) of
        Inl err \<Rightarrow> Inl err
      | Inr subprotocol \<Rightarrow>
          Inr \<lparr>cn_protocolVersion = 0, cn_subprotocol = subprotocol, cn_lastActivity = t, cn_done = False,
               cn_client = [], cn_clientClosed = False, cn_server = [], cn_serverClosed = False, cn_inflight = None,
               cn_reading = True, cn_writing = True,
               cn_accepted = [], cn_written = [], cn_received = [], cn_returned = []\<rparr>)"

text \<open>The close message carries status code 1000 in network byte order and no text.\<close>

definition closeMessage :: wsMessage where
  "closeMessage = \<lparr>m_Type = CloseMessage, m_Data = [CHR 0x03, CHR 0xE8]\<rparr>"

definition pushClient :: "wsMessage option \<Rightarrow> connection \<Rightarrow> connection outcome" where
  "pushClient m c =
     (case chanSend (cn_clientClosed c) (cn_client c) m of
        Returns q \<Rightarrow>
          Returns (c\<lparr>cn_client := q,
                     cn_accepted := cn_accepted c @ (case m of None \<Rightarrow> [] | Some x \<Rightarrow> [x])\<rparr>)
      | Blocks \<Rightarrow> Blocks
      | Panics \<Rightarrow> Panics)"

definition conn_Close :: "connection \<Rightarrow> connection outcome" where
  "conn_Close c =
     (case pushClient (Some closeMessage) c of
        Returns c1 \<Rightarrow> Returns (c1\<lparr>cn_clientClosed := True\<rparr>)
      | r \<Rightarrow> r)"

section \<open>Injection of header values\<close>

definition websocketShimInjectedHeadersPath :: "string list" where
  "websocketShimInjectedHeadersPath = [''resource'', ''headers'']"

definition addMissing :: "(string \<times> string) list \<Rightarrow> (string \<times> json) list \<Rightarrow> (string \<times> json) list" where
  "addMissing vals obj =
     fold (\<lambda>(k, v) o'. case map_of o' k of None \<Rightarrow> AList.update k (JStr v) o' | Some _ \<Rightarrow> o') vals obj"

text \<open>The object reached by the path is updated in place, inside the objects around it.\<close>

fun injectAt :: "string list \<Rightarrow> (string \<times> string) list \<Rightarrow> (string \<times> json) list \<Rightarrow> (string \<times> json) list option" where
  "injectAt [] vals obj = Some (addMissing vals obj)"
| "injectAt (p # path) vals obj =
     (case map_of obj p of
        Some (JObj inner) \<Rightarrow> map_option (\<lambda>inner'. AList.update p (JObj inner') obj) (injectAt path vals inner)
      | _ \<Rightarrow> None)"

definition injectWebsocketMessage ::
  "(bytes \<Rightarrow> error + (string \<times> json) list) \<Rightarrow> ((string \<times> json) list \<Rightarrow> error + bytes)
   \<Rightarrow> wsMessage option \<Rightarrow> string list \<Rightarrow> (string \<times> string) list \<Rightarrow> error + wsMessage option" where
  "injectWebsocketMessage unmarshal marshal msg path vals =
     (case msg of
        None \<Rightarrow> Inl (ErrMsg ''unexpected nil message'')
      | Some m \<Rightarrow>
          if vals = [] then Inr (Some m)
          else (case unmarshal (m_Data m) of
                  Inl err \<Rightarrow> Inl (ErrMsg (''failed to unmarshal as json message: '' @ errorText err))
                | Inr obj \<Rightarrow>
                    (case injectAt path vals obj of
                       None \<Rightarrow> Inl (ErrMsg ''failed to inject value due to unexpected message json format'')
                     | Some obj' \<Rightarrow>
                         (case marshal obj' of
                            Inl err \<Rightarrow> Inl (ErrMsg (''failed to marshal json as bytes: '' @ errorText err))
                          | Inr newMsgBytes \<Rightarrow> Inr (Some \<lparr>m_Type = m_Type m, m_Data = newMsgBytes\<rparr>)))))"

section \<open>Sending and reading\<close>

text \<open>The message a JSON value stands for; \<open>Inr None\<close> is a nil message, which is sent and then skipped.\<close>

definition clientMessageOf :: "(json \<Rightarrow> string) \<Rightarrow> int \<Rightarrow> json \<Rightarrow> error + wsMessage option" where
  "clientMessageOf showV version msg =
     (case msg of
        JStr textMsg \<Rightarrow> Inr (Some \<lparr>m_Type = TextMessage, m_Data = textMsg\<rparr>)
      | JArr [v] \<Rightarrow>
          (case v of
             JStr blobText \<Rightarrow>
               if version = 0 then Inr (Some \<lparr>m_Type = BinaryMessage, m_Data = blobText\<rparr>)
               else (case base64Decode blobText of
                       None \<Rightarrow> Inl (ErrMsg (''unexpected websocket-shim message format: '' @ showV msg))
                     | Some data \<Rightarrow> Inr (Some \<lparr>m_Type = BinaryMessage, m_Data = data\<rparr>))
           | _ \<Rightarrow> Inr None)
      | _ \<Rightarrow> Inl (ErrMsg (''unexpected websocket-shim message type: '' @ showV msg)))"

record wsFormats =
  showV :: "json \<Rightarrow> string"
  unmarshalObj :: "bytes \<Rightarrow> error + (string \<times> json) list"
  marshalObj :: "(string \<times> json) list \<Rightarrow> error + bytes"

definition SendClientMessage ::
  "wsFormats \<Rightarrow> time \<Rightarrow> json \<Rightarrow> bool \<Rightarrow> (string \<times> string) list \<Rightarrow> connection
   \<Rightarrow> (error option \<times> connection) outcome" where
  "SendClientMessage fmts t msg injectionEnabled injectedHeaders c0 =
     (let c = updateActivity t c0 in
      case clientMessageOf (showV fmts) (cn_protocolVersion c) msg of
        Inl err \<Rightarrow> Returns (Some err, c)
      | Inr clientMessage \<Rightarrow>
          (let clientMessage' =
             (if injectionEnabled
              then (case injectWebsocketMessage (unmarshalObj fmts) (marshalObj fmts) clientMessage
                           websocketShimInjectedHeadersPath injectedHeaders of
                      Inl err \<Rightarrow> clientMessage
                    | Inr injectedMsg \<Rightarrow> injectedMsg)
              else clientMessage)
           in if cn_done c
              then Returns (Some (ErrMsg ''attempt to send a client message on a closed websocket connection''), c)
              else (case pushClient clientMessage' c of
                      Returns c1 \<Rightarrow> Returns (None, c1)
                    | Blocks \<Rightarrow> Blocks
                    | Panics \<Rightarrow> Panics)))"

text \<open>
  \<open>Inr None\<close> is the nil slice of a timeout. The messages are those in the channel when the call
  finds it nonempty or the timeout passes.
\<close>

definition ReadServerMessages :: "time \<Rightarrow> connection \<Rightarrow> (error + json list option) \<times> connection" where
  "ReadServerMessages t c0 =
     (let c = updateActivity t c0 in
      if cn_server c \<noteq> []
      then (Inr (Some (map (Serialize (cn_protocolVersion c)) (cn_server c))),
            c\<lparr>cn_server := [], cn_returned := cn_returned c @ cn_server c\<rparr>)
      else if cn_serverClosed c
      then (Inl (ErrMsg ''attempt to read a server message from a closed websocket connection''), c)
      else (Inr None, c))"

section \<open>Events of a connection\<close>

datatype connEvent =
    ServerMessage wsMessage
  | PushServer
  | ReadFails
  | ReaderStops
  | WriteNext
  | WriteFails
  | WriterEnds
  | WriterStops
  | CallSend time json bool "(string \<times> string) list"
  | CallRead time
  | CallClose

fun connStep :: "wsFormats \<Rightarrow> connEvent \<Rightarrow> connection \<Rightarrow> connection option" where
  "connStep fmts (ServerMessage m) c =
     (if cn_reading c \<and> cn_inflight c = None
      then Some (c\<lparr>cn_inflight := Some m, cn_received := cn_received c @ [m]\<rparr>) else None)"
| "connStep fmts PushServer c =
     (case cn_inflight c of
        Some m \<Rightarrow>
          if length (cn_server c) < chanCapacity
          then Some (c\<lparr>cn_server := cn_server c @ [m], cn_inflight := None\<rparr>) else None
      | None \<Rightarrow> None)"
| "connStep fmts ReadFails c =
     (if cn_reading c \<and> cn_inflight c = None
      then Some (c\<lparr>cn_reading := False, cn_serverClosed := True, cn_done := True\<rparr>) else None)"
| "connStep fmts ReaderStops c =
     (if cn_reading c \<and> cn_inflight c = None \<and> cn_done c
      then Some (c\<lparr>cn_reading := False, cn_serverClosed := True\<rparr>) else None)"
| "connStep fmts WriteNext c =
     (if cn_writing c
      then (case cn_client c of
              [] \<Rightarrow> None
            | None # q \<Rightarrow> Some (c\<lparr>cn_client := q\<rparr>)
            | Some m # q \<Rightarrow> Some (c\<lparr>cn_client := q, cn_written := cn_written c @ [m]\<rparr>))
      else None)"
| "connStep fmts WriteFails c =
     (if cn_writing c
      then (case cn_client c of
              Some m # q \<Rightarrow> Some (c\<lparr>cn_client := q, cn_writing := False, cn_done := True\<rparr>)
            | _ \<Rightarrow> None)
      else None)"
| "connStep fmts WriterEnds c =
     (if cn_writing c \<and> cn_client c = [] \<and> cn_clientClosed c
      then Some (c\<lparr>cn_writing := False, cn_done := True\<rparr>) else None)"
| "connStep fmts WriterStops c =
     (if cn_writing c \<and> cn_done c then Some (c\<lparr>cn_writing := False\<rparr>) else None)"
| "connStep fmts (CallSend t msg injection hdrs) c =
     (case SendClientMessage fmts t msg injection hdrs c of Returns (_, c') \<Rightarrow> Some c' | _ \<Rightarrow> None)"
| "connStep fmts (CallRead t) c = Some (snd (ReadServerMessages t c))"
| "connStep fmts CallClose c = (case conn_Close c of Returns c' \<Rightarrow> Some c' | _ \<Rightarrow> None)"

end
