(* ===== verification/Agent_Shim.thy ===== *)
theory Agent_Shim
  imports Agent_Websockets
begin

text \<open>
  The websocket shim of the agent, \<^verbatim>\<open>agent/websockets/shim.go\<close>: the endpoints open, close, data and
  poll over a map of sessions, the clean-up of idle sessions, and the injection of the client-side
  script into HTML pages. Each call of an endpoint is one step on the state; \<open>Blocks\<close> and
  \<open>Panics\<close> are the outcomes of the channel operations it makes. The response codes
  reported as metrics are the list \<open>sh_metrics\<close>.

  Parameters (\<open>shimEnv\<close>): the configuration, the dialer, the formats of the Go library, and the
  wrapper around the open handler; \<open>hr_Path\<close> of a request to an endpoint is its path, and the host
  the client asked for is a separate argument.
\<close>

section \<open>State\<close>

record connectionErrorHandler =
  ceh_firstError :: "error option"
  ceh_reportedError :: bool

definition ceh_Error :: "connectionErrorHandler \<Rightarrow> error option" where
  "ceh_Error h = ceh_firstError h"

definition ceh_ReportError :: "error option \<Rightarrow> connectionErrorHandler \<Rightarrow> connectionErrorHandler" where
  "ceh_ReportError err h =
     (if ceh_reportedError h then h else \<lparr>ceh_firstError = err, ceh_reportedError = True\<rparr>)"

text \<open>The session counter is a 64-bit integer: it wraps around.\<close>

record shimState =
  sh_connections :: "(string \<times> connection) list"
  sh_sessionCount :: nat
  sh_errors :: connectionErrorHandler
  sh_metrics :: "nat list"

definition newShimState :: shimState where
  "newShimState = \<lparr>sh_connections = [], sh_sessionCount = 0,
     sh_errors = \<lparr>ceh_firstError = None, ceh_reportedError = False\<rparr>, sh_metrics = []\<rparr>"

record shimMessage =
  sm_ID :: string
  sm_Message :: json

record shimEnv =
  se_rewriteHost :: bool
  se_injection :: bool
  se_timeout :: duration
  se_printable :: "nat \<Rightarrow> bool"
  se_dial :: "string \<Rightarrow> header \<Rightarrow> error + string"
  se_parseURL :: "string \<Rightarrow> error + string"
  se_wsURL :: "string \<Rightarrow> string"
  se_marshalOpen :: "string \<Rightarrow> string \<Rightarrow> int \<Rightarrow> string \<Rightarrow> error + bytes"
  se_unmarshalOne :: "bytes \<Rightarrow> error + shimMessage"
  se_unmarshalMany :: "bytes \<Rightarrow> error + shimMessage list"
  se_marshalMsgs :: "json list \<Rightarrow> error + bytes"
  se_formats :: wsFormats

section \<open>Helpers\<close>

text \<open>\<^verbatim>\<open>http.Error\<close> followed by the metric for the code.\<close>

definition shimError :: "responseWriter \<Rightarrow> string \<Rightarrow> nat \<Rightarrow> shimState \<Rightarrow> (responseWriter \<times> shimState) outcome" where
  "shimError w msg code s = Returns (httpError w msg code, s\<lparr>sh_metrics := sh_metrics s @ [code]\<rparr>)"

definition shimOk :: "responseWriter \<Rightarrow> bytes \<Rightarrow> shimState \<Rightarrow> (responseWriter \<times> shimState) outcome" where
  "shimOk w body s = Returns (WriteBody (WriteHeader w 200) body, s\<lparr>sh_metrics := sh_metrics s @ [200]\<rparr>)"

text \<open>\<^verbatim>\<open>strconv.ParseInt(s, 10, 64)\<close> on an optional sign and decimal digits.\<close>

definition parseDigits :: "string \<Rightarrow> nat option" where
  "parseDigits ds' = (if ds' \<noteq> [] \<and> list_all isDigit ds' then Some (Atoi ds') else None)"

definition ParseInt :: "string \<Rightarrow> int option" where
  "ParseInt s =
     (case s of
        [] \<Rightarrow> None
      | c # cs \<Rightarrow>
          if c = CHR ''-''
          then (case parseDigits cs of Some n \<Rightarrow> if n \<le> 2 ^ 63 then Some (- int n) else None | None \<Rightarrow> None)
          else (case parseDigits (if c = CHR ''+'' then cs else s) of
                  Some n \<Rightarrow> if n < 2 ^ 63 then Some (int n) else None | None \<Rightarrow> None))"

section \<open>Endpoints\<close>

text \<open>The inner open handler; \<open>url\<close> is the target URL, \<open>origHost\<close> the host the client asked for.\<close>

definition openWebsocket ::
  "shimEnv \<Rightarrow> time \<Rightarrow> string \<Rightarrow> responseWriter \<Rightarrow> string \<Rightarrow> header \<Rightarrow> shimState \<Rightarrow> (responseWriter \<times> shimState) outcome" where
  "openWebsocket env t origHost w url hdr s0 =
     (let count = (sh_sessionCount s0 + 1) mod 2 ^ 64;
          s = s0\<lparr>sh_sessionCount := count\<rparr>;
          sessionID = Itoa count;
          targetURL = se_wsURL env url;
          header = (if se_rewriteHost env \<and> origHost \<noteq> [] then headerSet hdr ''Host'' origHost else hdr)
      in case NewConnection (se_dial env) t targetURL header of
           Inl err \<Rightarrow> shimError w (''internal error opening a shim connection: '' @ errorText err) 500 s
         | Inr conn \<Rightarrow>
             (let conn1 = (case ParseInt (headerGet header ''X-Websocket-Shim-Version'') of
                             Some v \<Rightarrow> conn\<lparr>cn_protocolVersion := v\<rparr> | None \<Rightarrow> conn);
                  s1 = s\<lparr>sh_connections := AList.update sessionID conn1 (sh_connections s)\<rparr>
              in case se_marshalOpen env sessionID targetURL (cn_protocolVersion conn1) (cn_subprotocol conn1) of
                   Inl err \<Rightarrow> shimError w (''internal error opening a shim connection: '' @ errorText err) 500 s1
                 | Inr respBytes \<Rightarrow> shimOk w respBytes s1))"

definition shimOpen ::
  "shimEnv \<Rightarrow> (string \<Rightarrow> header \<Rightarrow> string \<times> header) \<Rightarrow> time \<Rightarrow> string \<Rightarrow> responseWriter \<Rightarrow> httpRequest \<Rightarrow> shimState
   \<Rightarrow> (responseWriter \<times> shimState) outcome" where
  "shimOpen env wrapper t origHost w r s =
     (case hr_Body r of
        Inl err \<Rightarrow> shimError w (''internal error reading a shim request: '' @ errorText err) 500 s
      | Inr body \<Rightarrow>
          (case se_parseURL env body of
             Inl err \<Rightarrow> shimError w (''malformed shim open request: '' @ errorText err) 400 s
           | Inr targetURL \<Rightarrow>
               (case wrapper targetURL (hr_Header r) of (url, hdr) \<Rightarrow> openWebsocket env t origHost w url hdr s)))"

definition shimClose :: "shimEnv \<Rightarrow> responseWriter \<Rightarrow> httpRequest \<Rightarrow> shimState \<Rightarrow> (responseWriter \<times> shimState) outcome" where
  "shimClose env w r s =
     (case hr_Body r of
        Inl err \<Rightarrow> shimError w (''internal error reading a shim request: '' @ errorText err) 500 s
      | Inr body \<Rightarrow>
          (case se_unmarshalOne env body of
             Inl err \<Rightarrow> shimError w (''error parsing a shim request: '' @ errorText err) 400 s
           | Inr msg \<Rightarrow>
               (case map_of (sh_connections s) (sm_ID msg) of
                  None \<Rightarrow> shimError w (''unknown shim session ID: '' @ Quote (se_printable env) (sm_ID msg)) 400 s
                | Some conn \<Rightarrow>
                    (let s1 = s\<lparr>sh_connections := AList.delete (sm_ID msg) (sh_connections s)\<rparr>
                     in case conn_Close conn of
                          Returns _ \<Rightarrow> shimOk w ''ok'' s1
                        | Blocks \<Rightarrow> Blocks
                        | Panics \<Rightarrow> Panics))))"

definition injectedHeaders :: "header \<Rightarrow> (string \<times> string) list" where
  "injectedHeaders hdr = concat (map (\<lambda>(key, value). case value of [] \<Rightarrow> [] | v # _ \<Rightarrow> [(key, v)]) hdr)"

fun sendAllMessages ::
  "shimEnv \<Rightarrow> time \<Rightarrow> (string \<times> string) list \<Rightarrow> responseWriter \<Rightarrow> shimMessage list \<Rightarrow> shimState
   \<Rightarrow> (responseWriter \<times> shimState) outcome" where
  "sendAllMessages env t hdrs w [] s = shimOk w ''ok'' s"
| "sendAllMessages env t hdrs w (msg # msgs) s =
     (case map_of (sh_connections s) (sm_ID msg) of
        None \<Rightarrow> shimError w (''unknown shim session ID: '' @ Quote (se_printable env) (sm_ID msg)) 400 s
      | Some conn \<Rightarrow>
          (case SendClientMessage (se_formats env) t (sm_Message msg) (se_injection env) hdrs conn of
             Blocks \<Rightarrow> Blocks
           | Panics \<Rightarrow> Panics
           | Returns (err, conn1) \<Rightarrow>
               (let s1 = s\<lparr>sh_connections := AList.update (sm_ID msg) conn1 (sh_connections s)\<rparr>
                in if err \<noteq> None
                   then shimError w
                          (''attempt to send data on a closed session: '' @ Quote (se_printable env) (sm_ID msg)
                           @ (case ceh_Error (sh_errors s1) of None \<Rightarrow> []
                              | Some reason \<Rightarrow> '', closure reason: '' @ Quote (se_printable env) (errorText reason))) 400 s1
                   else sendAllMessages env t hdrs w msgs s1)))"

definition shimData :: "shimEnv \<Rightarrow> time \<Rightarrow> responseWriter \<Rightarrow> httpRequest \<Rightarrow> shimState \<Rightarrow> (responseWriter \<times> shimState) outcome" where
  "shimData env t w r s =
     (case hr_Body r of
        Inl err \<Rightarrow> shimError w (''internal error reading a shim request: '' @ errorText err) 500 s
      | Inr body \<Rightarrow>
          (case se_unmarshalMany env body of
             Inl err \<Rightarrow> shimError w (''error parsing a shim request: '' @ errorText err) 400 s
           | Inr msgs \<Rightarrow>
               sendAllMessages env t (if se_injection env then injectedHeaders (hr_Header r) else []) w msgs s))"

definition shimPoll :: "shimEnv \<Rightarrow> time \<Rightarrow> responseWriter \<Rightarrow> httpRequest \<Rightarrow> shimState \<Rightarrow> (responseWriter \<times> shimState) outcome" where
  "shimPoll env t w r s =
     (case hr_Body r of
        Inl err \<Rightarrow> shimError w (''internal error reading a shim request: '' @ errorText err) 500 s
      | Inr body \<Rightarrow>
          (case se_unmarshalOne env body of
             Inl err \<Rightarrow> shimError w (''error parsing a shim request: '' @ errorText err) 400 s
           | Inr msg \<Rightarrow>
               (case map_of (sh_connections s) (sm_ID msg) of
                  None \<Rightarrow> shimError w (''unknown shim session ID: '' @ Quote (se_printable env) (sm_ID msg)) 400 s
                | Some conn \<Rightarrow>
                    (case ReadServerMessages t conn of
                       (res, conn1) \<Rightarrow>
                         (let s1 = s\<lparr>sh_connections := AList.update (sm_ID msg) conn1 (sh_connections s)\<rparr>
                          in case res of
                               Inl err \<Rightarrow>
                                 shimError w
                                   (''attempt to read data from a closed session: '' @ Quote (se_printable env) (sm_ID msg)
                                    @ (case ceh_Error (sh_errors s1) of None \<Rightarrow> []
                                       | Some reason \<Rightarrow> '', closure reason: '' @ Quote (se_printable env) (errorText reason)))
                                   400 (s1\<lparr>sh_connections := AList.delete (sm_ID msg) (sh_connections s1)\<rparr>)
                             | Inr None \<Rightarrow> Returns (WriteHeader w 408, s1\<lparr>sh_metrics := sh_metrics s1 @ [408]\<rparr>)
                             | Inr (Some serverMsgs) \<Rightarrow>
                                 (case se_marshalMsgs env serverMsgs of
                                    Inl err \<Rightarrow>
                                      shimError w (''internal error serializing the server-side messages '' @ errorText err) 500 s1
                                  | Inr respBytes \<Rightarrow> shimOk w respBytes s1))))))"

section \<open>Clean-up of idle sessions\<close>

text \<open>One tick: every session idle for longer than the timeout is closed and removed.\<close>

fun sweep :: "shimEnv \<Rightarrow> time \<Rightarrow> (string \<times> connection) list \<Rightarrow> shimState \<Rightarrow> shimState outcome" where
  "sweep env t [] s = Returns s"
| "sweep env t ((sessionID, conn) # rest) s =
     (if se_timeout env < t - lastActivity conn
      then (case conn_Close conn of
              Returns _ \<Rightarrow> sweep env t rest (s\<lparr>sh_connections := AList.delete sessionID (sh_connections s)\<rparr>)
            | Blocks \<Rightarrow> Blocks
            | Panics \<Rightarrow> Panics)
      else sweep env t rest s)"

definition cleanUp :: "shimEnv \<Rightarrow> time \<Rightarrow> shimState \<Rightarrow> shimState outcome" where
  "cleanUp env t s = sweep env t (sh_connections s) s"

section \<open>Injection of the client-side script\<close>

text \<open>\<^verbatim>\<open>strings.Replace(s, old, new, 1)\<close> for a nonempty \<open>old\<close>.\<close>

fun replaceFirst :: "string \<Rightarrow> string \<Rightarrow> string \<Rightarrow> string" where
  "replaceFirst old new [] = []"
| "replaceFirst old new (c # cs) =
     (if prefix old (c # cs) then new @ drop (length old) (c # cs) else c # replaceFirst old new cs)"

definition contains :: "string \<Rightarrow> string \<Rightarrow> bool" where
  "contains s t = sublist t s"

text \<open>
  The body of a response afterwards: \<open>sb_prefix\<close> is what is read first, \<open>sb_body\<close> the wrapped
  body after it.
\<close>

record 'r shimmedBody =
  sb_prefix :: bytes
  sb_body :: 'r

definition ShimBody ::
  "string \<Rightarrow> 'r reader \<Rightarrow> header \<Rightarrow> 'r \<Rightarrow> error + (header \<times> 'r shimmedBody)" where
  "ShimBody shimCode rd hdr wrapped =
     (if \<not> contains (ToLower (headerGet hdr ''Content-Type'')) ''html'' then Inr (hdr, \<lparr>sb_prefix = [], sb_body = wrapped\<rparr>)
      else (case rd wrapped 1024 of
              ((buf, err), body') \<Rightarrow>
                (case err of
                   Some (ReadErr e) \<Rightarrow> Inl e
                 | _ \<Rightarrow>
                     Inr (headerDel hdr ''Content-Length'',
                          \<lparr>sb_prefix = replaceFirst ''<head>'' (''<head>'' @ shimCode) buf, sb_body = body'\<rparr>))))"

section \<open>Routing\<close>

datatype shimRoute = OpenRoute | CloseRoute | DataRoute | PollRoute | UnknownShim | WrappedRoute

text \<open>\<open>shimPath\<close> is the cleaned path, with a slash at both ends, or empty when there is no shim.\<close>

definition shimRoute :: "string \<Rightarrow> string \<Rightarrow> shimRoute" where
  "shimRoute path0 p =
     (if path0 = [] \<or> \<not> prefix path0 p then WrappedRoute
      else if p = path0 @ ''open'' then OpenRoute
      else if p = path0 @ ''close'' then CloseRoute
      else if p = path0 @ ''data'' then DataRoute
      else if p = path0 @ ''poll'' then PollRoute
      else UnknownShim)"

end
