(* ===== verification/Agent_Websockets_Correct.thy ===== *)
theory Agent_Websockets_Correct
  imports Agent_Shim Event_Systems Agent_Utils_Correct
begin

text \<open>
  Correctness of the agent's websocket shim: the two message streams of a connection keep their order
  and lose nothing (an invariant of the connection's event system), sessions do not interfere, header
  injection only adds, and the script is inserted once.
\<close>

section \<open>Streams of a connection\<close>

definition somes :: "'a option list \<Rightarrow> 'a list" where
  "somes xs = concat (map (\<lambda>x. case x of None \<Rightarrow> [] | Some y \<Rightarrow> [y]) xs)"

lemma somes_simps [simp]:
  "somes [] = []" "somes (None # xs) = somes xs" "somes (Some x # xs) = x # somes xs"
  "somes (xs @ ys) = somes xs @ somes ys"
  by (simp_all add: somes_def)

text \<open>
  Towards the server: what was accepted is what was written, at most one message lost in a failed
  write, and what still waits in the channel. Towards the client: what was received is what was
  returned by reads, what waits in the channel and what the reader holds.
\<close>

definition conn_inv :: "connection \<Rightarrow> bool" where
  "conn_inv c \<longleftrightarrow>
     length (cn_client c) \<le> chanCapacity \<and> length (cn_server c) \<le> chanCapacity
     \<and> (\<exists>lost. cn_accepted c = cn_written c @ lost @ somes (cn_client c) \<and> length lost \<le> 1 \<and> (cn_writing c \<longrightarrow> lost = []))
     \<and> cn_received c = cn_returned c @ cn_server c @ (case cn_inflight c of None \<Rightarrow> [] | Some m \<Rightarrow> [m])
     \<and> (cn_serverClosed c \<longleftrightarrow> \<not> cn_reading c) \<and> (\<not> cn_reading c \<longrightarrow> cn_inflight c = None)
     \<and> (\<not> cn_writing c \<or> \<not> cn_reading c \<longrightarrow> cn_done c)"

lemma conn_inv_new: "NewConnection dial t url hdr = Inr c \<Longrightarrow> conn_inv c"
  by (auto simp: NewConnection_def conn_inv_def split: sum.splits)

lemma conn_inv_activity [simp]: "conn_inv (updateActivity t c) = conn_inv c"
  by (simp add: conn_inv_def updateActivity_def)

lemma conn_inv_push:
  assumes "conn_inv c" and "pushClient m c = Returns c'"
  shows "conn_inv c'"
  using assms by (auto simp: pushClient_def chanSend_def conn_inv_def split: if_splits option.splits)

lemma conn_inv_Send:
  assumes "conn_inv c" and "SendClientMessage fmts t msg injection hdrs c = Returns (e, c')"
  shows "conn_inv c'"
proof -
  have "conn_inv c''" if "pushClient m (updateActivity t c) = Returns c''" for m c''
    using conn_inv_push [OF _ that] assms(1) by simp
  then show ?thesis
    using assms
    by (auto simp: SendClientMessage_def Let_def split: sum.splits if_splits outcome.splits)
qed

lemma conn_inv_Close:
  assumes "conn_inv c" and "conn_Close c = Returns c'"
  shows "conn_inv c'"
proof -
  obtain c1 where "pushClient (Some closeMessage) c = Returns c1" "c' = c1\<lparr>cn_clientClosed := True\<rparr>"
    using assms(2) by (auto simp: conn_Close_def split: outcome.splits)
  then show ?thesis using conn_inv_push [OF assms(1)] by (auto simp: conn_inv_def)
qed

lemma conn_inv_Read:
  assumes "conn_inv c"
  shows "conn_inv (snd (ReadServerMessages t c))"
  using assms by (auto simp: ReadServerMessages_def Let_def conn_inv_def updateActivity_def)

lemma conn_inv_step:
  assumes "conn_inv c" and "connStep fmts e c = Some c'"
  shows "conn_inv c'"
proof (cases e)
  case (CallSend t msg injection hdrs)
  then show ?thesis using assms conn_inv_Send by (auto split: outcome.splits)
next
  case (CallRead t)
  then show ?thesis using assms conn_inv_Read by auto
next
  case CallClose
  then show ?thesis using assms conn_inv_Close by (auto split: outcome.splits)
next
  case WriteFails
  then obtain m q where "cn_writing c" "cn_client c = Some m # q"
      "c' = c\<lparr>cn_client := q, cn_writing := False, cn_done := True\<rparr>"
    using assms(2) by (auto split: if_splits list.splits option.splits)
  then show ?thesis using assms(1) by (auto simp: conn_inv_def intro!: exI [of _ "[m]"])
qed (use assms in \<open>auto simp: conn_inv_def split: if_splits list.splits option.splits\<close>)

interpretation wsconn: event_system "connStep fmts" conn_inv
  by unfold_locales (rule conn_inv_step)

section \<open>What a connection accepts\<close>

text \<open>The message that a JSON value puts into the channel, if any; close messages come from \<open>conn_Close\<close> only.\<close>

definition acceptedOf :: "wsFormats \<Rightarrow> int \<Rightarrow> json \<Rightarrow> wsMessage list" where
  "acceptedOf fmts v j = (case clientMessageOf (showV fmts) v j of Inr (Some x) \<Rightarrow> [x] | _ \<Rightarrow> [])"

definition isMessage :: "wsMessage \<Rightarrow> bool" where
  "isMessage m \<longleftrightarrow> m_Type m \<noteq> CloseMessage"

definition isCallSend :: "connEvent \<Rightarrow> bool" where
  "isCallSend e \<longleftrightarrow> (case e of CallSend _ _ _ _ \<Rightarrow> True | _ \<Rightarrow> False)"

lemma pushClient_accepted:
  "pushClient m c = Returns c' \<Longrightarrow> cn_accepted c' = cn_accepted c @ (case m of None \<Rightarrow> [] | Some x \<Rightarrow> [x])
     \<and> cn_protocolVersion c' = cn_protocolVersion c \<and> cn_returned c' = cn_returned c"
  by (auto simp: pushClient_def split: outcome.splits)

lemma send_accepted:
  assumes "SendClientMessage fmts t j False [] c = Returns (err, c')"
  shows "cn_protocolVersion c' = cn_protocolVersion c \<and> cn_returned c' = cn_returned c
       \<and> cn_accepted c' = cn_accepted c @ (if err = None then acceptedOf fmts (cn_protocolVersion c) j else [])"
proof (cases "clientMessageOf (showV fmts) (cn_protocolVersion c) j")
  case (Inl e)
  then show ?thesis using assms by (auto simp: SendClientMessage_def updateActivity_def Let_def)
next
  case (Inr x)
  show ?thesis
  proof (cases "cn_done c")
    case False
    then have "pushClient x (updateActivity t c) = Returns c' \<and> err = None"
      using assms Inr by (auto simp: SendClientMessage_def updateActivity_def Let_def split: outcome.splits)
    then show ?thesis
      using pushClient_accepted [of x "updateActivity t c" c'] Inr
      by (cases x) (simp_all add: acceptedOf_def updateActivity_def)
  qed (use assms Inr in \<open>auto simp: SendClientMessage_def updateActivity_def Let_def\<close>)
qed

lemma acceptedOf_messages: "filter isMessage (acceptedOf fmts v j) = acceptedOf fmts v j"
proof -
  have "isMessage x" if "clientMessageOf shw v j = Inr (Some x)" for shw x
    using that by (auto simp: clientMessageOf_def isMessage_def TextMessage_def BinaryMessage_def CloseMessage_def
        split: json.splits list.splits if_splits option.splits)
  then show ?thesis by (auto simp: acceptedOf_def split: sum.splits option.splits)
qed

lemma conn_event_accepted:
  assumes "connStep fmts e c = Some c'" and "\<not> isCallSend e"
  shows "cn_protocolVersion c' = cn_protocolVersion c \<and> filter isMessage (cn_accepted c') = filter isMessage (cn_accepted c)"
proof (cases e)
  case CallClose
  then obtain c1 where "pushClient (Some closeMessage) c = Returns c1" "c' = c1\<lparr>cn_clientClosed := True\<rparr>"
    using assms(1) by (auto simp: conn_Close_def split: outcome.splits)
  then show ?thesis using pushClient_accepted [of "Some closeMessage" c c1] by (simp add: isMessage_def closeMessage_def)
qed (use assms in \<open>auto simp: isCallSend_def ReadServerMessages_def updateActivity_def Let_def
        split: if_splits list.splits option.splits\<close>)

section \<open>Header injection\<close>

lemma map_of_addMissing:
  assumes "distinct (map fst vals)"
  shows "map_of (addMissing vals obj) k = (case map_of obj k of Some v \<Rightarrow> Some v | None \<Rightarrow> map_option JStr (map_of vals k))"
  using assms unfolding addMissing_def
proof (induction vals arbitrary: obj)
  case (Cons x vals)
  obtain a b where x: "x = (a, b)" by fastforce
  let ?obj = "case map_of obj a of None \<Rightarrow> AList.update a (JStr b) obj | Some _ \<Rightarrow> obj"
  have "map_of vals a = None" using Cons.prems x by (auto simp: map_of_eq_None_iff)
  moreover have "map_of ?obj k = (if k = a \<and> map_of obj a = None then Some (JStr b) else map_of obj k)"
    by (auto simp: update_conv' split: option.split)
  ultimately show ?case
    using Cons.IH [of ?obj] Cons.prems by (auto simp: x split: option.splits)
qed (simp split: option.split)

text \<open>The object at the end of a path.\<close>

fun objectAt :: "string list \<Rightarrow> (string \<times> json) list \<Rightarrow> (string \<times> json) list option" where
  "objectAt [] obj = Some obj"
| "objectAt (p # path) obj = (case map_of obj p of Some (JObj inner) \<Rightarrow> objectAt path inner | _ \<Rightarrow> None)"

lemma injectAt_object:
  "injectAt path vals obj = Some obj' \<Longrightarrow>
     \<exists>inner. objectAt path obj = Some inner \<and> objectAt path obj' = Some (addMissing vals inner)"
proof (induction path vals obj arbitrary: obj' rule: injectAt.induct)
  case (2 p path vals obj)
  then obtain inner inner' where i: "map_of obj p = Some (JObj inner)" "injectAt path vals inner = Some inner'"
      "obj' = AList.update p (JObj inner') obj"
    by (auto split: option.splits json.splits)
  then show ?case using "2.IH" [OF i(1) refl i(2)] by (simp add: update_conv')
qed simp

lemma injectAt_other_keys:
  "injectAt (p # path) vals obj = Some obj' \<Longrightarrow> k \<noteq> p \<Longrightarrow> map_of obj' k = map_of obj k"
  by (auto simp: update_conv' split: option.splits json.splits)

section \<open>Insertion of the script\<close>

lemma prefix_append_drop: "prefix old s \<Longrightarrow> s = old @ drop (length old) s"
  by (metis append_eq_conv_conj prefix_def)

lemma replaceFirst_cases:
  assumes "old \<noteq> []"
  shows "(\<exists>pre post. s = pre @ old @ post \<and> replaceFirst old (old @ new) s = pre @ old @ new @ post)
       \<or> \<not> sublist old s \<and> replaceFirst old (old @ new) s = s"
proof (induction s)
  case Nil
  then show ?case using assms by simp
next
  case (Cons c cs)
  show ?case
  proof (cases "prefix old (c # cs)")
    case True
    then have "replaceFirst old (old @ new) (c # cs) = [] @ old @ new @ drop (length old) (c # cs)"
      and "c # cs = [] @ old @ drop (length old) (c # cs)"
      using prefix_append_drop [OF True] by simp_all
    then show ?thesis by blast
  next
    case no: False
    show ?thesis using Cons.IH
    proof
      assume "\<exists>pre post. cs = pre @ old @ post \<and> replaceFirst old (old @ new) cs = pre @ old @ new @ post"
      then obtain pre post where "cs = pre @ old @ post" "replaceFirst old (old @ new) cs = pre @ old @ new @ post" by blast
      then show ?thesis using no by (intro disjI1 exI [of _ "c # pre"] exI [of _ post]) simp
    next
      assume "\<not> sublist old cs \<and> replaceFirst old (old @ new) cs = cs"
      then show ?thesis using no by (simp add: sublist_Cons_right)
    qed
  qed
qed

end
