(* ===== verification/Websocket_Properties.thy ===== *)
theory Websocket_Properties
  imports Agent_Websockets_Correct Server_Websocket
begin

text \<open>
  Properties of websocket sessions across the proxy: messages survive the trip through the shim in
  both directions, streams keep their order, sessions do not interfere; and two ways in which
  sessions lose messages.
\<close>

section \<open>Order of messages\<close>


definition exampleFmts :: wsFormats where
  "exampleFmts = \<lparr>showV = (\<lambda>_. []), unmarshalObj = (\<lambda>_. Inl (ErrMsg ''no object'')), marshalObj = (\<lambda>_. Inr [])\<rparr>"

definition exampleConn :: connection where
  "exampleConn =
     \<lparr>cn_protocolVersion = 0, cn_subprotocol = [], cn_lastActivity = 0, cn_done = False,
      cn_client = [], cn_clientClosed = False, cn_server = [], cn_serverClosed = False, cn_inflight = None,
      cn_reading = True, cn_writing = True, cn_accepted = [], cn_written = [], cn_received = [], cn_returned = []\<rparr>"

lemma exampleConn_new: "NewConnection (\<lambda>_ _. Inr []) 0 ''ws://h/'' [] = Inr exampleConn"
  by (simp add: NewConnection_def exampleConn_def)


section \<open>Messages through the shim\<close>

lemma server_message_round_trip:
  assumes "m_Type m = BinaryMessage \<or> m_Type m = TextMessage \<and> validUTF8 (m_Data m)"
  shows "parseServerMessage (jsonWire (Serialize 1 m)) = Some (Inr \<lparr>md_data = m_Data m, md_text = (m_Type m = TextMessage)\<rparr>)"
  using assms
  by (auto simp: Serialize_def parseServerMessage_def TextMessage_def BinaryMessage_def validUTF8_def base64_round_trip)



lemma client_pieces:
  "map (\<lambda>p. clientMessageOf shw 1 (jsonWire (wm_Message p))) (clientPayload session (readClientMessage mt reads)) =
     map (\<lambda>b. Inr (Some (if mt then \<lparr>m_Type = TextMessage, m_Data = toValidUTF8 b\<rparr>
                          else \<lparr>m_Type = BinaryMessage, m_Data = b\<rparr>)))
       (filter (\<lambda>b. b \<noteq> []) reads)"
  by (simp add: clientPayload_def readClientMessage_def clientMessageOf_def base64_round_trip comp_def)

text \<open>The boundaries of client messages are lost: a message the proxy reads in several pieces reaches the
  server as one websocket message per nonempty piece, and each piece of a text message is repaired to
  valid UTF-8 by itself, so that a character cut by a piece boundary is replaced.\<close>

theorem client_message_pieces:
  "map (\<lambda>p. clientMessageOf shw 1 (jsonWire (wm_Message p))) (clientPayload session (readClientMessage mt reads)) =
     map (\<lambda>b. Inr (Some (if mt then \<lparr>m_Type = TextMessage, m_Data = toValidUTF8 b\<rparr>
                          else \<lparr>m_Type = BinaryMessage, m_Data = b\<rparr>)))
       (filter (\<lambda>b. b \<noteq> []) reads)
   \<and> toValidUTF8 [CHR 0xC3] @ toValidUTF8 [CHR 0xA9] \<noteq> toValidUTF8 [CHR 0xC3, CHR 0xA9]"
proof
  show "toValidUTF8 [CHR 0xC3] @ toValidUTF8 [CHR 0xA9] \<noteq> toValidUTF8 [CHR 0xC3, CHR 0xA9]"
    by (simp add: DecodeRune_def RuneError_def cont_def EncodeRune_def ValidRune_def)
qed (rule client_pieces)

section \<open>Sessions\<close>

text \<open>Session IDs in use were handed out by the counter.\<close>

definition shim_inv :: "shimState \<Rightarrow> bool" where
  "shim_inv s \<longleftrightarrow> (\<forall>i \<in> fst ` set (sh_connections s). \<exists>n \<le> sh_sessionCount s. i = Itoa n)"

datatype shimCall =
    CallOpenEndpoint time string httpRequest
  | CallCloseEndpoint httpRequest
  | CallDataEndpoint time httpRequest
  | CallPollEndpoint time httpRequest

definition shimCallStep ::
  "shimEnv \<Rightarrow> (string \<Rightarrow> header \<Rightarrow> string \<times> header) \<Rightarrow> shimCall \<Rightarrow> shimState \<Rightarrow> (responseWriter \<times> shimState) outcome" where
  "shimCallStep env wrapper call s =
     (case call of
        CallOpenEndpoint t origHost r \<Rightarrow> shimOpen env wrapper t origHost newResponseWriter r s
      | CallCloseEndpoint r \<Rightarrow> shimClose env newResponseWriter r s
      | CallDataEndpoint t r \<Rightarrow> shimData env t newResponseWriter r s
      | CallPollEndpoint t r \<Rightarrow> shimPoll env t newResponseWriter r s)"

text \<open>The sessions a call is about: the new one, or those its body names.\<close>

definition namedSessions :: "shimEnv \<Rightarrow> shimCall \<Rightarrow> shimState \<Rightarrow> string set" where
  "namedSessions env call s =
     (let one = (\<lambda>r. case hr_Body r of Inl _ \<Rightarrow> {} | Inr b \<Rightarrow> (case se_unmarshalOne env b of Inl _ \<Rightarrow> {} | Inr m \<Rightarrow> {sm_ID m}))
      in case call of
           CallOpenEndpoint t origHost r \<Rightarrow> {Itoa (sh_sessionCount s + 1)}
         | CallCloseEndpoint r \<Rightarrow> one r
         | CallDataEndpoint t r \<Rightarrow>
             (case hr_Body r of Inl _ \<Rightarrow> {} | Inr b \<Rightarrow> (case se_unmarshalMany env b of Inl _ \<Rightarrow> {} | Inr ms \<Rightarrow> sm_ID ` set ms))
         | CallPollEndpoint t r \<Rightarrow> one r)"

lemmas shim_defs = shimError_def shimOk_def

lemma shim_inv_keys:
  "shim_inv s \<longleftrightarrow> (\<forall>i. map_of (sh_connections s) i \<noteq> None \<longrightarrow> (\<exists>n \<le> sh_sessionCount s. i = Itoa n))"
  by (auto simp: shim_inv_def map_of_eq_None_iff)

text \<open>What a call may do to the map of sessions.\<close>

definition sessionsKept :: "string set \<Rightarrow> shimState \<Rightarrow> shimState \<Rightarrow> bool" where
  "sessionsKept named s s' \<longleftrightarrow>
     shim_inv s' \<and> sh_sessionCount s \<le> sh_sessionCount s'
     \<and> (\<forall>i. i \<notin> named \<longrightarrow> map_of (sh_connections s') i = map_of (sh_connections s) i)"

lemma sessionsKept_refl: "shim_inv s \<Longrightarrow> sessionsKept named s s"
  by (simp add: sessionsKept_def)

lemma sessionsKept_metrics [simp]: "sessionsKept named s (s'\<lparr>sh_metrics := m\<rparr>) = sessionsKept named s s'"
  by (simp add: sessionsKept_def shim_inv_def)

lemma sessionsKept_update:
  assumes "shim_inv s" and "map_of (sh_connections s) i = Some c" and "i \<in> named"
  shows "sessionsKept named s (s\<lparr>sh_connections := AList.update i c' (sh_connections s)\<rparr>)"
  using assms by (auto simp: sessionsKept_def shim_inv_keys update_conv')

lemma sessionsKept_delete:
  assumes "shim_inv s" and "i \<in> named"
  shows "sessionsKept named s (s\<lparr>sh_connections := AList.delete i (sh_connections s)\<rparr>)"
  using assms by (auto simp: sessionsKept_def shim_inv_keys delete_conv')

lemma sendAllMessages_kept:
  assumes "sendAllMessages env t hdrs w msgs s = Returns (w', s')" and "shim_inv s"
  shows "sessionsKept (sm_ID ` set msgs) s s'"
  using assms
proof (induction msgs arbitrary: s)
  case (Cons m msgs)
  show ?case
  proof (cases "map_of (sh_connections s) (sm_ID m)")
    case None
    then show ?thesis using Cons.prems by (auto simp: shim_defs sessionsKept_refl)
  next
    case (Some conn)
    then obtain err conn1 where send: "SendClientMessage (se_formats env) t (sm_Message m) (se_injection env) hdrs conn = Returns (err, conn1)"
      using Cons.prems by (auto split: outcome.splits)
    let ?s1 = "s\<lparr>sh_connections := AList.update (sm_ID m) conn1 (sh_connections s)\<rparr>"
    have one: "sessionsKept (sm_ID ` set (m # msgs)) s ?s1"
      by (rule sessionsKept_update [OF Cons.prems(2) Some]) simp
    show ?thesis
    proof (cases err)
      case None
      then have "sendAllMessages env t hdrs w msgs ?s1 = Returns (w', s')"
        using Cons.prems(1) Some send by (simp add: Let_def)
      moreover have "shim_inv ?s1" using one by (simp add: sessionsKept_def)
      ultimately have "sessionsKept (sm_ID ` set msgs) ?s1 s'" by (rule Cons.IH)
      then show ?thesis using one by (auto simp: sessionsKept_def)
    next
      case (Some e)
      then show ?thesis
        using Cons.prems(1) \<open>map_of (sh_connections s) (sm_ID m) = Some conn\<close> send one
        by (auto simp: Let_def shim_defs)
    qed
  qed
qed (auto simp: shim_defs sessionsKept_refl)

lemma openWebsocket_state:
  assumes "openWebsocket env t origHost w url hdr s = Returns (w', s')"
  shows "\<exists>m. s' = s\<lparr>sh_sessionCount := (sh_sessionCount s + 1) mod 2 ^ 64, sh_metrics := m\<rparr>
       \<or> (\<exists>c. s' = s\<lparr>sh_sessionCount := (sh_sessionCount s + 1) mod 2 ^ 64,
              sh_connections := AList.update (Itoa ((sh_sessionCount s + 1) mod 2 ^ 64)) c (sh_connections s), sh_metrics := m\<rparr>)"
  using assms unfolding openWebsocket_def shim_defs Let_def
  by (auto split: sum.splits option.splits)

text \<open>C31. Sessions of the shim do not interfere: a call of an endpoint leaves every session other than the ones
  it names exactly as it was, and opening a session uses an ID that no live session has, as long as the
  64-bit counter has not wrapped around.\<close>

theorem shim_sessions_isolated:
  assumes "shim_inv s" and "sh_sessionCount s + 1 < 2 ^ 64" and "shimCallStep env wrapper call s = Returns (w, s')"
  shows "shim_inv s'
       \<and> (\<forall>i. i \<notin> namedSessions env call s \<longrightarrow> map_of (sh_connections s') i = map_of (sh_connections s) i)
       \<and> map_of (sh_connections s) (Itoa (sh_sessionCount s + 1)) = None"
proof -
  have fresh: "map_of (sh_connections s) (Itoa (sh_sessionCount s + 1)) = None"
    using assms(1) by (auto simp: shim_inv_keys)
  have "sessionsKept (namedSessions env call s) s s'"
  proof (cases call)
    case (CallOpenEndpoint t origHost r)
    have mod: "(sh_sessionCount s + 1) mod 2 ^ 64 = sh_sessionCount s + 1" using assms(2) by (rule mod_less)
    have open1: "sessionsKept {Itoa (sh_sessionCount s + 1)} s
        (s\<lparr>sh_sessionCount := sh_sessionCount s + 1, sh_connections := AList.update (Itoa (sh_sessionCount s + 1)) c (sh_connections s)\<rparr>)"
      "sessionsKept {Itoa (sh_sessionCount s + 1)} s (s\<lparr>sh_sessionCount := sh_sessionCount s + 1\<rparr>)" for c
      using assms(1) by (auto simp: sessionsKept_def shim_inv_keys update_conv' le_Suc_eq)
    consider m where "s' = s\<lparr>sh_metrics := m\<rparr>" | url hdr where "openWebsocket env t origHost newResponseWriter url hdr s = Returns (w, s')"
      using CallOpenEndpoint assms(3)
      by (auto simp: shimCallStep_def shimOpen_def shim_defs split: sum.splits prod.splits)
    then show ?thesis
    proof cases
      case 2
      then show ?thesis
        using openWebsocket_state [OF 2] open1 CallOpenEndpoint unfolding mod
        by (auto simp: namedSessions_def)
    qed (simp add: sessionsKept_refl [OF assms(1)])
  next
    case (CallCloseEndpoint r)
    then show ?thesis
      using assms(1,3)
      by (auto simp: shimCallStep_def shimClose_def namedSessions_def shim_defs Let_def sessionsKept_refl sessionsKept_delete
          split: sum.splits option.splits outcome.splits)
  next
    case (CallDataEndpoint t r)
    then show ?thesis
      using assms(1,3) sendAllMessages_kept
      by (auto simp: shimCallStep_def shimData_def namedSessions_def shim_defs sessionsKept_refl split: sum.splits)
  next
    case (CallPollEndpoint t r)
    have del: "AList.delete i (AList.update i c cs) = AList.delete i cs" for i and c :: connection and cs
      by (induction cs) auto
    show ?thesis
      using CallPollEndpoint assms(1,3)
      by (auto simp: shimCallStep_def shimPoll_def namedSessions_def shim_defs Let_def del sessionsKept_refl sessionsKept_delete
          sessionsKept_update split: sum.splits option.splits prod.splits)
  qed
  then show ?thesis using fresh by (simp add: sessionsKept_def)
qed

definition exampleShim :: shimEnv where
  "exampleShim = \<lparr>se_rewriteHost = False, se_injection = False, se_timeout = 60 * Second, se_printable = (\<lambda>_. True),
     se_dial = (\<lambda>_ _. Inr []), se_parseURL = Inr, se_wsURL = id, se_marshalOpen = (\<lambda>i _ _ _. Inr i),
     se_unmarshalOne = (\<lambda>b. Inr \<lparr>sm_ID = b, sm_Message = JNull\<rparr>), se_unmarshalMany = (\<lambda>b. Inr []),
     se_marshalMsgs = (\<lambda>_. Inr []), se_formats = exampleFmts\<rparr>"

definition exampleShimState :: shimState where
  "exampleShimState = newShimState\<lparr>sh_connections := [(Itoa 1, exampleConn)], sh_sessionCount := 1\<rparr>"

definition shimPost :: "bytes \<Rightarrow> httpRequest" where
  "shimPost body = \<lparr>hr_Method = ''POST'', hr_Path = ''/shim/'', hr_URL = ''/shim/'', hr_Header = [], hr_Body = Inr body\<rparr>"

theorem shim_sessions_isolated_witness:
  "\<exists>w s'. shimCallStep exampleShim Pair (CallOpenEndpoint 0 [] (shimPost ''ws://h/'')) exampleShimState = Returns (w, s')
     \<and> map_of (sh_connections s') (Itoa 1) = Some exampleConn"
proof -
  have inv: "shim_inv exampleShimState" "sh_sessionCount exampleShimState + 1 < 2 ^ 64"
    by (simp_all add: shim_inv_def exampleShimState_def newShimState_def)
  have "\<exists>w s'. shimCallStep exampleShim Pair (CallOpenEndpoint 0 [] (shimPost ''ws://h/'')) exampleShimState = Returns (w, s')"
    by (simp add: shimCallStep_def shimOpen_def openWebsocket_def exampleShim_def shimPost_def NewConnection_def shim_defs Let_def
        split: option.split)
  then obtain w s' where r: "shimCallStep exampleShim Pair (CallOpenEndpoint 0 [] (shimPost ''ws://h/'')) exampleShimState = Returns (w, s')"
    by blast
  have "map_of (sh_connections s') (Itoa 1) = map_of (sh_connections exampleShimState) (Itoa 1)"
    using shim_sessions_isolated [OF inv r] by (simp add: namedSessions_def exampleShimState_def newShimState_def)
  then show ?thesis using r by (simp add: exampleShimState_def)
qed

text \<open>An idle websocket goes deaf: a poll of a session without new messages is answered 408 by the agent; the
  proxy takes every status but 200 for a failure, and its polling goroutine then ends, so no later
  message of the server reaches the client.\<close>

theorem idle_poll_ends_polling:
  assumes "hr_Body r = Inr body" and "se_unmarshalOne env body = Inr msg"
    and "map_of (sh_connections s) (sm_ID msg) = Some conn" and "cn_server conn = []" and "\<not> cn_serverClosed conn"
  shows "\<exists>w s'. shimPoll env t newResponseWriter r s = Returns (w, s') \<and> rwStatus w = Some 408
       \<and> (\<forall>resp. rwStatus w = Some (ar_StatusCode resp) \<longrightarrow>
            pollLoop (shimResult senv path resp got # later) = ([], False))"
proof -
  have "shimPoll env t newResponseWriter r s =
      Returns (WriteHeader newResponseWriter 408,
        s\<lparr>sh_connections := AList.update (sm_ID msg) (updateActivity t conn) (sh_connections s), sh_metrics := sh_metrics s @ [408]\<rparr>)"
    using assms by (simp add: shimPoll_def ReadServerMessages_def updateActivity_def Let_def)
  moreover have "pollLoop (shimResult senv path resp got # later) = ([], False)" if "ar_StatusCode resp = 408" for resp
    using that by (simp add: shimResult_def)
  ultimately show ?thesis by simp
qed

theorem idle_poll_ends_polling_witness:
  "\<exists>w s'. shimPoll exampleShim 5 newResponseWriter (shimPost (Itoa 1)) exampleShimState = Returns (w, s') \<and> rwStatus w = Some 408"
proof -
  have "hr_Body (shimPost (Itoa 1)) = Inr (Itoa 1)"
    "se_unmarshalOne exampleShim (Itoa 1) = Inr \<lparr>sm_ID = Itoa 1, sm_Message = JNull\<rparr>"
    "map_of (sh_connections exampleShimState) (sm_ID \<lparr>sm_ID = Itoa 1, sm_Message = JNull\<rparr>) = Some exampleConn"
    "cn_server exampleConn = []" "\<not> cn_serverClosed exampleConn"
    by (simp_all add: shimPost_def exampleShim_def exampleShimState_def exampleConn_def)
  from idle_poll_ends_polling [OF this] show ?thesis by blast
qed

section \<open>Pages and injected headers\<close>

text \<open>The script is inserted into a page exactly once and nothing else changes: for a response read from
  a pipe, the body afterwards is the original body, or the original body with the script right after
  one occurrence of the head tag, which is only done for HTML and if the first read contains the
  tag; the content length is then dropped, all other headers stay.\<close>

theorem shimBody_inserts_once:
  assumes "ShimBody shimCode pipeRead hdr body = Inr (hdr', b)"
  shows "(if contains (ToLower (headerGet hdr ''Content-Type'')) ''html''
          then \<forall>k. headerValues hdr' k = (if CanonicalHeaderKey k = ''Content-Length'' then [] else headerValues hdr k)
          else hdr' = hdr \<and> sb_prefix b @ concat (sb_body b) = concat body)
       \<and> (sb_prefix b @ concat (sb_body b) = concat body
          \<or> (\<exists>pre post. concat body = pre @ ''<head>'' @ post
               \<and> sb_prefix b @ concat (sb_body b) = pre @ ''<head>'' @ shimCode @ post))"
proof (cases "contains (ToLower (headerGet hdr ''Content-Type'')) ''html''")
  case False
  then show ?thesis using assms by (auto simp: ShimBody_def)
next
  case True
  obtain buf err body' where rd: "pipeRead body 1024 = ((buf, err), body')" by (metis surj_pair)
  have hdr': "hdr' = headerDel hdr ''Content-Length''"
    and b: "b = \<lparr>sb_prefix = replaceFirst ''<head>'' (''<head>'' @ shimCode) buf, sb_body = body'\<rparr>"
    using assms True rd by (auto simp: ShimBody_def split: option.splits readErr.splits)
  have cl: "CanonicalHeaderKey ''Content-Length'' = ''Content-Length''" by code_simp
  have stream: "concat body = buf @ concat body'" by (rule pipe.read_stream [OF rd])
  have "(\<exists>pre post. buf = pre @ ''<head>'' @ post
          \<and> replaceFirst ''<head>'' (''<head>'' @ shimCode) buf = pre @ ''<head>'' @ shimCode @ post)
      \<or> replaceFirst ''<head>'' (''<head>'' @ shimCode) buf = buf"
    using replaceFirst_cases [of "''<head>''" buf shimCode] by blast
  then have "sb_prefix b @ concat (sb_body b) = concat body
      \<or> (\<exists>pre post. concat body = pre @ ''<head>'' @ post \<and> sb_prefix b @ concat (sb_body b) = pre @ ''<head>'' @ shimCode @ post)"
  proof
    assume "\<exists>pre post. buf = pre @ ''<head>'' @ post
        \<and> replaceFirst ''<head>'' (''<head>'' @ shimCode) buf = pre @ ''<head>'' @ shimCode @ post"
    then obtain pre post where p: "buf = pre @ ''<head>'' @ post"
        "replaceFirst ''<head>'' (''<head>'' @ shimCode) buf = pre @ ''<head>'' @ shimCode @ post" by blast
    then show ?thesis
      by (intro disjI2 exI [of _ pre] exI [of _ "post @ concat body'"]) (simp add: b stream)
  next
    assume "replaceFirst ''<head>'' (''<head>'' @ shimCode) buf = buf"
    then show ?thesis by (simp add: b stream)
  qed
  then show ?thesis using True by (auto simp: hdr' headerValues_Del cl)
qed

theorem shimBody_inserts_once_witness:
  "\<exists>hdr' b. ShimBody ''<script/>'' pipeRead [(''Content-Type'', [''text/html''])] [''<html><head></head>''] = Inr (hdr', b)
     \<and> sb_prefix b = ''<html><head><script/></head>''
     \<and> (\<forall>k. headerValues hdr' k = (if CanonicalHeaderKey k = ''Content-Length'' then [] else headerValues [(''Content-Type'', [''text/html''])] k))"
proof -
  let ?h = "[(''Content-Type'', [''text/html''])]" and ?b = "[''<html><head></head>'']"
  have html: "contains (ToLower (headerGet ?h ''Content-Type'')) ''html''" by code_simp
  then obtain hdr' b where r: "ShimBody ''<script/>'' pipeRead ?h ?b = Inr (hdr', b)" "sb_prefix b = ''<html><head><script/></head>''"
    by (simp add: ShimBody_def)
  then show ?thesis using shimBody_inserts_once [OF r(1)] html by auto
qed

text \<open>Header injection only adds: in the object of the message the headers go to, every key that was there
  keeps its value and the missing ones get the request's values; the other members of the message
  stay as they were.\<close>

theorem inject_only_adds:
  assumes "injectWebsocketMessage unmarshal marshal (Some m) (p # path) vals = Inr (Some m')"
    and "vals \<noteq> []" and "distinct (map fst vals)" and "unmarshal (m_Data m) = Inr obj"
  shows "\<exists>obj' inner inner'. marshal obj' = Inr (m_Data m') \<and> m_Type m' = m_Type m
       \<and> objectAt (p # path) obj = Some inner \<and> objectAt (p # path) obj' = Some inner'
       \<and> (\<forall>k. map_of inner' k = (case map_of inner k of Some v \<Rightarrow> Some v | None \<Rightarrow> map_option JStr (map_of vals k)))
       \<and> (\<forall>k. k \<noteq> p \<longrightarrow> map_of obj' k = map_of obj k)"
proof -
  obtain obj' where obj': "injectAt (p # path) vals obj = Some obj'" "marshal obj' = Inr (m_Data m')" "m_Type m' = m_Type m"
    using assms(1,2,4) by (auto simp: injectWebsocketMessage_def simp del: injectAt.simps split: option.splits sum.splits)
  obtain inner where "objectAt (p # path) obj = Some inner" "objectAt (p # path) obj' = Some (addMissing vals inner)"
    using injectAt_object [OF obj'(1)] by blast
  then show ?thesis
    using obj' map_of_addMissing [OF assms(3)] injectAt_other_keys [OF obj'(1)] by metis
qed

theorem inject_only_adds_witness:
  "\<exists>inner'. objectAt [''resource'', ''headers''] [(''resource'', JObj [(''headers'', JObj inner')])] = Some inner'
     \<and> map_of inner' ''User'' = Some (JStr ''old'')"
proof -
  let ?obj = "[(''resource'', JObj [(''headers'', JObj [(''User'', JStr ''old'')])])]"
  let ?un = "\<lambda>b :: bytes. Inr ?obj :: error + (string \<times> json) list"
  let ?ma = "\<lambda>o'. (if map_of o' ''resource'' = None then Inl (ErrMsg ''x'') else Inr ''new'') :: error + bytes"
  have r: "injectWebsocketMessage ?un ?ma (Some \<lparr>m_Type = 1, m_Data = []\<rparr>) (''resource'' # [''headers'']) [(''User'', ''u''), (''Id'', ''7'')]
      = Inr (Some \<lparr>m_Type = 1, m_Data = ''new''\<rparr>)"
    by (simp add: injectWebsocketMessage_def addMissing_def)
  obtain inner inner' :: "(string \<times> json) list" where i: "objectAt (''resource'' # [''headers'']) ?obj = Some inner"
      "\<forall>k. map_of inner' k = (case map_of inner k of Some v \<Rightarrow> Some v | None \<Rightarrow> map_option JStr (map_of [(''User'', ''u''), (''Id'', ''7'')] k))"
    using inject_only_adds [OF r, of ?obj] by auto
  then show ?thesis by (intro exI [of _ inner']) auto
qed

end
