(* ===== verification/Server_Ws_Properties.thy ===== *)
theory Server_Ws_Properties
  imports Server_Ws_Session Websocket_Properties
begin

text \<open>
  Properties of the websocket handler of the stand-alone proxy, for every interleaving of its goroutines:
  both streams keep their order and lose nothing while the handler runs, and the ways in which a session
  is never closed.
\<close>

section \<open>Invariant\<close>

text \<open>The handler is inside the loop or has left it.\<close>

definition atWork :: "wsMain \<Rightarrow> bool" where
  "atWork m \<longleftrightarrow> (case m of AtLoop \<Rightarrow> True | PostingData _ \<Rightarrow> True | Writing _ \<Rightarrow> True | _ \<Rightarrow> False)"

definition beforeLoop :: "wsMain \<Rightarrow> bool" where
  "beforeLoop m \<longleftrightarrow> (case m of Opening _ \<Rightarrow> True | Accepting \<Rightarrow> True | _ \<Rightarrow> False)"

lemma main_simps [simp]:
  "atWork AtLoop" "atWork (PostingData req)" "atWork (Writing bs)" "\<not> atWork (Opening req)" "\<not> atWork Accepting"
  "\<not> atWork (Closing req res)" "\<not> atWork (HandlerDone res)" "beforeLoop (Opening req)" "beforeLoop Accepting"
  "\<not> beforeLoop AtLoop" "\<not> beforeLoop (PostingData req)" "\<not> beforeLoop (Writing bs)" "\<not> beforeLoop (Closing req res)"
  "\<not> beforeLoop (HandlerDone res)"
  by (simp_all add: atWork_def beforeLoop_def)

text \<open>The messages of a poll answer.\<close>

definition bodyMessages :: "wsEnv \<Rightarrow> bytes \<Rightarrow> json list" where
  "bodyMessages we p = (case we_unmarshal we p of Inl _ \<Rightarrow> [] | Inr bs \<Rightarrow> bs)"

definition handing :: "wsReader \<Rightarrow> messageData list list" where
  "handing r = (case r of Hands m \<Rightarrow> [m] | _ \<Rightarrow> [])"

definition putting :: "wsPoller \<Rightarrow> bytes list" where
  "putting p = (case p of PutsBody b \<Rightarrow> [b] | _ \<Rightarrow> [])"

lemma thread_simps [simp]:
  "handing (Hands m) = [m]" "handing ReaderOff = []" "handing WaitsFrame = []" "handing (Collects mt bs) = []" "handing ReaderGone = []"
  "putting (PutsBody b) = [b]" "putting PollerOff = []" "putting (Polls req) = []" "putting PollerGone = []"
  by (simp_all add: handing_def putting_def)

text \<open>From the client to the agent.\<close>

definition clientInv :: "serverEnv \<Rightarrow> wsEnv \<Rightarrow> wsHandler \<Rightarrow> bool" where
  "clientInv env we h \<longleftrightarrow>
     wh_read h = wh_taken h @ handing (wh_reader h)
     \<and> (\<exists>failed. map (dataRequest env we (wh_session h)) (wh_taken h) = map Inr (wh_data h) @ failed
          \<and> length failed \<le> 1 \<and> (atWork (wh_main h) \<longrightarrow> failed = []))"

text \<open>From the agent to the client.\<close>

definition serverInv :: "wsEnv \<Rightarrow> wsHandler \<Rightarrow> bool" where
  "serverInv we h \<longleftrightarrow>
     (\<exists>bad. wh_polled h = wh_decoded h @ bad @ wh_writeChan h @ putting (wh_poller h)
        \<and> length bad \<le> 1 \<and> (atWork (wh_main h) \<longrightarrow> bad = []))
     \<and> (\<exists>ws rest. concat (map (bodyMessages we) (wh_decoded h)) = ws @ rest
          \<and> map parseServerMessage ws = map (Some \<circ> Inr) (cc_written (wh_client h))
          \<and> (atWork (wh_main h) \<longrightarrow> rest = (case wh_main h of Writing bs \<Rightarrow> bs | _ \<Rightarrow> [])))
     \<and> length (wh_writeChan h) \<le> we_bufSize we"

definition controlInv :: "serverEnv \<Rightarrow> wsEnv \<Rightarrow> wsHandler \<Rightarrow> bool" where
  "controlInv env we h \<longleftrightarrow>
     (beforeLoop (wh_main h) \<longrightarrow> wh_reader h = ReaderOff \<and> wh_poller h = PollerOff \<and> wh_taken h = [] \<and> wh_data h = [] \<and> wh_decoded h = []
        \<and> wh_polled h = [])
     \<and> (wh_reader h = ReaderOff \<longleftrightarrow> wh_poller h = PollerOff)
     \<and> (wh_ctxDone h \<longrightarrow> (\<exists>res. wh_main h = HandlerDone res))
     \<and> (atWork (wh_main h) \<longrightarrow> wh_reader h \<noteq> ReaderOff)
     \<and> (\<forall>res. wh_main h = HandlerDone res \<and> wh_reader h \<noteq> ReaderOff \<longrightarrow>
            wh_ctxDone h \<or> (\<exists>err. sessionRequest env we ''close'' (wh_session h) = Inl err))
     \<and> (\<forall>req res. wh_main h = Closing req res \<longrightarrow> sessionRequest env we ''close'' (wh_session h) = Inr req)
     \<and> (\<forall>req. wh_poller h = Polls req \<longrightarrow> sessionRequest env we ''poll'' (wh_session h) = Inr req)"

definition wsInv :: "serverEnv \<Rightarrow> wsEnv \<Rightarrow> wsHandler \<Rightarrow> bool" where
  "wsInv env we h \<longleftrightarrow> clientInv env we h \<and> serverInv we h \<and> controlInv env we h"

lemma wsInv_new: "wsInv env we (newWsHandler env we uri hdr)"
  by (auto simp: wsInv_def clientInv_def serverInv_def controlInv_def newWsHandler_def split: sum.splits)

lemma nextPoll_frame [simp]:
  "wh_main (nextPoll env we h) = wh_main h" "wh_session (nextPoll env we h) = wh_session h" "wh_reader (nextPoll env we h) = wh_reader h"
  "wh_writeChan (nextPoll env we h) = wh_writeChan h" "wh_ctxDone (nextPoll env we h) = wh_ctxDone h"
  "wh_client (nextPoll env we h) = wh_client h" "wh_read (nextPoll env we h) = wh_read h" "wh_taken (nextPoll env we h) = wh_taken h"
  "wh_data (nextPoll env we h) = wh_data h" "wh_polled (nextPoll env we h) = wh_polled h" "wh_decoded (nextPoll env we h) = wh_decoded h"
  "putting (wh_poller (nextPoll env we h)) = []" "wh_poller (nextPoll env we h) \<noteq> PollerOff"
  "wh_poller (nextPoll env we h) = Polls req \<longleftrightarrow> sessionRequest env we ''poll'' (wh_session h) = Inr req"
  by (auto simp: nextPoll_def split: sum.split)

lemma leave_frame [simp]:
  "wh_session (leave env we res h) = wh_session h" "wh_reader (leave env we res h) = wh_reader h" "wh_poller (leave env we res h) = wh_poller h"
  "wh_writeChan (leave env we res h) = wh_writeChan h" "wh_ctxDone (leave env we res h) = wh_ctxDone h"
  "wh_client (leave env we res h) = wh_client h" "wh_read (leave env we res h) = wh_read h" "wh_taken (leave env we res h) = wh_taken h"
  "wh_data (leave env we res h) = wh_data h" "wh_polled (leave env we res h) = wh_polled h" "wh_decoded (leave env we res h) = wh_decoded h"
  "\<not> atWork (wh_main (leave env we res h))" "\<not> beforeLoop (wh_main (leave env we res h))"
  by (auto simp: leave_def split: sum.split)

text \<open>Leaving the loop keeps what does not depend on the handler being at work.\<close>

lemma clientInv_leave:
  assumes "wh_read h = wh_taken h @ handing (wh_reader h)"
    and "map (dataRequest env we (wh_session h)) (wh_taken h) = map Inr (wh_data h) @ failed" and "length failed \<le> 1"
  shows "clientInv env we (leave env we res h)"
  using assms by (auto simp: clientInv_def)

lemma serverInv_leave:
  assumes "wh_polled h = wh_decoded h @ bad @ wh_writeChan h @ putting (wh_poller h)" and "length bad \<le> 1"
    and "concat (map (bodyMessages we) (wh_decoded h)) = ws @ rest"
    and "map parseServerMessage ws = map (Some \<circ> Inr) (cc_written (wh_client h))" and "length (wh_writeChan h) \<le> we_bufSize we"
  shows "serverInv we (leave env we res h)"
  using assms by (auto simp: serverInv_def)

lemma controlInv_leave:
  assumes "wh_reader h \<noteq> ReaderOff" and "wh_poller h \<noteq> PollerOff" and "\<not> wh_ctxDone h"
    and "\<forall>req. wh_poller h = Polls req \<longrightarrow> sessionRequest env we ''poll'' (wh_session h) = Inr req"
  shows "controlInv env we (leave env we res h)"
  using assms by (auto simp: controlInv_def leave_def split: sum.splits)

lemma wsInv_leave:
  assumes "wsInv env we h" and "atWork (wh_main h)"
  shows "wsInv env we (leave env we res h)"
proof -
  have "\<not> wh_ctxDone h" using assms by (auto simp: wsInv_def controlInv_def)
  then have "controlInv env we (leave env we res h)"
    using assms by (intro controlInv_leave) (auto simp: wsInv_def controlInv_def)
  moreover have "clientInv env we (leave env we res h)" using assms by (auto simp: wsInv_def clientInv_def)
  moreover have "serverInv we (leave env we res h)" using assms by (auto simp: wsInv_def serverInv_def)
  ultimately show ?thesis by (simp add: wsInv_def)
qed


section \<open>Steps keep the invariant\<close>

lemma wsInv_takes:
  assumes "wsInv env we h" and "wh_main h = AtLoop" and "wh_reader h = Hands msg"
    and "wsStep env we TakeClient h = Some h'"
  shows "wsInv env we h'"
proof -
  let ?h = "h\<lparr>wh_reader := WaitsFrame, wh_taken := wh_taken h @ [msg]\<rparr>"
  have read: "wh_read h = wh_taken h @ [msg]" and data: "map (dataRequest env we (wh_session h)) (wh_taken h) = map Inr (wh_data h)"
    and server: "serverInv we ?h" and ctx: "\<not> wh_ctxDone h" and off: "wh_poller h \<noteq> PollerOff"
    and polls: "\<forall>req. wh_poller h = Polls req \<longrightarrow> sessionRequest env we ''poll'' (wh_session h) = Inr req"
    using assms(1-3) by (auto simp: wsInv_def clientInv_def serverInv_def controlInv_def)
  show ?thesis
  proof (cases "dataRequest env we (wh_session h) msg")
    case (Inl err)
    then have h': "h' = leave env we (Ended err) ?h" using assms(2-4) by (simp add: Let_def)
    have "controlInv env we h'" unfolding h' using ctx off polls by (intro controlInv_leave) simp_all
    moreover have "clientInv env we h'" using read data Inl by (simp add: h' clientInv_def)
    moreover have "serverInv we h'" using server unfolding h' by (auto simp: serverInv_def)
    ultimately show ?thesis by (simp add: wsInv_def)
  next
    case (Inr req)
    then have h': "h' = ?h\<lparr>wh_main := PostingData req, wh_data := wh_data h @ [req]\<rparr>" using assms(2-4) by (simp add: Let_def)
    have "controlInv env we h'" using ctx off polls by (simp add: h' controlInv_def)
    moreover have "clientInv env we h'" using read data Inr by (simp add: h' clientInv_def)
    moreover have "serverInv we h'" using server assms(2) unfolding h' by (auto simp: serverInv_def)
    ultimately show ?thesis by (simp add: wsInv_def)
  qed
qed

lemma wsInv_decodes:
  assumes "wsInv env we h" and "wh_main h = AtLoop" and "wh_writeChan h = p # ps"
    and "wsStep env we TakeServer h = Some h'"
  shows "wsInv env we h'"
proof -
  let ?h = "h\<lparr>wh_writeChan := ps\<rparr>"
  obtain ws where polled: "wh_polled h = wh_decoded h @ p # ps @ putting (wh_poller h)"
      and wr: "concat (map (bodyMessages we) (wh_decoded h)) = ws" "map parseServerMessage ws = map (Some \<circ> Inr) (cc_written (wh_client h))"
      and len: "length ps \<le> we_bufSize we" and client: "clientInv env we h" and control: "controlInv env we h"
    using assms(1-3) by (auto simp: wsInv_def serverInv_def)
  then have ctx: "\<not> wh_ctxDone h" "wh_reader h \<noteq> ReaderOff" using assms(2) by (auto simp: controlInv_def)
  show ?thesis
  proof (cases "we_unmarshal we p")
    case (Inl err)
    then have h': "h' = leave env we (Ended err) ?h" using assms(2-4) by (simp add: Let_def)
    have "controlInv env we h'" unfolding h' using control ctx by (intro controlInv_leave) (auto simp: controlInv_def)
    moreover have "clientInv env we h'" using client by (auto simp: h' clientInv_def)
    moreover have "serverInv we h'"
      unfolding h' by (rule serverInv_leave [where bad = "[p]" and rest = "[]"]) (use polled wr len in simp_all)
    ultimately show ?thesis by (simp add: wsInv_def)
  next
    case (Inr bs)
    then have h': "h' = ?h\<lparr>wh_main := (if bs = [] then AtLoop else Writing bs), wh_decoded := wh_decoded h @ [p]\<rparr>"
      using assms(2-4) by (simp add: Let_def)
    have "controlInv env we h'" using control ctx by (auto simp: h' controlInv_def)
    moreover have "clientInv env we h'" using client assms(2) by (auto simp: h' clientInv_def)
    moreover have "serverInv we h'"
      using polled wr len Inr unfolding h' serverInv_def
      by (intro conjI exI [of _ "[]"] exI [of _ ws] exI [of _ bs]) (auto simp: bodyMessages_def)
    ultimately show ?thesis by (simp add: wsInv_def)
  qed
qed

lemma wsInv_writes:
  assumes "wsInv env we h" and "wh_main h = Writing (b # bs)"
  shows "wsInv env we (writeNext env we b bs h)"
proof (cases "\<exists>msg c. parseServerMessage b = Some (Inr msg) \<and> clientWrite msg (wh_client h) = (None, c)")
  case True
  then obtain msg c where m: "parseServerMessage b = Some (Inr msg)" "clientWrite msg (wh_client h) = (None, c)" by blast
  then have c: "cc_written c = cc_written (wh_client h) @ [msg]" by (auto simp: clientWrite_def split: option.splits)
  let ?h = "h\<lparr>wh_client := c, wh_main := (if bs = [] then AtLoop else Writing bs)\<rparr>"
  obtain ws where wr: "concat (map (bodyMessages we) (wh_decoded h)) = ws @ b # bs"
      "map parseServerMessage ws = map (Some \<circ> Inr) (cc_written (wh_client h))"
    using assms by (auto simp: wsInv_def serverInv_def)
  have "serverInv we ?h"
    using assms wr m(1) c unfolding serverInv_def wsInv_def
    by (intro conjI exI [of _ "ws @ [b]"] exI [of _ bs]) auto
  moreover have "clientInv env we ?h" "controlInv env we ?h" using assms by (auto simp: wsInv_def clientInv_def controlInv_def)
  ultimately show ?thesis using m by (simp add: writeNext_def wsInv_def)
next
  case False
  have "writeNext env we b bs h = leave env we Panicked h \<or> (\<exists>err. writeNext env we b bs h = leave env we (Ended err) h)"
  proof (cases "parseServerMessage b")
    case (Some r)
    then show ?thesis
    proof (cases r)
      case (Inr msg)
      then obtain err where "cc_error (wh_client h) = Some err" using False Some by (auto simp: clientWrite_def split: option.splits)
      then show ?thesis using Some Inr by (auto simp: writeNext_def clientWrite_def)
    qed (auto simp: writeNext_def)
  qed (simp add: writeNext_def)
  then show ?thesis using wsInv_leave [OF assms(1)] assms(2) by (elim disjE exE) simp_all
qed

lemma wsInv_reader:
  assumes "wsInv env we h" and "wh_reader h \<noteq> ReaderOff" and "r \<noteq> ReaderOff" and "handing (wh_reader h) = []"
  shows "wsInv env we (h\<lparr>wh_reader := r, wh_read := wh_read h @ handing r\<rparr>)"
    and "handing r = [] \<Longrightarrow> wsInv env we (h\<lparr>wh_reader := r\<rparr>)"
proof -
  have "serverInv we (h\<lparr>wh_reader := r, wh_read := l\<rparr>)" for l using assms(1) by (simp add: wsInv_def serverInv_def)
  moreover have "controlInv env we (h\<lparr>wh_reader := r, wh_read := l\<rparr>)" for l using assms(1-3) by (simp add: wsInv_def controlInv_def)
  moreover have "clientInv env we (h\<lparr>wh_reader := r, wh_read := wh_read h @ handing r\<rparr>)" using assms(1,4) by (simp add: wsInv_def clientInv_def)
  ultimately show 1: "wsInv env we (h\<lparr>wh_reader := r, wh_read := wh_read h @ handing r\<rparr>)" by (simp add: wsInv_def)
  show "wsInv env we (h\<lparr>wh_reader := r\<rparr>)" if "handing r = []" using 1 that by simp
qed

lemma wsInv_client:
  assumes "cc_written c = cc_written (wh_client h)"
  shows "wsInv env we (h\<lparr>wh_client := c\<rparr>) = wsInv env we h"
  using assms by (simp add: wsInv_def clientInv_def serverInv_def controlInv_def)

lemma wsInv_poller:
  assumes "wsInv env we h" and "wh_poller h \<noteq> PollerOff"
  shows "putting (wh_poller h) = [] \<Longrightarrow> wsInv env we (h\<lparr>wh_poller := PollerGone\<rparr>)"
    and "putting (wh_poller h) = [] \<Longrightarrow> wsInv env we (nextPoll env we h)"
    and "putting (wh_poller h) = [] \<Longrightarrow> wsInv env we (h\<lparr>wh_poller := PutsBody p, wh_polled := wh_polled h @ [p]\<rparr>)"
    and "wh_poller h = PutsBody p \<Longrightarrow> length (wh_writeChan h) < we_bufSize we
           \<Longrightarrow> wsInv env we (nextPoll env we (h\<lparr>wh_writeChan := wh_writeChan h @ [p]\<rparr>))"
proof -
  note facts = assms(1) [unfolded wsInv_def]
  have client: "clientInv env we h" and server: "serverInv we h" and control: "controlInv env we h" using facts by blast+
  have before: "\<not> beforeLoop (wh_main h)" "wh_reader h \<noteq> ReaderOff" using control assms(2) by (auto simp: controlInv_def)
  show "wsInv env we (h\<lparr>wh_poller := PollerGone\<rparr>)" "wsInv env we (nextPoll env we h)"
    "wsInv env we (h\<lparr>wh_poller := PutsBody p, wh_polled := wh_polled h @ [p]\<rparr>)" if "putting (wh_poller h) = []"
    using client server control before that by (auto simp: wsInv_def clientInv_def serverInv_def controlInv_def)
  show "wsInv env we (nextPoll env we (h\<lparr>wh_writeChan := wh_writeChan h @ [p]\<rparr>))"
    if "wh_poller h = PutsBody p" "length (wh_writeChan h) < we_bufSize we"
    using client server control before that by (auto simp: wsInv_def clientInv_def serverInv_def controlInv_def)
qed

text \<open>The steps of the handler's goroutine that wait for a request, of the reading and of the polling goroutine.\<close>

lemma wsInv_opened:
  assumes "wsInv env we h" and "wsStep env we (OpenDone res) h = Some h'"
  shows "wsInv env we h'"
proof -
  obtain req where m: "wh_main h = Opening req" using assms(2) by (auto split: wsMain.splits)
  have keep: "wsInv env we (h\<lparr>wh_main := Accepting, wh_session := s\<rparr>)" "wsInv env we (h\<lparr>wh_main := Accepting\<rparr>)"
    "wsInv env we (h\<lparr>wh_main := HandlerDone (Ended err)\<rparr>)" for s err
    using assms(1) m by (auto simp: wsInv_def clientInv_def serverInv_def controlInv_def)
  have "h' = (case res of Failed err \<Rightarrow> h\<lparr>wh_main := HandlerDone (Ended err)\<rparr>
      | ShimOpened session \<Rightarrow> h\<lparr>wh_main := Accepting, wh_session := session\<rparr> | _ \<Rightarrow> h\<lparr>wh_main := Accepting\<rparr>)"
    using assms(2) m by simp
  then show ?thesis using keep by (simp split: frontResult.split)
qed

lemma wsInv_accepted:
  assumes "wsInv env we h" and "wsStep env we (AcceptDone res) h = Some h'"
  shows "wsInv env we h'"
proof -
  have m: "wh_main h = Accepting" using assms(2) by (simp split: if_splits)
  then have h': "h' = (case res of Some err \<Rightarrow> h\<lparr>wh_main := HandlerDone (Ended err)\<rparr>
      | None \<Rightarrow> nextPoll env we (h\<lparr>wh_main := AtLoop, wh_reader := WaitsFrame\<rparr>))" using assms(2) by simp
  show ?thesis using assms(1) m by (cases res) (auto simp add: h' wsInv_def clientInv_def serverInv_def controlInv_def)
qed

lemma wsInv_posted:
  assumes "wsInv env we h" and "wsStep env we (DataDone res) h = Some h'"
  shows "wsInv env we h'"
proof -
  obtain req where m: "wh_main h = PostingData req"
      "h' = (case res of Failed err \<Rightarrow> leave env we (Ended err) h | _ \<Rightarrow> h\<lparr>wh_main := AtLoop\<rparr>)"
    using assms(2) by (auto split: wsMain.splits)
  moreover have "wsInv env we (h\<lparr>wh_main := AtLoop\<rparr>)" using assms(1) m(1) by (auto simp: wsInv_def clientInv_def serverInv_def controlInv_def)
  ultimately show ?thesis using wsInv_leave [OF assms(1)] by (simp split: frontResult.split)
qed

lemma wsInv_reads:
  assumes "wsInv env we h" and "wsStep env we e h = Some h'"
    and "e \<in> {FrameEnds, ReaderFails} \<union> range FrameBegins \<union> range FrameBytes"
  shows "wsInv env we h'"
proof -
  have "h' = h\<lparr>wh_reader := wh_reader h', wh_read := wh_read h @ handing (wh_reader h')\<rparr>"
      "wh_reader h \<noteq> ReaderOff" "wh_reader h' \<noteq> ReaderOff" "handing (wh_reader h) = []"
    using assms(2,3) by (auto split: wsReader.splits if_splits)
  then show ?thesis using wsInv_reader(1) [OF assms(1), of "wh_reader h'"] by simp
qed

lemma wsInv_polls:
  assumes "wsInv env we h" and "wsStep env we e h = Some h'" and "e = PutBody \<or> (\<exists>res. e = PollAnswered res)"
  shows "wsInv env we h'"
  using assms(3)
proof (elim disjE exE)
  fix res assume e: "e = PollAnswered res"
  then obtain req where "wh_poller h = Polls req"
      "h' = (case res of Failed err \<Rightarrow> h\<lparr>wh_poller := PollerGone\<rparr>
             | ShimPolled p \<Rightarrow> h\<lparr>wh_poller := PutsBody p, wh_polled := wh_polled h @ [p]\<rparr> | _ \<Rightarrow> nextPoll env we h)"
    using assms(2) by (auto split: wsPoller.splits)
  then show ?thesis using wsInv_poller(1-3) [OF assms(1)] by (simp split: frontResult.split)
next
  assume "e = PutBody"
  then obtain p where "wh_poller h = PutsBody p" "length (wh_writeChan h) < we_bufSize we"
      "h' = nextPoll env we (h\<lparr>wh_writeChan := wh_writeChan h @ [p]\<rparr>)"
    using assms(2) by (auto split: wsPoller.splits if_splits)
  then show ?thesis using wsInv_poller(4) [OF assms(1)] by simp
qed

lemma wsInv_step:
  assumes "wsInv env we h" and "wsStep env we e h = Some h'"
  shows "wsInv env we h'"
proof (cases e)
  case TakeClient
  then obtain msg where "wh_main h = AtLoop" "wh_reader h = Hands msg" using assms(2) by (auto split: wsMain.splits wsReader.splits)
  then show ?thesis using wsInv_takes [OF assms(1)] assms(2) TakeClient by blast
next
  case TakeServer
  then obtain p ps where "wh_main h = AtLoop" "wh_writeChan h = p # ps" using assms(2) by (auto split: wsMain.splits list.splits)
  then show ?thesis using wsInv_decodes [OF assms(1)] assms(2) TakeServer by blast
next
  case WriteOne
  then obtain b bs where "wh_main h = Writing (b # bs)" "h' = writeNext env we b bs h" using assms(2) by (auto split: wsMain.splits list.splits)
  then show ?thesis using wsInv_writes [OF assms(1)] by blast
next
  case LoopCtxDone
  then show ?thesis using assms wsInv_leave [OF assms(1)] by (auto split: if_splits)
next
  case (ClientBreaks err)
  then have "h' = h\<lparr>wh_client := (wh_client h)\<lparr>cc_error := Some err\<rparr>\<rparr>" using assms(2) by (simp split: if_splits)
  then show ?thesis using assms(1) wsInv_client by simp
next
  case (CloseDone res)
  then obtain req r where "wh_main h = Closing req r" "h' = h\<lparr>wh_main := HandlerDone r, wh_ctxDone := True\<rparr>"
    using assms(2) by (auto split: wsMain.splits)
  then show ?thesis using assms(1) by (simp add: wsInv_def clientInv_def serverInv_def controlInv_def)
qed (use assms(2) wsInv_opened [OF assms(1)] wsInv_accepted [OF assms(1)] wsInv_posted [OF assms(1)]
    wsInv_reads [OF assms(1,2)] wsInv_polls [OF assms(1,2)] in blast)+

interpretation ws: event_system "wsStep env we" "wsInv env we"
  by unfold_locales (rule wsInv_step)

section \<open>Properties\<close>

text \<open>C11. In a websocket session of the stand-alone proxy, for every interleaving of the handler's goroutines and
  whatever the requests return: the data requests carry the client's messages in order, each once; the messages
  written to the client are those of the poll answers in order, each once; and while the handler is at its
  loop no message is lost: every client message read was posted or waits to be handed over, and every
  poll answer was written completely or waits in the channel. The context is cancelled only after the
  handler has returned.\<close>

theorem ws_session_in_order:
  assumes "reachable (wsStep env we) (newWsHandler env we uri hdr) h"
  shows "map Inr (wh_data h) = map (dataRequest env we (wh_session h)) (take (length (wh_data h)) (wh_read h))
       \<and> map (Some \<circ> Inr) (cc_written (wh_client h))
           = take (length (cc_written (wh_client h))) (map parseServerMessage (concat (map (bodyMessages we) (wh_polled h))))
       \<and> (wh_main h = AtLoop \<longrightarrow>
            map (dataRequest env we (wh_session h)) (wh_read h)
              = map Inr (wh_data h) @ map (dataRequest env we (wh_session h)) (handing (wh_reader h))
            \<and> map parseServerMessage (concat (map (bodyMessages we) (wh_polled h)))
                = map (Some \<circ> Inr) (cc_written (wh_client h))
                  @ map parseServerMessage (concat (map (bodyMessages we) (wh_writeChan h @ putting (wh_poller h)))))
       \<and> (wh_ctxDone h \<longrightarrow> (\<exists>res. wh_main h = HandlerDone res))"
proof -
  have inv: "wsInv env we h" by (rule ws.inv_reachable [OF assms wsInv_new])
  obtain failed where c: "wh_read h = wh_taken h @ handing (wh_reader h)"
      "map (dataRequest env we (wh_session h)) (wh_taken h) = map Inr (wh_data h) @ failed" "atWork (wh_main h) \<longrightarrow> failed = []"
    using inv by (auto simp: wsInv_def clientInv_def)
  obtain bad ws rest where s: "wh_polled h = wh_decoded h @ bad @ wh_writeChan h @ putting (wh_poller h)" "atWork (wh_main h) \<longrightarrow> bad = []"
      "concat (map (bodyMessages we) (wh_decoded h)) = ws @ rest" "map parseServerMessage ws = map (Some \<circ> Inr) (cc_written (wh_client h))"
      "atWork (wh_main h) \<longrightarrow> rest = (case wh_main h of Writing bs \<Rightarrow> bs | _ \<Rightarrow> [])"
    using inv unfolding wsInv_def serverInv_def by blast
  let ?req = "dataRequest env we (wh_session h)"
  have "length (wh_data h) \<le> length (wh_taken h)" using arg_cong [OF c(2), of length] by simp
  then have "map ?req (take (length (wh_data h)) (wh_read h)) = take (length (wh_data h)) (map ?req (wh_taken h))"
    by (simp add: c(1) take_map)
  then have 1: "map Inr (wh_data h) = map ?req (take (length (wh_data h)) (wh_read h))" by (simp add: c(2))
  have len: "length ws = length (cc_written (wh_client h))" using arg_cong [OF s(4), of length] by simp
  have "map (Some \<circ> Inr) (cc_written (wh_client h)) = take (length ws) (map parseServerMessage (concat (map (bodyMessages we) (wh_polled h))))"
    unfolding s(1) s(4) [symmetric] by (simp add: s(3) take_map)
  then have 2: "map (Some \<circ> Inr) (cc_written (wh_client h))
      = take (length (cc_written (wh_client h))) (map parseServerMessage (concat (map (bodyMessages we) (wh_polled h))))" by (simp add: len)
  have 3: "wh_ctxDone h \<longrightarrow> (\<exists>res. wh_main h = HandlerDone res)" using inv by (simp add: wsInv_def controlInv_def)
  have 4: "map ?req (wh_read h) = map Inr (wh_data h) @ map ?req (handing (wh_reader h))
      \<and> map parseServerMessage (concat (map (bodyMessages we) (wh_polled h)))
          = map (Some \<circ> Inr) (cc_written (wh_client h))
            @ map parseServerMessage (concat (map (bodyMessages we) (wh_writeChan h @ putting (wh_poller h))))" if "wh_main h = AtLoop"
    using that c s by (simp flip: s(4))
  show ?thesis using 1 2 3 4 by blast
qed

definition exampleServer :: serverEnv where
  "exampleServer = \<lparr>shimPath = ''/shim'', printableRune = (\<lambda>_. True), readAgentResponse = (\<lambda>_ _. Inl (ErrMsg [])),
     requestBytes = (\<lambda>_. []), marshalIDs = (\<lambda>_. Inr []), unmarshalSession = (\<lambda>_. Inl (ErrMsg []))\<rparr>"

definition exampleWs :: wsEnv where
  "exampleWs = \<lparr>we_marshal = (\<lambda>ps. Inr (concat (map (\<lambda>p. case wm_Message p of JStr s \<Rightarrow> s | _ \<Rightarrow> []) ps))), we_marshalOne = (\<lambda>p. Inr (wm_ID p)),
     we_unmarshal = (\<lambda>b. Inr [JStr b]), we_badURL = (\<lambda>_. None), we_host = ''h'', we_bufSize = 4096\<rparr>"

abbreviation exampleHandler :: wsHandler where
  "exampleHandler \<equiv> newWsHandler exampleServer exampleWs ''/x'' []"

definition exampleSession :: "wsEvent list" where
  "exampleSession = [OpenDone (ShimOpened \<lparr>ss_ID = ''1'', ss_Version = 1, ss_Subprotocol = []\<rparr>), AcceptDone None, FrameBegins True,
     FrameBytes ''hi'', FrameEnds, PollAnswered (ShimPolled ''yo''), PutBody, TakeClient, DataDone ShimIgnored, TakeServer, WriteOne]"

lemmas ws_run_simps = newWsHandler_def openRequest_def newShimRequest_def exampleServer_def exampleWs_def nextPoll_def leave_def
  sessionRequest_def dataRequest_def idMessage_def readClientMessage_def clientPayload_def writeNext_def parseServerMessage_def
  clientWrite_def Let_def

lemma exampleSession_run:
  "case run_events (wsStep exampleServer exampleWs) exampleSession exampleHandler of None \<Rightarrow> False
   | Some h \<Rightarrow> wh_main h = AtLoop \<and> map hr_Body (wh_data h) = [Inr ''hi''] \<and> wh_reader h = WaitsFrame
       \<and> cc_written (wh_client h) = [\<lparr>md_data = ''yo'', md_text = True\<rparr>]"
  by (simp add: exampleSession_def ws_run_simps)

theorem ws_session_in_order_witness:
  "\<exists>h. run_events (wsStep exampleServer exampleWs) exampleSession exampleHandler = Some h
     \<and> map hr_Body (wh_data h) = [Inr ''hi'']
     \<and> map Inr (wh_data h) = map (dataRequest exampleServer exampleWs (wh_session h)) (wh_read h)"
proof -
  obtain h where h: "run_events (wsStep exampleServer exampleWs) exampleSession exampleHandler = Some h"
      "wh_main h = AtLoop" "map hr_Body (wh_data h) = [Inr ''hi'']" "wh_reader h = WaitsFrame"
    using exampleSession_run by (auto split: option.splits)
  have "map (dataRequest exampleServer exampleWs (wh_session h)) (wh_read h) = map Inr (wh_data h)"
    using ws_session_in_order [OF run_events_reachable [OF h(1)]] h(2,4) by simp
  then show ?thesis using h(1,3) by (intro exI [of _ h]) simp
qed

section \<open>Sessions that are never closed\<close>

definition abandoned :: "wsHandler \<Rightarrow> bool" where
  "abandoned h \<longleftrightarrow> wh_main h = AtLoop \<and> wh_reader h = ReaderGone \<and> wh_poller h = PollerGone \<and> wh_writeChan h = [] \<and> \<not> wh_ctxDone h"

lemma abandoned_step: "abandoned h \<Longrightarrow> wsStep env we e h = Some h' \<Longrightarrow> abandoned h'"
  by (cases e) (auto simp: abandoned_def split: if_splits)

interpretation left_alone: event_system "wsStep env we" abandoned
  by unfold_locales (rule abandoned_step)

text \<open>C39. The handler does not notice that the client is gone. Suppose that it waits in its loop with nothing to
  write, that a poll was answered with an error, as the agent does when no message came in time (408), and
  that the client closes its websocket: then, whatever happens, the handler never returns, and the agent is
  never asked to close the session. The reading goroutine ends without a word to the handler, and the
  context the loop listens to is cancelled only when the handler itself returns.\<close>

theorem idle_websocket_never_closed:
  assumes "reachable (wsStep env we) (newWsHandler env we uri hdr) h"
    and "wh_main h = AtLoop" and "wh_writeChan h = []" and "wh_poller h = Polls req" and "wh_reader h = WaitsFrame"
  shows "\<exists>h1. run_events (wsStep env we) [PollAnswered (Failed err), ReaderFails] h = Some h1
       \<and> (\<forall>h2. reachable (wsStep env we) h1 h2 \<longrightarrow> wh_main h2 = AtLoop)"
proof -
  have ctx: "\<not> wh_ctxDone h" using ws.inv_reachable [OF assms(1) wsInv_new] assms(2) by (auto simp: wsInv_def controlInv_def)
  let ?h1 = "h\<lparr>wh_poller := PollerGone, wh_reader := ReaderGone\<rparr>"
  have "abandoned ?h1" using assms(2,3) ctx by (simp add: abandoned_def)
  then have "wh_main h2 = AtLoop" if "reachable (wsStep env we) ?h1 h2" for h2
    using left_alone.inv_reachable [OF that] by (simp add: abandoned_def)
  moreover have "run_events (wsStep env we) [PollAnswered (Failed err), ReaderFails] h = Some ?h1" using assms(4,5) by simp
  ultimately show ?thesis by blast
qed

theorem idle_websocket_never_closed_witness:
  "\<exists>h h1. run_events (wsStep exampleServer exampleWs) exampleSession exampleHandler = Some h
     \<and> run_events (wsStep exampleServer exampleWs) [PollAnswered (Failed (ErrMsg ''408'')), ReaderFails] h = Some h1
     \<and> (\<forall>h2. reachable (wsStep exampleServer exampleWs) h1 h2 \<longrightarrow> wh_main h2 = AtLoop)"
proof -
  have "case run_events (wsStep exampleServer exampleWs) exampleSession exampleHandler of None \<Rightarrow> False
        | Some h \<Rightarrow> wh_main h = AtLoop \<and> wh_writeChan h = [] \<and> (\<exists>req. wh_poller h = Polls req) \<and> wh_reader h = WaitsFrame"
    by (simp add: exampleSession_def ws_run_simps)
  then obtain h req where h: "run_events (wsStep exampleServer exampleWs) exampleSession exampleHandler = Some h"
      "wh_main h = AtLoop" "wh_writeChan h = []" "wh_poller h = Polls req" "wh_reader h = WaitsFrame"
    by (auto split: option.splits)
  then show ?thesis using idle_websocket_never_closed [OF run_events_reachable [OF h(1)] h(2-5), of "ErrMsg ''408''"] by blast
qed

text \<open>When the client's upgrade fails, the session that the agent has opened is not closed either: a handler
  that returned without reading from the client never asks for it.\<close>

theorem failed_upgrade_leaves_session:
  assumes "wh_main h = Accepting"
  shows "\<exists>h1. wsStep env we (AcceptDone (Some err)) h = Some h1 \<and> (\<forall>e h2. wsStep env we e h1 = Some h2 \<longrightarrow> wh_main h2 = HandlerDone (Ended err))"
proof -
  have "wh_main h2 = HandlerDone (Ended err)" if "wsStep env we e (h\<lparr>wh_main := HandlerDone (Ended err)\<rparr>) = Some h2" for e h2
    using that by (cases e) (auto split: if_splits wsReader.splits wsPoller.splits frontResult.splits)
  then show ?thesis using assms by simp
qed

end
