(* ===== verification/Websocket_End_To_End.thy ===== *)
theory Websocket_End_To_End
  imports Server_Ws_Properties
begin

text \<open>
  A websocket from the client to the backend: the handler of the stand-alone proxy (\<open>Server_Ws_Session\<close>)
  and the agent's connection to the backend (\<open>Agent_Websockets\<close>) with the endpoints for data and poll
  requests between them. The agent serves each request of the session once, and its session is the one
  the handler opened (other sessions do not matter, \<open>shim_sessions_isolated\<close>). Answers may be
  replaced by errors at any time, and the agent goes on with a request whose answer was an error.
\<close>

section \<open>The composed system\<close>

text \<open>
  \<open>wt_got\<close>: the number of data requests the agent has taken; \<open>wt_todo\<close>: the messages of the last one that
  it has not handed over; \<open>wt_answer\<close>: the poll under way was served, and its answer, unless it is an error.
\<close>

record wsTunnel =
  wt_handler :: wsHandler
  wt_conn :: connection
  wt_got :: nat
  wt_todo :: "shimMessage list option"
  wt_answer :: "bytes option option"

datatype wsTunnelEvent =
    HandlerEvent wsEvent
  | AgentTakesData
  | AgentHandsOver time
  | AgentAnswersData
  | AgentServesPoll time
  | PollAnswerArrives
  | BackendEvent connEvent

text \<open>The results of requests to the agent come from the agent, but for errors.\<close>

definition isFailed :: "frontResult \<Rightarrow> bool" where
  "isFailed res \<longleftrightarrow> (case res of Failed _ \<Rightarrow> True | _ \<Rightarrow> False)"

lemma isFailed_iff: "isFailed res \<longleftrightarrow> (\<exists>err. res = Failed err)"
  by (simp add: isFailed_def split: frontResult.split)

definition ownEvent :: "wsEvent \<Rightarrow> bool" where
  "ownEvent e \<longleftrightarrow> (case e of DataDone res \<Rightarrow> isFailed res | PollAnswered res \<Rightarrow> isFailed res | _ \<Rightarrow> True)"

definition isPollAnswer :: "wsEvent \<Rightarrow> bool" where
  "isPollAnswer e \<longleftrightarrow> (case e of PollAnswered _ \<Rightarrow> True | _ \<Rightarrow> False)"

definition isCall :: "connEvent \<Rightarrow> bool" where
  "isCall e \<longleftrightarrow> (case e of CallSend _ _ _ _ \<Rightarrow> True | CallRead _ \<Rightarrow> True | _ \<Rightarrow> False)"

fun wsTunnelStep :: "serverEnv \<Rightarrow> wsEnv \<Rightarrow> shimEnv \<Rightarrow> wsTunnelEvent \<Rightarrow> wsTunnel \<Rightarrow> wsTunnel option" where
  "wsTunnelStep env we aenv (HandlerEvent e) a =
     (if ownEvent e
      then map_option (\<lambda>h. a\<lparr>wt_handler := h, wt_answer := (if isPollAnswer e then None else wt_answer a)\<rparr>)
             (wsStep env we e (wt_handler a))
      else None)"
| "wsTunnelStep env we aenv AgentTakesData a =
     (if wt_todo a = None \<and> wt_got a < length (wh_data (wt_handler a))
      then (case hr_Body (wh_data (wt_handler a) ! wt_got a) of
              Inl _ \<Rightarrow> None
            | Inr body \<Rightarrow>
                (case se_unmarshalMany aenv body of
                   Inl _ \<Rightarrow> None
                 | Inr msgs \<Rightarrow> Some (a\<lparr>wt_got := wt_got a + 1, wt_todo := Some msgs\<rparr>)))
      else None)"
| "wsTunnelStep env we aenv (AgentHandsOver t) a =
     (case wt_todo a of
        Some (m # ms) \<Rightarrow>
          (case SendClientMessage (se_formats aenv) t (sm_Message m) False [] (wt_conn a) of
             Returns (None, c) \<Rightarrow> Some (a\<lparr>wt_conn := c, wt_todo := Some ms\<rparr>)
           | Returns (Some err, c) \<Rightarrow> Some (a\<lparr>wt_conn := c, wt_todo := None\<rparr>)
           | _ \<Rightarrow> None)
      | _ \<Rightarrow> None)"
| "wsTunnelStep env we aenv AgentAnswersData a =
     (if wt_todo a = Some []
      then map_option (\<lambda>h. a\<lparr>wt_handler := h, wt_todo := None\<rparr>) (wsStep env we (DataDone ShimIgnored) (wt_handler a))
      else None)"
| "wsTunnelStep env we aenv (AgentServesPoll t) a =
     (case wh_poller (wt_handler a) of
        Polls req \<Rightarrow>
          if wt_answer a = None
          then (case ReadServerMessages t (wt_conn a) of
                  (res, c) \<Rightarrow>
                    Some (a\<lparr>wt_conn := c,
                            wt_answer := Some (case res of
                                                 Inr (Some msgs) \<Rightarrow> (case se_marshalMsgs aenv msgs of Inr p \<Rightarrow> Some p | Inl _ \<Rightarrow> None)
                                               | _ \<Rightarrow> None)\<rparr>))
          else None
      | _ \<Rightarrow> None)"
| "wsTunnelStep env we aenv PollAnswerArrives a =
     (case wt_answer a of
        Some (Some p) \<Rightarrow>
          map_option (\<lambda>h. a\<lparr>wt_handler := h, wt_answer := None\<rparr>) (wsStep env we (PollAnswered (ShimPolled p)) (wt_handler a))
      | _ \<Rightarrow> None)"
| "wsTunnelStep env we aenv (BackendEvent e) a =
     (if isCall e then None else map_option (\<lambda>c. a\<lparr>wt_conn := c\<rparr>) (connStep (se_formats aenv) e (wt_conn a)))"

text \<open>The JSON formats of both programs agree; JSON text is valid UTF-8 (\<open>jsonWire\<close>).\<close>

definition jsonAgrees :: "wsEnv \<Rightarrow> shimEnv \<Rightarrow> bool" where
  "jsonAgrees we aenv \<longleftrightarrow>
     (\<forall>msgs p. se_marshalMsgs aenv msgs = Inr p \<longrightarrow> we_unmarshal we p = Inr (map jsonWire msgs))
     \<and> (\<forall>ps b. we_marshal we ps = Inr b \<longrightarrow>
          se_unmarshalMany aenv b = Inr (map (\<lambda>p. \<lparr>sm_ID = toValidUTF8 (wm_ID p), sm_Message = jsonWire (wm_Message p)\<rparr>) ps))"

definition newTunnel :: "wsHandler \<Rightarrow> connection \<Rightarrow> wsTunnel" where
  "newTunnel h c = \<lparr>wt_handler = h, wt_conn = c\<lparr>cn_protocolVersion := 1\<rparr>, wt_got = 0, wt_todo = None, wt_answer = None\<rparr>"

section \<open>From the backend to the client\<close>

definition answered :: "wsEnv \<Rightarrow> bytes option option \<Rightarrow> json list" where
  "answered we x = (case x of Some (Some p) \<Rightarrow> bodyMessages we p | _ \<Rightarrow> [])"

lemma answered_simps [simp]:
  "answered we None = []" "answered we (Some None) = []" "answered we (Some (Some p)) = bodyMessages we p"
  by (simp_all add: answered_def)

definition downInv :: "wsEnv \<Rightarrow> wsTunnel \<Rightarrow> bool" where
  "downInv we a \<longleftrightarrow>
     (\<exists>lost. map (jsonWire \<circ> Serialize 1) (cn_returned (wt_conn a))
        = concat (map (bodyMessages we) (wh_polled (wt_handler a))) @ answered we (wt_answer a) @ lost
        \<and> (lost \<noteq> [] \<longrightarrow> wh_poller (wt_handler a) = PollerGone \<or> wt_answer a = Some None))
     \<and> (wt_answer a \<noteq> None \<longrightarrow> (\<exists>req. wh_poller (wt_handler a) = Polls req))"

lemma poller_frame:
  assumes "wsStep env we e h = Some h'" and "\<not> isPollAnswer e"
  shows "wh_polled h' = wh_polled h \<and> (wh_poller h' = wh_poller h \<or> wh_main h = Accepting \<or> (\<exists>p. wh_poller h = PutsBody p))"
proof (cases e)
  case (OpenDone res)
  then show ?thesis using assms(1) by (auto split: wsMain.splits frontResult.splits)
next
  case (AcceptDone res)
  then show ?thesis using assms(1) by (auto split: if_splits option.splits)
next
  case TakeClient
  then show ?thesis using assms(1) by (auto simp: Let_def split: wsMain.splits wsReader.splits sum.splits)
next
  case TakeServer
  then show ?thesis using assms(1) by (auto simp: Let_def split: wsMain.splits list.splits sum.splits)
next
  case WriteOne
  then show ?thesis using assms(1) by (auto simp: writeNext_def split: wsMain.splits list.splits option.splits sum.splits prod.splits)
next
  case (DataDone res)
  then show ?thesis using assms(1) by (auto split: wsMain.splits frontResult.splits)
next
  case (PollAnswered res)
  then show ?thesis using assms(2) by (simp add: isPollAnswer_def)
qed (use assms(1) in \<open>auto split: if_splits wsReader.splits wsPoller.splits wsMain.splits\<close>)

lemma backend_event_returned:
  assumes "connStep fmts e c = Some c'" and "\<not> isCall e"
  shows "cn_returned c' = cn_returned c \<and> cn_protocolVersion c' = cn_protocolVersion c
       \<and> filter isMessage (cn_accepted c') = filter isMessage (cn_accepted c)"
proof -
  have "\<not> isCallSend e" using assms(2) by (auto simp: isCall_def isCallSend_def split: connEvent.splits)
  note acc = conn_event_accepted [OF assms(1) this]
  have "cn_returned c' = cn_returned c"
  proof (cases e)
    case CallClose
    then obtain c1 where "pushClient (Some closeMessage) c = Returns c1" "c' = c1\<lparr>cn_clientClosed := True\<rparr>"
      using assms(1) by (auto simp: conn_Close_def split: outcome.splits)
    then show ?thesis using pushClient_accepted [of "Some closeMessage" c c1] by simp
  qed (use assms in \<open>auto simp: isCall_def split: if_splits list.splits option.splits\<close>)
  then show ?thesis using acc by blast
qed

lemma down_cong:
  assumes "wh_polled (wt_handler a') = wh_polled (wt_handler a)" and "wt_answer a' = wt_answer a"
    and "wh_poller (wt_handler a') = wh_poller (wt_handler a)" and "cn_returned (wt_conn a') = cn_returned (wt_conn a)"
  shows "downInv we a' = downInv we a"
  using assms by (simp add: downInv_def)

lemma down_handler:
  assumes "downInv we a" and "wsStep env we e (wt_handler a) = Some h" and "ownEvent e" and "wsInv env we (wt_handler a)"
  shows "downInv we (a\<lparr>wt_handler := h, wt_answer := (if isPollAnswer e then None else wt_answer a)\<rparr>)"
proof (cases "isPollAnswer e")
  case True
  then obtain err req where "e = PollAnswered (Failed err)" "wh_poller (wt_handler a) = Polls req" "h = (wt_handler a)\<lparr>wh_poller := PollerGone\<rparr>"
    using assms(2,3) by (auto simp: isPollAnswer_def ownEvent_def isFailed_iff split: wsEvent.splits wsPoller.splits)
  then show ?thesis using assms(1) by (auto simp: downInv_def isPollAnswer_def)
next
  case False
  note frame = poller_frame [OF assms(2) False]
  have "wt_answer a = None \<and> wh_poller (wt_handler a) \<noteq> PollerGone" if "wh_poller h \<noteq> wh_poller (wt_handler a)"
  proof -
    have "(\<exists>p. wh_poller (wt_handler a) = PutsBody p) \<or> wh_poller (wt_handler a) = PollerOff"
      using frame that assms(4) by (auto simp: wsInv_def controlInv_def)
    then show ?thesis using assms(1) by (auto simp: downInv_def)
  qed
  then show ?thesis using assms(1) frame False by (cases "wh_poller h = wh_poller (wt_handler a)") (auto simp: downInv_def)
qed

lemma down_served:
  assumes "downInv we a" and "jsonAgrees we aenv" and "wh_poller (wt_handler a) = Polls req" and "wt_answer a = None"
    and "ReadServerMessages t (wt_conn a) = (res, c)" and "cn_protocolVersion (wt_conn a) = 1"
  shows "downInv we (a\<lparr>wt_conn := c, wt_answer := Some (case res of
           Inr (Some msgs) \<Rightarrow> (case se_marshalMsgs aenv msgs of Inr p \<Rightarrow> Some p | Inl _ \<Rightarrow> None) | _ \<Rightarrow> None)\<rparr>)"
proof (cases "cn_server (wt_conn a) = []")
  case True
  then have "cn_returned c = cn_returned (wt_conn a)" "\<forall>msgs. res \<noteq> Inr (Some msgs)"
    using assms(5) by (auto simp: ReadServerMessages_def updateActivity_def Let_def split: if_splits)
  then show ?thesis using assms(1,3,4) by (auto simp: downInv_def split: sum.splits option.splits)
next
  case False
  let ?vs = "map (Serialize 1) (cn_server (wt_conn a))"
  have r: "res = Inr (Some ?vs)" "cn_returned c = cn_returned (wt_conn a) @ cn_server (wt_conn a)"
    using assms(5,6) False by (auto simp: ReadServerMessages_def updateActivity_def Let_def)
  have "map (jsonWire \<circ> Serialize 1) (cn_returned (wt_conn a)) = concat (map (bodyMessages we) (wh_polled (wt_handler a)))"
    using assms(1,3,4) by (auto simp: downInv_def)
  moreover have "bodyMessages we p = map (jsonWire \<circ> Serialize 1) (cn_server (wt_conn a))" if "se_marshalMsgs aenv ?vs = Inr p" for p
    using assms(2) that by (simp add: jsonAgrees_def bodyMessages_def)
  ultimately show ?thesis using r assms(3) by (auto simp: downInv_def split: sum.split)
qed

lemma down_arrives:
  assumes "downInv we a" and "wt_answer a = Some (Some p)" and "wsStep env we (PollAnswered (ShimPolled p)) (wt_handler a) = Some h"
  shows "downInv we (a\<lparr>wt_handler := h, wt_answer := None\<rparr>)"
proof -
  have "h = (wt_handler a)\<lparr>wh_poller := PutsBody p, wh_polled := wh_polled (wt_handler a) @ [p]\<rparr>"
    using assms(3) by (auto split: wsPoller.splits)
  moreover have "wh_poller (wt_handler a) \<noteq> PollerGone" using assms(1,2) by (auto simp: downInv_def)
  ultimately show ?thesis using assms(1,2) by (auto simp: downInv_def)
qed

section \<open>From the client to the backend\<close>

text \<open>The message of the backend's websocket for a piece of a client message.\<close>

definition pieceMsg :: "messageData \<Rightarrow> wsMessage" where
  "pieceMsg md =
     (if md_text md then \<lparr>m_Type = TextMessage, m_Data = toValidUTF8 (md_data md)\<rparr>
      else \<lparr>m_Type = BinaryMessage, m_Data = md_data md\<rparr>)"

definition resting :: "wsMain \<Rightarrow> bool" where
  "resting m \<longleftrightarrow> (case m of AtLoop \<Rightarrow> True | Writing _ \<Rightarrow> True | _ \<Rightarrow> False)"

lemma resting_simps [simp]:
  "resting AtLoop" "resting (Writing bs)" "\<not> resting (PostingData req)" "\<not> resting (Opening req)" "\<not> resting Accepting"
  "\<not> resting (Closing req res)" "\<not> resting (HandlerDone res)"
  by (simp_all add: resting_def)

lemma resting_leave [simp]: "\<not> resting (wh_main (leave env we res h))" "wh_main (leave env we res h) \<noteq> PostingData req"
  by (auto simp: leave_def split: sum.split)

definition toHandOver :: "shimEnv \<Rightarrow> shimMessage list option \<Rightarrow> wsMessage list" where
  "toHandOver aenv todo = (case todo of None \<Rightarrow> [] | Some ms \<Rightarrow> concat (map (acceptedOf (se_formats aenv) 1 \<circ> sm_Message) ms))"

lemma toHandOver_simps [simp]:
  "toHandOver aenv None = []" "toHandOver aenv (Some []) = []"
  "toHandOver aenv (Some (m # ms)) = acceptedOf (se_formats aenv) 1 (sm_Message m) @ toHandOver aenv (Some ms)"
  by (simp_all add: toHandOver_def)

definition progressInv :: "wsTunnel \<Rightarrow> bool" where
  "progressInv a \<longleftrightarrow>
     (let n = length (wh_data (wt_handler a)) in
      wt_got a \<le> n \<and> n \<le> wt_got a + 1 \<and> (resting (wh_main (wt_handler a)) \<longrightarrow> wt_got a = n)
      \<and> (wt_todo a \<noteq> None \<longrightarrow> wt_got a = n \<and> \<not> resting (wh_main (wt_handler a)) \<and> \<not> beforeLoop (wh_main (wt_handler a))))"

definition upInv :: "shimEnv \<Rightarrow> wsTunnel \<Rightarrow> bool" where
  "upInv aenv a \<longleftrightarrow> progressInv a
     \<and> (\<exists>lost. map pieceMsg (concat (take (wt_got a) (wh_taken (wt_handler a))))
          = filter isMessage (cn_accepted (wt_conn a)) @ toHandOver aenv (wt_todo a) @ lost
        \<and> (lost \<noteq> [] \<longrightarrow> wt_todo a = None \<and> \<not> resting (wh_main (wt_handler a)) \<and> wt_got a = length (wh_data (wt_handler a))))"

lemma pieces_accepted:
  "concat (map (acceptedOf fmts 1 \<circ> jsonWire \<circ> wm_Message) (clientPayload session msg)) = map pieceMsg msg"
proof -
  have "acceptedOf fmts 1 (jsonWire (if md_text md then JStr (md_data md) else JArr [JStr (base64Encode (md_data md))])) = [pieceMsg md]" for md
    by (simp add: acceptedOf_def clientMessageOf_def pieceMsg_def base64_round_trip)
  then show ?thesis by (induction msg) (simp_all add: clientPayload_def)
qed

lemma dataRequest_body:
  assumes "dataRequest env we session msg = Inr req"
  shows "\<exists>buf. we_marshal we (clientPayload session msg) = Inr buf \<and> hr_Body req = Inr buf"
  using assms by (auto simp: dataRequest_def newShimRequest_def Let_def split: sum.splits option.splits)

lemma request_of_message:
  assumes "wsInv env we h" and "k < length (wh_data h)"
  shows "k < length (wh_taken h) \<and> dataRequest env we (wh_session h) (wh_taken h ! k) = Inr (wh_data h ! k)"
proof -
  obtain failed where eq: "map (dataRequest env we (wh_session h)) (wh_taken h) = map Inr (wh_data h) @ failed"
    using assms(1) by (auto simp: wsInv_def clientInv_def)
  moreover have "length (wh_taken h) = length (wh_data h) + length failed" using arg_cong [OF eq, of length] by simp
  ultimately have "k < length (wh_taken h)" using assms(2) by simp
  then show ?thesis using arg_cong [OF eq, of "\<lambda>l. l ! k"] assms(2) by (simp add: nth_append)
qed

lemma up_takes:
  assumes "upInv aenv a" and "wsInv env we (wt_handler a)" and "jsonAgrees we aenv" and "wt_todo a = None"
    and got: "wt_got a < length (wh_data (wt_handler a))" and body: "hr_Body (wh_data (wt_handler a) ! wt_got a) = Inr body"
    and msgs: "se_unmarshalMany aenv body = Inr msgs"
  shows "upInv aenv (a\<lparr>wt_got := wt_got a + 1, wt_todo := Some msgs\<rparr>)"
proof -
  let ?h = "wt_handler a"
  note req = request_of_message [OF assms(2) got]
  have "we_marshal we (clientPayload (wh_session ?h) (wh_taken ?h ! wt_got a)) = Inr body"
    using dataRequest_body [OF conjunct2 [OF req]] body by simp
  then have "msgs = map (\<lambda>p. \<lparr>sm_ID = toValidUTF8 (wm_ID p), sm_Message = jsonWire (wm_Message p)\<rparr>)
      (clientPayload (wh_session ?h) (wh_taken ?h ! wt_got a))"
    using assms(3) msgs by (simp add: jsonAgrees_def)
  then have pieces: "toHandOver aenv (Some msgs) = map pieceMsg (wh_taken ?h ! wt_got a)"
    using pieces_accepted [of "se_formats aenv" "wh_session ?h" "wh_taken ?h ! wt_got a"] by (simp add: toHandOver_def comp_def)
  have sofar: "map pieceMsg (concat (take (wt_got a) (wh_taken ?h))) = filter isMessage (cn_accepted (wt_conn a))"
    using assms(1,4) got by (auto simp: upInv_def)
  have "take (wt_got a + 1) (wh_taken ?h) = take (wt_got a) (wh_taken ?h) @ [wh_taken ?h ! wt_got a]"
    using req by (simp add: take_Suc_conv_app_nth)
  then have "map pieceMsg (concat (take (wt_got a + 1) (wh_taken ?h)))
      = filter isMessage (cn_accepted (wt_conn a)) @ toHandOver aenv (Some msgs)" by (simp add: sofar pieces)
  moreover have "\<not> beforeLoop (wh_main ?h)" using assms(2) got by (auto simp: wsInv_def controlInv_def)
  then have "progressInv (a\<lparr>wt_got := wt_got a + 1, wt_todo := Some msgs\<rparr>)"
    using assms(1) got by (auto simp: upInv_def progressInv_def Let_def)
  ultimately show ?thesis by (auto simp: upInv_def)
qed

lemma up_hands_over:
  assumes "upInv aenv a" and "wt_todo a = Some (m # ms)" and "cn_protocolVersion (wt_conn a) = 1"
    and "SendClientMessage (se_formats aenv) t (sm_Message m) False [] (wt_conn a) = Returns (err, c)"
  shows "upInv aenv (a\<lparr>wt_conn := c, wt_todo := (if err = None then Some ms else None)\<rparr>)"
proof -
  note acc = send_accepted [OF assms(4)]
  have eq: "map pieceMsg (concat (take (wt_got a) (wh_taken (wt_handler a)))) =
      filter isMessage (cn_accepted (wt_conn a)) @ acceptedOf (se_formats aenv) 1 (sm_Message m) @ toHandOver aenv (Some ms)"
    using assms(1,2) by (auto simp: upInv_def)
  have p: "progressInv (a\<lparr>wt_conn := c, wt_todo := (if err = None then Some ms else None)\<rparr>)"
    using assms(1,2) by (auto simp: upInv_def progressInv_def Let_def)
  show ?thesis
  proof (cases err)
    case None
    then have "filter isMessage (cn_accepted c) = filter isMessage (cn_accepted (wt_conn a)) @ acceptedOf (se_formats aenv) 1 (sm_Message m)"
      using acc assms(3) by (simp add: acceptedOf_messages)
    then show ?thesis using eq p None by (auto simp: upInv_def)
  next
    case (Some e)
    have "\<not> resting (wh_main (wt_handler a))" "wt_got a = length (wh_data (wt_handler a))"
      using assms(1,2) by (simp_all add: upInv_def progressInv_def Let_def)
    then show ?thesis using eq p Some acc by (auto simp: upInv_def)
  qed
qed

lemma data_frame:
  assumes "wsStep env we e h = Some h'" and "e \<noteq> TakeClient"
  shows "wh_taken h' = wh_taken h \<and> wh_data h' = wh_data h \<and> (beforeLoop (wh_main h') \<longrightarrow> beforeLoop (wh_main h))
       \<and> (resting (wh_main h') \<longrightarrow> resting (wh_main h) \<or> wh_main h = Accepting \<or> (\<exists>res. e = DataDone res \<and> (\<forall>err. res \<noteq> Failed err)))"
proof (cases e)
  case (OpenDone res)
  then show ?thesis using assms(1) by (auto split: wsMain.splits frontResult.splits)
next
  case (AcceptDone res)
  then show ?thesis using assms(1) by (auto split: if_splits option.splits)
next
  case TakeServer
  then show ?thesis using assms(1) by (auto simp: Let_def split: wsMain.splits list.splits sum.splits if_splits)
next
  case WriteOne
  then obtain b bs where "wh_main h = Writing (b # bs)" "h' = writeNext env we b bs h" using assms(1) by (auto split: wsMain.splits list.splits)
  then show ?thesis by (auto simp: writeNext_def split: option.splits sum.splits prod.splits)
next
  case (DataDone res)
  then show ?thesis using assms(1) by (auto split: wsMain.splits frontResult.splits)
next
  case (PollAnswered res)
  then show ?thesis using assms(1) by (auto split: wsPoller.splits frontResult.splits)
qed (use assms in \<open>auto split: if_splits wsReader.splits wsPoller.splits wsMain.splits\<close>)

lemma up_cong:
  assumes "wt_got a' = wt_got a" and "wt_todo a' = wt_todo a" and "wh_taken (wt_handler a') = wh_taken (wt_handler a)"
    and "wh_data (wt_handler a') = wh_data (wt_handler a)" and "wh_main (wt_handler a') = wh_main (wt_handler a)"
    and "filter isMessage (cn_accepted (wt_conn a')) = filter isMessage (cn_accepted (wt_conn a))"
  shows "upInv aenv a' = upInv aenv a"
  using assms by (simp add: upInv_def progressInv_def)

lemma up_take_client:
  assumes "upInv aenv a" and "wsStep env we TakeClient (wt_handler a) = Some h" and "wsInv env we (wt_handler a)"
  shows "upInv aenv (a\<lparr>wt_handler := h, wt_answer := x\<rparr>)"
proof -
  let ?h = "wt_handler a"
  obtain msg where m: "wh_main ?h = AtLoop" "wh_reader ?h = Hands msg" using assms(2) by (auto split: wsMain.splits wsReader.splits)
  then have h: "wh_taken h = wh_taken ?h @ [msg]"
    "wh_data h = wh_data ?h \<and> \<not> resting (wh_main h) \<and> \<not> beforeLoop (wh_main h)
     \<or> (\<exists>req. wh_data h = wh_data ?h @ [req] \<and> wh_main h = PostingData req)"
    using assms(2) by (auto simp: Let_def split: sum.splits)
  have up: "wt_todo a = None" "wt_got a = length (wh_data ?h)"
    "map pieceMsg (concat (take (wt_got a) (wh_taken ?h))) = filter isMessage (cn_accepted (wt_conn a))"
    using assms(1) m(1) by (auto simp: upInv_def progressInv_def Let_def)
  obtain failed where "map (dataRequest env we (wh_session ?h)) (wh_taken ?h) = map Inr (wh_data ?h) @ failed"
    using assms(3) by (auto simp: wsInv_def clientInv_def)
  from arg_cong [OF this, of length] have "wt_got a \<le> length (wh_taken ?h)" by (simp add: up(2))
  then show ?thesis using up h by (auto simp: upInv_def progressInv_def Let_def)
qed

lemma up_handler:
  assumes "upInv aenv a" and "wsStep env we e (wt_handler a) = Some h" and "ownEvent e" and "wsInv env we (wt_handler a)"
  shows "upInv aenv (a\<lparr>wt_handler := h, wt_answer := x\<rparr>)"
proof (cases "e = TakeClient")
  case True
  then show ?thesis using up_take_client assms by blast
next
  case False
  let ?h = "wt_handler a"
  note frame = data_frame [OF assms(2) False]
  have "\<not> (\<exists>res. e = DataDone res \<and> (\<forall>err. res \<noteq> Failed err))" using assms(3) by (auto simp: ownEvent_def isFailed_iff)
  then have rest: "resting (wh_main h) \<longrightarrow> resting (wh_main ?h) \<or> wh_main ?h = Accepting" using frame by blast
  have start: "wh_main ?h = Accepting \<longrightarrow> wh_data ?h = [] \<and> wh_taken ?h = [] \<and> wt_todo a = None"
    using assms(1,4) by (auto simp: wsInv_def controlInv_def upInv_def progressInv_def Let_def)
  have "progressInv (a\<lparr>wt_handler := h, wt_answer := x\<rparr>)"
    using assms(1) frame rest start by (auto simp: upInv_def progressInv_def Let_def)
  then show ?thesis using assms(1) frame rest start by (auto simp: upInv_def)
qed

lemma up_answers:
  assumes "upInv aenv a" and "wt_todo a = Some []" and "wsStep env we (DataDone ShimIgnored) (wt_handler a) = Some h"
  shows "upInv aenv (a\<lparr>wt_handler := h, wt_todo := None\<rparr>)"
proof -
  have "h = (wt_handler a)\<lparr>wh_main := AtLoop\<rparr>" using assms(3) by (auto split: wsMain.splits)
  then show ?thesis using assms(1,2) by (auto simp: upInv_def progressInv_def Let_def)
qed

section \<open>Properties\<close>

definition tunnelOk :: "serverEnv \<Rightarrow> wsEnv \<Rightarrow> shimEnv \<Rightarrow> wsTunnel \<Rightarrow> bool" where
  "tunnelOk env we aenv a \<longleftrightarrow>
     wsInv env we (wt_handler a) \<and> conn_inv (wt_conn a) \<and> cn_protocolVersion (wt_conn a) = 1 \<and> downInv we a \<and> upInv aenv a"

lemma tunnelOk_data:
  assumes "jsonAgrees we aenv" and "tunnelOk env we aenv a" and "wsTunnelStep env we aenv e a = Some a'"
    and "e \<in> {AgentTakesData, AgentHandsOver t, AgentAnswersData}"
  shows "tunnelOk env we aenv a'"
proof -
  note ok = assms(2) [unfolded tunnelOk_def]
  consider "e = AgentTakesData" | "e = AgentHandsOver t" | "e = AgentAnswersData" using assms(4) by blast
  then show ?thesis
  proof cases
    case 1
    then obtain body msgs where b: "wt_todo a = None" "wt_got a < length (wh_data (wt_handler a))"
        "hr_Body (wh_data (wt_handler a) ! wt_got a) = Inr body" "se_unmarshalMany aenv body = Inr msgs"
        "a' = a\<lparr>wt_got := wt_got a + 1, wt_todo := Some msgs\<rparr>"
      using assms(3) by (auto split: if_splits sum.splits)
    have "upInv aenv a'" unfolding b(5) by (rule up_takes) (use ok b assms(1) in blast)+
    then show ?thesis using ok down_cong [of a' a we] by (simp add: tunnelOk_def b(5))
  next
    case 2
    then obtain m ms err c where m: "wt_todo a = Some (m # ms)"
        "SendClientMessage (se_formats aenv) t (sm_Message m) False [] (wt_conn a) = Returns (err, c)"
        "a' = a\<lparr>wt_conn := c, wt_todo := (if err = None then Some ms else None)\<rparr>"
      using assms(3) by (auto split: option.splits list.splits outcome.splits)
    have "upInv aenv a'" unfolding m(3) by (rule up_hands_over) (use ok m in blast)+
    moreover have "downInv we a'" using ok send_accepted [OF m(2)] down_cong [of a' a we] by (simp add: m(3))
    ultimately show ?thesis using ok conn_inv_Send [OF _ m(2)] send_accepted [OF m(2)] by (simp add: tunnelOk_def m(3))
  next
    case 3
    then obtain h where h: "wt_todo a = Some []" "wsStep env we (DataDone ShimIgnored) (wt_handler a) = Some h"
        "a' = a\<lparr>wt_handler := h, wt_todo := None\<rparr>"
      using assms(3) by (auto split: if_splits)
    then have "upInv aenv a'" using ok up_answers by blast
    moreover have "wh_polled h = wh_polled (wt_handler a)" "wh_poller h = wh_poller (wt_handler a)"
      using h(2) by (auto split: wsMain.splits)
    then have "downInv we a'" using ok down_cong [of a' a we] by (simp add: h(3))
    ultimately show ?thesis using ok wsInv_step [OF _ h(2)] by (simp add: tunnelOk_def h(3))
  qed
qed

lemma tunnelOk_poll:
  assumes "jsonAgrees we aenv" and "tunnelOk env we aenv a" and "wsTunnelStep env we aenv e a = Some a'"
    and "e = AgentServesPoll t \<or> e = PollAnswerArrives"
  shows "tunnelOk env we aenv a'"
proof -
  note ok = assms(2) [unfolded tunnelOk_def]
  show ?thesis using assms(4)
  proof
    assume e: "e = AgentServesPoll t"
    obtain res c where r: "ReadServerMessages t (wt_conn a) = (res, c)" by fastforce
    then obtain req where p: "wh_poller (wt_handler a) = Polls req" "wt_answer a = None"
      and a': "a' = a\<lparr>wt_conn := c, wt_answer := Some (case res of
           Inr (Some msgs) \<Rightarrow> (case se_marshalMsgs aenv msgs of Inr p \<Rightarrow> Some p | Inl _ \<Rightarrow> None) | _ \<Rightarrow> None)\<rparr>"
      using e assms(3) by (auto split: wsPoller.splits if_splits)
    have "downInv we a'" unfolding a' by (rule down_served [OF _ assms(1) p r]) (use ok in blast)+
    moreover have c: "cn_protocolVersion c = cn_protocolVersion (wt_conn a)" "cn_accepted c = cn_accepted (wt_conn a)"
      using r by (auto simp: ReadServerMessages_def updateActivity_def Let_def split: if_splits)
    moreover have "conn_inv c" using ok conn_inv_Read [of "wt_conn a" t] r by simp
    ultimately show ?thesis using ok up_cong [of a' a aenv] by (simp add: tunnelOk_def a')
  next
    assume "e = PollAnswerArrives"
    then obtain p h where h: "wt_answer a = Some (Some p)" "wsStep env we (PollAnswered (ShimPolled p)) (wt_handler a) = Some h"
        "a' = a\<lparr>wt_handler := h, wt_answer := None\<rparr>"
      using assms(3) by (auto split: option.splits)
    then have "downInv we a'" using ok down_arrives by blast
    moreover have "upInv aenv a'" using h ok up_cong [of a' a aenv] by (auto split: wsPoller.splits)
    ultimately show ?thesis using ok wsInv_step [OF _ h(2)] by (simp add: tunnelOk_def h(3))
  qed
qed

lemma tunnelOk_step:
  assumes "jsonAgrees we aenv" and "tunnelOk env we aenv a" and "wsTunnelStep env we aenv e a = Some a'"
  shows "tunnelOk env we aenv a'"
proof (cases e)
  case (HandlerEvent we')
  note ok = assms(2) [unfolded tunnelOk_def]
  obtain h where h: "ownEvent we'" "wsStep env we we' (wt_handler a) = Some h"
      "a' = a\<lparr>wt_handler := h, wt_answer := (if isPollAnswer we' then None else wt_answer a)\<rparr>"
    using HandlerEvent assms(3) by (auto split: if_splits)
  have "downInv we a'" unfolding h(3) by (rule down_handler) (use ok h in blast)+
  moreover have "upInv aenv a'" unfolding h(3) by (rule up_handler) (use ok h in blast)+
  ultimately show ?thesis using ok wsInv_step [OF _ h(2)] by (simp add: tunnelOk_def h(3))
next
  case (BackendEvent ce)
  then obtain c where c: "\<not> isCall ce" "connStep (se_formats aenv) ce (wt_conn a) = Some c" "a' = a\<lparr>wt_conn := c\<rparr>"
    using assms(3) by (auto split: if_splits)
  note keeps = backend_event_returned [OF c(2,1)]
  show ?thesis using assms(2) keeps conn_inv_step [OF _ c(2)] up_cong [of a' a aenv] down_cong [of a' a we]
    by (simp add: tunnelOk_def c(3))
qed (use tunnelOk_data [OF assms] tunnelOk_poll [OF assms] in blast)+

text \<open>The message of the client's websocket for a message of the backend.\<close>

definition toClient :: "wsMessage \<Rightarrow> messageData" where
  "toClient m = \<lparr>md_data = m_Data m, md_text = (m_Type m = TextMessage)\<rparr>"

definition wellFormed :: "wsMessage \<Rightarrow> bool" where
  "wellFormed m \<longleftrightarrow> m_Type m = BinaryMessage \<or> m_Type m = TextMessage \<and> validUTF8 (m_Data m)"

lemma parse_serialized:
  assumes "wellFormed m"
  shows "parseServerMessage (jsonWire (Serialize 1 m)) = Some (Inr (toClient m))"
  using server_message_round_trip [of m] assms by (simp add: wellFormed_def toClient_def)

text \<open>Nothing is on its way, and both directions are open.\<close>

definition quiet :: "wsTunnel \<Rightarrow> bool" where
  "quiet a \<longleftrightarrow>
     (let h = wt_handler a; c = wt_conn a in
      wh_main h = AtLoop \<and> handing (wh_reader h) = [] \<and> wh_writeChan h = [] \<and> putting (wh_poller h) = [] \<and> wh_poller h \<noteq> PollerGone
      \<and> wt_answer a = None \<and> cn_server c = [] \<and> cn_inflight c = None \<and> cn_client c = [] \<and> cn_writing c)"

lemma tunnelOk_new:
  assumes "NewConnection dial t target hdr2 = Inr c0"
  shows "tunnelOk env we aenv (newTunnel (newWsHandler env we uri hdr) c0)"
proof -
  have "conn_inv (c0\<lparr>cn_protocolVersion := 1\<rparr>)" using conn_inv_new [OF assms] by (simp add: conn_inv_def)
  moreover have "cn_returned c0 = []" "cn_accepted c0 = []" using assms by (auto simp: NewConnection_def split: sum.splits)
  ultimately show ?thesis
    using wsInv_new [of env we uri hdr]
    by (auto simp: tunnelOk_def newTunnel_def downInv_def upInv_def progressInv_def newWsHandler_def Let_def split: sum.splits)
qed

lemma down_streams:
  assumes "tunnelOk env we aenv a" and "\<forall>m \<in> set (cn_received (wt_conn a)). wellFormed m"
  shows "prefix (cc_written (wh_client (wt_handler a))) (map toClient (cn_received (wt_conn a)))
       \<and> (quiet a \<longrightarrow> cc_written (wh_client (wt_handler a)) = map toClient (cn_received (wt_conn a)))"
proof -
  let ?h = "wt_handler a" and ?c = "wt_conn a"
  have ok: "serverInv we ?h" "downInv we a" "conn_inv ?c" using assms(1) by (simp_all add: tunnelOk_def wsInv_def)
  then have rec: "cn_received ?c = cn_returned ?c @ cn_server ?c @ (case cn_inflight ?c of None \<Rightarrow> [] | Some m \<Rightarrow> [m])"
    by (simp add: conn_inv_def)
  obtain bad ws rest where s: "wh_polled ?h = wh_decoded ?h @ bad @ wh_writeChan ?h @ putting (wh_poller ?h)"
      "atWork (wh_main ?h) \<longrightarrow> bad = []" "concat (map (bodyMessages we) (wh_decoded ?h)) = ws @ rest"
      "map parseServerMessage ws = map (Some \<circ> Inr) (cc_written (wh_client ?h))"
      "atWork (wh_main ?h) \<longrightarrow> rest = (case wh_main ?h of Writing bs \<Rightarrow> bs | _ \<Rightarrow> [])"
    using ok(1) unfolding serverInv_def by blast
  obtain lost where l: "map (jsonWire \<circ> Serialize 1) (cn_returned ?c)
        = concat (map (bodyMessages we) (wh_polled ?h)) @ answered we (wt_answer a) @ lost"
      "lost \<noteq> [] \<longrightarrow> wh_poller ?h = PollerGone \<or> wt_answer a = Some None"
    using ok(2) by (auto simp: downInv_def)
  let ?ok = "Some \<circ> Inr :: messageData \<Rightarrow> (error + messageData) option"
  have inj: "map ?ok xs = map ?ok ys \<longleftrightarrow> xs = ys" for xs ys by (rule inj_map_eq_map) (auto simp: inj_def)
  have parsed: "map parseServerMessage (map (jsonWire \<circ> Serialize 1) (cn_returned ?c)) = map ?ok (map toClient (cn_returned ?c))"
    using assms(2) by (auto simp: rec parse_serialized)
  obtain more where more: "map (jsonWire \<circ> Serialize 1) (cn_returned ?c) = ws @ more" using l(1) s(1,3) by auto
  then have all: "map ?ok (map toClient (cn_returned ?c)) = map ?ok (cc_written (wh_client ?h)) @ map parseServerMessage more"
    using parsed s(4) by (metis map_append)
  then have "map ?ok (take (length (cc_written (wh_client ?h))) (map toClient (cn_returned ?c))) = map ?ok (cc_written (wh_client ?h))"
    unfolding take_map [symmetric] by simp
  then have "take (length (cc_written (wh_client ?h))) (map toClient (cn_returned ?c)) = cc_written (wh_client ?h)" by (simp only: inj)
  then have "prefix (cc_written (wh_client ?h)) (map toClient (cn_returned ?c))" by (metis take_is_prefix)
  then have 1: "prefix (cc_written (wh_client ?h)) (map toClient (cn_received ?c))" by (simp add: rec prefix_prefix)
  have "cc_written (wh_client ?h) = map toClient (cn_received ?c)" if "quiet a"
  proof -
    have q: "wh_main ?h = AtLoop" "wh_writeChan ?h = []" "putting (wh_poller ?h) = []" "wh_poller ?h \<noteq> PollerGone" "wt_answer a = None"
      "cn_server ?c = []" "cn_inflight ?c = None" using that by (simp_all add: quiet_def Let_def)
    then have "more = []" using more l s by simp
    then show ?thesis using all rec q inj by (metis append.right_neutral list.simps(8) option.simps(4))
  qed
  then show ?thesis using 1 by blast
qed

lemma up_streams:
  assumes "tunnelOk env we aenv a"
  shows "prefix (filter isMessage (cn_written (wt_conn a))) (map pieceMsg (concat (wh_read (wt_handler a))))
       \<and> (quiet a \<longrightarrow> filter isMessage (cn_written (wt_conn a)) = map pieceMsg (concat (wh_read (wt_handler a))))"
proof -
  let ?h = "wt_handler a" and ?c = "wt_conn a"
  have ok: "clientInv env we ?h" "upInv aenv a" "conn_inv ?c" using assms by (simp_all add: tunnelOk_def wsInv_def)
  obtain lost where l: "map pieceMsg (concat (take (wt_got a) (wh_taken ?h)))
        = filter isMessage (cn_accepted ?c) @ toHandOver aenv (wt_todo a) @ lost"
      "lost \<noteq> [] \<longrightarrow> \<not> resting (wh_main ?h)"
    using ok(2) by (auto simp: upInv_def)
  obtain rest where w: "cn_accepted ?c = cn_written ?c @ rest @ somes (cn_client ?c)" "cn_writing ?c \<longrightarrow> rest = []"
    using ok(3) by (auto simp: conn_inv_def)
  obtain failed where r: "wh_read ?h = wh_taken ?h @ handing (wh_reader ?h)"
      "map (dataRequest env we (wh_session ?h)) (wh_taken ?h) = map Inr (wh_data ?h) @ failed" "atWork (wh_main ?h) \<longrightarrow> failed = []"
    using ok(1) by (auto simp: clientInv_def)
  have "prefix (filter isMessage (cn_written ?c)) (map pieceMsg (concat (take (wt_got a) (wh_taken ?h))))" by (simp add: l(1) w(1))
  moreover have "wh_read ?h = take (wt_got a) (wh_taken ?h) @ drop (wt_got a) (wh_taken ?h) @ handing (wh_reader ?h)" by (simp add: r(1))
  then have "map pieceMsg (concat (wh_read ?h)) = map pieceMsg (concat (take (wt_got a) (wh_taken ?h)))
      @ map pieceMsg (concat (drop (wt_got a) (wh_taken ?h) @ handing (wh_reader ?h)))" by (metis concat_append map_append)
  ultimately have 1: "prefix (filter isMessage (cn_written ?c)) (map pieceMsg (concat (wh_read ?h)))" by simp
  have "filter isMessage (cn_written ?c) = map pieceMsg (concat (wh_read ?h))" if "quiet a"
  proof -
    have q: "wh_main ?h = AtLoop" "handing (wh_reader ?h) = []" "cn_client ?c = []" "cn_writing ?c" using that by (simp_all add: quiet_def Let_def)
    then have "wt_todo a = None" "wt_got a = length (wh_data ?h)" "failed = []"
      using ok(2) r(3) by (simp_all add: upInv_def progressInv_def Let_def)
    moreover have "length (wh_taken ?h) = length (wh_data ?h) + length failed" using arg_cong [OF r(2), of length] by simp
    ultimately show ?thesis using l w r(1) q by simp
  qed
  then show ?thesis using 1 by blast
qed


text \<open>Formats for requests and answers with one text message, of the session \<open>''1''\<close>.\<close>

definition oneMessageWs :: wsEnv where
  "oneMessageWs = \<lparr>we_marshal = (\<lambda>ps. case ps of
       [p] \<Rightarrow> (case wm_Message p of JStr s \<Rightarrow> if wm_ID p = ''1'' then Inr s else Inl (ErrMsg []) | _ \<Rightarrow> Inl (ErrMsg []))
     | _ \<Rightarrow> Inl (ErrMsg [])), we_marshalOne = (\<lambda>p. Inr (wm_ID p)),
     we_unmarshal = (\<lambda>b. Inr [JStr (toValidUTF8 b)]), we_badURL = (\<lambda>_. None), we_host = ''h'', we_bufSize = 4096\<rparr>"

definition oneMessageAgent :: shimEnv where
  "oneMessageAgent = \<lparr>se_rewriteHost = False, se_injection = False, se_timeout = 0, se_printable = (\<lambda>_. True),
     se_dial = (\<lambda>_ _. Inr []), se_parseURL = Inr, se_wsURL = (\<lambda>u. u), se_marshalOpen = (\<lambda>_ _ _ _. Inr []),
     se_unmarshalOne = (\<lambda>b. Inr \<lparr>sm_ID = b, sm_Message = JNull\<rparr>),
     se_unmarshalMany = (\<lambda>b. Inr [\<lparr>sm_ID = ''1'', sm_Message = JStr (toValidUTF8 b)\<rparr>]),
     se_marshalMsgs = (\<lambda>ms. case ms of [JStr s] \<Rightarrow> Inr s | _ \<Rightarrow> Inl (ErrMsg [])), se_formats = exampleFmts\<rparr>"

lemma oneMessage_agrees: "jsonAgrees oneMessageWs oneMessageAgent"
  by (auto simp: jsonAgrees_def oneMessageWs_def oneMessageAgent_def DecodeRune_def RuneError_def split: list.splits json.splits if_splits)

definition exampleWsTunnel :: "wsTunnelEvent list" where
  "exampleWsTunnel = map HandlerEvent [OpenDone (ShimOpened \<lparr>ss_ID = ''1'', ss_Version = 1, ss_Subprotocol = []\<rparr>), AcceptDone None,
     FrameBegins True, FrameBytes ''hi'', FrameEnds, TakeClient]
     @ [AgentTakesData, AgentHandsOver 1, AgentAnswersData, BackendEvent WriteNext,
        BackendEvent (ServerMessage \<lparr>m_Type = TextMessage, m_Data = ''yo''\<rparr>), BackendEvent PushServer, AgentServesPoll 2, PollAnswerArrives]
     @ map HandlerEvent [PutBody, TakeServer, WriteOne]"

lemma exampleWsTunnel_run:
  "case run_events (wsTunnelStep exampleServer oneMessageWs oneMessageAgent) exampleWsTunnel
          (newTunnel (newWsHandler exampleServer oneMessageWs ''/x'' []) exampleConn) of None \<Rightarrow> False
   | Some a \<Rightarrow> quiet a \<and> cn_received (wt_conn a) = [\<lparr>m_Type = TextMessage, m_Data = ''yo''\<rparr>]
       \<and> wh_read (wt_handler a) = [[\<lparr>md_data = ''hi'', md_text = True\<rparr>]]"
  by (simp add: exampleWsTunnel_def ws_run_simps newTunnel_def exampleConn_def oneMessageWs_def oneMessageAgent_def ownEvent_def isFailed_def
      isPollAnswer_def SendClientMessage_def updateActivity_def clientMessageOf_def pushClient_def chanSend_def chanCapacity_def
      isCall_def ReadServerMessages_def Serialize_def quiet_def DecodeRune_def RuneError_def TextMessage_def)


end
