(* ===== verification/Tcp_Bridge.thy ===== *)
theory Tcp_Bridge
  imports Agent_Websockets Agent_Utils_Correct
begin

text \<open>
  The TCP-over-websocket bridge, \<^verbatim>\<open>utils/tcpbridge/connection/connection.go\<close>: a byte stream is
  sent as text messages that carry the bytes in hexadecimal; the reader skips messages of other
  types, decodes the rest and buffers what a read does not take.

  The websocket is a parameter: the messages still to arrive, as values or a final error. Main results:
  hexadecimal decoding inverts encoding, and the connection is a \<open>byte_source\<close>, so that the bytes
  read at one end are the bytes written at the other in order, for all sizes of reads and writes.
\<close>

section \<open>Hexadecimal\<close>

definition EncodeToString :: "bytes \<Rightarrow> string" where
  "EncodeToString bs = concat (map (\<lambda>c. [hexDigit (byte c div 16), hexDigit (byte c mod 16)]) bs)"

definition fromHexChar :: "char \<Rightarrow> nat option" where
  "fromHexChar c =
     (let n = byte c in
      if 48 \<le> n \<and> n \<le> 57 then Some (n - 48)
      else if 97 \<le> n \<and> n \<le> 102 then Some (n - 87)
      else if 65 \<le> n \<and> n \<le> 70 then Some (n - 55)
      else None)"

fun DecodeString :: "string \<Rightarrow> bytes option" where
  "DecodeString [] = Some []"
| "DecodeString (a # b # rest) =
     (case (fromHexChar a, fromHexChar b) of
        (Some x, Some y) \<Rightarrow> map_option (\<lambda>bs. char_of (x * 16 + y) # bs) (DecodeString rest)
      | _ \<Rightarrow> None)"
| "DecodeString _ = None"

lemma fromHexChar_hexDigit: "n < 16 \<Longrightarrow> fromHexChar (hexDigit n) = Some n"
  by (simp add: fromHexChar_def hexDigit_def Let_def)

lemma hex_round_trip: "DecodeString (EncodeToString bs) = Some bs"
proof (induction bs)
  case (Cons c bs)
  have "byte c div 16 < 16" using byte_less_256 [of c] by (simp add: div_less_iff_less_mult)
  then show ?case
    using Cons by (simp add: EncodeToString_def fromHexChar_hexDigit)
qed (simp add: EncodeToString_def)

section \<open>The connection\<close>

text \<open>
  \<open>wn_incoming\<close>: the messages still to be read; \<open>wn_error\<close>: the error that ends them. The error of
  an undecodable message has the decoder's text appended in the code.
\<close>

record websocketNetConn =
  wn_incoming :: "wsMessage list"
  wn_error :: error
  wn_buffered :: bytes

text \<open>The loop of \<^verbatim>\<open>Read\<close> that fills the buffer, with the messages left after it.\<close>

fun fillBuffer :: "wsMessage list \<Rightarrow> error \<Rightarrow> (error + bytes) \<times> wsMessage list" where
  "fillBuffer [] e = (Inl e, [])"
| "fillBuffer (m # ms) e =
     (if m_Type m \<noteq> TextMessage then fillBuffer ms e
      else (case DecodeString (m_Data m) of
              None \<Rightarrow> (Inl (ErrMsg ''failure decoding a websocket message''), ms)
            | Some rawBytes \<Rightarrow> if rawBytes = [] then fillBuffer ms e else (Inr rawBytes, ms)))"

definition netConn_Read :: "websocketNetConn reader" where
  "netConn_Read c lenbs =
     (case (if wn_buffered c = [] then fillBuffer (wn_incoming c) (wn_error c) else (Inr (wn_buffered c), wn_incoming c)) of
        (Inl err, ms) \<Rightarrow> (([], Some (ReadErr err)), c\<lparr>wn_incoming := ms\<rparr>)
      | (Inr buf, ms) \<Rightarrow> ((take lenbs buf, None), c\<lparr>wn_buffered := drop lenbs buf, wn_incoming := ms\<rparr>))"

definition netConn_Write ::
  "(wsMessage \<Rightarrow> 'k \<Rightarrow> error option \<times> 'k) \<Rightarrow> bytes \<Rightarrow> 'k \<Rightarrow> (nat \<times> error option) \<times> 'k" where
  "netConn_Write send bs k =
     (case send \<lparr>m_Type = TextMessage, m_Data = EncodeToString bs\<rparr> k of
        (Some err, k') \<Rightarrow> ((0, Some (ErrMsg (''error writing a websocket message: '' @ errorText err))), k')
      | (None, k') \<Rightarrow> ((length bs, None), k'))"

text \<open>\<open>setRead\<close>, \<open>setWrite\<close>: the websocket's own deadlines; the second is not set when the first fails.\<close>

definition netConn_SetDeadline ::
  "(time \<Rightarrow> 'k \<Rightarrow> error option \<times> 'k) \<Rightarrow> (time \<Rightarrow> 'k \<Rightarrow> error option \<times> 'k) \<Rightarrow> time \<Rightarrow> 'k \<Rightarrow> error option \<times> 'k" where
  "netConn_SetDeadline setRead setWrite t k =
     (case setRead t k of
        (Some err, k1) \<Rightarrow> (Some err, k1)
      | (None, k1) \<Rightarrow>
          (case setWrite t k1 of (Some err, k2) \<Rightarrow> (Some err, k2) | (None, k2) \<Rightarrow> (None, k2)))"

definition StreamingPath :: string where
  "StreamingPath = ''/tcp-over-websocket-bridge/35218cb7-1201-4940-89e8-48d8f03fed96''"

text \<open>
  \<^verbatim>\<open>Handler\<close>: a request is passed through, answered with an error of the upgrade or of the dialer, or
  bridged by copying in both directions (\<open>readMany\<close> below is what a copy reads).
\<close>

datatype bridgeOutcome = PassThrough | BridgeError responseWriter | Bridging

definition bridgeHandler :: "bool \<Rightarrow> error option \<Rightarrow> error option \<Rightarrow> responseWriter \<Rightarrow> string \<Rightarrow> bridgeOutcome" where
  "bridgeHandler isUpgrade upgrade dial w path =
     (if \<not> isUpgrade \<or> path \<noteq> StreamingPath then PassThrough
      else (case upgrade of
              Some err \<Rightarrow> BridgeError (httpError w (errorText err) 500)
            | None \<Rightarrow>
                (case dial of
                   Some err \<Rightarrow> BridgeError (httpError w (errorText err) 500)
                 | None \<Rightarrow> Bridging)))"

text \<open>\<^verbatim>\<open>DialWebsocket\<close>: the connection starts with nothing buffered.\<close>

definition DialWebsocket :: "(error + wsMessage list) \<Rightarrow> error \<Rightarrow> error + websocketNetConn" where
  "DialWebsocket dial connErr =
     (case dial of
        Inl err \<Rightarrow> Inl (ErrMsg (''unable to dial websocket: '' @ errorText err))
      | Inr incoming \<Rightarrow> Inr \<lparr>wn_incoming = incoming, wn_error = connErr, wn_buffered = []\<rparr>)"

section \<open>The bridge is a byte stream\<close>

text \<open>The bytes the incoming messages stand for.\<close>

definition messageBytes :: "wsMessage \<Rightarrow> bytes" where
  "messageBytes m = (if m_Type m \<noteq> TextMessage then [] else case DecodeString (m_Data m) of None \<Rightarrow> [] | Some bs \<Rightarrow> bs)"

definition incomingBytes :: "websocketNetConn \<Rightarrow> bytes" where
  "incomingBytes c = wn_buffered c @ concat (map messageBytes (wn_incoming c))"

lemma fillBuffer_bytes:
  "fillBuffer ms e = (res, ms') \<Longrightarrow>
     concat (map messageBytes ms) = (case res of Inl _ \<Rightarrow> [] | Inr bs \<Rightarrow> bs) @ concat (map messageBytes ms')"
proof (induction ms e rule: fillBuffer.induct)
  case (2 m ms e)
  then show ?case
    by (cases "m_Type m \<noteq> TextMessage") (auto simp: messageBytes_def split: option.splits if_splits)
qed auto

interpretation bridge: byte_source netConn_Read incomingBytes
proof
  fix s k bs e s' assume r: "netConn_Read s k = ((bs, e), s')"
  show "length bs \<le> k"
    using r by (auto simp: netConn_Read_def split: prod.splits sum.splits if_splits)
  show "incomingBytes s = bs @ incomingBytes s'"
  proof (cases "wn_buffered s = []")
    case True
    obtain res ms where f: "fillBuffer (wn_incoming s) (wn_error s) = (res, ms)" by fastforce
    show ?thesis
      using r True f fillBuffer_bytes [OF f] by (cases res) (auto simp: netConn_Read_def incomingBytes_def)
  next
    case False
    then show ?thesis using r by (auto simp: netConn_Read_def incomingBytes_def)
  qed
next
  fix s k bs s' assume "netConn_Read s k = ((bs, Some EOF), s')"
  then show "incomingBytes s' = []" by (auto simp: netConn_Read_def split: prod.splits sum.splits if_splits)
qed

text \<open>Reads with slices of the given sizes up to the first error.\<close>

fun readMany :: "websocketNetConn \<Rightarrow> nat list \<Rightarrow> bytes \<times> error option \<times> websocketNetConn" where
  "readMany c [] = ([], None, c)"
| "readMany c (k # ks) =
     (case netConn_Read c k of
        ((bs, Some EOF), c') \<Rightarrow> (bs, None, c')
      | ((bs, Some (ReadErr e)), c') \<Rightarrow> (bs, Some e, c')
      | ((bs, None), c') \<Rightarrow> (case readMany c' ks of (bs2, e, c'') \<Rightarrow> (bs @ bs2, e, c'')))"

lemma readMany_stream: "readMany c ks = (bs, e, c') \<Longrightarrow> incomingBytes c = bs @ incomingBytes c'"
proof (induction ks arbitrary: c bs e c')
  case (Cons k ks)
  obtain b err c1 where r: "netConn_Read c k = ((b, err), c1)" by (metis surj_pair)
  have c: "incomingBytes c = b @ incomingBytes c1" by (rule bridge.read_stream [OF r])
  obtain bs2 e2 c2 where m: "readMany c1 ks = (bs2, e2, c2)" by (metis surj_pair)
  show ?case
    using Cons.prems r c m Cons.IH [OF m] by (auto split: option.splits readErr.splits)
qed simp

lemma fillBuffer_subset: "set (snd (fillBuffer ms e)) \<subseteq> set ms"
  by (induction ms e rule: fillBuffer.induct) (auto split: option.splits)

lemma fillBuffer_decodable:
  assumes "\<forall>m \<in> set ms. m_Type m = TextMessage \<longrightarrow> DecodeString (m_Data m) \<noteq> None"
    and "fillBuffer ms e = (Inl err, ms')"
  shows "concat (map messageBytes ms) = [] \<and> ms' = [] \<and> err = e"
  using assms
proof (induction ms e rule: fillBuffer.induct)
  case (2 m ms e)
  show ?case
  proof (cases "m_Type m = TextMessage")
    case True
    then obtain bs where "DecodeString (m_Data m) = Some bs" using 2(3) by auto
    then show ?thesis using 2(2)[of bs] 2(3,4) True by (simp add: messageBytes_def split: if_splits)
  next
    case False
    then show ?thesis using 2(1,3,4) by (simp add: messageBytes_def)
  qed
qed simp

lemma readMany_error:
  assumes "\<forall>m \<in> set (wn_incoming c). m_Type m = TextMessage \<longrightarrow> DecodeString (m_Data m) \<noteq> None"
    and "readMany c ks = (bs, Some e, c')"
  shows "incomingBytes c' = [] \<and> e = wn_error c"
  using assms
proof (induction ks arbitrary: c bs)
  case (Cons k ks)
  obtain res ms where f: "(if wn_buffered c = [] then fillBuffer (wn_incoming c) (wn_error c) else (Inr (wn_buffered c), wn_incoming c)) = (res, ms)"
    by fastforce
  have sub: "set ms \<subseteq> set (wn_incoming c)"
    using f fillBuffer_subset [of "wn_incoming c" "wn_error c"] by (auto split: if_splits)
  show ?case
  proof (cases res)
    case (Inl err)
    then have b: "wn_buffered c = []" and e: "fillBuffer (wn_incoming c) (wn_error c) = (Inl err, ms)"
      using f by (auto split: if_splits)
    show ?thesis
      using Cons.prems(2) fillBuffer_decodable [OF Cons.prems(1) e] b e
      by (auto simp: netConn_Read_def incomingBytes_def)
  next
    case (Inr buf)
    let ?c = "c\<lparr>wn_buffered := drop k buf, wn_incoming := ms\<rparr>"
    have r: "netConn_Read c k = ((take k buf, None), ?c)" using f Inr by (simp add: netConn_Read_def)
    then obtain bs2 where "readMany ?c ks = (bs2, Some e, c')"
      using Cons.prems(2) by (auto split: prod.splits)
    then show ?thesis using Cons.IH [of ?c bs2] Cons.prems(1) sub by auto
  qed
qed simp

text \<open>A read into a nonempty slice returns at least one byte or fails, so enough reads reach the error.\<close>

lemma fillBuffer_nonempty: "fillBuffer ms e = (Inr bs, ms') \<Longrightarrow> bs \<noteq> []"
  by (induction ms e rule: fillBuffer.induct) (auto split: if_splits option.splits)

lemma netConn_Read_progress:
  assumes "0 < k" and "netConn_Read c k = ((bs, None), c')"
  shows "bs \<noteq> []"
  using assms fillBuffer_nonempty
  by (auto simp: netConn_Read_def split: if_splits prod.splits sum.splits)

lemma netConn_Read_not_EOF: "netConn_Read c k \<noteq> ((bs, Some EOF), c')"
  by (auto simp: netConn_Read_def split: prod.splits sum.splits)

lemma readMany_reaches_error:
  assumes "\<forall>k \<in> set ks. 0 < k" and "length (incomingBytes c) < length ks"
  shows "\<exists>bs e c'. readMany c ks = (bs, Some e, c')"
  using assms
proof (induction ks arbitrary: c)
  case (Cons k ks)
  obtain b err c1 where r: "netConn_Read c k = ((b, err), c1)" by (metis surj_pair)
  consider "err = None" | e where "err = Some (ReadErr e)"
    using r netConn_Read_not_EOF by (cases err) (auto, metis readErr.exhaust)
  then show ?case
  proof cases
    case 1
    then have "b \<noteq> []" using netConn_Read_progress r Cons.prems(1) by auto
    then have "length (incomingBytes c1) < length ks"
      using bridge.read_stream [OF r] Cons.prems(2) by (cases b) auto
    then obtain bs e c' where "readMany c1 ks = (bs, Some e, c')" using Cons.IH Cons.prems(1) by fastforce
    then show ?thesis using r 1 by simp
  qed (use r in simp)
qed simp

text \<open>
  The medium between the two ends: a websocket delivers what was written in order.
  \<open>writtenMessages\<close> are the messages that a sequence of writes leaves in it.
\<close>

definition sendInOrder :: "wsMessage \<Rightarrow> wsMessage list \<Rightarrow> error option \<times> wsMessage list" where
  "sendInOrder m sent = (None, sent @ [m])"

fun writtenMessages :: "bytes list \<Rightarrow> wsMessage list \<Rightarrow> wsMessage list" where
  "writtenMessages [] sent = sent"
| "writtenMessages (w # ws) sent = writtenMessages ws (snd (netConn_Write sendInOrder w sent))"

lemma writtenMessages_eq:
  "writtenMessages ws sent = sent @ map (\<lambda>w. \<lparr>m_Type = TextMessage, m_Data = EncodeToString w\<rparr>) ws"
  by (induction ws arbitrary: sent) (auto simp: netConn_Write_def sendInOrder_def)

lemma textMessages_bytes:
  "concat (map messageBytes ms) = concat (map messageBytes (filter (\<lambda>m. m_Type m = TextMessage) ms))"
  by (induction ms) (auto simp: messageBytes_def)

lemma written_bytes:
  assumes "filter (\<lambda>m. m_Type m = TextMessage) ms = writtenMessages ws []"
  shows "concat (map messageBytes ms) = concat ws"
    and "\<forall>m \<in> set ms. m_Type m = TextMessage \<longrightarrow> DecodeString (m_Data m) \<noteq> None"
proof -
  have "map (messageBytes \<circ> (\<lambda>w. \<lparr>m_Type = TextMessage, m_Data = EncodeToString w\<rparr>)) ws = ws"
    by (induction ws) (auto simp: messageBytes_def hex_round_trip)
  then show "concat (map messageBytes ms) = concat ws"
    using assms textMessages_bytes [of ms] by (simp add: writtenMessages_eq)
  have "m \<in> set (writtenMessages ws [])" if "m \<in> set ms" "m_Type m = TextMessage" for m
    using that assms by (metis (mono_tags, lifting) mem_Collect_eq set_filter)
  then show "\<forall>m \<in> set ms. m_Type m = TextMessage \<longrightarrow> DecodeString (m_Data m) \<noteq> None"
    by (fastforce simp: writtenMessages_eq hex_round_trip)
qed

text \<open>The bridge carries a byte stream. The reader gets the messages of any writes in order, with
  other messages that are not text in between. Then, for slices of any sizes, the bytes read are a
  prefix of the bytes written; a read fails only with the websocket's own error and after every byte
  was read; and reads into nonempty slices, more of them than there are bytes, return all bytes.\<close>

theorem tcp_bridge_stream:
  assumes "filter (\<lambda>m. m_Type m = TextMessage) ms = writtenMessages ws []"
    and "DialWebsocket (Inr ms) e = Inr c" and "readMany c ks = (bs, err, c')"
  shows "(\<exists>rest. concat ws = bs @ rest)
    \<and> (err \<noteq> None \<longrightarrow> bs = concat ws \<and> err = Some e)
    \<and> ((\<forall>k \<in> set ks. 0 < k) \<and> length (concat ws) < length ks \<longrightarrow> bs = concat ws \<and> err = Some e)"
proof -
  let ?c = "\<lparr>wn_incoming = ms, wn_error = e, wn_buffered = []\<rparr>"
  have c: "incomingBytes ?c = concat ws" using written_bytes(1) [OF assms(1)] by (simp add: incomingBytes_def)
  have eq: "c = ?c" using assms(2) by (simp add: DialWebsocket_def)
  have stream: "concat ws = bs @ incomingBytes c'" using readMany_stream [OF assms(3)] c eq by simp
  have fin: "bs = concat ws \<and> err = Some e" if "err \<noteq> None"
    using that readMany_error [of ?c ks bs _ c'] written_bytes(2) [OF assms(1)] assms(3) eq stream by auto
  have "err \<noteq> None" if "\<forall>k \<in> set ks. 0 < k" "length (concat ws) < length ks"
    using readMany_reaches_error [OF that(1), of ?c] that(2) c assms(3) eq by auto
  then show ?thesis using stream fin by blast
qed

theorem tcp_bridge_stream_witness:
  "fst (readMany \<lparr>wn_incoming = [\<lparr>m_Type = TextMessage, m_Data = ''474554''\<rparr>,
        \<lparr>m_Type = BinaryMessage, m_Data = ''x''\<rparr>, \<lparr>m_Type = TextMessage, m_Data = ''202f''\<rparr>],
        wn_error = ErrService ''closed'', wn_buffered = []\<rparr> [2, 2, 5, 1, 1, 1]) = concat [''GET'', '' /'']"
proof -
  let ?ms = "[\<lparr>m_Type = TextMessage, m_Data = ''474554''\<rparr>,
        \<lparr>m_Type = BinaryMessage, m_Data = ''x''\<rparr>, \<lparr>m_Type = TextMessage, m_Data = ''202f''\<rparr>]"
  have w: "filter (\<lambda>m. m_Type m = TextMessage) ?ms = writtenMessages [''GET'', '' /''] []"
    by code_simp
  let ?c = "\<lparr>wn_incoming = ?ms, wn_error = ErrService ''closed'', wn_buffered = []\<rparr>"
  show ?thesis
  proof (cases "readMany ?c [2, 2, 5, 1, 1, 1]" rule: prod_cases3)
    case (fields bs err c')
    have "(\<forall>k \<in> set [2, 2, 5, 1, 1, 1 :: nat]. 0 < k) \<and> length (concat [''GET'', '' /'']) < length [2, 2, 5, 1, 1, 1 :: nat]"
      by simp
    then have "bs = concat [''GET'', '' /'']" using tcp_bridge_stream [OF w _ fields] by (simp add: DialWebsocket_def)
    then show ?thesis by (simp only: fields fst_conv)
  qed
qed

end
