(* ===== verification/Go_Paths.thy ===== *)
theory Go_Paths
  imports Prelude
begin

text \<open>
  What the program uses of Go's package \<^verbatim>\<open>path\<close>: \<open>pathClean\<close> and \<open>pathJoin\<close>, which work on the
  segments between slashes. Main result: a rooted path of proper segments is clean already.
\<close>

fun splitSlash :: "string \<Rightarrow> string list" where
  "splitSlash [] = [[]]"
| "splitSlash (c # cs) =
     (if c = CHR ''/'' then [] # splitSlash cs
      else (case splitSlash cs of [] \<Rightarrow> [[c]] | w # ws \<Rightarrow> (c # w) # ws))"

fun joinSlash :: "string list \<Rightarrow> string" where
  "joinSlash [] = []"
| "joinSlash [w] = w"
| "joinSlash (w # ws) = w @ ''/'' @ joinSlash ws"

text \<open>The segments kept so far, the last one first.\<close>

fun cleanSegments :: "bool \<Rightarrow> string list \<Rightarrow> string list \<Rightarrow> string list" where
  "cleanSegments rooted kept [] = rev kept"
| "cleanSegments rooted kept (w # ws) =
     (if w = [] \<or> w = ''.'' then cleanSegments rooted kept ws
      else if w = ''..'' then
        (case kept of
           [] \<Rightarrow> cleanSegments rooted (if rooted then [] else [''..'']) ws
         | k # ks \<Rightarrow> if k = ''..'' then cleanSegments rooted (''..'' # kept) ws else cleanSegments rooted ks ws)
      else cleanSegments rooted (w # kept) ws)"

definition pathClean :: "string \<Rightarrow> string" where
  "pathClean p =
     (let rooted = (take 1 p = ''/'');
          q = (if rooted then ''/'' else []) @ joinSlash (cleanSegments rooted [] (splitSlash p))
      in if q = [] then ''.'' else q)"

definition pathJoin :: "string list \<Rightarrow> string" where
  "pathJoin elems =
     (let present = filter (\<lambda>e. e \<noteq> []) elems in if present = [] then [] else pathClean (joinSlash present))"

definition properSegment :: "string \<Rightarrow> bool" where
  "properSegment w \<longleftrightarrow> w \<noteq> [] \<and> w \<noteq> ''.'' \<and> w \<noteq> ''..'' \<and> CHR ''/'' \<notin> set w"

lemma splitSlash_not_Nil [simp]: "splitSlash p \<noteq> []"
  by (induction p) (auto split: list.splits)

lemma splitSlash_word: "CHR ''/'' \<notin> set w \<Longrightarrow> splitSlash (w @ CHR ''/'' # p) = w # splitSlash p"
  by (induction w) auto

lemma splitSlash_last: "CHR ''/'' \<notin> set w \<Longrightarrow> splitSlash w = [w]"
  by (induction w) auto

lemma splitSlash_join: "ws \<noteq> [] \<Longrightarrow> \<forall>w \<in> set ws. CHR ''/'' \<notin> set w \<Longrightarrow> splitSlash (joinSlash ws) = ws"
  by (induction ws rule: joinSlash.induct) (simp_all add: splitSlash_last splitSlash_word)

lemma cleanSegments_proper: "\<forall>w \<in> set ws. properSegment w \<Longrightarrow> cleanSegments r kept ws = rev kept @ ws"
  by (induction ws arbitrary: kept) (auto simp: properSegment_def)

lemma pathClean_rooted:
  assumes "ws \<noteq> []" and "\<forall>w \<in> set ws. properSegment w"
  shows "pathClean (''/'' @ joinSlash ws) = ''/'' @ joinSlash ws"
proof -
  have "splitSlash (''/'' @ joinSlash ws) = [] # ws"
    using splitSlash_join [OF assms(1)] assms(2) by (simp add: properSegment_def)
  then show ?thesis using cleanSegments_proper [OF assms(2)] by (simp add: pathClean_def)
qed

lemma pathClean_examples:
  "pathClean ''/a//b/./../c/'' = ''/a/c''" "pathClean ''a/../..'' = ''..''" "pathClean ''/..'' = ''/''" "pathClean [] = ''.''"
  by (simp_all add: pathClean_def)

end
