(* ===== verification/Tcp_Bridge_Relay.thy ===== *)
theory Tcp_Bridge_Relay
  imports Tcp_Bridge Event_Systems Go_Paths
begin

text \<open>
  The two programs of the TCP bridge, \<^verbatim>\<open>tcp-bridge-frontend.go\<close> and \<^verbatim>\<open>tcp-bridge-backend.go\<close>: how they
  are set up and what each does with one connection. Both ends have a TCP connection and a websocket connection to the other
  end, and two goroutines that copy between them (\<^verbatim>\<open>io.Copy\<close>); when both copies have returned the
  handler returns and closes its connections. The system of both ends is the event system
  \<open>tunnelStep\<close>: bytes and messages arrive, copies make one turn of their loop, connections break.

  \<open>tc_arrived\<close> records all bytes that arrived on a TCP connection; the code has no such field.
\<close>

section \<open>Copying\<close>

text \<open>
  One turn of the loop of \<^verbatim>\<open>io.Copy\<close> with its buffer of 32 kilobytes: \<open>Some r\<close> when it returns with the
  error \<open>r\<close>. \<open>wr\<close> is the \<^verbatim>\<open>Write\<close> of the destination.
\<close>

definition copyBufferSize :: nat where
  "copyBufferSize = 32 * 1024"

definition copyTurn ::
  "'s reader \<Rightarrow> (bytes \<Rightarrow> 'd \<Rightarrow> (nat \<times> error option) \<times> 'd) \<Rightarrow> 's \<Rightarrow> 'd \<Rightarrow> error option option \<times> 's \<times> 'd" where
  "copyTurn rd wr s d =
     (case rd s copyBufferSize of
        ((bs, er), s') \<Rightarrow>
          (case (if bs = [] then (None, d)
                 else (case wr bs d of
                         ((nw, Some ew), d') \<Rightarrow> (Some ew, d')
                       | ((nw, None), d') \<Rightarrow> (if nw = length bs then None else Some (ErrMsg ''short write''), d'))) of
             (Some ew, d') \<Rightarrow> (Some (Some ew), s', d')
           | (None, d') \<Rightarrow>
               ((case er of None \<Rightarrow> None | Some EOF \<Rightarrow> Some None | Some (ReadErr e) \<Rightarrow> Some (Some e)), s', d')))"

section \<open>The two ends\<close>

text \<open>
  A TCP connection: bytes that arrived and were not read, whether the peer ended its stream, the
  bytes written, the error of a broken connection, and whether this end has closed it.
\<close>

record tcpConn =
  tc_in :: bytes
  tc_eof :: bool
  tc_out :: bytes
  tc_error :: "error option"
  tc_closed :: bool
  tc_arrived :: bytes

definition newTcpConn :: tcpConn where
  "newTcpConn = \<lparr>tc_in = [], tc_eof = False, tc_out = [], tc_error = None, tc_closed = False, tc_arrived = []\<rparr>"

text \<open>A read waits while there is nothing to return.\<close>

definition tcpReadable :: "tcpConn \<Rightarrow> bool" where
  "tcpReadable c \<longleftrightarrow> tc_in c \<noteq> [] \<or> tc_eof c \<or> tc_error c \<noteq> None"

definition tcp_Read :: "tcpConn reader" where
  "tcp_Read c k =
     (case tc_error c of
        Some e \<Rightarrow> (([], Some (ReadErr e)), c)
      | None \<Rightarrow> if tc_in c = [] then (([], Some EOF), c) else ((take k (tc_in c), None), c\<lparr>tc_in := drop k (tc_in c)\<rparr>))"

definition tcp_Write :: "bytes \<Rightarrow> tcpConn \<Rightarrow> (nat \<times> error option) \<times> tcpConn" where
  "tcp_Write bs c =
     (case tc_error c of
        Some e \<Rightarrow> ((0, Some e), c)
      | None \<Rightarrow> ((length bs, None), c\<lparr>tc_out := tc_out c @ bs\<rparr>))"

text \<open>
  One end: its TCP connection, its websocket connection with the messages that arrived, whether the
  websocket has failed, the messages it sent that did not arrive yet, and what the two copies returned.
\<close>

record relay =
  rl_tcp :: tcpConn
  rl_ws :: websocketNetConn
  rl_wsDown :: bool
  rl_sent :: "wsMessage list"
  rl_toWs :: "error option option"
  rl_toTcp :: "error option option"
  rl_returned :: bool

text \<open>The end starts its copies when the TCP connection and the websocket are there.\<close>

definition newRelay :: "websocketNetConn \<Rightarrow> relay" where
  "newRelay ws = \<lparr>rl_tcp = newTcpConn, rl_ws = ws, rl_wsDown = False, rl_sent = [], rl_toWs = None, rl_toTcp = None,
     rl_returned = False\<rparr>"

text \<open>
  \<^verbatim>\<open>ReadMessage\<close> waits for messages while the websocket works: the loop of \<^verbatim>\<open>Read\<close> returns when
  bytes are buffered, a message that ends it is there, or the websocket has failed.
\<close>

definition wsReadable :: "relay \<Rightarrow> bool" where
  "wsReadable r \<longleftrightarrow> wn_buffered (rl_ws r) \<noteq> [] \<or> rl_wsDown r
     \<or> (\<exists>m \<in> set (wn_incoming (rl_ws r)). m_Type m = TextMessage \<and> DecodeString (m_Data m) \<noteq> Some [])"

definition wsSend :: "wsMessage \<Rightarrow> relay \<Rightarrow> error option \<times> relay" where
  "wsSend m r =
     (if rl_wsDown r then (Some (wn_error (rl_ws r)), r) else (None, r\<lparr>rl_sent := rl_sent r @ [m]\<rparr>))"

text \<open>\<^verbatim>\<open>io.Copy(backendConn, conn)\<close> of the frontend and \<^verbatim>\<open>io.Copy(frontendConn, backendConn)\<close> of the backend.\<close>

definition copyToWs :: "relay \<Rightarrow> relay" where
  "copyToWs r =
     (case copyTurn tcp_Read (netConn_Write wsSend) (rl_tcp r) r of
        (res, c, r') \<Rightarrow> r'\<lparr>rl_tcp := c, rl_toWs := res\<rparr>)"

text \<open>\<^verbatim>\<open>io.Copy(conn, backendConn)\<close> of the frontend and \<^verbatim>\<open>io.Copy(backendConn, frontendConn)\<close> of the backend.\<close>

definition copyToTcp :: "relay \<Rightarrow> relay" where
  "copyToTcp r =
     (case copyTurn netConn_Read tcp_Write (rl_ws r) (rl_tcp r) of
        (res, ws, c) \<Rightarrow> r\<lparr>rl_ws := ws, rl_tcp := c, rl_toTcp := res\<rparr>)"

text \<open>After \<^verbatim>\<open>wg.Wait()\<close> the deferred calls close both connections.\<close>

definition handlerReturns :: "relay \<Rightarrow> relay" where
  "handlerReturns r = r\<lparr>rl_returned := True, rl_wsDown := True, rl_tcp := (rl_tcp r)\<lparr>tc_closed := True\<rparr>\<rparr>"

section \<open>Setting up a connection\<close>

text \<open>The path the frontend asks for, from the path of the URL it is given for the backend.\<close>

definition frontendPath :: "string \<Rightarrow> string" where
  "frontendPath backendPath = pathJoin [backendPath, StreamingPath]"

text \<open>
  The frontend's goroutine for an accepted connection: without a websocket it closes the connection.
\<close>

definition serveConn :: "(error + wsMessage list) \<Rightarrow> error \<Rightarrow> relay option" where
  "serveConn dial connErr = (case DialWebsocket dial connErr of Inl err \<Rightarrow> None | Inr ws \<Rightarrow> Some (newRelay ws))"

text \<open>
  The backend's end of an accepted upgrade, with a TCP connection to the port it forwards to.
\<close>

definition handlerConn :: "bool \<Rightarrow> error option \<Rightarrow> error option \<Rightarrow> error \<Rightarrow> responseWriter \<Rightarrow> string \<Rightarrow> relay option" where
  "handlerConn isUpgrade upgrade dial connErr w path =
     (case bridgeHandler isUpgrade upgrade dial w path of
        Bridging \<Rightarrow> Some (newRelay \<lparr>wn_incoming = [], wn_error = connErr, wn_buffered = []\<rparr>)
      | _ \<Rightarrow> None)"

section \<open>The two programs\<close>

text \<open>
  The frontend program: its flags, the checks before it listens (\<open>parse\<close> is \<^verbatim>\<open>url.Parse\<close> reduced to the path of the
  URL, \<open>listen\<close> the result of \<^verbatim>\<open>net.Listen\<close> for an address), and its loop over what \<^verbatim>\<open>Accept\<close> returns: a goroutine for
  each connection, whose results are collected, until an error ends the process.
\<close>

definition formatInt :: "int \<Rightarrow> string" where
  "formatInt n = (if n < 0 then ''-'' @ Itoa (nat (- n)) else Itoa (nat n))"

record frontendFlags =
  ff_frontendPort :: int
  ff_backend :: string

definition defaultFrontendFlags :: frontendFlags where
  "defaultFrontendFlags = \<lparr>ff_frontendPort = 8080, ff_backend = []\<rparr>"

definition frontendSetUp ::
  "(string \<Rightarrow> error + string) \<Rightarrow> (string \<Rightarrow> error option) \<Rightarrow> frontendFlags \<Rightarrow> error + string" where
  "frontendSetUp parse listen fl =
     (case parse (ff_backend fl) of
        Inl err \<Rightarrow> Inl err
      | Inr path \<Rightarrow>
          (case listen ('':'' @ formatInt (ff_frontendPort fl)) of
             Some err \<Rightarrow> Inl err | None \<Rightarrow> Inr (frontendPath path)))"

fun acceptLoop :: "(error + (error + wsMessage list) \<times> error) list \<Rightarrow> relay option list \<times> error option" where
  "acceptLoop [] = ([], None)"
| "acceptLoop (Inl err # as) = ([], Some err)"
| "acceptLoop (Inr (dial, connErr) # as) =
     (case acceptLoop as of (rs, fatal) \<Rightarrow> (serveConn dial connErr # rs, fatal))"

text \<open>
  A connection that cannot be bridged does not disturb the others: every connection accepted before the
  first error of \<^verbatim>\<open>Accept\<close>, and no later one, gets its own relay.
\<close>

lemma acceptLoop_serves:
  "acceptLoop (map Inr ds @ as) =
     (map (\<lambda>(dial, connErr). serveConn dial connErr) ds @ fst (acceptLoop as), snd (acceptLoop as))"
  by (induction ds) (auto split: prod.split)

lemma acceptLoop_fatal:
  "snd (acceptLoop as) = Some err \<longleftrightarrow> (\<exists>ds as'. as = map Inr ds @ Inl err # as')"
proof
  show "snd (acceptLoop as) = Some err \<Longrightarrow> \<exists>ds as'. as = map Inr ds @ Inl err # as'"
  proof (induction as rule: acceptLoop.induct)
    case (2 e as)
    then have "Inl e # as = map Inr [] @ Inl err # as" by simp
    then show ?case by blast
  next
    case (3 dial connErr as)
    then obtain ds as' where "as = map Inr ds @ Inl err # as'" by (auto split: prod.splits)
    then have "Inr (dial, connErr) # as = map Inr ((dial, connErr) # ds) @ Inl err # as'" by simp
    then show ?case by blast
  qed simp
qed (auto simp: acceptLoop_serves)

text \<open>
  The backend program configures the handler of the bridge and the reverse proxy for all other requests;
  \<open>HTTP2Cleartext\<close> stands for the \<^verbatim>\<open>http2.Transport\<close> that dials plain TCP connections.
\<close>

record backendFlags =
  bf_frontendPort :: int
  bf_backendPort :: int
  bf_forceHTTP2 :: bool

definition defaultBackendFlags :: backendFlags where
  "defaultBackendFlags = \<lparr>bf_frontendPort = 8080, bf_backendPort = 8081, bf_forceHTTP2 = False\<rparr>"

datatype passthroughTransport = DefaultTransport | HTTP2Cleartext

record passthroughProxy =
  pp_Scheme :: string
  pp_Host :: string
  pp_FlushInterval :: int
  pp_Transport :: passthroughTransport

record backendServer =
  bs_addr :: string
  bs_dialHost :: string
  bs_passthrough :: passthroughProxy

text \<open>The address that \<^verbatim>\<open>Handler\<close> dials for a bridged connection.\<close>

definition dialHost :: "int \<Rightarrow> string" where
  "dialHost backendPort = ''localhost:'' @ formatInt backendPort"

definition backendMain :: "backendFlags \<Rightarrow> backendServer" where
  "backendMain fl =
     (let backendHost = ''localhost:'' @ formatInt (bf_backendPort fl);
          passthroughBackend = \<lparr>pp_Scheme = ''http'', pp_Host = backendHost, pp_FlushInterval = - 1,
                                pp_Transport = (if bf_forceHTTP2 fl then HTTP2Cleartext else DefaultTransport)\<rparr>
      in \<lparr>bs_addr = '':'' @ formatInt (bf_frontendPort fl), bs_dialHost = dialHost (bf_backendPort fl),
          bs_passthrough = passthroughBackend\<rparr>)"

text \<open>Both ways of serving a request lead to the same server, whatever the flags.\<close>

lemma backend_one_server:
  "bs_dialHost (backendMain fl) = pp_Host (bs_passthrough (backendMain fl))"
  by (simp add: backendMain_def dialHost_def)

section \<open>The tunnel\<close>

datatype side = Front | Back

record tunnel =
  t_front :: relay
  t_back :: relay

definition relayOf :: "side \<Rightarrow> tunnel \<Rightarrow> relay" where
  "relayOf i t = (case i of Front \<Rightarrow> t_front t | Back \<Rightarrow> t_back t)"

definition putRelay :: "side \<Rightarrow> relay \<Rightarrow> tunnel \<Rightarrow> tunnel" where
  "putRelay i r t = (case i of Front \<Rightarrow> t\<lparr>t_front := r\<rparr> | Back \<Rightarrow> t\<lparr>t_back := r\<rparr>)"

definition other :: "side \<Rightarrow> side" where
  "other i = (case i of Front \<Rightarrow> Back | Back \<Rightarrow> Front)"

datatype tunnelEvent =
    TcpArrives side bytes
  | TcpEnds side
  | TcpBreaks side error
  | WsArrives side
  | WsFails side
  | CopyToWs side
  | CopyToTcp side
  | HandlerReturns side

text \<open>
  \<open>WsArrives i\<close>: the first message on its way to \<open>i\<close> arrives. \<open>WsFails i\<close>: the websocket
  of \<open>i\<close> fails, or closes because the other end returned; what is on its way to \<open>i\<close> is lost.
\<close>

fun tunnelStep :: "tunnelEvent \<Rightarrow> tunnel \<Rightarrow> tunnel option" where
  "tunnelStep (TcpArrives i bs) t =
     (let r = relayOf i t; c = rl_tcp r in
      if tc_eof c \<or> tc_closed c \<or> tc_error c \<noteq> None then None
      else Some (putRelay i (r\<lparr>rl_tcp := c\<lparr>tc_in := tc_in c @ bs, tc_arrived := tc_arrived c @ bs\<rparr>\<rparr>) t))"
| "tunnelStep (TcpEnds i) t =
     (let r = relayOf i t in
      if tc_closed (rl_tcp r) then None else Some (putRelay i (r\<lparr>rl_tcp := (rl_tcp r)\<lparr>tc_eof := True\<rparr>\<rparr>) t))"
| "tunnelStep (TcpBreaks i e) t =
     (let r = relayOf i t in
      if tc_closed (rl_tcp r) then None else Some (putRelay i (r\<lparr>rl_tcp := (rl_tcp r)\<lparr>tc_error := Some e\<rparr>\<rparr>) t))"
| "tunnelStep (WsArrives i) t =
     (let r = relayOf i t; p = relayOf (other i) t in
      if rl_wsDown r then None
      else (case rl_sent p of
              [] \<Rightarrow> None
            | m # ms \<Rightarrow> Some (putRelay (other i) (p\<lparr>rl_sent := ms\<rparr>)
                                (putRelay i (r\<lparr>rl_ws := (rl_ws r)\<lparr>wn_incoming := wn_incoming (rl_ws r) @ [m]\<rparr>\<rparr>) t))))"
| "tunnelStep (WsFails i) t = Some (putRelay i ((relayOf i t)\<lparr>rl_wsDown := True\<rparr>) t)"
| "tunnelStep (CopyToWs i) t =
     (let r = relayOf i t in
      if rl_toWs r = None \<and> tcpReadable (rl_tcp r) then Some (putRelay i (copyToWs r) t) else None)"
| "tunnelStep (CopyToTcp i) t =
     (let r = relayOf i t in
      if rl_toTcp r = None \<and> wsReadable r then Some (putRelay i (copyToTcp r) t) else None)"
| "tunnelStep (HandlerReturns i) t =
     (let r = relayOf i t in
      if rl_toWs r \<noteq> None \<and> rl_toTcp r \<noteq> None \<and> \<not> rl_returned r then Some (putRelay i (handlerReturns r) t) else None)"

end
