(* ===== verification/Tcp_Bridge_Properties.thy ===== *)
theory Tcp_Bridge_Properties
  imports Tcp_Bridge_Relay
begin

text \<open>
  Properties of the TCP bridge from one TCP connection to the other: the bytes that come out are a
  prefix of those that went in, for every interleaving of both ends and every failure; while nothing
  fails everything can be delivered; and the end of one stream is not passed on.
\<close>

section \<open>Turns of the copies\<close>

lemma copyToWs_eq:
  "copyToWs r =
     (case tc_error (rl_tcp r) of
        Some e \<Rightarrow> r\<lparr>rl_toWs := Some (Some e)\<rparr>
      | None \<Rightarrow>
          if tc_in (rl_tcp r) = [] then r\<lparr>rl_toWs := Some None\<rparr>
          else (let bs = take copyBufferSize (tc_in (rl_tcp r));
                    c = (rl_tcp r)\<lparr>tc_in := drop copyBufferSize (tc_in (rl_tcp r))\<rparr>
                in if rl_wsDown r
                   then r\<lparr>rl_tcp := c, rl_toWs := Some (Some (ErrMsg (''error writing a websocket message: '' @ errorText (wn_error (rl_ws r)))))\<rparr>
                   else r\<lparr>rl_tcp := c, rl_toWs := None,
                          rl_sent := rl_sent r @ [\<lparr>m_Type = TextMessage, m_Data = EncodeToString bs\<rparr>]\<rparr>))"
  by (auto simp: copyToWs_def copyTurn_def tcp_Read_def netConn_Write_def wsSend_def copyBufferSize_def Let_def split: option.split)

lemma netConn_Read_result:
  assumes "netConn_Read ws copyBufferSize = ((bs, er), ws')"
  shows "(er = None \<and> bs \<noteq> [] \<or> (\<exists>e. er = Some (ReadErr e)) \<and> bs = [])
       \<and> incomingBytes ws = bs @ incomingBytes ws' \<and> set (wn_incoming ws') \<subseteq> set (wn_incoming ws)"
proof -
  have "er = None \<Longrightarrow> bs \<noteq> []"
    using netConn_Read_progress [of copyBufferSize ws bs ws'] assms by (simp add: copyBufferSize_def)
  moreover have "\<exists>e. er = Some (ReadErr e)" if "er \<noteq> None"
    using that netConn_Read_not_EOF assms by (metis not_None_eq readErr.exhaust)
  moreover have "er \<noteq> None \<Longrightarrow> bs = []" "set (wn_incoming ws') \<subseteq> set (wn_incoming ws)"
    using assms fillBuffer_subset [of "wn_incoming ws" "wn_error ws"]
    by (auto simp: netConn_Read_def split: prod.splits sum.splits if_splits)
  ultimately show ?thesis using bridge.read_stream [OF assms] by blast
qed

text \<open>A turn of the copy to TCP ends the copy or moves some bytes.\<close>

lemma copyToTcp_cases:
  obtains
    (ends) ws' err where "copyToTcp r = r\<lparr>rl_ws := ws', rl_toTcp := Some err\<rparr>"
      "set (wn_incoming ws') \<subseteq> set (wn_incoming (rl_ws r))"
  | (moves) ws' bs where "copyToTcp r = r\<lparr>rl_ws := ws', rl_tcp := (rl_tcp r)\<lparr>tc_out := tc_out (rl_tcp r) @ bs\<rparr>, rl_toTcp := None\<rparr>"
      "set (wn_incoming ws') \<subseteq> set (wn_incoming (rl_ws r))" "bs \<noteq> []" "incomingBytes (rl_ws r) = bs @ incomingBytes ws'"
proof -
  obtain bs er ws' where rd: "netConn_Read (rl_ws r) copyBufferSize = ((bs, er), ws')" by (metis surj_pair)
  note res = netConn_Read_result [OF rd]
  show thesis
  proof (cases er)
    case (Some e)
    then obtain e' where "e = ReadErr e'" "bs = []" using res by auto
    then have "copyToTcp r = r\<lparr>rl_ws := ws', rl_toTcp := Some (Some e')\<rparr>"
      using rd Some by (simp add: copyToTcp_def copyTurn_def)
    then show ?thesis using ends res by blast
  next
    case None
    then have bs: "bs \<noteq> []" using res by auto
    show ?thesis
    proof (cases "tc_error (rl_tcp r)")
      case (Some e)
      then have "copyToTcp r = r\<lparr>rl_ws := ws', rl_toTcp := Some (Some e)\<rparr>"
        using rd bs None by (simp add: copyToTcp_def copyTurn_def tcp_Write_def)
      then show ?thesis using ends res by blast
    next
      case no: None
      then have "copyToTcp r = r\<lparr>rl_ws := ws', rl_tcp := (rl_tcp r)\<lparr>tc_out := tc_out (rl_tcp r) @ bs\<rparr>, rl_toTcp := None\<rparr>"
        using rd bs None by (simp add: copyToTcp_def copyTurn_def tcp_Write_def)
      then show ?thesis using moves res bs by blast
    qed
  qed
qed

section \<open>The stream invariant\<close>

definition bridgeMessage :: "wsMessage \<Rightarrow> bool" where
  "bridgeMessage m \<longleftrightarrow> (\<exists>bs. bs \<noteq> [] \<and> m = \<lparr>m_Type = TextMessage, m_Data = EncodeToString bs\<rparr>)"

definition messagesBytes :: "wsMessage list \<Rightarrow> bytes" where
  "messagesBytes ms = concat (map messageBytes ms)"

lemma messagesBytes_simps [simp]:
  "messagesBytes [] = []" "messagesBytes (m # ms) = messageBytes m @ messagesBytes ms"
  "messagesBytes (ms @ ns) = messagesBytes ms @ messagesBytes ns"
  by (simp_all add: messagesBytes_def)

lemma messageBytes_encoded [simp]:
  "messageBytes \<lparr>m_Type = TextMessage, m_Data = EncodeToString bs\<rparr> = bs"
  by (simp add: messageBytes_def hex_round_trip)

lemma incomingBytes_arrives [simp]:
  "incomingBytes (ws\<lparr>wn_incoming := wn_incoming ws @ [m]\<rparr>) = incomingBytes ws @ messageBytes m"
  by (simp add: incomingBytes_def)

text \<open>
  The stream from \<open>s\<close> to \<open>d\<close>. \<open>taken\<close> are the bytes the copy of \<open>s\<close> has read; what \<open>d\<close> has
  written is a prefix of it, also with the bytes \<open>d\<close> still holds while it copies, and with those on
  their way while its websocket works; then nothing is missing while \<open>s\<close> copies.
\<close>

definition streamInv :: "relay \<Rightarrow> relay \<Rightarrow> bool" where
  "streamInv s d \<longleftrightarrow>
     (\<forall>m \<in> set (wn_incoming (rl_ws d)) \<union> set (rl_sent s). bridgeMessage m)
     \<and> (\<exists>taken. tc_arrived (rl_tcp s) = taken @ tc_in (rl_tcp s) \<and> prefix (tc_out (rl_tcp d)) taken
         \<and> (rl_toTcp d = None \<longrightarrow> prefix (tc_out (rl_tcp d) @ incomingBytes (rl_ws d)) taken
              \<and> (\<not> rl_wsDown d \<longrightarrow>
                   (let through = tc_out (rl_tcp d) @ incomingBytes (rl_ws d) @ messagesBytes (rl_sent s)
                    in prefix through taken \<and> (rl_toWs s = None \<longrightarrow> through = taken)))))"

text \<open>The fields of the two ends the stream depends on.\<close>

lemma streamInv_cong:
  assumes "streamInv s d"
    and "rl_sent s' = rl_sent s" "tc_arrived (rl_tcp s') = tc_arrived (rl_tcp s)" "tc_in (rl_tcp s') = tc_in (rl_tcp s)"
      "rl_toWs s' = rl_toWs s"
    and "rl_ws d' = rl_ws d" "tc_out (rl_tcp d') = tc_out (rl_tcp d)" "rl_toTcp d' = rl_toTcp d" "rl_wsDown d' = rl_wsDown d \<or> rl_wsDown d'"
  shows "streamInv s' d'"
  using assms by (auto simp: streamInv_def Let_def)

lemma streamInv_arrive:
  "streamInv s d \<Longrightarrow> streamInv (s\<lparr>rl_tcp := (rl_tcp s)\<lparr>tc_in := tc_in (rl_tcp s) @ bs, tc_arrived := tc_arrived (rl_tcp s) @ bs\<rparr>\<rparr>) d"
  by (auto simp: streamInv_def)

lemma streamInv_copyToWs:
  assumes "streamInv s d" and "rl_toWs s = None"
  shows "streamInv (copyToWs s) d"
proof -
  let ?in = "tc_in (rl_tcp s)" and ?n = copyBufferSize
  obtain taken where t: "tc_arrived (rl_tcp s) = taken @ ?in" "prefix (tc_out (rl_tcp d)) taken"
      "rl_toTcp d = None \<Longrightarrow> prefix (tc_out (rl_tcp d) @ incomingBytes (rl_ws d)) taken"
      "rl_toTcp d = None \<Longrightarrow> \<not> rl_wsDown d \<Longrightarrow> tc_out (rl_tcp d) @ incomingBytes (rl_ws d) @ messagesBytes (rl_sent s) = taken"
    and m: "\<forall>m \<in> set (wn_incoming (rl_ws d)) \<union> set (rl_sent s). bridgeMessage m"
    using assms by (auto simp: streamInv_def Let_def)
  have b: "bridgeMessage \<lparr>m_Type = TextMessage, m_Data = EncodeToString (take ?n ?in)\<rparr>" if "?in \<noteq> []"
    using that unfolding bridgeMessage_def by (intro exI [of _ "take ?n ?in"]) (simp add: copyBufferSize_def)
  have split: "tc_arrived (rl_tcp s) = (taken @ take ?n ?in) @ drop ?n ?in" using t(1) by simp
  have pre: "prefix (tc_out (rl_tcp d)) (taken @ take ?n ?in)"
    "rl_toTcp d = None \<Longrightarrow> prefix (tc_out (rl_tcp d) @ incomingBytes (rl_ws d)) (taken @ take ?n ?in)"
    using t(2,3) prefix_prefix by blast+
  show ?thesis
  proof (cases "tc_error (rl_tcp s) \<noteq> None \<or> ?in = []")
    case True
    then show ?thesis using t m by (auto simp: copyToWs_eq streamInv_def Let_def split: option.splits)
  next
    case False
    then show ?thesis
      using split pre t(4) m b
      by (cases "rl_wsDown s") (auto simp: copyToWs_eq streamInv_def Let_def intro!: exI [of _ "taken @ take ?n ?in"])
  qed
qed

lemma streamInv_copyToTcp:
  assumes "streamInv s d" and "rl_toTcp d = None"
  shows "streamInv s (copyToTcp d)"
proof (cases d rule: copyToTcp_cases)
  case (ends ws' err)
  then show ?thesis using assms by (auto simp: streamInv_def)
next
  case (moves ws' bs)
  have "prefix (tc_out (rl_tcp d) @ bs) taken" if "prefix (tc_out (rl_tcp d) @ incomingBytes (rl_ws d)) taken" for taken
    using that moves(4) by (metis append.assoc append_prefixD)
  then show ?thesis using assms moves by (auto simp: streamInv_def Let_def)
qed

lemma streamInv_wsArrives:
  assumes "streamInv s d" and "\<not> rl_wsDown d" and "rl_sent s = m # ms"
  shows "streamInv (s\<lparr>rl_sent := ms\<rparr>) (d\<lparr>rl_ws := (rl_ws d)\<lparr>wn_incoming := wn_incoming (rl_ws d) @ [m]\<rparr>\<rparr>)"
proof -
  have "prefix (tc_out (rl_tcp d) @ incomingBytes (rl_ws d) @ messageBytes m) taken"
    if "prefix (tc_out (rl_tcp d) @ incomingBytes (rl_ws d) @ messageBytes m @ messagesBytes ms) taken" for taken
    using that by (metis append.assoc append_prefixD)
  then show ?thesis using assms by (auto simp: streamInv_def Let_def)
qed

section \<open>Both directions\<close>

definition tunnelInv :: "tunnel \<Rightarrow> bool" where
  "tunnelInv t \<longleftrightarrow> streamInv (t_front t) (t_back t) \<and> streamInv (t_back t) (t_front t)"

lemmas side_defs = relayOf_def putRelay_def other_def

lemma all_side: "(\<forall>i. P i) \<longleftrightarrow> P Front \<and> P Back"
  by (metis side.exhaust)

lemma relayOf_put [simp]:
  "relayOf i (putRelay i r t) = r" "relayOf (other i) (putRelay i r t) = relayOf (other i) t"
  "relayOf i (putRelay (other i) r t) = relayOf i t" "other (other i) = i"
  by (cases i; simp add: side_defs)+

lemma tunnelInv_side: "tunnelInv t \<longleftrightarrow> streamInv (relayOf i t) (relayOf (other i) t) \<and> streamInv (relayOf (other i) t) (relayOf i t)"
  by (cases i) (auto simp: tunnelInv_def side_defs)

lemma tunnelInv_put:
  "streamInv r (relayOf (other i) t) \<Longrightarrow> streamInv (relayOf (other i) t) r \<Longrightarrow> tunnelInv (putRelay i r t)"
  by (simp add: tunnelInv_side [of _ i])

text \<open>Changes of one end that neither stream depends on.\<close>

lemma tunnelInv_same:
  assumes "tunnelInv t"
    and "rl_sent r = rl_sent (relayOf i t)" "tc_arrived (rl_tcp r) = tc_arrived (rl_tcp (relayOf i t))"
      "tc_in (rl_tcp r) = tc_in (rl_tcp (relayOf i t))" "rl_toWs r = rl_toWs (relayOf i t)"
      "rl_ws r = rl_ws (relayOf i t)" "tc_out (rl_tcp r) = tc_out (rl_tcp (relayOf i t))"
      "rl_toTcp r = rl_toTcp (relayOf i t)" "rl_wsDown r = rl_wsDown (relayOf i t) \<or> rl_wsDown r"
  shows "tunnelInv (putRelay i r t)"
  using assms tunnelInv_side [of t i]
  by (intro tunnelInv_put) (auto elim: streamInv_cong)

lemma copyToWs_frame [simp]:
  "rl_ws (copyToWs r) = rl_ws r" "tc_out (rl_tcp (copyToWs r)) = tc_out (rl_tcp r)" "rl_toTcp (copyToWs r) = rl_toTcp r"
  "rl_wsDown (copyToWs r) = rl_wsDown r" "rl_returned (copyToWs r) = rl_returned r"
  by (auto simp: copyToWs_eq Let_def split: option.split)

lemma copyToTcp_frame [simp]:
  "rl_sent (copyToTcp r) = rl_sent r" "tc_arrived (rl_tcp (copyToTcp r)) = tc_arrived (rl_tcp r)"
  "tc_in (rl_tcp (copyToTcp r)) = tc_in (rl_tcp r)" "rl_toWs (copyToTcp r) = rl_toWs r"
  "rl_wsDown (copyToTcp r) = rl_wsDown r" "rl_returned (copyToTcp r) = rl_returned r"
  by (cases r rule: copyToTcp_cases; simp)+

lemma tunnelInv_step:
  assumes "tunnelInv t" and "tunnelStep e t = Some t'"
  shows "tunnelInv t'"
proof (cases e)
  case (TcpArrives i bs)
  then show ?thesis using assms tunnelInv_side [of t i] streamInv_arrive
    by (auto simp: Let_def split: if_splits intro!: tunnelInv_put elim: streamInv_cong)
next
  case (WsArrives i)
  then obtain m ms where m: "rl_sent (relayOf (other i) t) = m # ms" "\<not> rl_wsDown (relayOf i t)"
    using assms(2) by (auto simp: Let_def split: if_splits list.splits)
  have "streamInv (relayOf (other i) t') (relayOf i t')"
    using streamInv_wsArrives [of "relayOf (other i) t" "relayOf i t"] assms m WsArrives
    by (auto simp: Let_def tunnelInv_side [of t i])
  moreover have "streamInv (relayOf i t') (relayOf (other i) t')"
    using assms m WsArrives by (auto simp: Let_def tunnelInv_side [of t i] elim: streamInv_cong)
  ultimately show ?thesis by (simp add: tunnelInv_side [of t' i])
next
  case (CopyToWs i)
  then show ?thesis using assms tunnelInv_side [of t i] streamInv_copyToWs
    by (auto simp: Let_def split: if_splits intro!: tunnelInv_put elim: streamInv_cong)
next
  case (CopyToTcp i)
  then show ?thesis using assms tunnelInv_side [of t i] streamInv_copyToTcp
    by (auto simp: Let_def split: if_splits intro!: tunnelInv_put elim: streamInv_cong)
next
  case (HandlerReturns i)
  then show ?thesis using assms by (auto simp: Let_def handlerReturns_def split: if_splits intro: tunnelInv_same)
next
  case (TcpEnds i)
  then show ?thesis using assms by (auto simp: Let_def split: if_splits intro: tunnelInv_same)
next
  case (TcpBreaks i e)
  then show ?thesis using assms by (auto simp: Let_def split: if_splits intro: tunnelInv_same)
next
  case (WsFails i)
  then show ?thesis using assms by (auto intro: tunnelInv_same)
qed

interpretation tunnel: event_system tunnelStep tunnelInv
  by unfold_locales (rule tunnelInv_step)

section \<open>Progress\<close>

lemma bridge_decodable: "bridgeMessage m \<Longrightarrow> m_Type m = TextMessage \<longrightarrow> DecodeString (m_Data m) \<noteq> None"
  by (auto simp: bridgeMessage_def hex_round_trip)

lemma messageBytes_bridge: "bridgeMessage m \<Longrightarrow> messageBytes m \<noteq> []"
  by (auto simp: bridgeMessage_def)

text \<open>With bytes to deliver on working connections the copy to TCP goes on.\<close>

lemma copyToTcp_goes_on:
  assumes "incomingBytes (rl_ws r) \<noteq> []" and "\<forall>m \<in> set (wn_incoming (rl_ws r)). bridgeMessage m"
    and "tc_error (rl_tcp r) = None"
  shows "rl_toTcp (copyToTcp r) = None"
proof -
  let ?ws = "rl_ws r"
  obtain bs er ws' where rd: "netConn_Read ?ws copyBufferSize = ((bs, er), ws')" by (metis surj_pair)
  have "er = None"
  proof (cases "wn_buffered ?ws = []")
    case True
    have "\<forall>m \<in> set (wn_incoming ?ws). m_Type m = TextMessage \<longrightarrow> DecodeString (m_Data m) \<noteq> None"
      using assms(2) bridge_decodable by blast
    note fin = fillBuffer_decodable [OF this]
    then have "fst (fillBuffer (wn_incoming ?ws) (wn_error ?ws)) \<noteq> Inl e" for e
      using assms(1) True by (cases "fillBuffer (wn_incoming ?ws) (wn_error ?ws)") (auto simp: incomingBytes_def)
    then show ?thesis using rd True by (auto simp: netConn_Read_def split: prod.splits sum.splits)
  qed (use rd in \<open>auto simp: netConn_Read_def\<close>)
  then show ?thesis
    using rd netConn_Read_result [OF rd] assms(3) by (simp add: copyToTcp_def copyTurn_def tcp_Write_def)
qed

lemma wsReadable_bytes:
  assumes "\<forall>m \<in> set (wn_incoming (rl_ws r)). bridgeMessage m" and "\<not> rl_wsDown r"
  shows "wsReadable r \<longleftrightarrow> incomingBytes (rl_ws r) \<noteq> []"
  using assms
  by (cases "wn_incoming (rl_ws r)")
    (auto simp: wsReadable_def incomingBytes_def bridgeMessage_def hex_round_trip dest: bspec)

text \<open>The stream from \<open>i\<close> to the other end works.\<close>

definition flowing :: "side \<Rightarrow> tunnel \<Rightarrow> bool" where
  "flowing i t \<longleftrightarrow>
     (let s = relayOf i t; d = relayOf (other i) t in
      rl_toWs s = None \<and> \<not> rl_wsDown s \<and> tc_error (rl_tcp s) = None
      \<and> rl_toTcp d = None \<and> \<not> rl_wsDown d \<and> tc_error (rl_tcp d) = None)"

text \<open>The bytes left to move, weighted by the hops they have before them.\<close>

definition bytesLeft :: "side \<Rightarrow> tunnel \<Rightarrow> nat" where
  "bytesLeft i t =
     3 * length (tc_in (rl_tcp (relayOf i t))) + 2 * length (messagesBytes (rl_sent (relayOf i t)))
       + length (incomingBytes (rl_ws (relayOf (other i) t)))"

lemma flowing_step:
  assumes "tunnelInv t" and "flowing i t" and "0 < bytesLeft i t"
  shows "\<exists>e t'. tunnelStep e t = Some t' \<and> flowing i t' \<and> bytesLeft i t' < bytesLeft i t
           \<and> tc_arrived (rl_tcp (relayOf i t')) = tc_arrived (rl_tcp (relayOf i t))"
proof -
  let ?s = "relayOf i t" and ?d = "relayOf (other i) t"
  have msgs: "\<forall>m \<in> set (wn_incoming (rl_ws ?d)) \<union> set (rl_sent ?s). bridgeMessage m"
    using assms(1) by (simp add: tunnelInv_side [of t i] streamInv_def)
  have fl: "rl_toWs ?s = None" "\<not> rl_wsDown ?s" "tc_error (rl_tcp ?s) = None"
      "rl_toTcp ?d = None" "\<not> rl_wsDown ?d" "tc_error (rl_tcp ?d) = None"
    using assms(2) by (simp_all add: flowing_def Let_def)
  consider (up) "tc_in (rl_tcp ?s) \<noteq> []" | (wire) m ms where "rl_sent ?s = m # ms" | (down) "incomingBytes (rl_ws ?d) \<noteq> []"
    using assms(3) by (cases "rl_sent ?s") (auto simp: bytesLeft_def)
  then show ?thesis
  proof cases
    case up
    let ?n = "length (tc_in (rl_tcp ?s))"
    have "3 * (?n - copyBufferSize) + 2 * min ?n copyBufferSize < 3 * ?n"
      using up by (cases "?n \<le> copyBufferSize") (auto simp: copyBufferSize_def)
    then show ?thesis using up fl
      by (intro exI [of _ "CopyToWs i"]) (auto simp: tcpReadable_def flowing_def bytesLeft_def copyToWs_eq Let_def)
  next
    case wire
    then have "0 < length (messageBytes m)" using msgs messageBytes_bridge by auto
    then show ?thesis using wire fl
      by (intro exI [of _ "WsArrives (other i)"]) (auto simp: flowing_def bytesLeft_def Let_def)
  next
    case down
    have on: "rl_toTcp (copyToTcp ?d) = None" using copyToTcp_goes_on [OF down _ fl(6)] msgs by blast
    have r: "wsReadable ?d" using wsReadable_bytes [of ?d] msgs fl down by blast
    from on obtain ws' bs where "copyToTcp ?d = ?d\<lparr>rl_ws := ws', rl_tcp := (rl_tcp ?d)\<lparr>tc_out := tc_out (rl_tcp ?d) @ bs\<rparr>, rl_toTcp := None\<rparr>"
        "bs \<noteq> []" "incomingBytes (rl_ws ?d) = bs @ incomingBytes ws'"
      by (cases ?d rule: copyToTcp_cases) auto
    then show ?thesis using fl r
      by (intro exI [of _ "CopyToTcp (other i)"]) (auto simp: flowing_def bytesLeft_def Let_def)
  qed
qed

lemma flowing_delivers:
  assumes "tunnelInv t" and "flowing i t"
  shows "\<exists>es t'. run_events tunnelStep es t = Some t'
           \<and> tc_arrived (rl_tcp (relayOf i t')) = tc_arrived (rl_tcp (relayOf i t))
           \<and> tc_out (rl_tcp (relayOf (other i) t')) = tc_arrived (rl_tcp (relayOf i t))"
  using assms
proof (induction "bytesLeft i t" arbitrary: t rule: less_induct)
  case less
  show ?case
  proof (cases "bytesLeft i t = 0")
    case True
    then have "tc_out (rl_tcp (relayOf (other i) t)) = tc_arrived (rl_tcp (relayOf i t))"
      using less.prems by (auto simp: tunnelInv_side [of t i] streamInv_def flowing_def bytesLeft_def Let_def)
    then show ?thesis by (intro exI [of _ "[]"]) simp
  next
    case False
    then obtain e t1 where t1: "tunnelStep e t = Some t1" "flowing i t1" "bytesLeft i t1 < bytesLeft i t"
        "tc_arrived (rl_tcp (relayOf i t1)) = tc_arrived (rl_tcp (relayOf i t))"
      using flowing_step less.prems by blast
    then obtain es t' where "run_events tunnelStep es t1 = Some t'"
        "tc_arrived (rl_tcp (relayOf i t')) = tc_arrived (rl_tcp (relayOf i t))"
        "tc_out (rl_tcp (relayOf (other i) t')) = tc_arrived (rl_tcp (relayOf i t))"
      using less.hyps [OF t1(3) tunnelInv_step [OF less.prems(1) t1(1)] t1(2)] by auto
    then show ?thesis using t1(1) by (intro exI [of _ "e # es"]) simp
  qed
qed

section \<open>The bytes of a TCP connection\<close>

text \<open>
  The frontend reaches the bridge of the backend when the URL it is given has no path, or only slashes.
\<close>

lemma frontendPath_root: "frontendPath [] = StreamingPath" "frontendPath ''/'' = StreamingPath"
  by (simp_all add: frontendPath_def pathJoin_def pathClean_def StreamingPath_def)

text \<open>A connection set up at both ends, for a backend URL with the path \<open>p\<close>.\<close>

definition bridged :: "string \<Rightarrow> error \<Rightarrow> error \<Rightarrow> tunnel \<Rightarrow> bool" where
  "bridged p ef eb t \<longleftrightarrow>
     serveConn (Inr []) ef = Some (t_front t)
     \<and> handlerConn True None None eb newResponseWriter (frontendPath p) = Some (t_back t)"

lemma bridged_relays:
  assumes "bridged p ef eb t"
  shows "\<exists>ws. relayOf i t = newRelay ws \<and> wn_incoming ws = [] \<and> wn_buffered ws = []"
  using assms
  by (cases i) (auto simp: bridged_def serveConn_def DialWebsocket_def handlerConn_def bridgeHandler_def relayOf_def split: bridgeOutcome.splits if_splits
      dest!: sym [where s = "newRelay ws" for ws])

lemma bridged_inv:
  assumes "bridged p ef eb t"
  shows "tunnelInv t"
proof -
  have "streamInv (newRelay ws) (newRelay ws')" if "wn_incoming ws' = []" "wn_buffered ws' = []" for ws ws'
    using that by (simp add: streamInv_def newRelay_def newTcpConn_def incomingBytes_def)
  then show ?thesis
    using bridged_relays [OF assms, of Front] bridged_relays [OF assms, of Back] by (auto simp: tunnelInv_side [of t Front] other_def)
qed

text \<open>C13. The TCP bridge from end to end: for every interleaving of the two programs, of arriving bytes and
  messages, and of failures, the bytes that one end has written to its TCP connection are a prefix of
  the bytes that arrived on the other end's, in both directions. While both ends copy and neither the
  websocket nor a TCP connection has failed, some schedule delivers every byte that arrived.\<close>

theorem tcp_tunnel_end_to_end:
  assumes "bridged p ef eb t0" and "reachable tunnelStep t0 t"
  shows "prefix (tc_out (rl_tcp (relayOf (other i) t))) (tc_arrived (rl_tcp (relayOf i t)))
       \<and> (flowing i t \<longrightarrow> (\<exists>es t'. run_events tunnelStep es t = Some t'
            \<and> tc_arrived (rl_tcp (relayOf i t')) = tc_arrived (rl_tcp (relayOf i t))
            \<and> tc_out (rl_tcp (relayOf (other i) t')) = tc_arrived (rl_tcp (relayOf i t))))"
proof -
  have inv: "tunnelInv t" by (rule tunnel.inv_reachable [OF assms(2) bridged_inv [OF assms(1)]])
  then have "prefix (tc_out (rl_tcp (relayOf (other i) t))) (tc_arrived (rl_tcp (relayOf i t)))"
    by (auto simp: tunnelInv_side [of t i] streamInv_def prefix_prefix)
  then show ?thesis using flowing_delivers [OF inv] by blast
qed

definition exampleTunnel :: tunnel where
  "exampleTunnel =
     \<lparr>t_front = newRelay \<lparr>wn_incoming = [], wn_error = ErrService ''closed'', wn_buffered = []\<rparr>,
      t_back = newRelay \<lparr>wn_incoming = [], wn_error = ErrService ''closed'', wn_buffered = []\<rparr>\<rparr>"

lemma exampleTunnel_bridged: "bridged [] (ErrService ''closed'') (ErrService ''closed'') exampleTunnel"
  by (simp add: bridged_def exampleTunnel_def serveConn_def DialWebsocket_def handlerConn_def bridgeHandler_def frontendPath_root)

theorem tcp_tunnel_end_to_end_witness:
  "\<exists>es t'. run_events tunnelStep (TcpArrives Front ''GET'' # es) exampleTunnel = Some t'
     \<and> tc_out (rl_tcp (t_back t')) = ''GET''"
proof -
  obtain t where t: "tunnelStep (TcpArrives Front ''GET'') exampleTunnel = Some t" by (simp add: exampleTunnel_def side_defs newRelay_def newTcpConn_def)
  then have f: "flowing Front t" "tc_arrived (rl_tcp (relayOf Front t)) = ''GET''"
    by (auto simp: exampleTunnel_def side_defs newRelay_def newTcpConn_def flowing_def Let_def)
  have "reachable tunnelStep exampleTunnel t" by (rule reach_step [OF reach_init]) (rule t)
  then obtain es t' where "run_events tunnelStep es t = Some t'" "tc_out (rl_tcp (relayOf (other Front) t')) = ''GET''"
    using tcp_tunnel_end_to_end [OF exampleTunnel_bridged, of t Front] f by auto
  then show ?thesis using t by (intro exI [of _ es] exI [of _ t']) (simp add: side_defs)
qed

section \<open>The end of a stream\<close>

definition fault :: "tunnelEvent \<Rightarrow> bool" where
  "fault e \<longleftrightarrow> (case e of TcpBreaks _ _ \<Rightarrow> True | WsFails _ \<Rightarrow> True | _ \<Rightarrow> False)"

text \<open>While the peer of the other end goes on sending and nothing fails.\<close>

definition halfOpen :: "side \<Rightarrow> tunnel \<Rightarrow> bool" where
  "halfOpen i t \<longleftrightarrow> tunnelInv t
     \<and> rl_toWs (relayOf (other i) t) = None \<and> \<not> tc_eof (rl_tcp (relayOf (other i) t))
     \<and> (\<forall>j. rl_toTcp (relayOf j t) = None \<and> \<not> rl_wsDown (relayOf j t) \<and> tc_error (rl_tcp (relayOf j t)) = None
           \<and> \<not> rl_returned (relayOf j t) \<and> \<not> tc_closed (rl_tcp (relayOf j t)))"

lemma halfOpen_copyToTcp:
  assumes "halfOpen i t" and "wsReadable (relayOf j t)"
  shows "rl_toTcp (copyToTcp (relayOf j t)) = None"
    and "tc_closed (rl_tcp (copyToTcp (relayOf j t))) = tc_closed (rl_tcp (relayOf j t))"
    and "tc_error (rl_tcp (copyToTcp (relayOf j t))) = tc_error (rl_tcp (relayOf j t))"
    and "tc_eof (rl_tcp (copyToTcp (relayOf j t))) = tc_eof (rl_tcp (relayOf j t))"
proof -
  let ?r = "relayOf j t"
  have msgs: "\<forall>m \<in> set (wn_incoming (rl_ws ?r)). bridgeMessage m"
    using assms(1) by (auto simp: halfOpen_def tunnelInv_side [of t j] streamInv_def)
  have ok: "\<not> rl_wsDown ?r" "tc_error (rl_tcp ?r) = None" using assms(1) by (simp_all add: halfOpen_def)
  show on: "rl_toTcp (copyToTcp ?r) = None"
    using copyToTcp_goes_on [OF _ msgs ok(2)] wsReadable_bytes [OF msgs ok(1)] assms(2) by blast
  then show "tc_closed (rl_tcp (copyToTcp ?r)) = tc_closed (rl_tcp ?r)"
    "tc_error (rl_tcp (copyToTcp ?r)) = tc_error (rl_tcp ?r)" "tc_eof (rl_tcp (copyToTcp ?r)) = tc_eof (rl_tcp ?r)"
    by (cases ?r rule: copyToTcp_cases; simp)+
qed

lemma relayOf_cases: "relayOf j (putRelay i r t) = (if j = i then r else relayOf j t)"
  by (cases i; cases j) (simp_all add: side_defs)

lemma other_neq [simp]: "other i \<noteq> i" "i \<noteq> other i"
  by (cases i; simp add: other_def)+

lemma copyToWs_tcp [simp]:
  "tc_closed (rl_tcp (copyToWs r)) = tc_closed (rl_tcp r)" "tc_error (rl_tcp (copyToWs r)) = tc_error (rl_tcp r)"
  "tc_eof (rl_tcp (copyToWs r)) = tc_eof (rl_tcp r)"
  by (auto simp: copyToWs_eq Let_def split: option.split)

lemma copyToWs_goes_on:
  assumes "tcpReadable (rl_tcp r)" and "\<not> tc_eof (rl_tcp r)" and "tc_error (rl_tcp r) = None" and "\<not> rl_wsDown r"
  shows "rl_toWs (copyToWs r) = None"
  using assms by (auto simp: copyToWs_eq tcpReadable_def Let_def)

lemma halfOpen_step:
  assumes "halfOpen i t" and "tunnelStep e t = Some t'" and "\<not> fault e" and "e \<noteq> TcpEnds (other i)"
  shows "halfOpen i t'"
proof -
  have inv: "tunnelInv t'" using tunnelInv_step [OF _ assms(2)] assms(1) by (simp add: halfOpen_def)
  have noret: "\<not> (rl_toTcp (relayOf j t) \<noteq> None)" for j using assms(1) by (simp add: halfOpen_def)
  show ?thesis
  proof (cases e)
    case (CopyToTcp j)
    then have "wsReadable (relayOf j t)" using assms(2) by (auto simp: Let_def split: if_splits)
    note on = halfOpen_copyToTcp [OF assms(1) this]
    show ?thesis using assms(1,2) CopyToTcp inv on by (auto simp: halfOpen_def relayOf_cases Let_def split: if_splits)
  next
    case (CopyToWs j)
    then show ?thesis using assms(1,2) inv copyToWs_goes_on [of "relayOf (other i) t"]
      by (auto simp: halfOpen_def relayOf_cases Let_def split: if_splits)
  next
    case (TcpEnds j)
    then show ?thesis using assms inv by (cases i; cases j) (auto simp: halfOpen_def relayOf_cases Let_def split: if_splits)
  qed (use assms inv noret in \<open>auto simp: halfOpen_def fault_def relayOf_cases Let_def split: if_splits list.splits\<close>)
qed

text \<open>C38. The end of a stream is not passed on: when the peer of one end has ended its stream, the other
  end's TCP connection stays open, and no program notices, for as long as the peer there does not end its
  own stream and nothing fails. Two programs that wait for the end of each other's stream before they
  answer wait forever, and a connection whose client went away stays until its server closes it.\<close>

theorem tcp_end_not_forwarded:
  assumes "bridged p ef eb t0" and "run_events tunnelStep es t0 = Some t"
    and "\<forall>e \<in> set es. \<not> fault e \<and> e \<noteq> TcpEnds (other i)"
  shows "\<not> tc_closed (rl_tcp (relayOf (other i) t)) \<and> \<not> tc_closed (rl_tcp (relayOf i t))
       \<and> rl_toTcp (relayOf (other i) t) = None \<and> \<not> rl_returned (relayOf (other i) t) \<and> \<not> rl_returned (relayOf i t)"
proof -
  have "rl_toWs (relayOf j t0) = None \<and> \<not> tc_eof (rl_tcp (relayOf j t0)) \<and> rl_toTcp (relayOf j t0) = None
      \<and> \<not> rl_wsDown (relayOf j t0) \<and> tc_error (rl_tcp (relayOf j t0)) = None
      \<and> \<not> rl_returned (relayOf j t0) \<and> \<not> tc_closed (rl_tcp (relayOf j t0))" for j
    using bridged_relays [OF assms(1), of j] by (auto simp: newRelay_def newTcpConn_def)
  then have start: "halfOpen i t0" using bridged_inv [OF assms(1)] by (simp add: halfOpen_def)
  have "halfOpen i t" using assms(2,3) start
  proof (induction es arbitrary: t0)
    case (Cons e es)
    then show ?case using halfOpen_step by (auto split: option.splits)
  qed simp
  then show ?thesis by (simp add: halfOpen_def)
qed

theorem tcp_end_not_forwarded_witness:
  "\<exists>t. run_events tunnelStep [TcpArrives Front ''x'', TcpEnds Front, CopyToWs Front, CopyToWs Front] exampleTunnel = Some t
     \<and> rl_toWs (t_front t) = Some None \<and> \<not> tc_closed (rl_tcp (t_back t))"
proof -
  let ?es = "[TcpArrives Front ''x'', TcpEnds Front, CopyToWs Front, CopyToWs Front]"
  obtain t where t: "run_events tunnelStep ?es exampleTunnel = Some t" "rl_toWs (t_front t) = Some None"
    by (simp add: exampleTunnel_def side_defs newRelay_def newTcpConn_def Let_def tcpReadable_def copyToWs_eq copyBufferSize_def)
  have "\<forall>e \<in> set ?es. \<not> fault e \<and> e \<noteq> TcpEnds (other Front)" by (simp add: fault_def other_def)
  then show ?thesis using tcp_end_not_forwarded [OF exampleTunnel_bridged t(1), of Front] t by (auto simp: side_defs)
qed

end
