(* ===== verification/Shim_Client.thy ===== *)
theory Shim_Client
  imports Agent_Shim Event_Systems Go_Paths
begin

text \<open>
  The script that the agent inserts into pages, the text \<^verbatim>\<open>shimTemplate\<close> in
  \<^verbatim>\<open>agent/websockets/shim.go\<close>: a replacement of the browser's WebSocket that sends requests to the shim
  endpoints. A page runs on one thread: the events of one WebSocketShim object (\<open>jsStep\<close>) are the calls
  the page makes, the completion of a request, and the completion of a FileReader. A handler of the page
  runs inside an event; it is the list of calls it makes and whether it throws an exception, which
  ends the event where the script does not catch it (the script never does). The page has set all four
  handlers; one that it did not set corresponds to one that does nothing.

  A string of the script is its UTF-8 form. \<open>DArr\<close> is an array of strings, \<open>DBlob\<close> stands for blobs and
  buffers, \<open>DOther\<close> for all other values. Requests are numbered in the order they are made.
  Fields without a counterpart in the script: \<open>js_issued\<close>, \<open>js_events\<close>, \<open>js_sends\<close>,
  \<open>js_lost\<close> record the requests made, the events given to the page, the data of successful calls of
  send, and the messages of a conversion that threw. No step reads them, but for the numbers of requests.

  Parameters (\<open>jsEnv\<close>): the browser's functions \<^verbatim>\<open>readAsText\<close>, \<^verbatim>\<open>atob\<close> and URL, the conversion of other
  values to strings, and JSON parsing.
\<close>

section \<open>Data\<close>

datatype jsData = DText string | DArr "string list" | DBlob bytes | DOther json

record jsMsg =
  jm_id :: string
  jm_msg :: jsData

datatype xhrBody = OpenBody string | DataBody "jsMsg list" | PollBody string | CloseBody string

record jsEnv =
  je_toString :: "json \<Rightarrow> string"
  je_host :: "string \<Rightarrow> string option"
  je_readAsText :: "bytes \<Rightarrow> string"
  je_atob :: "string \<Rightarrow> string option"
  je_parseOpen :: "string \<Rightarrow> (int option \<times> string) option"
  je_parseMsgs :: "string \<Rightarrow> json list option"

text \<open>\<open>new Blob([data])\<close>: an array is turned into the string of its elements.\<close>

fun joinElements :: "string list \<Rightarrow> string" where
  "joinElements [] = []"
| "joinElements [s] = s"
| "joinElements (s # ss) = s @ '','' @ joinElements ss"

definition blobOf :: "jsEnv \<Rightarrow> jsData \<Rightarrow> bytes" where
  "blobOf env d =
     (case d of DText s \<Rightarrow> s | DArr ss \<Rightarrow> joinElements ss | DBlob bs \<Rightarrow> bs | DOther v \<Rightarrow> je_toString env v)"

text \<open>The code points of a string, and \<^verbatim>\<open>btoa\<close>, which throws when one of them is not a byte.\<close>

function codePoints :: "string \<Rightarrow> nat list" where
  "codePoints [] = []"
| "codePoints (a # s) = (case DecodeRune (a # s) of (r, width) \<Rightarrow> r # codePoints (drop (width - 1) s))"
  by pat_completeness auto
termination
  by (relation "measure length") auto

definition btoa :: "string \<Rightarrow> string option" where
  "btoa s = (let cs = codePoints s in if list_all (\<lambda>c. c < 256) cs then Some (base64Encode (map char_of cs)) else None)"

text \<open>\<^verbatim>\<open>JSON.stringify\<close>; a blob has no properties.\<close>

definition stringify :: "jsData \<Rightarrow> json" where
  "stringify d = (case d of DText s \<Rightarrow> JStr s | DArr ss \<Rightarrow> JArr (map JStr ss) | DBlob _ \<Rightarrow> JObj [] | DOther v \<Rightarrow> v)"

definition needsConversion :: "jsData \<Rightarrow> bool" where
  "needsConversion d = (case d of DText _ \<Rightarrow> False | DArr ss \<Rightarrow> length ss \<noteq> 1 | _ \<Rightarrow> True)"

section \<open>The object\<close>

definition CONNECTING :: nat where "CONNECTING = 0"
definition OPEN :: nat where "OPEN = 1"
definition CLOSING :: nat where "CLOSING = 2"
definition CLOSED :: nat where "CLOSED = 3"

lemmas state_defs = CONNECTING_def OPEN_def CLOSING_def CLOSED_def

datatype pageEvent = EOpen | EMessage jsData | EError | EClose

text \<open>
  \<open>js_reading\<close>: the messages being converted and the index of the one the FileReader reads.
  \<open>js_waiting\<close>: the numbers of the requests that are not completed.
\<close>

record pageShim =
  js_readyState :: nat
  js_version :: int
  js_sessionID :: string
  js_pending :: "jsMsg list"
  js_pushing :: bool
  js_reading :: "(jsMsg list \<times> nat) option"
  js_waiting :: "nat list"
  js_issued :: "xhrBody list"
  js_events :: "pageEvent list"
  js_sends :: "jsData list"
  js_lost :: "jsMsg list"

definition self_xhr :: "xhrBody \<Rightarrow> pageShim \<Rightarrow> pageShim" where
  "self_xhr x s = s\<lparr>js_waiting := js_waiting s @ [length (js_issued s)], js_issued := js_issued s @ [x]\<rparr>"

fun firstToConvert :: "jsMsg list \<Rightarrow> nat option" where
  "firstToConvert [] = None"
| "firstToConvert (m # ms) = (if needsConversion (jm_msg m) then Some 0 else map_option Suc (firstToConvert ms))"

definition convertMessagesAndPush :: "jsMsg list \<Rightarrow> pageShim \<Rightarrow> pageShim" where
  "convertMessagesAndPush msgs s =
     (case firstToConvert msgs of
        Some i \<Rightarrow> s\<lparr>js_reading := Some (msgs, i)\<rparr>
      | None \<Rightarrow> self_xhr (DataBody msgs) (s\<lparr>js_reading := None\<rparr>))"

definition self_push :: "pageShim \<Rightarrow> pageShim" where
  "self_push s =
     (if js_pushing s then s
      else if js_pending s = [] then s
      else convertMessagesAndPush (js_pending s) (s\<lparr>js_pushing := True, js_pending := []\<rparr>))"

definition poll :: "pageShim \<Rightarrow> pageShim" where
  "poll s = (if js_readyState s \<noteq> OPEN then s else self_xhr (PollBody (js_sessionID s)) s)"

definition js_send :: "jsData \<Rightarrow> pageShim \<Rightarrow> pageShim option" where
  "js_send d s =
     (if js_readyState s \<noteq> OPEN then None
      else Some (self_push (s\<lparr>js_pending := js_pending s @ [\<lparr>jm_id = js_sessionID s, jm_msg = d\<rparr>], js_sends := js_sends s @ [d]\<rparr>)))"

definition js_close :: "pageShim \<Rightarrow> pageShim" where
  "js_close s =
     (if js_readyState s \<noteq> OPEN then s else self_xhr (CloseBody (js_sessionID s)) (s\<lparr>js_readyState := CLOSING\<rparr>))"

section \<open>Handlers of the page\<close>

datatype pageCall = PSend jsData | PClose

text \<open>The calls a handler makes (one of send that throws has no effect) and whether it throws.\<close>

type_synonym handlerRun = "pageCall list \<times> bool"

definition pageCall :: "pageCall \<Rightarrow> pageShim \<Rightarrow> pageShim" where
  "pageCall c s =
     (case c of PSend d \<Rightarrow> (case js_send d s of None \<Rightarrow> s | Some s' \<Rightarrow> s') | PClose \<Rightarrow> js_close s)"

definition runAt :: "handlerRun list \<Rightarrow> nat \<Rightarrow> handlerRun" where
  "runAt hs n = (if n < length hs then hs ! n else ([], False))"

text \<open>Giving an event to the page: \<open>True\<close> when the handler threw.\<close>

definition give :: "pageEvent \<Rightarrow> handlerRun \<Rightarrow> pageShim \<Rightarrow> bool \<times> pageShim" where
  "give e h s = (snd h, fold pageCall (fst h) (s\<lparr>js_events := js_events s @ [e]\<rparr>))"

text \<open>What a message of a poll's answer becomes: \<open>None\<close> when \<^verbatim>\<open>atob\<close> throws. Its result is not used.\<close>

definition receivedData :: "jsEnv \<Rightarrow> int \<Rightarrow> json \<Rightarrow> jsData option" where
  "receivedData env version msg =
     (case msg of
        JArr vs \<Rightarrow>
          (let ss = map (\<lambda>v. case v of JStr s \<Rightarrow> s | _ \<Rightarrow> je_toString env v) vs
           in if version \<noteq> 0 \<and> (\<exists>s \<in> set ss. je_atob env s = None) then None else Some (DBlob (concat ss)))
      | JStr s \<Rightarrow> Some (DText s)
      | _ \<Rightarrow> Some (DOther msg))"

fun receiveMsgs :: "jsEnv \<Rightarrow> json list \<Rightarrow> handlerRun list \<Rightarrow> pageShim \<Rightarrow> bool \<times> pageShim" where
  "receiveMsgs env [] hs s = (False, s)"
| "receiveMsgs env (m # ms) hs s =
     (case receivedData env (js_version s) m of
        None \<Rightarrow> (True, s)
      | Some d \<Rightarrow>
          (case give (EMessage d) (runAt hs 0) s of
             (True, s1) \<Rightarrow> (True, s1)
           | (False, s1) \<Rightarrow> receiveMsgs env ms (tl hs) s1))"

definition receiveHandler :: "jsEnv \<Rightarrow> string \<Rightarrow> handlerRun list \<Rightarrow> pageShim \<Rightarrow> bool \<times> pageShim" where
  "receiveHandler env resp hs s =
     (case je_parseMsgs env resp of None \<Rightarrow> (True, s) | Some msgs \<Rightarrow> receiveMsgs env msgs hs s)"

text \<open>The success function of the open request: its last call is \<open>poll\<close>.\<close>

definition openSucceeds :: "jsEnv \<Rightarrow> string \<Rightarrow> handlerRun \<Rightarrow> pageShim \<Rightarrow> bool \<times> pageShim" where
  "openSucceeds env resp h s =
     (case je_parseOpen env resp of
        None \<Rightarrow> (True, s)
      | Some (v, sessionID) \<Rightarrow>
          (case give EOpen h (s\<lparr>js_version := (case v of None \<Rightarrow> 0 | Some n \<Rightarrow> n), js_sessionID := sessionID,
                                 js_readyState := OPEN\<rparr>) of
             (True, s1) \<Rightarrow> (True, s1)
           | (False, s1) \<Rightarrow> (False, poll s1)))"

text \<open>\<open>onexit\<close> of each request.\<close>

definition onExit :: "xhrBody \<Rightarrow> handlerRun \<Rightarrow> pageShim \<Rightarrow> pageShim" where
  "onExit x h s =
     (case x of
        OpenBody _ \<Rightarrow> s
      | DataBody _ \<Rightarrow> self_push (s\<lparr>js_pushing := False\<rparr>)
      | PollBody _ \<Rightarrow> poll s
      | CloseBody _ \<Rightarrow> snd (give EClose h (s\<lparr>js_readyState := CLOSED\<rparr>)))"

definition onSuccess :: "jsEnv \<Rightarrow> xhrBody \<Rightarrow> string \<Rightarrow> handlerRun list \<Rightarrow> pageShim \<Rightarrow> bool \<times> pageShim" where
  "onSuccess env x resp hs s =
     (case x of
        OpenBody _ \<Rightarrow> openSucceeds env resp (runAt hs 0) s
      | PollBody _ \<Rightarrow> receiveHandler env resp hs s
      | _ \<Rightarrow> (False, s))"

text \<open>The ready state 4 of a request.\<close>

definition readyStateChange :: "jsEnv \<Rightarrow> xhrBody \<Rightarrow> nat \<Rightarrow> string \<Rightarrow> handlerRun list \<Rightarrow> pageShim \<Rightarrow> pageShim" where
  "readyStateChange env x status resp hs s =
     (case (if status = 200 then onSuccess env x resp hs s
            else if status \<noteq> 408 then give EError (runAt hs 0) s
            else (False, s)) of
        (True, s1) \<Rightarrow> s1
      | (False, s1) \<Rightarrow> onExit x (runAt hs (if status = 200 \<or> status = 408 then 0 else 1)) s1)"

text \<open>
  \<open>loadend\<close> of the FileReader: \<^verbatim>\<open>btoa\<close> may throw; the messages being converted are then lost, and
  \<open>js_pushing\<close> stays.
\<close>

definition loadEnd :: "jsEnv \<Rightarrow> jsMsg list \<Rightarrow> nat \<Rightarrow> pageShim \<Rightarrow> pageShim" where
  "loadEnd env msgs i s =
     (let result = je_readAsText env (blobOf env (jm_msg (msgs ! i)))
      in case (if js_version s \<noteq> 0 then btoa result else Some result) of
           None \<Rightarrow> s\<lparr>js_reading := None, js_lost := js_lost s @ msgs\<rparr>
         | Some t \<Rightarrow> convertMessagesAndPush (msgs[i := (msgs ! i)\<lparr>jm_msg := DArr [t]\<rparr>]) s)"

section \<open>Events\<close>

text \<open>
  The constructor; \<open>None\<close> is an exception. For another host the script uses a variable that is not
  defined there.
\<close>

definition WebSocketShim :: "jsEnv \<Rightarrow> string \<Rightarrow> string \<Rightarrow> pageShim option" where
  "WebSocketShim env locationHost url =
     (case je_host env url of
        None \<Rightarrow> None
      | Some host \<Rightarrow>
          if host \<noteq> locationHost then None
          else Some (self_xhr (OpenBody url)
            \<lparr>js_readyState = CONNECTING, js_version = 0, js_sessionID = [], js_pending = [], js_pushing = False, js_reading = None,
             js_waiting = [], js_issued = [], js_events = [], js_sends = [], js_lost = []\<rparr>))"

datatype jsEvent =
    Page pageCall
  | ReaderLoads
  | XhrDone nat nat string "handlerRun list"

fun jsStep :: "jsEnv \<Rightarrow> jsEvent \<Rightarrow> pageShim \<Rightarrow> pageShim option" where
  "jsStep env (Page c) s = Some (pageCall c s)"
| "jsStep env ReaderLoads s =
     (case js_reading s of None \<Rightarrow> None | Some (msgs, i) \<Rightarrow> Some (loadEnd env msgs i s))"
| "jsStep env (XhrDone k status resp hs) s =
     (if k \<in> set (js_waiting s)
      then Some (readyStateChange env (js_issued s ! k) status resp hs (s\<lparr>js_waiting := remove1 k (js_waiting s)\<rparr>))
      else None)"

section \<open>The address of the endpoints\<close>

text \<open>The path the script's requests go to, and the path the agent serves (\<^verbatim>\<open>Proxy\<close>).\<close>

definition shimUriPath :: "string \<Rightarrow> string" where
  "shimUriPath shimPath = ''/'' @ shimPath @ ''/''"

definition shimPrefix :: "string \<Rightarrow> string" where
  "shimPrefix shimPath = (if shimPath = [] then [] else pathClean (''/'' @ shimPath) @ ''/'')"

definition shimProxyRoute :: "string \<Rightarrow> string \<Rightarrow> shimRoute" where
  "shimProxyRoute shimPath p = shimRoute (shimPrefix shimPath) p"

end
