(* ===== verification/Shim_Client_Correct.thy ===== *)
theory Shim_Client_Correct
  imports Shim_Client
begin

text \<open>
  The invariant of the page's script (\<open>jsInv\<close>): the data of the calls of send is, in order, in the data
  requests made, in the conversion under way and in the pending messages; at most one data request or
  conversion and at most one poll is under way.
\<close>

section \<open>Requests\<close>

fun dataMsgs :: "xhrBody \<Rightarrow> jsMsg list" where
  "dataMsgs (DataBody ms) = ms"
| "dataMsgs _ = []"

definition isData :: "xhrBody \<Rightarrow> bool" where
  "isData x \<longleftrightarrow> (case x of DataBody _ \<Rightarrow> True | _ \<Rightarrow> False)"

definition isPoll :: "xhrBody \<Rightarrow> bool" where
  "isPoll x \<longleftrightarrow> (case x of PollBody _ \<Rightarrow> True | _ \<Rightarrow> False)"

definition isOpen :: "xhrBody \<Rightarrow> bool" where
  "isOpen x \<longleftrightarrow> (case x of OpenBody _ \<Rightarrow> True | _ \<Rightarrow> False)"

lemma kind_simps [simp]:
  "isData (DataBody ms)" "\<not> isData (PollBody i)" "\<not> isData (CloseBody i)" "\<not> isData (OpenBody u)"
  "isPoll (PollBody i)" "\<not> isPoll (DataBody ms)" "\<not> isPoll (CloseBody i)" "\<not> isPoll (OpenBody u)"
  "isOpen (OpenBody u)" "\<not> isOpen (DataBody ms)" "\<not> isOpen (CloseBody i)" "\<not> isOpen (PollBody i)"
  by (simp_all add: isData_def isPoll_def isOpen_def)

definition issuedMsgs :: "pageShim \<Rightarrow> jsMsg list" where
  "issuedMsgs s = concat (map dataMsgs (js_issued s))"

definition waitingOf :: "(xhrBody \<Rightarrow> bool) \<Rightarrow> pageShim \<Rightarrow> nat list" where
  "waitingOf P s = filter (\<lambda>k. P (js_issued s ! k)) (js_waiting s)"

definition waitingInv :: "pageShim \<Rightarrow> bool" where
  "waitingInv s \<longleftrightarrow> (\<forall>k \<in> set (js_waiting s). k < length (js_issued s)) \<and> distinct (js_waiting s)"

lemma self_xhr_frame [simp]:
  "js_readyState (self_xhr x s) = js_readyState s" "js_version (self_xhr x s) = js_version s"
  "js_sessionID (self_xhr x s) = js_sessionID s" "js_pending (self_xhr x s) = js_pending s"
  "js_pushing (self_xhr x s) = js_pushing s" "js_reading (self_xhr x s) = js_reading s"
  "js_sends (self_xhr x s) = js_sends s" "js_lost (self_xhr x s) = js_lost s" "js_events (self_xhr x s) = js_events s"
  "js_issued (self_xhr x s) = js_issued s @ [x]" "js_waiting (self_xhr x s) = js_waiting s @ [length (js_issued s)]"
  "issuedMsgs (self_xhr x s) = issuedMsgs s @ dataMsgs x"
  by (simp_all add: self_xhr_def issuedMsgs_def)

lemma waitingInv_xhr [simp]: "waitingInv s \<Longrightarrow> waitingInv (self_xhr x s)"
  by (auto simp: waitingInv_def)

lemma waitingOf_xhr [simp]:
  "waitingInv s \<Longrightarrow> waitingOf P (self_xhr x s) = waitingOf P s @ (if P x then [length (js_issued s)] else [])"
  by (auto simp: waitingOf_def waitingInv_def nth_append intro: filter_cong)

text \<open>Updates of the other fields.\<close>

lemma waiting_update [simp]:
  "waitingInv (s\<lparr>js_readyState := a\<rparr>) = waitingInv s" "waitingOf P (s\<lparr>js_readyState := a\<rparr>) = waitingOf P s"
  "waitingInv (s\<lparr>js_version := v\<rparr>) = waitingInv s" "waitingOf P (s\<lparr>js_version := v\<rparr>) = waitingOf P s"
  "waitingInv (s\<lparr>js_sessionID := i\<rparr>) = waitingInv s" "waitingOf P (s\<lparr>js_sessionID := i\<rparr>) = waitingOf P s"
  "waitingInv (s\<lparr>js_pending := b\<rparr>) = waitingInv s" "waitingOf P (s\<lparr>js_pending := b\<rparr>) = waitingOf P s"
  "waitingInv (s\<lparr>js_pushing := c\<rparr>) = waitingInv s" "waitingOf P (s\<lparr>js_pushing := c\<rparr>) = waitingOf P s"
  "waitingInv (s\<lparr>js_reading := d\<rparr>) = waitingInv s" "waitingOf P (s\<lparr>js_reading := d\<rparr>) = waitingOf P s"
  "waitingInv (s\<lparr>js_events := e\<rparr>) = waitingInv s" "waitingOf P (s\<lparr>js_events := e\<rparr>) = waitingOf P s"
  "waitingInv (s\<lparr>js_sends := f\<rparr>) = waitingInv s" "waitingOf P (s\<lparr>js_sends := f\<rparr>) = waitingOf P s"
  "waitingInv (s\<lparr>js_lost := g\<rparr>) = waitingInv s" "waitingOf P (s\<lparr>js_lost := g\<rparr>) = waitingOf P s"
  by (simp_all add: waitingInv_def waitingOf_def)

lemma issuedMsgs_update [simp]:
  "issuedMsgs (s\<lparr>js_readyState := a\<rparr>) = issuedMsgs s" "issuedMsgs (s\<lparr>js_pending := b\<rparr>) = issuedMsgs s"
  "issuedMsgs (s\<lparr>js_pushing := c\<rparr>) = issuedMsgs s" "issuedMsgs (s\<lparr>js_reading := d\<rparr>) = issuedMsgs s"
  "issuedMsgs (s\<lparr>js_events := e\<rparr>) = issuedMsgs s" "issuedMsgs (s\<lparr>js_sends := f\<rparr>) = issuedMsgs s"
  "issuedMsgs (s\<lparr>js_lost := g\<rparr>) = issuedMsgs s" "issuedMsgs (s\<lparr>js_waiting := h\<rparr>) = issuedMsgs s"
  by (simp_all add: issuedMsgs_def)

section \<open>Streams of messages\<close>

text \<open>The form in which data is sent; \<open>None\<close> when the conversion throws.\<close>

definition sentForm :: "jsEnv \<Rightarrow> int \<Rightarrow> jsData \<Rightarrow> jsData option" where
  "sentForm env version d =
     (if needsConversion d
      then map_option (\<lambda>t. DArr [t])
             (let text = je_readAsText env (blobOf env d) in if version \<noteq> 0 then btoa text else Some text)
      else Some d)"

definition inConversion :: "pageShim \<Rightarrow> jsMsg list" where
  "inConversion s = (case js_reading s of Some (msgs, _) \<Rightarrow> msgs | None \<Rightarrow> js_lost s)"

definition sentAs :: "jsEnv \<Rightarrow> int \<Rightarrow> jsMsg \<Rightarrow> jsData \<Rightarrow> bool" where
  "sentAs env v m d \<longleftrightarrow> sentForm env v d = Some (jm_msg m)"

definition partlyAs :: "jsEnv \<Rightarrow> int \<Rightarrow> jsMsg \<Rightarrow> jsData \<Rightarrow> bool" where
  "partlyAs env v m d \<longleftrightarrow> jm_msg m = d \<or> sentAs env v m d"

definition streamsInv :: "jsEnv \<Rightarrow> pageShim \<Rightarrow> bool" where
  "streamsInv env s \<longleftrightarrow>
     (\<exists>ds1 ds2. js_sends s = ds1 @ ds2 @ map jm_msg (js_pending s)
        \<and> list_all2 (sentAs env (js_version s)) (issuedMsgs s) ds1
        \<and> list_all2 (partlyAs env (js_version s)) (inConversion s) ds2)
     \<and> (\<forall>m \<in> set (issuedMsgs s) \<union> set (inConversion s) \<union> set (js_pending s). jm_id m = js_sessionID s)"

definition busyInv :: "pageShim \<Rightarrow> bool" where
  "busyInv s \<longleftrightarrow>
     length (waitingOf isData s) \<le> 1
     \<and> (waitingOf isData s \<noteq> [] \<longrightarrow> js_pushing s \<and> js_reading s = None \<and> js_lost s = [])
     \<and> (js_lost s \<noteq> [] \<longrightarrow> js_pushing s \<and> js_reading s = None)
     \<and> (case js_reading s of None \<Rightarrow> True | Some (msgs, i) \<Rightarrow> js_pushing s \<and> firstToConvert msgs = Some i)"

text \<open>The data request under way is the last one made.\<close>

definition latestInv :: "pageShim \<Rightarrow> bool" where
  "latestInv s \<longleftrightarrow> (\<forall>k \<in> set (waitingOf isData s). \<forall>j < length (js_issued s). k < j \<longrightarrow> \<not> isData (js_issued s ! j))"

lemma latestInv_simps [simp]:
  "latestInv (s\<lparr>js_readyState := a\<rparr>) = latestInv s" "latestInv (s\<lparr>js_version := v\<rparr>) = latestInv s"
  "latestInv (s\<lparr>js_sessionID := i\<rparr>) = latestInv s" "latestInv (s\<lparr>js_pending := b\<rparr>) = latestInv s"
  "latestInv (s\<lparr>js_pushing := c\<rparr>) = latestInv s" "latestInv (s\<lparr>js_reading := d\<rparr>) = latestInv s"
  "latestInv (s\<lparr>js_events := e\<rparr>) = latestInv s" "latestInv (s\<lparr>js_sends := f\<rparr>) = latestInv s"
  "latestInv (s\<lparr>js_lost := g\<rparr>) = latestInv s"
  by (simp_all add: latestInv_def)

lemma latestInv_xhr [simp]:
  assumes "waitingInv s" and "latestInv s" and "\<not> isData x \<or> waitingOf isData s = []"
  shows "latestInv (self_xhr x s)"
proof -
  have "\<forall>k \<in> set (waitingOf isData s). k < length (js_issued s)" using assms(1) by (auto simp: waitingOf_def waitingInv_def)
  then show ?thesis using assms by (auto simp: latestInv_def nth_append less_Suc_eq)
qed

definition jsInv :: "jsEnv \<Rightarrow> pageShim \<Rightarrow> bool" where
  "jsInv env s \<longleftrightarrow>
     waitingInv s \<and> streamsInv env s \<and> busyInv s \<and> latestInv s \<and> length (waitingOf isPoll s) \<le> 1
     \<and> (js_readyState s = CONNECTING \<longrightarrow>
          js_sends s = [] \<and> js_pending s = [] \<and> \<not> js_pushing s \<and> (\<exists>u. js_issued s = [OpenBody u]))
     \<and> (js_readyState s \<noteq> CONNECTING \<longrightarrow> 0 \<notin> set (js_waiting s) \<and> js_issued s \<noteq> [])
     \<and> (\<forall>k < length (js_issued s). 0 < k \<longrightarrow> \<not> isOpen (js_issued s ! k))"

lemma firstToConvert_None: "firstToConvert ms = None \<longleftrightarrow> (\<forall>m \<in> set ms. \<not> needsConversion (jm_msg m))"
  by (induction ms) auto

lemma firstToConvert_Some:
  "firstToConvert ms = Some i \<Longrightarrow> i < length ms \<and> needsConversion (jm_msg (ms ! i))"
  by (induction ms arbitrary: i) (auto split: if_splits)

lemma sentForm_needs: "sentForm env v d = Some d' \<Longrightarrow> \<not> needsConversion d'"
  by (auto simp: sentForm_def needsConversion_def split: if_splits)

lemma partlyAs_sentAs: "partlyAs env v m d \<Longrightarrow> \<not> needsConversion (jm_msg m) \<Longrightarrow> sentAs env v m d"
  by (auto simp: partlyAs_def sentAs_def sentForm_def)

text \<open>A batch of messages goes into conversion, or into a request.\<close>

lemma convert_inv:
  assumes "waitingInv s" and "length (waitingOf isPoll s) \<le> 1 \<and> latestInv s" and "0 \<notin> set (js_waiting s) \<and> js_issued s \<noteq> []"
    and "\<forall>k < length (js_issued s). 0 < k \<longrightarrow> \<not> isOpen (js_issued s ! k)"
    and "\<forall>m \<in> set (issuedMsgs s) \<union> set (js_pending s). jm_id m = js_sessionID s"
    and "js_pushing s" and "waitingOf isData s = []" and "js_readyState s \<noteq> CONNECTING"
    and "js_sends s = ds1 @ ds2 @ map jm_msg (js_pending s)"
    and "list_all2 (sentAs env (js_version s)) (issuedMsgs s) ds1"
    and "list_all2 (partlyAs env (js_version s)) msgs ds2" and "\<forall>m \<in> set msgs. jm_id m = js_sessionID s"
    and "js_lost s = []"
  shows "jsInv env (convertMessagesAndPush msgs s)"
proof (cases "firstToConvert msgs")
  case None
  then have "list_all2 (sentAs env (js_version s)) msgs ds2"
    using assms(11) partlyAs_sentAs by (auto simp: firstToConvert_None elim!: list_all2_mono [rotated] intro: list.rel_mono_strong)
  then have "list_all2 (sentAs env (js_version s)) (issuedMsgs s @ msgs) (ds1 @ ds2)"
    using assms(10) by (simp add: list_all2_appendI)
  then show ?thesis using assms None
    by (auto simp: convertMessagesAndPush_def jsInv_def streamsInv_def busyInv_def inConversion_def nth_append
        intro!: exI [of _ "ds1 @ ds2"] exI [of _ "[]"])
next
  case (Some i)
  then show ?thesis using assms
    by (auto simp: convertMessagesAndPush_def jsInv_def streamsInv_def busyInv_def inConversion_def)
qed

section \<open>Calls of the page\<close>

lemma push_inv:
  assumes "jsInv env s" and "js_readyState s \<noteq> CONNECTING"
  shows "jsInv env (self_push s)"
proof (cases "js_pushing s \<or> js_pending s = []")
  case False
  then have quiet: "waitingOf isData s = []" "js_reading s = None" "js_lost s = []"
    using assms(1) by (auto simp: jsInv_def busyInv_def split: option.splits)
  let ?s = "s\<lparr>js_pushing := True, js_pending := []\<rparr>"
  obtain ds1 ds2 where d: "js_sends s = ds1 @ ds2 @ map jm_msg (js_pending s)"
      "list_all2 (sentAs env (js_version s)) (issuedMsgs s) ds1" "ds2 = []"
    using assms(1) quiet by (auto simp: jsInv_def streamsInv_def inConversion_def)
  have "list_all2 (partlyAs env (js_version s)) (js_pending s) (map jm_msg (js_pending s))"
    by (simp add: list_all2_conv_all_nth partlyAs_def)
  moreover have "\<forall>m \<in> set (js_pending s). jm_id m = js_sessionID s"
    using assms(1) by (auto simp: jsInv_def streamsInv_def)
  ultimately have "jsInv env (convertMessagesAndPush (js_pending s) ?s)"
    using assms quiet d
    by (intro convert_inv [of _ ds1 "map jm_msg (js_pending s)"]) (auto simp: jsInv_def streamsInv_def)
  then show ?thesis using False by (simp add: self_push_def)
qed (use assms in \<open>auto simp: self_push_def\<close>)

lemma js_send_inv:
  assumes "jsInv env s" and "js_send d s = Some s'"
  shows "jsInv env s'"
proof -
  let ?s = "s\<lparr>js_pending := js_pending s @ [\<lparr>jm_id = js_sessionID s, jm_msg = d\<rparr>], js_sends := js_sends s @ [d]\<rparr>"
  have o: "js_readyState s = OPEN" "s' = self_push ?s" using assms(2) by (auto simp: js_send_def split: if_splits)
  have conv: "inConversion ?s = inConversion s" by (simp add: inConversion_def cong: option.case_cong)
  obtain ds1 ds2 where "js_sends s = ds1 @ ds2 @ map jm_msg (js_pending s)"
      "list_all2 (sentAs env (js_version s)) (issuedMsgs s) ds1"
      "list_all2 (partlyAs env (js_version s)) (inConversion s) ds2"
      "\<forall>m \<in> set (issuedMsgs s) \<union> set (inConversion s) \<union> set (js_pending s). jm_id m = js_sessionID s"
    using assms(1) by (auto simp: jsInv_def streamsInv_def)
  then have "streamsInv env ?s"
    unfolding streamsInv_def conv by (intro conjI exI [of _ ds1] exI [of _ ds2]) auto
  moreover have "busyInv ?s" using assms(1) by (simp add: jsInv_def busyInv_def cong: option.case_cong)
  ultimately have "jsInv env ?s" using assms(1) o by (simp add: jsInv_def state_defs)
  then show ?thesis using o push_inv by (simp add: state_defs)
qed

lemma close_inv: "jsInv env s \<Longrightarrow> jsInv env (js_close s)"
  by (auto simp: js_close_def jsInv_def streamsInv_def busyInv_def inConversion_def state_defs nth_append split: option.splits)

lemma poll_inv:
  assumes "jsInv env s" and "waitingOf isPoll s = []"
  shows "jsInv env (poll s)"
  using assms
  by (auto simp: poll_def jsInv_def streamsInv_def busyInv_def inConversion_def state_defs nth_append split: option.splits)

lemma pageCall_inv: "jsInv env s \<Longrightarrow> jsInv env (pageCall c s)"
  using js_send_inv close_inv by (auto simp: pageCall_def split: pageCall.split option.split)

text \<open>What the page's calls leave alone.\<close>

definition pageFrame :: "pageShim \<Rightarrow> pageShim \<Rightarrow> bool" where
  "pageFrame s s' \<longleftrightarrow>
     waitingOf isPoll s' = waitingOf isPoll s \<and> js_version s' = js_version s \<and> js_sessionID s' = js_sessionID s
     \<and> (js_readyState s' = CONNECTING \<longleftrightarrow> js_readyState s = CONNECTING)
     \<and> (js_pushing s \<longrightarrow> js_pushing s' \<and> js_reading s' = js_reading s \<and> js_lost s' = js_lost s
          \<and> waitingOf isData s' = waitingOf isData s)"

lemma pageFrame_refl: "pageFrame s s"
  by (simp add: pageFrame_def)

lemma pageFrame_trans: "pageFrame s t \<Longrightarrow> pageFrame t u \<Longrightarrow> pageFrame s u"
  by (auto simp: pageFrame_def)

lemma push_frame: "waitingInv s \<Longrightarrow> pageFrame s (self_push s)"
  by (auto simp: pageFrame_def self_push_def convertMessagesAndPush_def split: option.split)

lemma pageCall_frame:
  assumes "jsInv env s"
  shows "pageFrame s (pageCall c s)"
proof (cases c)
  case (PSend d)
  have "pageFrame s (self_push (s\<lparr>js_pending := js_pending s @ [m], js_sends := js_sends s @ [d]\<rparr>))" for m
    using push_frame [of "s\<lparr>js_pending := js_pending s @ [m], js_sends := js_sends s @ [d]\<rparr>"] assms
    by (simp add: jsInv_def pageFrame_def)
  then show ?thesis using PSend pageFrame_refl by (simp add: pageCall_def js_send_def)
next
  case PClose
  then show ?thesis using assms by (auto simp: pageCall_def js_close_def pageFrame_def jsInv_def state_defs)
qed

lemma calls_inv: "jsInv env s \<Longrightarrow> jsInv env (fold pageCall cs s) \<and> pageFrame s (fold pageCall cs s)"
proof (induction cs arbitrary: s)
  case (Cons c cs)
  then show ?case
    using Cons.IH [OF pageCall_inv [OF Cons.prems]] pageFrame_trans [OF pageCall_frame [OF Cons.prems]] by auto
qed (simp add: pageFrame_refl)

lemma give_inv:
  assumes "jsInv env s" and "give e h s = (thrown, s')"
  shows "jsInv env s' \<and> pageFrame s s'"
proof -
  let ?s = "s\<lparr>js_events := js_events s @ [e]\<rparr>"
  have "jsInv env ?s" using assms(1) by (simp add: jsInv_def streamsInv_def busyInv_def inConversion_def cong: option.case_cong)
  from calls_inv [OF this] show ?thesis using assms(2) by (auto simp: give_def pageFrame_def)
qed

lemma receive_inv:
  assumes "jsInv env s" and "receiveMsgs env ms hs s = (thrown, s')"
  shows "jsInv env s' \<and> pageFrame s s'"
  using assms
proof (induction env ms hs s rule: receiveMsgs.induct)
  case (2 env m ms hs s)
  show ?case
  proof (cases "receivedData env (js_version s) m")
    case (Some d)
    obtain b s1 where g: "give (EMessage d) (runAt hs 0) s = (b, s1)" by fastforce
    note s1 = give_inv [OF 2(2) g]
    show ?thesis
      using 2(1) [OF Some g [symmetric]] 2(3) Some g s1 pageFrame_trans by (cases b) auto
  qed (use 2 pageFrame_refl in auto)
qed (auto simp: pageFrame_refl)

section \<open>Completed requests\<close>

lemma filter_removeAll: "filter P (removeAll k xs) = removeAll k (filter P xs)"
  by (induction xs) auto

lemma waitingOf_remove:
  "waitingInv s \<Longrightarrow> waitingOf P (s\<lparr>js_waiting := remove1 k (js_waiting s)\<rparr>) = removeAll k (waitingOf P s)"
  by (simp add: waitingOf_def waitingInv_def distinct_remove1_removeAll filter_removeAll)

lemma remove_waiting_inv:
  assumes "jsInv env s"
  shows "jsInv env (s\<lparr>js_waiting := remove1 k (js_waiting s)\<rparr>)"
proof -
  let ?s = "s\<lparr>js_waiting := remove1 k (js_waiting s)\<rparr>"
  have w: "waitingInv s" using assms by (simp add: jsInv_def)
  have le: "length (removeAll k xs) \<le> n" if "length xs \<le> n" for xs :: "nat list" and n
    by (rule le_trans [OF length_removeAll_less_eq that])
  have "waitingInv ?s" using w by (simp add: waitingInv_def)
  moreover have "streamsInv env ?s"
    using assms by (simp add: jsInv_def streamsInv_def inConversion_def cong: option.case_cong)
  moreover have "busyInv ?s"
    using assms le by (auto simp: jsInv_def busyInv_def waitingOf_remove [OF w] cong: option.case_cong)
  moreover have "latestInv ?s" using assms by (auto simp: jsInv_def latestInv_def waitingOf_remove [OF w])
  moreover have "0 \<notin> set (js_waiting ?s)" if "0 \<notin> set (js_waiting s)" using that notin_set_remove1 by simp
  ultimately show ?thesis using assms le by (simp add: jsInv_def waitingOf_remove [OF w])
qed

lemma only_waiting:
  assumes "jsInv env s" and "k \<in> set (js_waiting s)" and "P (js_issued s ! k)" and "length (waitingOf P s) \<le> 1"
  shows "waitingOf P (s\<lparr>js_waiting := remove1 k (js_waiting s)\<rparr>) = []"
proof -
  have "k \<in> set (waitingOf P s)" using assms(2,3) by (simp add: waitingOf_def)
  then have "waitingOf P s = [k]" using assms(4) by (cases "waitingOf P s") auto
  then show ?thesis using assms(1) by (simp add: waitingOf_remove jsInv_def)
qed

lemma exit_inv:
  assumes "jsInv env s"
    and "isData x \<Longrightarrow> waitingOf isData s = [] \<and> js_reading s = None \<and> js_lost s = [] \<and> js_readyState s \<noteq> CONNECTING"
    and "isPoll x \<Longrightarrow> waitingOf isPoll s = []"
    and "js_readyState s = CONNECTING \<Longrightarrow> isOpen x"
  shows "jsInv env (onExit x h s)"
proof (cases x)
  case (OpenBody u)
  then show ?thesis using assms(1) by (simp add: onExit_def)
next
  case (DataBody ms)
  then have d: "waitingOf isData s = []" "js_reading s = None" "js_lost s = []" "js_readyState s \<noteq> CONNECTING" using assms(2) by simp_all
  then have "jsInv env (s\<lparr>js_pushing := False\<rparr>)"
    using assms(1) by (simp add: jsInv_def streamsInv_def busyInv_def inConversion_def)
  then show ?thesis using DataBody d push_inv by (simp add: onExit_def)
next
  case (PollBody i)
  then show ?thesis using assms(1,3) poll_inv by (simp add: onExit_def)
next
  case (CloseBody i)
  then have "js_readyState s \<noteq> CONNECTING" using assms(4) by auto
  then have "jsInv env (s\<lparr>js_readyState := CLOSED\<rparr>)"
    using assms(1)
    by (simp add: jsInv_def streamsInv_def busyInv_def inConversion_def state_defs cong: option.case_cong)
  then show ?thesis using CloseBody give_inv by (simp add: onExit_def) (metis prod.collapse)
qed

lemma open_inv:
  assumes "jsInv env s" and "js_readyState s = CONNECTING" and "js_waiting s = []" and "openSucceeds env resp h s = (thrown, s')"
  shows "jsInv env s'"
proof (cases "je_parseOpen env resp")
  case (Some p)
  obtain v i where p: "p = (v, i)" by fastforce
  let ?s = "s\<lparr>js_version := (case v of None \<Rightarrow> 0 | Some n \<Rightarrow> n), js_sessionID := i, js_readyState := OPEN\<rparr>"
  obtain u where i: "js_issued s = [OpenBody u]" "js_sends s = []" "js_pending s = []" "\<not> js_pushing s"
    using assms(1,2) by (auto simp: jsInv_def)
  have q: "js_reading s = None" "js_lost s = []"
    using assms(1) i(4) by (auto simp: jsInv_def busyInv_def split: option.splits)
  have s: "jsInv env ?s"
    using assms i q by (auto simp: jsInv_def streamsInv_def busyInv_def inConversion_def state_defs issuedMsgs_def)
  obtain b s1 where g: "give EOpen h ?s = (b, s1)" by fastforce
  have "waitingOf isPoll ?s = []" using assms(3) by (simp add: waitingOf_def)
  then have "waitingOf isPoll s1 = []" using give_inv [OF s g] by (simp add: pageFrame_def)
  then show ?thesis using assms(4) Some p g give_inv [OF s g] poll_inv by (cases b) (auto simp: openSucceeds_def)
qed (use assms in \<open>simp add: openSucceeds_def\<close>)

lemma loadEnd_inv:
  assumes "jsInv env s" and "js_reading s = Some (msgs, i)"
  shows "jsInv env (loadEnd env msgs i s)"
proof -
  let ?text = "je_readAsText env (blobOf env (jm_msg (msgs ! i)))"
  have b: "js_pushing s" "firstToConvert msgs = Some i" "waitingOf isData s = []" "js_lost s = []"
    using assms by (auto simp: jsInv_def busyInv_def)
  have rs: "js_readyState s \<noteq> CONNECTING" using assms(1) b(1) by (auto simp: jsInv_def)
  obtain ds1 ds2 where d: "js_sends s = ds1 @ ds2 @ map jm_msg (js_pending s)"
      "list_all2 (sentAs env (js_version s)) (issuedMsgs s) ds1"
      "list_all2 (partlyAs env (js_version s)) msgs ds2" "\<forall>m \<in> set msgs. jm_id m = js_sessionID s"
    using assms by (auto simp: jsInv_def streamsInv_def inConversion_def)
  note i = firstToConvert_Some [OF b(2)]
  show ?thesis
  proof (cases "if js_version s \<noteq> 0 then btoa ?text else Some ?text")
    case None
    then have "loadEnd env msgs i s = s\<lparr>js_reading := None, js_lost := msgs\<rparr>" using b(4) by (simp add: loadEnd_def Let_def)
    then show ?thesis using assms b d by (auto simp: jsInv_def streamsInv_def busyInv_def inConversion_def)
  next
    case (Some t)
    let ?msgs = "msgs[i := (msgs ! i)\<lparr>jm_msg := DArr [t]\<rparr>]"
    have len: "i < length ds2" using d(3) i list_all2_lengthD by fastforce
    have "partlyAs env (js_version s) (msgs ! i) (ds2 ! i)" using d(3) i by (simp add: list_all2_conv_all_nth)
    then have raw: "jm_msg (msgs ! i) = ds2 ! i" using i sentForm_needs by (auto simp: partlyAs_def sentAs_def)
    have "sentForm env (js_version s) (ds2 ! i) = Some (DArr [t])"
      using Some i raw by (auto simp: sentForm_def Let_def split: if_splits)
    then have "partlyAs env (js_version s) ((msgs ! i)\<lparr>jm_msg := DArr [t]\<rparr>) (ds2 ! i)" by (simp add: partlyAs_def sentAs_def)
    then have "list_all2 (partlyAs env (js_version s)) ?msgs ds2"
      using d(3) list_all2_update_cong [of _ msgs ds2 _ "ds2 ! i" i] by (metis list_update_id)
    moreover have "\<forall>m \<in> set ?msgs. jm_id m = js_sessionID s"
      using d(4) i set_update_subset_insert [of msgs i] by (fastforce dest: subsetD)
    ultimately have "jsInv env (convertMessagesAndPush ?msgs s)"
      using assms(1) b rs d by (intro convert_inv [of s ds1 ds2]) (auto simp: jsInv_def streamsInv_def)
    then show ?thesis using Some by (simp add: loadEnd_def Let_def)
  qed
qed

text \<open>The part of a completed request before \<open>onexit\<close>, for the requests other than open.\<close>

lemma before_exit_inv:
  assumes "jsInv env s" and "\<not> isOpen x"
    and "(if status = 200 then onSuccess env x resp hs s else if status \<noteq> 408 then give EError (runAt hs 0) s else (False, s)) = (thrown, s1)"
  shows "jsInv env s1 \<and> pageFrame s s1"
proof (cases "status = 200 \<and> isPoll x")
  case True
  then obtain i where "x = PollBody i" by (cases x) auto
  then have "receiveHandler env resp hs s = (thrown, s1)" using assms(3) True by (simp add: onSuccess_def)
  then show ?thesis using receive_inv [OF assms(1)] assms(1) pageFrame_refl
    by (auto simp: receiveHandler_def split: option.splits)
next
  case False
  then consider "thrown = False \<and> s1 = s" | "give EError (runAt hs 0) s = (thrown, s1)"
  proof (cases "status = 200")
    case True
    then have "thrown = False \<and> s1 = s" using False assms(2,3) by (cases x) (simp_all add: onSuccess_def)
    then show ?thesis using that by blast
  next
    case False
    then show ?thesis using assms(3) that by (cases "status = 408") simp_all
  qed
  then show ?thesis
  proof cases
    case 1
    then show ?thesis using assms(1) pageFrame_refl by simp
  next
    case 2
    then show ?thesis by (rule give_inv [OF assms(1)])
  qed
qed

lemma open_done_inv:
  assumes "jsInv env s" and "js_readyState s = CONNECTING" and "js_waiting s = []"
  shows "jsInv env (readyStateChange env (OpenBody u) status resp hs s)"
proof -
  obtain thrown s1 where r: "(if status = 200 then onSuccess env (OpenBody u) resp hs s
      else if status \<noteq> 408 then give EError (runAt hs 0) s else (False, s)) = (thrown, s1)" by fastforce
  then have "jsInv env s1"
    using assms open_inv [OF assms] give_inv [OF assms(1)] by (auto simp: onSuccess_def split: if_splits)
  then show ?thesis using r by (cases thrown) (simp_all add: readyStateChange_def onExit_def)
qed

lemma other_done_inv:
  assumes "jsInv env s" and "k \<in> set (js_waiting s)" and "\<not> isOpen (js_issued s ! k)"
  shows "jsInv env (readyStateChange env (js_issued s ! k) status resp hs (s\<lparr>js_waiting := remove1 k (js_waiting s)\<rparr>))"
proof -
  let ?x = "js_issued s ! k" and ?s = "s\<lparr>js_waiting := remove1 k (js_waiting s)\<rparr>"
  have "k < length (js_issued s)" using assms(1,2) by (simp add: jsInv_def waitingInv_def)
  then have rs: "js_readyState s \<noteq> CONNECTING" using assms(1,3) by (auto simp: jsInv_def)
  have inv: "jsInv env ?s" by (rule remove_waiting_inv [OF assms(1)])
  have data: "waitingOf isData ?s = [] \<and> js_pushing ?s \<and> js_reading ?s = None \<and> js_lost ?s = []" if "isData ?x"
  proof -
    have "waitingOf isData s \<noteq> []" using assms(2) that by (auto simp: waitingOf_def filter_empty_conv)
    then show ?thesis using assms(1) only_waiting [OF assms(1,2), of isData] that by (simp add: jsInv_def busyInv_def)
  qed
  have polls: "waitingOf isPoll ?s = []" if "isPoll ?x"
    using only_waiting [OF assms(1,2), of isPoll] that assms(1) by (simp add: jsInv_def)
  obtain thrown s1 where r: "(if status = 200 then onSuccess env ?x resp hs ?s
      else if status \<noteq> 408 then give EError (runAt hs 0) ?s else (False, ?s)) = (thrown, s1)" by fastforce
  note s1 = before_exit_inv [OF inv assms(3) r]
  then have "jsInv env (onExit ?x h s1)" for h
    using data polls rs by (intro exit_inv) (auto simp: pageFrame_def)
  then show ?thesis using r s1 by (cases thrown) (simp_all add: readyStateChange_def)
qed

lemma jsInv_step:
  assumes "jsInv env s" and "jsStep env e s = Some s'"
  shows "jsInv env s'"
proof (cases e)
  case (Page c)
  then show ?thesis using pageCall_inv [OF assms(1), of c] assms(2) by auto
next
  case ReaderLoads
  then show ?thesis using assms loadEnd_inv by (auto split: option.splits)
next
  case (XhrDone k status resp hs)
  then have k: "k \<in> set (js_waiting s)"
    "s' = readyStateChange env (js_issued s ! k) status resp hs (s\<lparr>js_waiting := remove1 k (js_waiting s)\<rparr>)"
    using assms(2) by (auto split: if_splits)
  show ?thesis
  proof (cases "isOpen (js_issued s ! k)")
    case True
    then have k0: "k = 0" using assms(1) k(1) by (auto simp: jsInv_def waitingInv_def)
    then have rs: "js_readyState s = CONNECTING" using assms(1) k(1) by (auto simp: jsInv_def)
    then obtain u where u: "js_issued s = [OpenBody u]" using assms(1) by (auto simp: jsInv_def)
    have "distinct (js_waiting s)" "set (js_waiting s) \<subseteq> {0}" "0 \<in> set (js_waiting s)"
      using assms(1) u k(1) k0 by (auto simp: jsInv_def waitingInv_def)
    then have "remove1 k (js_waiting s) = []"
      unfolding k0 by (metis Diff_eq_empty_iff set_empty set_remove1_eq)
    then have "jsInv env (readyStateChange env (OpenBody u) status resp hs (s\<lparr>js_waiting := remove1 k (js_waiting s)\<rparr>))"
      using rs by (intro open_done_inv [OF remove_waiting_inv [OF assms(1)]]) simp_all
    then show ?thesis unfolding k(2) by (simp add: u k0)
  next
    case False
    show ?thesis unfolding k(2) by (rule other_done_inv [OF assms(1) k(1) False])
  qed
qed

interpretation page: event_system "jsStep env" "jsInv env"
  by unfold_locales (rule jsInv_step)

lemma jsInv_new: "WebSocketShim env locationHost url = Some s \<Longrightarrow> jsInv env s"
  by (auto simp: WebSocketShim_def jsInv_def latestInv_def waitingInv_def streamsInv_def busyInv_def inConversion_def issuedMsgs_def
      waitingOf_def self_xhr_def state_defs split: option.splits if_splits)

end
