(* ===== verification/Shim_Client_Properties.thy ===== *)
theory Shim_Client_Properties
  imports Shim_Client_Correct Websocket_Properties
begin

text \<open>
  Properties of the script that replaces the browser's WebSocket in pages: the messages a page sends
  leave in order and well-typed for the agent; and its defects, with binary messages, with sessions the
  backend closes, with connections to other hosts and with the path it is configured for.
\<close>

section \<open>Messages leave in order\<close>

text \<open>Messages only wait while something is being pushed.\<close>

definition idleInv :: "pageShim \<Rightarrow> bool" where
  "idleInv s \<longleftrightarrow> (js_pending s \<noteq> [] \<longrightarrow> js_pushing s)"

lemma idle_push: "idleInv (self_push s)"
  by (auto simp: idleInv_def self_push_def convertMessagesAndPush_def split: option.split)

lemma idle_call: "idleInv s \<Longrightarrow> idleInv (pageCall c s)"
  using idle_push by (auto simp: pageCall_def js_send_def js_close_def idleInv_def split: pageCall.split option.split)

lemma idle_give: "idleInv s \<Longrightarrow> give e h s = (b, s') \<Longrightarrow> idleInv s'"
proof -
  have "idleInv (fold pageCall cs s)" if "idleInv s" for cs and s :: pageShim
    using that idle_call by (induction cs arbitrary: s) auto
  then show "idleInv s \<Longrightarrow> give e h s = (b, s') \<Longrightarrow> idleInv s'"
    by (auto simp: give_def idleInv_def)
qed

lemma idle_poll: "idleInv s \<Longrightarrow> idleInv (poll s)"
  by (simp add: poll_def idleInv_def)

lemma idle_receive: "idleInv s \<Longrightarrow> receiveMsgs env ms hs s = (b, s') \<Longrightarrow> idleInv s'"
  by (induction env ms hs s rule: receiveMsgs.induct) (auto dest: idle_give split: option.splits prod.splits bool.splits)

lemma idle_success: "idleInv s \<Longrightarrow> onSuccess env x resp hs s = (b, s') \<Longrightarrow> idleInv s'"
proof (cases x)
  case (OpenBody u)
  have "idleInv s \<Longrightarrow> give EOpen h (s\<lparr>js_version := v, js_sessionID := i, js_readyState := OPEN\<rparr>) = (c, t) \<Longrightarrow> idleInv t" for h v i c t
    by (rule idle_give) (auto simp: idleInv_def)
  then show "idleInv s \<Longrightarrow> onSuccess env x resp hs s = (b, s') \<Longrightarrow> idleInv s'"
    using OpenBody idle_poll by (fastforce simp: onSuccess_def openSucceeds_def split: option.splits prod.splits bool.splits)
qed (auto simp: onSuccess_def receiveHandler_def dest: idle_receive split: option.splits)

lemma idle_exit: "idleInv s \<Longrightarrow> idleInv (onExit x h s)"
proof (cases x)
  case (CloseBody i)
  have "idleInv s \<Longrightarrow> idleInv (snd (give EClose h (s\<lparr>js_readyState := CLOSED\<rparr>)))"
    by (rule idle_give [of "s\<lparr>js_readyState := CLOSED\<rparr>" EClose h "fst (give EClose h (s\<lparr>js_readyState := CLOSED\<rparr>))"])
      (simp_all add: idleInv_def)
  then show "idleInv s \<Longrightarrow> idleInv (onExit x h s)" using CloseBody by (simp add: onExit_def)
qed (auto simp: onExit_def idle_push idle_poll)

lemma idle_done: "idleInv s \<Longrightarrow> idleInv (readyStateChange env x status resp hs s)"
  by (auto simp: readyStateChange_def idle_exit dest: idle_success idle_give split: prod.splits bool.splits)

lemma idle_step: "idleInv s \<Longrightarrow> jsStep env e s = Some s' \<Longrightarrow> idleInv s'"
proof (cases e)
  case (XhrDone k status resp hs)
  have "idleInv (s\<lparr>js_waiting := w\<rparr>) = idleInv s" for w by (simp add: idleInv_def)
  then show "idleInv s \<Longrightarrow> jsStep env e s = Some s' \<Longrightarrow> idleInv s'" using XhrDone idle_done by (auto split: if_splits)
next
  case ReaderLoads
  then show "idleInv s \<Longrightarrow> jsStep env e s = Some s' \<Longrightarrow> idleInv s'"
    by (auto simp: loadEnd_def convertMessagesAndPush_def idleInv_def Let_def split: option.splits)
qed (auto dest: idle_call)

interpretation idle: event_system "jsStep env" idleInv
  by unfold_locales (rule idle_step)

text \<open>C12. A page's messages leave in order, once each: whatever the page does, its handlers included, and however
  requests end, the messages of all data requests made are the data of the first successful calls of send,
  in their order, converted for the wire; every message carries the session's ID; at most one
  data request and one poll are under way; and when nothing is being pushed every message has left.\<close>

theorem page_messages_in_order:
  assumes "WebSocketShim env locationHost url = Some s0" and "reachable (jsStep env) s0 s"
  shows "length (issuedMsgs s) \<le> length (js_sends s)
       \<and> map (Some \<circ> jm_msg) (issuedMsgs s) = map (sentForm env (js_version s)) (take (length (issuedMsgs s)) (js_sends s))
       \<and> (\<forall>m \<in> set (issuedMsgs s). jm_id m = js_sessionID s)
       \<and> length (waitingOf isData s) \<le> 1 \<and> length (waitingOf isPoll s) \<le> 1
       \<and> (\<not> js_pushing s \<longrightarrow> waitingOf isData s = [] \<and> length (issuedMsgs s) = length (js_sends s))"
proof -
  have inv: "jsInv env s" by (rule page.inv_reachable [OF assms(2) jsInv_new [OF assms(1)]])
  have "idleInv s0" using assms(1) by (auto simp: WebSocketShim_def idleInv_def split: option.splits if_splits)
  then have idle: "idleInv s" by (rule idle.inv_reachable [OF assms(2)])
  obtain ds1 ds2 where d: "js_sends s = ds1 @ ds2 @ map jm_msg (js_pending s)"
      "list_all2 (sentAs env (js_version s)) (issuedMsgs s) ds1"
      "list_all2 (partlyAs env (js_version s)) (inConversion s) ds2"
    using inv by (auto simp: jsInv_def streamsInv_def)
  have len: "length (issuedMsgs s) = length ds1" "length (inConversion s) = length ds2"
    using d(2,3) by (simp_all add: list_all2_lengthD)
  have "map (Some \<circ> jm_msg) (issuedMsgs s) = map (sentForm env (js_version s)) ds1"
    using d(2) by (auto simp: list_eq_iff_nth_eq list_all2_conv_all_nth sentAs_def)
  moreover have "length (issuedMsgs s) = length (js_sends s) \<and> waitingOf isData s = []" if "\<not> js_pushing s"
  proof -
    have "js_pending s = []" "inConversion s = []" "waitingOf isData s = []"
      using that inv idle by (auto simp: jsInv_def busyInv_def idleInv_def inConversion_def split: option.splits)
    then show ?thesis using d(1) len by simp
  qed
  moreover have "\<forall>m \<in> set (issuedMsgs s). jm_id m = js_sessionID s"
    "length (waitingOf isData s) \<le> 1" "length (waitingOf isPoll s) \<le> 1"
    using inv by (simp_all add: jsInv_def streamsInv_def busyInv_def)
  moreover have "length (issuedMsgs s) \<le> length (js_sends s)" "take (length (issuedMsgs s)) (js_sends s) = ds1"
    using d(1) len by simp_all
  ultimately show ?thesis by simp
qed

definition exampleJs :: jsEnv where
  "exampleJs = \<lparr>je_toString = (\<lambda>_. []), je_host = (\<lambda>_. Some ''h''), je_readAsText = toValidUTF8,
     je_atob = base64Decode, je_parseOpen = (\<lambda>i. Some (Some 1, i)), je_parseMsgs = (\<lambda>_. Some [])\<rparr>"

definition exampleJsEvents :: "jsEvent list" where
  "exampleJsEvents = [XhrDone 0 200 ''7'' [], Page (PSend (DText ''a'')), Page (PSend (DBlob ''bc'')), Page (PSend (DText ''d'')),
     XhrDone 2 200 [] [], ReaderLoads, XhrDone 3 200 [] []]"

lemma exampleJs_run:
  "case WebSocketShim exampleJs ''h'' ''ws://h/x'' of None \<Rightarrow> False
   | Some s0 \<Rightarrow>
       (case run_events (jsStep exampleJs) exampleJsEvents s0 of None \<Rightarrow> False
        | Some s \<Rightarrow> map jm_msg (issuedMsgs s) = [DText ''a'', DArr [''YmM=''], DText ''d''] \<and> \<not> js_pushing s
            \<and> js_version s = 1 \<and> js_sends s = [DText ''a'', DBlob ''bc'', DText ''d''])"
  by (simp add: WebSocketShim_def exampleJs_def exampleJsEvents_def self_xhr_def readyStateChange_def onSuccess_def openSucceeds_def
      give_def runAt_def poll_def state_defs pageCall_def js_send_def self_push_def convertMessagesAndPush_def needsConversion_def
      loadEnd_def btoa_def blobOf_def DecodeRune_def RuneError_def onExit_def issuedMsgs_def enc6_def char_of_eq_byte Let_def)

theorem page_messages_in_order_witness:
  "\<exists>s0 s. WebSocketShim exampleJs ''h'' ''ws://h/x'' = Some s0 \<and> run_events (jsStep exampleJs) exampleJsEvents s0 = Some s
     \<and> length (issuedMsgs s) = length (js_sends s) \<and> js_sends s = [DText ''a'', DBlob ''bc'', DText ''d'']"
proof -
  obtain s0 s where s: "WebSocketShim exampleJs ''h'' ''ws://h/x'' = Some s0" "run_events (jsStep exampleJs) exampleJsEvents s0 = Some s"
      "\<not> js_pushing s" "js_sends s = [DText ''a'', DBlob ''bc'', DText ''d'']"
    using exampleJs_run by (auto split: option.splits)
  then show ?thesis using page_messages_in_order [OF s(1) run_events_reachable [OF s(2)]] by blast
qed

section \<open>Messages are well-typed for the agent\<close>

text \<open>The websocket message that data stands for after its trip through the browser.\<close>

definition pageMessage :: "jsEnv \<Rightarrow> jsData \<Rightarrow> wsMessage" where
  "pageMessage env d =
     (case d of
        DText s \<Rightarrow> \<lparr>m_Type = TextMessage, m_Data = s\<rparr>
      | _ \<Rightarrow> \<lparr>m_Type = BinaryMessage, m_Data = map char_of (codePoints (je_readAsText env (blobOf env d)))\<rparr>)"

definition arrayOfOne :: "jsData \<Rightarrow> bool" where
  "arrayOfOne d \<longleftrightarrow> (case d of DArr ss \<Rightarrow> length ss = 1 | _ \<Rightarrow> False)"

lemma sentForm_accepted:
  assumes "sentForm env v d = Some d'" and "v \<noteq> 0" and "\<not> arrayOfOne d"
  shows "clientMessageOf shw v (stringify d') = Inr (Some (pageMessage env d))"
proof (cases "needsConversion d")
  case True
  then have "pageMessage env d = \<lparr>m_Type = BinaryMessage, m_Data = map char_of (codePoints (je_readAsText env (blobOf env d)))\<rparr>"
    by (auto simp: pageMessage_def needsConversion_def split: jsData.splits)
  then show ?thesis
    using True assms(1,2)
    by (auto simp: sentForm_def btoa_def stringify_def clientMessageOf_def base64_round_trip Let_def split: if_splits)
next
  case False
  then obtain s where "d = DText s" using assms(3) by (cases d) (auto simp: needsConversion_def arrayOfOne_def)
  then show ?thesis using False assms(1) by (auto simp: sentForm_def stringify_def clientMessageOf_def pageMessage_def)
qed

lemma codePoints_ascii: "list_all (\<lambda>c. byte c < 128) s \<Longrightarrow> codePoints s = map byte s"
  by (induction s) (simp_all add: DecodeRune_def)



section \<open>Defects of the script\<close>

text \<open>What a state keeps in which a conversion has thrown.\<close>

definition wedged :: "jsMsg list \<Rightarrow> pageShim \<Rightarrow> bool" where
  "wedged ms s \<longleftrightarrow> js_pushing s \<and> js_reading s = None \<and> waitingOf isData s = [] \<and> js_lost s \<noteq> [] \<and> issuedMsgs s = ms"

lemma wedged_xhr [simp]: "waitingInv s \<Longrightarrow> \<not> isData x \<Longrightarrow> wedged ms (self_xhr x s) = wedged ms s"
  by (cases x) (simp_all add: wedged_def)

lemma wedged_call:
  assumes "jsInv env s" and "wedged ms s"
  shows "wedged ms (pageCall c s)"
  using assms
  by (auto simp: pageCall_def js_send_def js_close_def self_push_def wedged_def jsInv_def split: pageCall.split)

lemma wedged_give:
  assumes "jsInv env s" and "wedged ms s" and "give e h s = (b, s')"
  shows "wedged ms s'"
proof -
  have "wedged ms (fold pageCall cs s)" if "jsInv env s" "wedged ms s" for cs and s
    using that by (induction cs arbitrary: s) (simp_all add: wedged_call pageCall_inv)
  moreover have "jsInv env (s\<lparr>js_events := js_events s @ [e]\<rparr>)"
    using assms(1) by (simp add: jsInv_def streamsInv_def busyInv_def inConversion_def cong: option.case_cong)
  ultimately show ?thesis using assms(2,3) by (auto simp: give_def wedged_def)
qed

lemma wedged_receive: "jsInv env s \<Longrightarrow> wedged ms s \<Longrightarrow> receiveMsgs env js hs s = (b, s') \<Longrightarrow> wedged ms s'"
proof (induction env js hs s rule: receiveMsgs.induct)
  case (2 env m js hs s)
  show ?case
  proof (cases "receivedData env (js_version s) m")
    case (Some d)
    obtain c s1 where g: "give (EMessage d) (runAt hs 0) s = (c, s1)" by fastforce
    note s1 = wedged_give [OF 2(2,3) g] give_inv [OF 2(2) g]
    then show ?thesis using 2(1) [OF Some g [symmetric]] 2(4) Some g by (cases c) auto
  qed (use 2 in auto)
qed auto

lemma wedged_not_open: "jsInv env s \<Longrightarrow> wedged ms s \<Longrightarrow> k \<in> set (js_waiting s) \<Longrightarrow> \<not> isOpen (js_issued s ! k) \<and> \<not> isData (js_issued s ! k)"
proof -
  assume a: "jsInv env s" "wedged ms s" "k \<in> set (js_waiting s)"
  then have "js_readyState s \<noteq> CONNECTING" by (auto simp: jsInv_def wedged_def)
  then have "0 < k" using a(1,3) by (cases k) (auto simp: jsInv_def)
  then show ?thesis using a by (auto simp: jsInv_def wedged_def waitingInv_def waitingOf_def filter_empty_conv)
qed

lemma wedged_exit:
  assumes "jsInv env s" and "wedged ms s" and "\<not> isData x"
  shows "wedged ms (onExit x h s)"
proof (cases x)
  case (PollBody i)
  then show ?thesis using assms by (simp add: onExit_def poll_def jsInv_def)
next
  case (CloseBody i)
  let ?s = "s\<lparr>js_readyState := CLOSED, js_events := js_events s @ [EClose]\<rparr>"
  have "js_readyState s \<noteq> CONNECTING" using assms(1,2) by (auto simp: jsInv_def wedged_def)
  then have "jsInv env (s\<lparr>js_readyState := CLOSED\<rparr>)"
    using assms(1) by (simp add: jsInv_def streamsInv_def busyInv_def inConversion_def state_defs cong: option.case_cong)
  moreover have "wedged ms (s\<lparr>js_readyState := CLOSED\<rparr>)" using assms(2) by (simp add: wedged_def)
  ultimately show ?thesis using CloseBody wedged_give by (simp add: onExit_def) (metis prod.collapse)
qed (use assms in \<open>simp_all add: onExit_def\<close>)

lemma wedged_step:
  assumes "jsInv env s" and "wedged ms s" and "jsStep env e s = Some s'"
  shows "wedged ms s'"
proof (cases e)
  case (Page c)
  then show ?thesis using wedged_call [OF assms(1,2), of c] assms(3) by auto
next
  case ReaderLoads
  then show ?thesis using assms(2,3) by (simp add: wedged_def)
next
  case (XhrDone k status resp hs)
  let ?s = "s\<lparr>js_waiting := remove1 k (js_waiting s)\<rparr>" and ?x = "js_issued s ! k"
  have k: "k \<in> set (js_waiting s)" "s' = readyStateChange env ?x status resp hs ?s"
    using XhrDone assms(3) by (auto split: if_splits)
  note x = wedged_not_open [OF assms(1,2) k(1)]
  have inv: "jsInv env ?s" by (rule remove_waiting_inv [OF assms(1)])
  have w: "wedged ms ?s" using assms(1,2) by (simp add: wedged_def waitingOf_remove jsInv_def)
  obtain thrown s1 where r: "(if status = 200 then onSuccess env ?x resp hs ?s
      else if status \<noteq> 408 then give EError (runAt hs 0) ?s else (False, ?s)) = (thrown, s1)" by fastforce
  have s1: "jsInv env s1" using before_exit_inv [OF inv _ r] x by blast
  have "wedged ms s1"
  proof (cases "status = 200")
    case True
    then show ?thesis using r w x wedged_receive [OF inv w]
      by (cases ?x) (auto simp: onSuccess_def receiveHandler_def split: option.splits)
  next
    case False
    then show ?thesis using r w wedged_give [OF inv w] by (cases "status = 408") simp_all
  qed
  then show ?thesis using k(2) r s1 x wedged_exit by (cases thrown) (simp_all add: readyStateChange_def)
qed

text \<open>C40. A binary message that is no Latin-1 text stops the connection: when the page sends a blob whose bytes, read
  as text, have a character beyond U+00FF, such as the replacement character of bytes that are not UTF-8,
  \<^verbatim>\<open>btoa\<close> throws in the listener of the FileReader; after that no message of the page is ever sent
  again, whatever happens, and the page is not told.\<close>

theorem binary_message_wedges_page:
  assumes "WebSocketShim env locationHost url = Some s0" and "reachable (jsStep env) s0 s"
    and "js_reading s = Some (msgs, i)" and "js_version s \<noteq> 0"
    and "btoa (je_readAsText env (blobOf env (jm_msg (msgs ! i)))) = None"
    and "jsStep env ReaderLoads s = Some s1" and "reachable (jsStep env) s1 s2"
  shows "issuedMsgs s2 = issuedMsgs s1 \<and> js_events s1 = js_events s \<and> waitingOf isData s2 = [] \<and> js_pushing s2"
proof -
  have inv: "jsInv env s" by (rule page.inv_reachable [OF assms(2) jsInv_new [OF assms(1)]])
  then have b: "js_pushing s" "msgs \<noteq> []" "waitingOf isData s = []"
    using assms(3) by (auto simp: jsInv_def busyInv_def)
  have s1: "s1 = s\<lparr>js_reading := None, js_lost := js_lost s @ msgs\<rparr>"
    using assms(3-6) by (auto simp: loadEnd_def Let_def)
  have w: "wedged (issuedMsgs s1) s1" using b by (simp add: s1 wedged_def)
  have "jsInv env s2 \<and> wedged (issuedMsgs s1) s2"
    using assms(7) w jsInv_step [OF inv assms(6)]
    by (induction rule: reachable.induct) (auto intro: jsInv_step wedged_step)
  then show ?thesis by (simp add: wedged_def s1)
qed

theorem binary_message_wedges_page_witness:
  "\<exists>s0 s s1. WebSocketShim exampleJs ''h'' ''ws://h/x'' = Some s0
     \<and> run_events (jsStep exampleJs) [XhrDone 0 200 ''7'' [], Page (PSend (DBlob [CHR 0xFF]))] s0 = Some s
     \<and> jsStep exampleJs ReaderLoads s = Some s1 \<and> issuedMsgs (pageCall (PSend (DText ''later'')) s1) = []"
proof -
  let ?es = "[XhrDone 0 200 ''7'' [], Page (PSend (DBlob [CHR 0xFF]))]"
  have bad: "btoa (je_readAsText exampleJs (blobOf exampleJs (DBlob [CHR 0xFF]))) = None"
    by (simp add: exampleJs_def blobOf_def btoa_def DecodeRune_def RuneError_def EncodeRune_def ValidRune_def cont_def acceptLo_def acceptHi_def Let_def)
  obtain s0 s where s: "WebSocketShim exampleJs ''h'' ''ws://h/x'' = Some s0" "run_events (jsStep exampleJs) ?es s0 = Some s"
      "js_reading s = Some ([\<lparr>jm_id = ''7'', jm_msg = DBlob [CHR 0xFF]\<rparr>], 0)" "js_version s = 1" "issuedMsgs s = []"
    by (simp add: WebSocketShim_def exampleJs_def self_xhr_def readyStateChange_def onSuccess_def openSucceeds_def issuedMsgs_def
      give_def runAt_def poll_def state_defs pageCall_def js_send_def self_push_def convertMessagesAndPush_def needsConversion_def onExit_def)
  then obtain s1 where s1: "jsStep exampleJs ReaderLoads s = Some s1" "issuedMsgs s1 = []"
    using bad by (simp add: loadEnd_def Let_def)
  have later: "reachable (jsStep exampleJs) s1 (pageCall (PSend (DText ''later'')) s1)"
    by (rule reach_step [where e = "Page (PSend (DText ''later''))" and t = s1]) (simp_all add: reach_init)
  show ?thesis
    using binary_message_wedges_page [OF s(1) run_events_reachable [OF s(2)] s(3) _ _ s1(1) later] s s1 bad
    by (intro exI [of _ s0] exI [of _ s] exI [of _ s1]) simp
qed

text \<open>A binary message of the backend reaches the page in its base64 form: the script compares the decoded text
  with the message instead of storing it.\<close>

theorem binary_message_stays_encoded:
  assumes "m_Type m \<noteq> TextMessage" and "je_atob env (base64Encode (m_Data m)) \<noteq> None"
  shows "receivedData env 1 (Serialize 1 m) = Some (DBlob (base64Encode (m_Data m)))"
  using assms by (auto simp: receivedData_def Serialize_def)

text \<open>A websocket to another host throws instead of using the browser's own.\<close>

theorem other_hosts_throw:
  assumes "je_host env url = Some host" and "host \<noteq> locationHost"
  shows "WebSocketShim env locationHost url = None"
  using assms by (simp add: WebSocketShim_def)

text \<open>The end of a session on the side of the backend is not given to the page: the state stays open, and
  the poll that was answered with an error is followed by the next one at once.\<close>

theorem closed_session_polled_again:
  assumes "js_readyState s = OPEN" and "k \<in> set (js_waiting s)" and "js_issued s ! k = PollBody i" and "status \<noteq> 200"
  shows "\<exists>s'. jsStep env (XhrDone k status resp []) s = Some s' \<and> js_readyState s' = OPEN
       \<and> js_issued s' = js_issued s @ [PollBody (js_sessionID s)] \<and> EClose \<notin> set (drop (length (js_events s)) (js_events s'))"
  using assms by (simp add: readyStateChange_def give_def runAt_def onExit_def poll_def)

text \<open>The script's requests reach the endpoints when the configured path consists of proper segments; with a
  leading slash, which the agent's own path may have, they go to another path.\<close>

theorem shim_paths_agree:
  assumes "ws \<noteq> []" and "\<forall>w \<in> set ws. properSegment w"
  shows "shimProxyRoute (joinSlash ws) (shimUriPath (joinSlash ws) @ ''open'') = OpenRoute
       \<and> shimProxyRoute (joinSlash ws) (shimUriPath (joinSlash ws) @ ''data'') = DataRoute
       \<and> shimProxyRoute (joinSlash ws) (shimUriPath (joinSlash ws) @ ''poll'') = PollRoute
       \<and> shimProxyRoute (joinSlash ws) (shimUriPath (joinSlash ws) @ ''close'') = CloseRoute
       \<and> shimProxyRoute ''/shim'' (shimUriPath ''/shim'' @ ''open'') = WrappedRoute"
proof -
  have "joinSlash ws \<noteq> []" using assms by (cases ws rule: joinSlash.cases) (auto simp: properSegment_def)
  then have "shimPrefix (joinSlash ws) = shimUriPath (joinSlash ws)"
    using pathClean_rooted [OF assms] by (simp add: shimPrefix_def shimUriPath_def)
  moreover have "shimProxyRoute ''/shim'' (shimUriPath ''/shim'' @ ''open'') = WrappedRoute"
    by (simp add: shimProxyRoute_def shimPrefix_def shimUriPath_def pathClean_def shimRoute_def)
  ultimately show ?thesis by (simp add: shimProxyRoute_def shimRoute_def) (simp add: shimUriPath_def)
qed

theorem shim_paths_agree_witness:
  "shimProxyRoute ''a/b'' (shimUriPath ''a/b'' @ ''open'') = OpenRoute"
  using shim_paths_agree [of "[''a'', ''b'']"] by (simp add: properSegment_def)

end
