(* ===== verification/Page_To_Backend.thy ===== *)
theory Page_To_Backend
  imports Shim_Client_Properties
begin

text \<open>
  The page's script and the agent together: data requests of a page (\<open>Shim_Client\<close>) are taken by the agent's
  data endpoint, which hands their messages to the connection (\<open>Agent_Websockets\<close>) one after the other,
  while the connection's goroutines and the page go on. The locale \<open>page_history\<close> is the interface to the
  fields of the script that only grow.
\<close>

section \<open>Histories of the script\<close>

locale page_history =
  fixes h :: "pageShim \<Rightarrow> 'a list"
  assumes state_keeps: "h (s\<lparr>js_readyState := a\<rparr>) = h s" "h (s\<lparr>js_version := v\<rparr>) = h s" "h (s\<lparr>js_sessionID := i\<rparr>) = h s"
      "h (s\<lparr>js_pending := p\<rparr>) = h s" "h (s\<lparr>js_pushing := b\<rparr>) = h s" "h (s\<lparr>js_reading := r\<rparr>) = h s"
      "h (s\<lparr>js_waiting := w\<rparr>) = h s" "h (s\<lparr>js_lost := l\<rparr>) = h s"
    and grows: "prefix (h s) (h (s\<lparr>js_issued := js_issued s @ [x]\<rparr>))" "prefix (h s) (h (s\<lparr>js_events := js_events s @ [e]\<rparr>))"
      "prefix (h s) (h (s\<lparr>js_sends := js_sends s @ [d]\<rparr>))"
begin

lemma hist_xhr: "prefix (h s) (h (self_xhr x s))"
  using grows(1) [of "s\<lparr>js_waiting := js_waiting s @ [length (js_issued s)]\<rparr>" x] by (simp add: self_xhr_def state_keeps)

lemma hist_convert: "prefix (h s) (h (convertMessagesAndPush ms s))"
  using hist_xhr [of "s\<lparr>js_reading := None\<rparr>"]
  by (auto simp: convertMessagesAndPush_def state_keeps split: option.split)

lemma hist_push: "prefix (h s) (h (self_push s))"
  using hist_convert [of "s\<lparr>js_pushing := True, js_pending := []\<rparr>"] by (auto simp: self_push_def state_keeps)

lemma hist_poll: "prefix (h s) (h (poll s))"
  using hist_xhr by (simp add: poll_def)

lemma hist_call: "prefix (h s) (h (pageCall c s))"
proof (cases c)
  case (PSend d)
  have "prefix (h s) (h (self_push (s\<lparr>js_pending := p, js_sends := js_sends s @ [d]\<rparr>)))" for p
    using hist_push [of "s\<lparr>js_pending := p, js_sends := js_sends s @ [d]\<rparr>"] grows(3) [of "s\<lparr>js_pending := p\<rparr>" d]
    by (auto simp: state_keeps intro: prefix_order.trans)
  then show ?thesis using PSend by (simp add: pageCall_def js_send_def)
next
  case PClose
  then show ?thesis using hist_xhr [of "s\<lparr>js_readyState := CLOSING\<rparr>"] by (simp add: pageCall_def js_close_def state_keeps)
qed

lemma hist_give: "prefix (h s) (h (snd (give e r s)))"
proof -
  have "prefix (h s) (h (fold pageCall cs s))" for cs s
  proof (induction cs arbitrary: s)
    case (Cons c cs)
    show ?case using prefix_order.trans [OF hist_call Cons.IH] by simp
  qed simp
  then show ?thesis using grows(2) [of s e] prefix_order.trans by (fastforce simp: give_def)
qed

lemma hist_receive: "prefix (h s) (h (snd (receiveMsgs env ms hs s)))"
proof (induction env ms hs s rule: receiveMsgs.induct)
  case (2 env m ms hs s)
  show ?case
  proof (cases "receivedData env (js_version s) m")
    case (Some d)
    obtain b s1 where g: "give (EMessage d) (runAt hs 0) s = (b, s1)" by fastforce
    have "prefix (h s) (h s1)" using hist_give [of s "EMessage d" "runAt hs 0"] g by simp
    then show ?thesis using 2 [OF Some g [symmetric]] Some g by (cases b) (auto intro: prefix_order.trans)
  qed simp
qed simp

lemma hist_success: "prefix (h s) (h (snd (onSuccess env x resp hs s)))"
proof (cases x)
  case (OpenBody u)
  have "prefix (h s) (h (snd (openSucceeds env resp r s)))" for r
  proof (cases "je_parseOpen env resp")
    case (Some p)
    obtain v i where p: "p = (v, i)" by fastforce
    let ?s = "s\<lparr>js_version := (case v of None \<Rightarrow> 0 | Some n \<Rightarrow> n), js_sessionID := i, js_readyState := OPEN\<rparr>"
    obtain b s1 where g: "give EOpen r ?s = (b, s1)" by fastforce
    have s1: "prefix (h s) (h s1)" using hist_give [of ?s EOpen r] g by (simp add: state_keeps)
    moreover have "prefix (h s) (h (poll s1))" by (rule prefix_order.trans [OF s1 hist_poll])
    ultimately show ?thesis using Some p g by (cases b) (simp_all add: openSucceeds_def)
  qed (simp add: openSucceeds_def)
  then show ?thesis using OpenBody by (simp add: onSuccess_def)
next
  case (PollBody i)
  then show ?thesis using hist_receive by (simp add: onSuccess_def receiveHandler_def split: option.split)
qed (simp_all add: onSuccess_def)

lemma hist_exit: "prefix (h s) (h (onExit x r s))"
  using hist_push [of "s\<lparr>js_pushing := False\<rparr>"] hist_poll hist_give [of "s\<lparr>js_readyState := CLOSED\<rparr>"]
  by (cases x) (simp_all add: onExit_def state_keeps)

lemma hist_done: "prefix (h s) (h (readyStateChange env x status resp hs s))"
proof -
  let ?r = "if status = 200 then onSuccess env x resp hs s else if status \<noteq> 408 then give EError (runAt hs 0) s else (False, s)"
  obtain b s1 where r: "?r = (b, s1)" by fastforce
  have "prefix (h s) (h (snd ?r))" by (simp add: hist_success hist_give)
  then have s1: "prefix (h s) (h s1)" using r by simp
  moreover have "prefix (h s) (h (onExit x g s1))" for g by (rule prefix_order.trans [OF s1 hist_exit])
  ultimately show ?thesis using r by (cases b) (simp_all add: readyStateChange_def)
qed

lemma hist_step: "jsStep env e s = Some s' \<Longrightarrow> prefix (h s) (h s')"
proof (induction e)
  case (Page c)
  then show ?case using hist_call by auto
next
  case ReaderLoads
  then show ?case using hist_convert
    by (auto simp: loadEnd_def state_keeps Let_def split: option.splits)
next
  case (XhrDone k status resp hs)
  then show ?case using hist_done [of "s\<lparr>js_waiting := remove1 k (js_waiting s)\<rparr>"] by (auto simp: state_keeps split: if_splits)
qed

end

interpretation issued: page_history js_issued
  by unfold_locales auto

interpretation given: page_history js_events
  by unfold_locales auto

interpretation sends: page_history js_sends
  by unfold_locales auto

section \<open>The page and the agent\<close>

text \<open>
  \<open>pa_log\<close>: the data requests the agent took, with the number of their messages it handed to the
  connection; \<open>pa_busy\<close>: it works on the last of them.
\<close>

record pageAgent =
  pa_page :: pageShim
  pa_conn :: connection
  pa_log :: "(nat \<times> nat) list"
  pa_busy :: bool

datatype pageAgentEvent =
    PageEvent jsEvent
  | AgentTakes nat
  | AgentSends time
  | AgentAnswers
  | ConnEvent connEvent

text \<open>
  A request is answered to the page when the agent is not working on it; an answer of 200 to a data request
  comes from the agent, which handed over all its messages. A request whose answer the page has is not
  taken any more; a proxy that answers a request itself and delivers it later is outside of this system. The agent's loop over the messages
  of a request is \<open>sendAllMessages\<close>, one message for each event.
\<close>

fun pageAgentStep :: "jsEnv \<Rightarrow> wsFormats \<Rightarrow> pageAgentEvent \<Rightarrow> pageAgent \<Rightarrow> pageAgent option" where
  "pageAgentStep env fmts (PageEvent e) a =
     (if (case e of
            XhrDone k status _ _ \<Rightarrow>
              \<not> (pa_busy a \<and> fst (last (pa_log a)) = k)
              \<and> (status = 200 \<and> isData (js_issued (pa_page a) ! k)
                  \<longrightarrow> (k, length (dataMsgs (js_issued (pa_page a) ! k))) \<in> set (pa_log a))
          | _ \<Rightarrow> True)
      then map_option (\<lambda>p. a\<lparr>pa_page := p\<rparr>) (jsStep env e (pa_page a)) else None)"
| "pageAgentStep env fmts (AgentTakes k) a =
     (if \<not> pa_busy a \<and> k \<in> set (js_waiting (pa_page a)) \<and> isData (js_issued (pa_page a) ! k) \<and> k \<notin> fst ` set (pa_log a)
      then Some (a\<lparr>pa_log := pa_log a @ [(k, 0)], pa_busy := True\<rparr>) else None)"
| "pageAgentStep env fmts (AgentSends t) a =
     (if pa_busy a
      then (case last (pa_log a) of
              (k, n) \<Rightarrow>
                (let ms = dataMsgs (js_issued (pa_page a) ! k) in
                 if n < length ms
                 then (case SendClientMessage fmts t (stringify (jm_msg (ms ! n))) False [] (pa_conn a) of
                         Returns (None, c) \<Rightarrow> Some (a\<lparr>pa_conn := c, pa_log := butlast (pa_log a) @ [(k, n + 1)]\<rparr>)
                       | Returns (Some err, c) \<Rightarrow> Some (a\<lparr>pa_conn := c, pa_busy := False\<rparr>)
                       | _ \<Rightarrow> None)
                 else None))
      else None)"
| "pageAgentStep env fmts AgentAnswers a =
     (if pa_busy a \<and> snd (last (pa_log a)) = length (dataMsgs (js_issued (pa_page a) ! fst (last (pa_log a))))
      then Some (a\<lparr>pa_busy := False\<rparr>) else None)"
| "pageAgentStep env fmts (ConnEvent e) a =
     (if isCallSend e then None else map_option (\<lambda>c. a\<lparr>pa_conn := c\<rparr>) (connStep fmts e (pa_conn a)))"

text \<open>The messages a request's message leaves in the connection.\<close>

definition decoded :: "wsFormats \<Rightarrow> int \<Rightarrow> jsMsg \<Rightarrow> wsMessage list" where
  "decoded fmts v m = acceptedOf fmts v (stringify (jm_msg m))"

definition handedOver :: "wsFormats \<Rightarrow> int \<Rightarrow> xhrBody list \<Rightarrow> (nat \<times> nat) list \<Rightarrow> wsMessage list" where
  "handedOver fmts v issued lg = concat (map (\<lambda>(k, n). concat (map (decoded fmts v) (take n (dataMsgs (issued ! k))))) lg)"

definition pageAgentInv :: "jsEnv \<Rightarrow> wsFormats \<Rightarrow> pageAgent \<Rightarrow> bool" where
  "pageAgentInv env fmts a \<longleftrightarrow>
     jsInv env (pa_page a) \<and> conn_inv (pa_conn a)
     \<and> sorted_wrt (<) (map fst (pa_log a)) \<and> (\<forall>k \<in> fst ` set (pa_log a). k < length (js_issued (pa_page a)) \<and> isData (js_issued (pa_page a) ! k))
     \<and> (pa_busy a \<longrightarrow> pa_log a \<noteq> [])
     \<and> filter isMessage (cn_accepted (pa_conn a)) = handedOver fmts (cn_protocolVersion (pa_conn a)) (js_issued (pa_page a)) (pa_log a)"

section \<open>The invariant\<close>

lemma handedOver_extend:
  assumes "prefix issued issued'" and "\<forall>k \<in> fst ` set lg. k < length issued"
  shows "handedOver fmts v issued' lg = handedOver fmts v issued lg"
  using assms by (induction lg) (auto simp: handedOver_def prefix_def nth_append)

lemma handedOver_next:
  assumes "lg \<noteq> []" and "last lg = (k, n)" and "n < length (dataMsgs (issued ! k))"
  shows "handedOver fmts v issued (butlast lg @ [(k, n + 1)]) = handedOver fmts v issued lg @ decoded fmts v (dataMsgs (issued ! k) ! n)"
proof -
  have lg: "lg = butlast lg @ [(k, n)]" using assms(1,2) by (metis append_butlast_last_id)
  have "handedOver fmts v issued lg = handedOver fmts v issued (butlast lg) @ concat (map (decoded fmts v) (take n (dataMsgs (issued ! k))))"
    by (subst lg) (simp add: handedOver_def)
  then show ?thesis using assms(3) by (simp add: handedOver_def take_Suc_conv_app_nth)
qed

lemma pageAgentInv_page:
  assumes "pageAgentInv env fmts a" and "jsStep env e (pa_page a) = Some p"
  shows "pageAgentInv env fmts (a\<lparr>pa_page := p\<rparr>)"
proof -
  obtain xs where xs: "js_issued p = js_issued (pa_page a) @ xs" using issued.hist_step [OF assms(2)] by (auto simp: prefix_def)
  have "jsInv env p" using assms jsInv_step by (auto simp: pageAgentInv_def)
  moreover have "handedOver fmts v (js_issued p) (pa_log a) = handedOver fmts v (js_issued (pa_page a)) (pa_log a)" for v
    using assms(1) xs by (intro handedOver_extend) (auto simp: pageAgentInv_def)
  ultimately show ?thesis using assms(1) xs by (auto simp: pageAgentInv_def nth_append)
qed

lemma pageAgentInv_takes:
  assumes "pageAgentInv env fmts a" and "k \<in> set (js_waiting (pa_page a))" and "isData (js_issued (pa_page a) ! k)"
    and "k \<notin> fst ` set (pa_log a)"
  shows "pageAgentInv env fmts (a\<lparr>pa_log := pa_log a @ [(k, 0)], pa_busy := True\<rparr>)"
proof -
  have "k \<in> set (waitingOf isData (pa_page a))" using assms(2,3) by (simp add: waitingOf_def)
  then have last: "\<forall>j < length (js_issued (pa_page a)). k < j \<longrightarrow> \<not> isData (js_issued (pa_page a) ! j)"
    and "k < length (js_issued (pa_page a))"
    using assms(1) by (auto simp: pageAgentInv_def jsInv_def latestInv_def waitingInv_def waitingOf_def)
  moreover have "\<forall>j \<in> fst ` set (pa_log a). j < k"
    using last assms(1,4) by (force simp: pageAgentInv_def)
  ultimately show ?thesis using assms(1,3) by (auto simp: pageAgentInv_def sorted_wrt_append handedOver_def)
qed

lemma pageAgentInv_sends:
  assumes "pageAgentInv env fmts a" and "pa_busy a" and "last (pa_log a) = (k, n)" and "n < length (dataMsgs (js_issued (pa_page a) ! k))"
    and "SendClientMessage fmts t (stringify (jm_msg (dataMsgs (js_issued (pa_page a) ! k) ! n))) False [] (pa_conn a) = Returns (err, c)"
  shows "pageAgentInv env fmts (if err = None then a\<lparr>pa_conn := c, pa_log := butlast (pa_log a) @ [(k, n + 1)]\<rparr>
                                else a\<lparr>pa_conn := c, pa_busy := False\<rparr>)"
proof -
  note acc = send_accepted [OF assms(5), folded decoded_def]
  have c: "conn_inv c" using assms(1) conn_inv_Send [OF _ assms(5)] by (simp add: pageAgentInv_def)
  have ne: "pa_log a \<noteq> []" using assms(1,2) by (simp add: pageAgentInv_def)
  then have lg: "pa_log a = butlast (pa_log a) @ [(k, n)]" using assms(3) by (metis append_butlast_last_id)
  have fst: "map fst (butlast (pa_log a) @ [(k, n + 1)]) = map fst (pa_log a)" by (subst (2) lg) simp
  show ?thesis
  proof (cases err)
    case None
    define lg where "lg = butlast (pa_log a) @ [(k, n + 1)]"
    have fst: "map fst lg = map fst (pa_log a)" using fst by (simp only: lg_def)
    then have set: "fst ` set lg = fst ` set (pa_log a)" by (metis set_map)
    have "filter isMessage (cn_accepted c) = handedOver fmts (cn_protocolVersion c) (js_issued (pa_page a)) lg"
      using acc None assms(1) handedOver_next [OF ne assms(3,4)] by (simp add: lg_def pageAgentInv_def decoded_def acceptedOf_messages)
    moreover have "lg \<noteq> []" by (simp add: lg_def)
    ultimately have "pageAgentInv env fmts (a\<lparr>pa_conn := c, pa_log := lg\<rparr>)"
      using assms(1) c by (simp add: pageAgentInv_def fst set)
    then show ?thesis using None by (simp add: lg_def)
  next
    case (Some e)
    then show ?thesis using assms(1) c acc by (simp add: pageAgentInv_def)
  qed
qed

lemma pageAgentInv_step:
  assumes "pageAgentInv env fmts a" and "pageAgentStep env fmts e a = Some a'"
  shows "pageAgentInv env fmts a'"
proof (cases e)
  case (PageEvent je)
  then show ?thesis using assms pageAgentInv_page by (auto split: if_splits)
next
  case (AgentTakes k)
  then show ?thesis using assms pageAgentInv_takes [OF assms(1), of k] by (auto split: if_splits)
next
  case (AgentSends t)
  obtain k n where kn: "last (pa_log a) = (k, n)" by fastforce
  then obtain err c where r: "pa_busy a" "n < length (dataMsgs (js_issued (pa_page a) ! k))"
      "SendClientMessage fmts t (stringify (jm_msg (dataMsgs (js_issued (pa_page a) ! k) ! n))) False [] (pa_conn a) = Returns (err, c)"
      "a' = (if err = None then a\<lparr>pa_conn := c, pa_log := butlast (pa_log a) @ [(k, n + 1)]\<rparr> else a\<lparr>pa_conn := c, pa_busy := False\<rparr>)"
    using AgentSends assms(2) by (auto simp: Let_def split: if_splits outcome.splits option.splits)
  show ?thesis unfolding r(4) by (rule pageAgentInv_sends [OF assms(1) r(1) kn r(2,3)])
next
  case AgentAnswers
  then have "a' = a\<lparr>pa_busy := False\<rparr>" using assms(2) by (auto split: if_splits)
  then show ?thesis using assms(1) by (simp add: pageAgentInv_def)
next
  case (ConnEvent ce)
  then obtain c where c: "connStep fmts ce (pa_conn a) = Some c" "\<not> isCallSend ce" "a' = a\<lparr>pa_conn := c\<rparr>"
    using assms(2) by (auto split: if_splits)
  then show ?thesis using assms(1) conn_event_accepted [OF c(1,2)] conn_inv_step [OF _ c(1)] by (simp add: pageAgentInv_def)
qed

interpretation page_agent: event_system "pageAgentStep env fmts" "pageAgentInv env fmts"
  by unfold_locales (rule pageAgentInv_step)

section \<open>From the page to the connection\<close>

text \<open>A log of increasing numbers has the last number at its end, or not at all.\<close>

lemma log_cases:
  assumes "sorted_wrt (<) (map fst lg)" and "\<forall>k \<in> fst ` set lg. k < length (xs @ [x])"
  obtains (without) "\<forall>k \<in> fst ` set lg. k < length xs"
  | (with_last) l n where "lg = l @ [(length xs, n)]" "sorted_wrt (<) (map fst l)" "\<forall>k \<in> fst ` set l. k < length xs"
proof (cases "length xs \<in> fst ` set lg")
  case True
  then obtain n where "(length xs, n) \<in> set lg" by force
  then obtain l1 l2 where lg: "lg = l1 @ (length xs, n) # l2" by (meson split_list)
  moreover have "l2 = []" using assms by (cases l2) (auto simp: lg sorted_wrt_append)
  ultimately show ?thesis using with_last [of l1 n] assms(1) by (auto simp: sorted_wrt_append)
next
  case False
  have "k < length xs" if "k \<in> fst ` set lg" for k
  proof -
    have "k < Suc (length xs)" using bspec [OF assms(2) that] by simp
    moreover have "k \<noteq> length xs" using False that by blast
    ultimately show ?thesis by simp
  qed
  then show ?thesis using without by blast
qed

lemma parts_snoc:
  "\<forall>k \<in> fst ` set lg. k < length xs \<Longrightarrow>
     map (\<lambda>(k, n). take n (g ((xs @ [x]) ! k))) lg = map (\<lambda>(k, n). take n (g (xs ! k))) lg"
  by (auto simp: nth_append)

text \<open>Parts of the elements of a list, taken in order; and all of it, when each nonempty one is taken whole.\<close>

lemma subseq_parts:
  assumes "sorted_wrt (<) (map fst lg)" and "\<forall>k \<in> fst ` set lg. k < length xs"
  shows "subseq (concat (map (\<lambda>(k, n). take n (g (xs ! k))) lg)) (concat (map g xs))"
  using assms
proof (induction xs arbitrary: lg rule: rev_induct)
  case (snoc x xs)
  from snoc.prems show ?case
  proof (cases rule: log_cases)
    case without
    then show ?thesis using snoc.IH [OF snoc.prems(1) without] by (simp add: parts_snoc subseq_rev_drop_many)
  next
    case (with_last l n)
    then show ?thesis
      using snoc.IH [OF with_last(2,3)] prefix_imp_subseq [OF take_is_prefix [of n "g x"]]
      by (simp add: parts_snoc list_emb_append_mono)
  qed
qed simp

lemma whole_parts:
  assumes "sorted_wrt (<) (map fst lg)" and "\<forall>k \<in> fst ` set lg. k < length xs"
    and "\<And>k. k < length xs \<Longrightarrow> g (xs ! k) \<noteq> [] \<Longrightarrow> (k, length (g (xs ! k))) \<in> set lg"
  shows "concat (map (\<lambda>(k, n). take n (g (xs ! k))) lg) = concat (map g xs)"
  using assms
proof (induction xs arbitrary: lg rule: rev_induct)
  case (snoc x xs)
  have whole: "(k, length (g (xs ! k))) \<in> set lg" if "k < length xs" "g (xs ! k) \<noteq> []" for k
    using snoc.prems(3) [of k] that by (simp add: nth_append)
  have last: "(length xs, length (g x)) \<in> set lg" if "g x \<noteq> []"
    using snoc.prems(3) [of "length xs"] that by simp
  from snoc.prems(1,2) show ?case
  proof (cases rule: log_cases)
    case without
    have "g x = []" using last without by force
    then show ?thesis using snoc.IH [OF snoc.prems(1) without whole] without by (simp add: parts_snoc)
  next
    case (with_last l n)
    have "take n (g x) = g x" using last with_last(1,3) by (cases "g x = []") force+
    moreover have "(k, length (g (xs ! k))) \<in> set l" if "k < length xs" "g (xs ! k) \<noteq> []" for k
      using whole [OF that] that(1) by (simp add: with_last(1))
    ultimately show ?thesis using snoc.IH [OF with_last(2,3)] with_last by (simp add: parts_snoc)
  qed
qed simp

lemma handedOver_concat:
  "handedOver fmts v issued lg = concat (map (decoded fmts v) (concat (map (\<lambda>(k, n). take n (dataMsgs (issued ! k))) lg)))"
  by (induction lg) (auto simp: handedOver_def)

lemma subseq_concat_map: "subseq xs ys \<Longrightarrow> subseq (concat (map f xs)) (concat (map f ys))"
  by (induction rule: list_emb.induct) (auto intro: list_emb_append_mono)

lemma decoded_issued:
  assumes "jsInv env p" and "js_version p \<noteq> 0" and "\<forall>d \<in> set (js_sends p). \<not> arrayOfOne d"
  shows "concat (map (decoded fmts (js_version p)) (issuedMsgs p)) = map (pageMessage env) (take (length (issuedMsgs p)) (js_sends p))"
proof -
  obtain ds1 rest where d: "js_sends p = ds1 @ rest" "list_all2 (sentAs env (js_version p)) (issuedMsgs p) ds1"
    using assms(1) by (auto simp: jsInv_def streamsInv_def)
  have "list_all2 (sentAs env v) ms ds \<Longrightarrow> v \<noteq> 0 \<Longrightarrow> \<forall>d \<in> set ds. \<not> arrayOfOne d \<Longrightarrow>
      concat (map (decoded fmts v) ms) = map (pageMessage env) ds" for v ms ds
    by (induction rule: list_all2_induct) (simp_all add: decoded_def acceptedOf_def sentAs_def sentForm_accepted)
  then show ?thesis using d assms(2,3) by (simp add: list_all2_lengthD)
qed


definition exampleTogether :: "pageAgentEvent list" where
  "exampleTogether = [PageEvent (XhrDone 0 200 ''7'' []), PageEvent (Page (PSend (DText ''a''))), PageEvent (Page (PSend (DText ''b''))),
     AgentTakes 2, AgentSends 1, AgentAnswers, PageEvent (XhrDone 2 200 [] []), AgentTakes 3, AgentSends 2,
     ConnEvent WriteNext, AgentAnswers]"

lemma exampleTogether_run:
  "case WebSocketShim exampleJs ''h'' ''ws://h/x'' of None \<Rightarrow> False
   | Some p0 \<Rightarrow>
       (case run_events (pageAgentStep exampleJs exampleFmts) exampleTogether
               \<lparr>pa_page = p0, pa_conn = exampleConn\<lparr>cn_protocolVersion := 1\<rparr>, pa_log = [], pa_busy = False\<rparr> of
          None \<Rightarrow> False
        | Some a \<Rightarrow> js_version (pa_page a) = 1 \<and> cn_protocolVersion (pa_conn a) = 1 \<and> pa_log a = [(2, 1), (3, 1)]
            \<and> js_sends (pa_page a) = [DText ''a'', DText ''b''] \<and> map (length \<circ> dataMsgs) (js_issued (pa_page a)) = [0, 0, 1, 1])"
  by code_simp


end
