(* ===== verification/Lru.thy ===== *)
theory Lru
  imports Prelude
begin

text \<open>
  The least-recently-used cache of \<^verbatim>\<open>github.com/golang/groupcache/lru\<close>, which the agent's
  polling loop and its session cache use. The package is not part of the repository, so it is a
  parameter: a record of the operations the agent calls. Its documented behaviour is the locale
  \<open>lru_cache\<close>, over the observation \<open>entries\<close>, the cached pairs with the most recently used
  one first: a lookup makes its key the most recent one, an insertion puts its key first and evicts
  the oldest entries beyond the maximum, and a maximum of zero means no limit. \<open>listLru\<close> is a
  cache that satisfies the laws.
\<close>

section \<open>The operations and their laws\<close>

record ('k, 'v, 'c) lru =
  lru_New :: "nat \<Rightarrow> 'c"
  lru_Get :: "'k \<Rightarrow> 'c \<Rightarrow> 'v option \<times> 'c"
  lru_Add :: "'k \<Rightarrow> 'v \<Rightarrow> 'c \<Rightarrow> 'c"

definition evict :: "nat \<Rightarrow> 'a list \<Rightarrow> 'a list" where
  "evict maxEntries xs = (if maxEntries = 0 then xs else take maxEntries xs)"

definition touch :: "'k \<Rightarrow> 'v \<Rightarrow> ('k \<times> 'v) list \<Rightarrow> ('k \<times> 'v) list" where
  "touch k v xs = (k, v) # AList.delete k xs"

locale lru_cache =
  fixes L :: "('k, 'v, 'c) lru" and entries :: "'c \<Rightarrow> ('k \<times> 'v) list" and maxEntries :: "'c \<Rightarrow> nat"
  assumes New: "entries (lru_New L n) = []" "maxEntries (lru_New L n) = n"
    and Get: "fst (lru_Get L k c) = map_of (entries c) k"
      "entries (snd (lru_Get L k c)) =
        (case map_of (entries c) k of None \<Rightarrow> entries c | Some v \<Rightarrow> touch k v (entries c))"
      "maxEntries (snd (lru_Get L k c)) = maxEntries c"
    and Add: "entries (lru_Add L k v c) = evict (maxEntries c) (touch k v (entries c))"
      "maxEntries (lru_Add L k v c) = maxEntries c"
begin

lemma map_of_Get: "map_of (entries (snd (lru_Get L k c))) = map_of (entries c)"
  by (auto simp: Get touch_def delete_conv' fun_eq_iff split: option.split)

lemma set_Get: "set (entries (snd (lru_Get L k c))) \<subseteq> insert (k, the (map_of (entries c) k)) (set (entries c))"
  by (auto simp: Get touch_def AList.delete_eq split: option.splits)

lemma Get_Add: "map_of (entries (lru_Add L k v c)) k = Some v"
  by (cases "maxEntries c") (simp_all add: Add evict_def touch_def)

lemma Add_subset: "set (entries (lru_Add L k v c)) \<subseteq> insert (k, v) (set (entries c))"
  by (auto simp: Add evict_def touch_def AList.delete_eq split: if_splits dest: in_set_takeD)

end

section \<open>A cache that satisfies the laws\<close>

text \<open>The state is the maximum and the list of pairs, most recently used first.\<close>

definition listLru :: "('k, 'v, nat \<times> ('k \<times> 'v) list) lru" where
  "listLru =
     \<lparr>lru_New = (\<lambda>n. (n, [])),
      lru_Get = (\<lambda>k (n, xs). case map_of xs k of None \<Rightarrow> (None, n, xs) | Some v \<Rightarrow> (Some v, n, touch k v xs)),
      lru_Add = (\<lambda>k v (n, xs). (n, evict n (touch k v xs)))\<rparr>"

interpretation listLru: lru_cache listLru snd fst
  by unfold_locales (auto simp: listLru_def split: option.split)

section \<open>Recency\<close>

text \<open>The distinct elements of a sequence, the one that occurred last first.\<close>

definition recent :: "'a list \<Rightarrow> 'a list" where
  "recent xs = rev (remdups xs)"

lemma recent_Nil [simp]: "recent [] = []"
  by (simp add: recent_def)

lemma removeAll_remdups: "removeAll x (remdups xs) = remdups (removeAll x xs)"
  by (induction xs) auto

lemma remdups_snoc: "remdups (xs @ [x]) = removeAll x (remdups xs) @ [x]"
  by (induction xs) auto

lemma recent_snoc: "recent (xs @ [x]) = x # removeAll x (recent xs)"
  by (simp add: recent_def remdups_snoc removeAll_filter_not_eq rev_filter)

lemma recent_props [simp]: "set (recent xs) = set xs" "distinct (recent xs)" "length (recent xs) = card (set xs)"
  by (simp_all add: recent_def length_remdups_card_conv)

text \<open>An element is preceded in the order of recency by those that occurred after it.\<close>

lemma recent_since:
  "x \<notin> set ys \<Longrightarrow> \<exists>zs. recent (xs @ x # ys) = recent ys @ x # zs"
proof (induction ys rule: rev_induct)
  case Nil
  show ?case using recent_snoc [of xs x] by simp
next
  case (snoc y ys)
  then obtain zs where "recent (xs @ x # ys) = recent ys @ x # zs" by auto
  then have "recent (xs @ x # ys @ [y]) = y # removeAll y (recent ys @ x # zs)"
    using recent_snoc [of "xs @ x # ys" y] by simp
  then show ?case using snoc.prems by (auto simp: recent_snoc)
qed

text \<open>Truncation commutes with moving an element to the front.\<close>

lemma take_removeAll:
  assumes "distinct xs" and "0 < n"
  shows "take n (x # removeAll x (take n xs)) = take n (x # removeAll x xs)"
proof -
  obtain m where n: "n = Suc m" using assms(2) by (cases n) auto
  have "take m (removeAll x (take (Suc m) xs)) = take m (removeAll x xs)" if "distinct xs" for m xs
    using that
  proof (induction xs arbitrary: m)
    case (Cons y ys)
    show ?case
    proof (cases "y = x")
      case True
      then have "x \<notin> set ys" "x \<notin> set (take m ys)" using Cons.prems by (auto dest: in_set_takeD)
      then show ?thesis using True by simp
    next
      case False
      then show ?thesis using Cons.IH Cons.prems by (cases m) auto
    qed
  qed simp
  then show ?thesis using assms(1) n by simp
qed

end
