(* ===== verification/Agent_Main.thy ===== *)
theory Agent_Main
  imports Lru Agent_Utils
begin

text \<open>
  The agent's main program, \<^verbatim>\<open>agent/agent.go\<close>: polling the proxy for requests and starting a
  goroutine for each new one, forwarding a request to the backend, the assembly of the handler from
  its layers, and the health checks of the backend.

  The flags are the record \<open>flags\<close>. The loops that run until the process ends take the list of
  what happens in their iterations: the loop of \<^verbatim>\<open>pollForNewRequests\<close> one random number for each
  iteration before the polling context is done, the health checks one result for each tick. The
  log is left out; the Google client, and how \<^verbatim>\<open>main\<close> starts and ends these loops, are in
  \<open>Agent_Lifecycle\<close>.
\<close>

definition requestCacheLimit :: nat where
  "requestCacheLimit = 1000"

definition headerAuthorization :: string where
  "headerAuthorization = ''Authorization''"

text \<open>The command-line flags, with the defaults they are declared with.\<close>

record flags =
  fl_proxy :: string
  fl_proxyTimeout :: duration
  fl_requestForwardingTimeout :: duration
  fl_host :: string
  fl_forceHTTP2 :: bool
  fl_backendID :: string
  fl_debug :: bool
  fl_disableSSLForTest :: bool
  fl_favIconURL :: string
  fl_forwardUserID :: bool
  fl_injectBanner :: string
  fl_bannerHeight :: string
  fl_shimWebsockets :: bool
  fl_websocketShimTimeout :: duration
  fl_shimPath :: string
  fl_healthCheckPath :: string
  fl_healthCheckFreq :: int
  fl_healthCheckUnhealthy :: int
  fl_disableGCEVM :: bool
  fl_enableWebsocketsInjection :: bool
  fl_sessionCookieName :: string
  fl_sessionCookieTimeout :: duration
  fl_sessionCookieCacheLimit :: int
  fl_rewriteWebsocketHost :: bool
  fl_stripCredentials :: bool
  fl_projectID :: string
  fl_metricDomain :: string
  fl_monitoringEndpoint :: string
  fl_monitoringResourceType :: string
  fl_monitoringResourceLabels :: string
  fl_gracefulShutdownTimeout :: duration

definition defaultFlags :: flags where
  "defaultFlags =
     \<lparr>fl_proxy = [], fl_proxyTimeout = 60 * Second, fl_requestForwardingTimeout = 0 * Second,
      fl_host = ''localhost:8080'', fl_forceHTTP2 = False, fl_backendID = [], fl_debug = False,
      fl_disableSSLForTest = False, fl_favIconURL = [], fl_forwardUserID = False, fl_injectBanner = [],
      fl_bannerHeight = ''40px'', fl_shimWebsockets = False, fl_websocketShimTimeout = 60 * Minute,
      fl_shimPath = [], fl_healthCheckPath = ''/'', fl_healthCheckFreq = 0, fl_healthCheckUnhealthy = 2,
      fl_disableGCEVM = False, fl_enableWebsocketsInjection = False, fl_sessionCookieName = [],
      fl_sessionCookieTimeout = 12 * Hour, fl_sessionCookieCacheLimit = 1000,
      fl_rewriteWebsocketHost = False, fl_stripCredentials = False, fl_projectID = [],
      fl_metricDomain = [], fl_monitoringEndpoint = ''monitoring.googleapis.com:443'',
      fl_monitoringResourceType = ''gce_instance'', fl_monitoringResourceLabels = [],
      fl_gracefulShutdownTimeout = 0\<rparr>"

section \<open>The handler\<close>

text \<open>
  The layers around the reverse proxy, as functions on handlers; the reverse proxy takes the
  function that modifies its responses. The error of \<^verbatim>\<open>websockets.Proxy\<close> is looked at only after
  the one of \<^verbatim>\<open>websockets.ShimBody\<close>; the other handler is then not used.
\<close>

definition hostProxy ::
  "flags \<Rightarrow> ('m option \<Rightarrow> 'h) \<Rightarrow> ('h \<Rightarrow> 'h) \<Rightarrow> ('h \<Rightarrow> error + 'h) \<Rightarrow> (error + 'm) \<Rightarrow> ('h \<Rightarrow> error + 'h) \<Rightarrow> error + 'h" where
  "hostProxy fl reverseProxy SessionHandler websocketsProxy ShimBody bannerProxy =
     (let withBanner = (\<lambda>h. if fl_injectBanner fl = [] then Inr h else bannerProxy h) in
      if fl_shimPath fl \<noteq> [] then
        (if fl_shimWebsockets fl then
           (case ShimBody of
              Inl err \<Rightarrow> Inl err
            | Inr shimFunc \<Rightarrow>
                (case websocketsProxy (SessionHandler (reverseProxy (Some shimFunc))) of
                   Inl err \<Rightarrow> Inl err | Inr h \<Rightarrow> withBanner h))
         else (case websocketsProxy (SessionHandler (reverseProxy None)) of
                 Inl err \<Rightarrow> Inl err | Inr h \<Rightarrow> withBanner h))
      else withBanner (SessionHandler (reverseProxy None)))"

section \<open>Forwarding a request\<close>

text \<open>The headers the backend gets.\<close>

definition forwardedHeader :: "flags \<Rightarrow> string \<Rightarrow> header \<Rightarrow> header" where
  "forwardedHeader fl user h =
     (let h1 = (if fl_forwardUserID fl then headerAdd h utilHeaderUserID user else h)
      in if fl_stripCredentials fl then headerDel h1 headerAuthorization else h1)"

text \<open>
  \<open>newForwarder\<close> is \<^verbatim>\<open>utils.NewResponseForwarder\<close> for the request, \<open>serve\<close> the handler built by
  \<open>hostProxy\<close> writing to the forwarder, \<open>closeForwarder\<close> its \<^verbatim>\<open>Close\<close>.
\<close>

definition forwardRequest ::
  "flags \<Rightarrow> (httpRequest ForwardedRequest \<Rightarrow> 'n \<Rightarrow> (error + 'w) \<times> 'n) \<Rightarrow> ('w \<Rightarrow> httpRequest \<Rightarrow> 'n \<Rightarrow> 'w \<times> 'n)
   \<Rightarrow> ('w \<Rightarrow> 'n \<Rightarrow> error option \<times> 'n) \<Rightarrow> 'n \<Rightarrow> httpRequest ForwardedRequest \<Rightarrow> error option \<times> 'n" where
  "forwardRequest fl newForwarder serve closeForwarder n request =
     (let httpRequest = (fr_Contents request)\<lparr>hr_Header := forwardedHeader fl (fr_User request) (hr_Header (fr_Contents request))\<rparr>
      in case newForwarder (request\<lparr>fr_Contents := httpRequest\<rparr>) n of
           (Inl err, n1) \<Rightarrow> (Some (ErrMsg (''failed to create the response forwarder: '' @ errorText err)), n1)
         | (Inr w, n1) \<Rightarrow>
             (case serve w httpRequest n1 of
                (w', n2) \<Rightarrow>
                  (case closeForwarder w' n2 of
                     (Some err, n3) \<Rightarrow> (Some (ErrMsg (''failed to close the response forwarder: '' @ errorText err)), n3)
                   | (None, n3) \<Rightarrow> (None, n3))))"

definition processOneRequest ::
  "(nat \<Rightarrow> bool) \<Rightarrow> (string \<Rightarrow> error + time) \<Rightarrow> (error + bytes \<Rightarrow> error + httpRequest) \<Rightarrow> (nat \<Rightarrow> 'n \<Rightarrow> 'n)
   \<Rightarrow> (string \<Rightarrow> error option) \<Rightarrow> ('n \<Rightarrow> clientRequest \<Rightarrow> (error + clientResponse) \<times> 'n) \<Rightarrow> flags
   \<Rightarrow> (httpRequest ForwardedRequest \<Rightarrow> 'n \<Rightarrow> (error + 'w) \<times> 'n) \<Rightarrow> ('w \<Rightarrow> httpRequest \<Rightarrow> 'n \<Rightarrow> 'w \<times> 'n)
   \<Rightarrow> ('w \<Rightarrow> 'n \<Rightarrow> error option \<times> 'n) \<Rightarrow> string \<Rightarrow> string \<Rightarrow> 'n \<Rightarrow> 'n" where
  "processOneRequest P parseTime parseReq metric badURL Do fl newForwarder serve closeForwarder backendID requestID n =
     (let requestForwarder = (\<lambda>n request.
            case forwardRequest fl newForwarder serve closeForwarder n request of
              (Some err, n') \<Rightarrow> (Some (ErrMsg (''failed to forward the request '' @ Quote P requestID @ '': '' @ errorText err)), n')
            | (None, n') \<Rightarrow> (None, n'))
      in snd (agentReadRequest P parseTime parseReq metric badURL Do (fl_proxy fl) backendID requestID requestForwarder n))"

section \<open>Polling\<close>

text \<open>
  The loop's variables, with two histories: \<open>pl_log\<close> has every request ID that was listed and
  whether a goroutine was started for it, \<open>pl_sleeps\<close> the times slept after failures.
  \<open>pl_deferred\<close> counts the calls of \<^verbatim>\<open>cancel\<close> that are deferred to the return of the function.
\<close>

record 'c polling =
  previouslySeenRequests :: 'c
  pl_retryCount :: nat
  pl_deferred :: nat
  pl_log :: "(string \<times> bool) list"
  pl_sleeps :: "duration list"

definition newPolling :: "(string, string, 'c) lru \<Rightarrow> 'c polling" where
  "newPolling L =
     \<lparr>previouslySeenRequests = lru_New L requestCacheLimit, pl_retryCount = 0, pl_deferred = 0, pl_log = [], pl_sleeps = []\<rparr>"

text \<open>The loop over the listed IDs.\<close>

fun startNew :: "(string, string, 'c) lru \<Rightarrow> string list \<Rightarrow> 'c polling \<Rightarrow> 'c polling" where
  "startNew L [] p = p"
| "startNew L (requestID # requests) p =
     (case lru_Get L requestID (previouslySeenRequests p) of
        (Some _, c) \<Rightarrow> startNew L requests (p\<lparr>previouslySeenRequests := c, pl_log := pl_log p @ [(requestID, False)]\<rparr>)
      | (None, c) \<Rightarrow>
          startNew L requests (p\<lparr>previouslySeenRequests := lru_Add L requestID requestID c,
                                 pl_log := pl_log p @ [(requestID, True)]\<rparr>))"

definition pollOnce ::
  "(string, string, 'c) lru \<Rightarrow> ('n \<Rightarrow> (error + string list) \<times> 'n) \<Rightarrow> real \<Rightarrow> 'c polling \<Rightarrow> 'n \<Rightarrow> 'c polling \<times> 'n" where
  "pollOnce L listPending u p n =
     (let p1 = p\<lparr>pl_deferred := pl_deferred p + 1\<rparr> in
      case listPending n of
        (Inl err, n') \<Rightarrow>
          (p1\<lparr>pl_sleeps := pl_sleeps p1 @ [ExponentialBackoffDuration u (pl_retryCount p1)],
              pl_retryCount := pl_retryCount p1 + 1\<rparr>, n')
      | (Inr requests, n') \<Rightarrow> (startNew L requests (p1\<lparr>pl_retryCount := 0\<rparr>), n'))"

fun pollForNewRequests ::
  "(string, string, 'c) lru \<Rightarrow> ('n \<Rightarrow> (error + string list) \<times> 'n) \<Rightarrow> real list \<Rightarrow> 'c polling \<Rightarrow> 'n \<Rightarrow> 'c polling \<times> 'n" where
  "pollForNewRequests L listPending [] p n = (p, n)"
| "pollForNewRequests L listPending (u # us) p n =
     (case pollOnce L listPending u p n of (p', n') \<Rightarrow> pollForNewRequests L listPending us p' n')"

definition runPolling ::
  "(string, string, 'c) lru \<Rightarrow> (nat \<Rightarrow> bool) \<Rightarrow> (bytes \<Rightarrow> error + string list) \<Rightarrow> (string \<Rightarrow> error option)
   \<Rightarrow> ('n \<Rightarrow> clientRequest \<Rightarrow> (error + clientResponse) \<times> 'n) \<Rightarrow> flags \<Rightarrow> string \<Rightarrow> real list \<Rightarrow> 'n \<Rightarrow> 'c polling \<times> 'n" where
  "runPolling L P unmarshal badURL Do fl backendID us n =
     pollForNewRequests L (agentListPendingRequests P unmarshal badURL Do (fl_proxy fl) backendID) us (newPolling L) n"

text \<open>The timeout of the client that \<^verbatim>\<open>runAdapter\<close> sets.\<close>

definition effectiveRequestForwardingTimeout :: "flags \<Rightarrow> duration" where
  "effectiveRequestForwardingTimeout fl = max (fl_proxyTimeout fl) (fl_requestForwardingTimeout fl)"

section \<open>Health checks\<close>

text \<open>The outcome of the request to the backend gives the result of \<^verbatim>\<open>healthCheck\<close>: \<open>None\<close> is healthy.\<close>

definition healthCheck :: "error + (nat \<times> string) \<Rightarrow> error option" where
  "healthCheck get =
     (case get of
        Inl err \<Rightarrow> Some err
      | Inr (statusCode, status) \<Rightarrow>
          if statusCode \<noteq> 200 then Some (ErrMsg (''Bad Health Check Response Code: '' @ status)) else None)"

text \<open>
  \<open>waitForHealthy\<close>: the number of checks made when it returns, given the results of the checks one
  after the other; \<open>None\<close> while it still waits.
\<close>

fun waitLoop :: "error option list \<Rightarrow> nat \<Rightarrow> nat option" where
  "waitLoop [] made = None"
| "waitLoop (c # cs) made = (if c = None then Some (made + 1) else waitLoop cs (made + 1))"

definition waitForHealthy :: "flags \<Rightarrow> error option list \<Rightarrow> nat option" where
  "waitForHealthy fl checks = (if fl_healthCheckFreq fl \<le> 0 then Some 0 else waitLoop checks 0)"

text \<open>
  \<open>runHealthChecks\<close>: \<open>HealthDisabled\<close> when it returns at once, \<open>HealthFatal k\<close> when the process
  ends after the check number \<open>k\<close> (counted from 1), \<open>HealthRunning\<close> while it goes on.
\<close>

datatype healthOutcome = HealthDisabled | HealthFatal nat | HealthRunning

fun healthLoop :: "int \<Rightarrow> error option list \<Rightarrow> nat \<Rightarrow> int \<Rightarrow> healthOutcome" where
  "healthLoop unhealthy [] made badHealthChecks = HealthRunning"
| "healthLoop unhealthy (c # cs) made badHealthChecks =
     (let bad = (if c \<noteq> None then badHealthChecks + 1 else 0) in
      if unhealthy \<le> bad then HealthFatal (made + 1) else healthLoop unhealthy cs (made + 1) bad)"

definition runHealthChecks :: "flags \<Rightarrow> error option list \<Rightarrow> healthOutcome" where
  "runHealthChecks fl checks =
     (if fl_healthCheckFreq fl \<le> 0 then HealthDisabled
      else healthLoop (if fl_healthCheckUnhealthy fl < 1 then 1 else fl_healthCheckUnhealthy fl) checks 0 0)"

text \<open>
  The checks at the start of \<^verbatim>\<open>main\<close>: the message the process ends with, or the path of the
  health checks.
\<close>

definition checkFlags :: "string \<Rightarrow> string \<Rightarrow> string \<Rightarrow> string + string" where
  "checkFlags proxy backendID healthCheckPath =
     (if proxy = [] then Inl ''You must specify the address of the proxy''
      else if backendID = [] then Inl ''You must specify a backend ID''
      else Inr (if take 1 healthCheckPath \<noteq> ''/'' then ''/'' @ healthCheckPath else healthCheckPath))"

end
