(* ===== verification/Agent_Main_Properties.thy ===== *)
theory Agent_Main_Properties
  imports Agent_Main
begin

text \<open>
  Correctness of the agent's main loops. The polling loop is analysed for every cache that satisfies
  the laws of \<open>lru_cache\<close>: the keys of the cache are the most recently listed IDs, so whether a
  listed ID starts a goroutine is determined by the IDs listed since its last occurrence. The
  health checks are compared with the statement that a run of failures has the length of the threshold.
\<close>

section \<open>Polling\<close>

text \<open>What the log says when each ID is looked up among the most recently listed ones.\<close>

definition log_ok :: "(string \<times> bool) list \<Rightarrow> bool" where
  "log_ok lg \<longleftrightarrow>
     (\<forall>pre x b suf. lg = pre @ (x, b) # suf \<longrightarrow> b = (x \<notin> set (take requestCacheLimit (recent (map fst pre)))))"

lemma log_ok_Nil: "log_ok []"
  by (simp add: log_ok_def)

lemma log_ok_snoc:
  assumes "log_ok lg" and "b = (x \<notin> set (take requestCacheLimit (recent (map fst lg))))"
  shows "log_ok (lg @ [(x, b)])"
  unfolding log_ok_def
proof (intro allI impI)
  fix pre y c suf assume eq: "lg @ [(x, b)] = pre @ (y, c) # suf"
  show "c = (y \<notin> set (take requestCacheLimit (recent (map fst pre))))"
  proof (cases suf rule: rev_cases)
    case Nil
    then show ?thesis using eq assms(2) by auto
  next
    case (snoc s z)
    then have "lg = pre @ (y, c) # s" using eq by simp
    then show ?thesis using assms(1) unfolding log_ok_def by blast
  qed
qed

text \<open>A first occurrence starts a goroutine.\<close>

lemma log_first:
  assumes "log_ok lg" and "lg = pre @ (x, b) # suf" and "x \<notin> fst ` set pre"
  shows b
proof -
  have "b = (x \<notin> set (take requestCacheLimit (recent (map fst pre))))"
    using assms(1,2) unfolding log_ok_def by blast
  moreover have "set (take requestCacheLimit (recent (map fst pre))) \<subseteq> fst ` set pre"
    using set_take_subset [of _ "recent (map fst pre)"] by simp
  ultimately show ?thesis using assms(3) by blast
qed

text \<open>A later one starts another only after \<open>requestCacheLimit\<close> other IDs.\<close>

lemma log_again:
  assumes "log_ok lg" and "lg = pre @ (x, b) # mid @ (x, b') # suf" and "x \<notin> fst ` set mid"
    and "card (fst ` set mid) < requestCacheLimit"
  shows "\<not> b'"
proof -
  have "x \<notin> set (map fst mid)" using assms(3) by simp
  then obtain zs where "recent (map fst pre @ x # map fst mid) = recent (map fst mid) @ x # zs"
    using recent_since by metis
  moreover have "length (recent (map fst mid)) < requestCacheLimit" using assms(4) by simp
  ultimately have "x \<in> set (take requestCacheLimit (recent (map fst (pre @ (x, b) # mid))))"
    by (cases "requestCacheLimit - length (recent (map fst mid))") simp_all
  moreover have "lg = (pre @ (x, b) # mid) @ (x, b') # suf" using assms(2) by simp
  ultimately show ?thesis using assms(1) unfolding log_ok_def by blast
qed

text \<open>While all listed IDs fit, the started ones are the listed ones, once each.\<close>

lemma log_ok_prefix: "log_ok (lg @ [e]) \<Longrightarrow> log_ok lg"
  unfolding log_ok_def by (metis append_Cons append_assoc)

lemma log_distinct:
  assumes "log_ok lg" and "card (fst ` set lg) \<le> requestCacheLimit"
  shows "distinct (map fst (filter snd lg)) \<and> fst ` set (filter snd lg) = fst ` set lg"
  using assms
proof (induction lg rule: rev_induct)
  case (snoc e lg)
  obtain x b where e: "e = (x, b)" by fastforce
  have "card (fst ` set lg) \<le> requestCacheLimit"
    using order_trans [OF card_mono [of "fst ` set (lg @ [e])" "fst ` set lg"] snoc.prems(2)] by auto
  then have "take requestCacheLimit (recent (map fst lg)) = recent (map fst lg)" by simp
  moreover have "b = (x \<notin> set (take requestCacheLimit (recent (map fst lg))))"
    using snoc.prems(1) e unfolding log_ok_def by blast
  ultimately have b: "b = (x \<notin> fst ` set lg)" by simp
  have IH: "distinct (map fst (filter snd lg)) \<and> fst ` set (filter snd lg) = fst ` set lg"
    using snoc.IH log_ok_prefix [OF snoc.prems(1)] \<open>card (fst ` set lg) \<le> requestCacheLimit\<close> by blast
  have "x \<notin> set (map fst (filter snd lg))" if b using that b IH by (metis set_map)
  then show ?case using IH b e by (cases b) auto
qed simp

text \<open>The invariant: the cached keys are the most recently listed IDs.\<close>

definition polling_inv :: "('c \<Rightarrow> (string \<times> string) list) \<Rightarrow> ('c \<Rightarrow> nat) \<Rightarrow> 'c polling \<Rightarrow> bool" where
  "polling_inv entries maxEntries p \<longleftrightarrow>
     map fst (entries (previouslySeenRequests p)) = take requestCacheLimit (recent (map fst (pl_log p)))
     \<and> maxEntries (previouslySeenRequests p) = requestCacheLimit \<and> log_ok (pl_log p)"

lemma keys_touch: "map fst (touch k v xs) = k # removeAll k (map fst xs)"
  by (induction xs) (auto simp: touch_def)

lemma keys_evict: "map fst (evict requestCacheLimit xs) = take requestCacheLimit (map fst xs)"
  by (simp add: evict_def requestCacheLimit_def take_map)

lemma take_recent_snoc:
  "take requestCacheLimit (x # removeAll x (take requestCacheLimit (recent xs))) = take requestCacheLimit (recent (xs @ [x]))"
  unfolding recent_snoc by (rule take_removeAll) (simp_all add: requestCacheLimit_def)

text \<open>Moving a cached key to the front keeps the cache within its limit.\<close>

lemma take_recent_hit:
  assumes "x \<in> set (take requestCacheLimit (recent xs))"
  shows "x # removeAll x (take requestCacheLimit (recent xs)) = take requestCacheLimit (recent (xs @ [x]))"
proof -
  let ?R = "take requestCacheLimit (recent xs)"
  have "distinct ?R" by simp
  then have "length (removeAll x ?R) = length ?R - 1"
    using assms by (subst distinct_remove1_removeAll [symmetric]) (simp_all only: length_remove1 if_True)
  then have "length (x # removeAll x ?R) = length ?R"
    using length_pos_if_in_set [OF assms] by (simp del: length_take)
  then have "length (x # removeAll x ?R) \<le> requestCacheLimit" by simp
  then show ?thesis using take_recent_snoc [of x xs] by (simp only: take_all)
qed

locale request_polling = lru_cache L entries maxEntries
  for L :: "(string, string, 'c) lru" and entries :: "'c \<Rightarrow> (string \<times> string) list" and maxEntries :: "'c \<Rightarrow> nat"
begin

lemma newPolling_inv: "polling_inv entries maxEntries (newPolling L)"
  by (simp add: polling_inv_def newPolling_def New log_ok_Nil)

lemma startNew_inv: "polling_inv entries maxEntries p \<Longrightarrow> polling_inv entries maxEntries (startNew L ids p)"
proof (induction ids arbitrary: p)
  case (Cons x ids)
  let ?c = "previouslySeenRequests p" and ?xs = "map fst (pl_log p)"
  have keys: "map fst (entries ?c) = take requestCacheLimit (recent ?xs)" and size: "maxEntries ?c = requestCacheLimit"
      and lg: "log_ok (pl_log p)"
    using Cons.prems by (auto simp: polling_inv_def)
  obtain r c where get: "lru_Get L x ?c = (r, c)" by fastforce
  have r: "r = map_of (entries ?c) x" and mx: "maxEntries c = requestCacheLimit"
    using Get(1,3) [of x ?c] get size by auto
  have mem: "r = None \<longleftrightarrow> x \<notin> set (take requestCacheLimit (recent ?xs))"
    by (simp add: r map_of_eq_None_iff keys [symmetric])
  show ?case
  proof (cases r)
    case None
    have "entries c = entries ?c" using Get(2) [of x ?c] get r None by simp
    then have "map fst (entries (lru_Add L x x c)) = take requestCacheLimit (recent (?xs @ [x]))"
      by (simp add: Add mx keys_evict keys_touch keys take_recent_snoc del: take_Suc_Cons)
    then have "polling_inv entries maxEntries (p\<lparr>previouslySeenRequests := lru_Add L x x c, pl_log := pl_log p @ [(x, True)]\<rparr>)"
      using log_ok_snoc [OF lg, of True x] None mem by (simp add: polling_inv_def Add mx)
    from Cons.IH [OF this] show ?thesis using get None by simp
  next
    case (Some v)
    have "map_of (entries ?c) x = Some v" using r Some by simp
    then have "entries c = touch x v (entries ?c)" using Get(2) [of x ?c] get by simp
    then have "map fst (entries c) = take requestCacheLimit (recent (?xs @ [x]))"
      using take_recent_hit [of x ?xs] Some mem by (simp add: keys_touch keys)
    then have "polling_inv entries maxEntries (p\<lparr>previouslySeenRequests := c, pl_log := pl_log p @ [(x, False)]\<rparr>)"
      using log_ok_snoc [OF lg, of False x] Some mem by (simp add: polling_inv_def mx)
    from Cons.IH [OF this] show ?thesis using get Some by simp
  qed
qed simp

lemma pollOnce_inv:
  "polling_inv entries maxEntries p \<Longrightarrow> polling_inv entries maxEntries (fst (pollOnce L listPending u p n))"
proof -
  assume inv: "polling_inv entries maxEntries p"
  have "polling_inv entries maxEntries (p\<lparr>pl_deferred := d, pl_retryCount := 0\<rparr>)" for d
    using inv by (simp add: polling_inv_def)
  from startNew_inv [OF this] inv show ?thesis
    by (auto simp: pollOnce_def Let_def polling_inv_def split: prod.splits sum.splits)
qed

lemma pollForNewRequests_inv:
  "polling_inv entries maxEntries p \<Longrightarrow> polling_inv entries maxEntries (fst (pollForNewRequests L listPending us p n))"
proof (induction us arbitrary: p n)
  case (Cons u us)
  obtain p' n' where "pollOnce L listPending u p n = (p', n')" by fastforce
  then show ?case using Cons.IH [of p' n'] pollOnce_inv [OF Cons.prems, of listPending u n] by simp
qed simp

end

interpretation listPolling: request_polling listLru snd fst ..

lemma runPolling_log_ok:
  assumes "lru_cache L entries maxEntries" and "runPolling L P unmarshal badURL Do fl backendID us n = (p, n')"
  shows "log_ok (pl_log p)"
proof -
  have "request_polling L entries maxEntries" using assms(1) by (simp add: request_polling_def)
  then have "polling_inv entries maxEntries p"
    using request_polling.pollForNewRequests_inv request_polling.newPolling_inv assms(2)
    unfolding runPolling_def by (metis fst_conv)
  then show ?thesis by (simp add: polling_inv_def)
qed

text \<open>When no ID is listed twice, every listed ID starts a goroutine.\<close>

lemma log_all_started:
  assumes "log_ok lg" and "distinct (map fst lg)" and "e \<in> set lg"
  shows "snd e"
proof -
  obtain x b pre suf where e: "e = (x, b)" "lg = pre @ (x, b) # suf"
    using assms(3) by (metis split_list surj_pair)
  then have "x \<notin> fst ` set pre" using assms(2) by (auto simp: image_iff)
  then show ?thesis using log_first [OF assms(1) e(2)] e(1) by simp
qed

text \<open>C8. The polling loop starts a goroutine for a request ID when it is first listed by the proxy,
  and not again for an ID that is listed again, unless at least a thousand other IDs were listed since.
  So with at most a thousand IDs in all, each listed ID is processed exactly once. This holds for every
  behaviour of the network and every cache that satisfies the laws.\<close>

theorem requests_started_once:
  assumes "lru_cache L entries maxEntries"
    and "runPolling L P unmarshal badURL Do fl backendID us n = (p, n')"
  shows "(\<forall>pre x b suf. pl_log p = pre @ (x, b) # suf \<and> x \<notin> fst ` set pre \<longrightarrow> b)
    \<and> (\<forall>pre x b mid b' suf. pl_log p = pre @ (x, b) # mid @ (x, b') # suf \<and> x \<notin> fst ` set mid
          \<and> card (fst ` set mid) < 1000 \<longrightarrow> \<not> b')
    \<and> (card (fst ` set (pl_log p)) \<le> 1000 \<longrightarrow>
          distinct (map fst (filter snd (pl_log p))) \<and> fst ` set (filter snd (pl_log p)) = fst ` set (pl_log p))"
proof -
  have lg: "log_ok (pl_log p)" by (rule runPolling_log_ok [OF assms])
  show ?thesis
  proof (intro conjI)
    show "\<forall>pre x b suf. pl_log p = pre @ (x, b) # suf \<and> x \<notin> fst ` set pre \<longrightarrow> b"
      using log_first [OF lg] by blast
    show "\<forall>pre x b mid b' suf. pl_log p = pre @ (x, b) # mid @ (x, b') # suf \<and> x \<notin> fst ` set mid
          \<and> card (fst ` set mid) < 1000 \<longrightarrow> \<not> b'"
      using log_again [OF lg] unfolding requestCacheLimit_def by blast
    show "card (fst ` set (pl_log p)) \<le> 1000 \<longrightarrow>
          distinct (map fst (filter snd (pl_log p))) \<and> fst ` set (filter snd (pl_log p)) = fst ` set (pl_log p)"
      using log_distinct [OF lg] unfolding requestCacheLimit_def by blast
  qed
qed

definition demoFlags :: flags where
  "demoFlags = defaultFlags\<lparr>fl_proxy := ''https://proxy/'', fl_backendID := ''b'', fl_forwardUserID := True,
     fl_healthCheckFreq := 5, fl_gracefulShutdownTimeout := 10, fl_stripCredentials := True\<rparr>"

lemma demoFlags_sel [simp]:
  "fl_proxy demoFlags = ''https://proxy/''" "fl_backendID demoFlags = ''b''" "fl_healthCheckPath demoFlags = ''/''"
  "fl_forwardUserID demoFlags" "fl_stripCredentials demoFlags" "fl_healthCheckFreq demoFlags = 5"
  "fl_healthCheckUnhealthy demoFlags = 2" "fl_gracefulShutdownTimeout demoFlags = 10" "fl_sessionCookieName demoFlags = []"
  "fl_projectID demoFlags = []"
  by (simp_all add: demoFlags_def defaultFlags_def)

text \<open>A network whose list requests are answered one after the other by the given lists.\<close>

definition demoLists :: "string list list \<Rightarrow> clientRequest \<Rightarrow> (error + clientResponse) \<times> string list list" where
  "demoLists n req = (case n of [] \<Rightarrow> (Inl (ErrService ''timeout''), [])
     | ids # n' \<Rightarrow> (Inr \<lparr>cl_StatusCode = 200, cl_Header = [], cl_Body = Inr (concat ids)\<rparr>, n'))"

theorem requests_started_once_witness:
  "distinct (map fst (filter snd (pl_log (fst (runPolling listLru (\<lambda>_. True) (\<lambda>bs. Inr (map (\<lambda>c. [c]) bs)) (\<lambda>_. None)
     demoLists demoFlags ''b'' [0, 0] [[''1'', ''2''], [''2'', ''3'', ''1'']])))))"
proof -
  let ?run = "runPolling listLru (\<lambda>_. True) (\<lambda>bs. Inr (map (\<lambda>c. [c]) bs)) (\<lambda>_. None)
     demoLists demoFlags ''b'' [0, 0] [[''1'', ''2''], [''2'', ''3'', ''1'']]"
  have "fst ` set (pl_log (fst ?run)) = {''1'', ''2'', ''3''}"
    by (auto simp: runPolling_def pollOnce_def newPolling_def listLru_def requestCacheLimit_def evict_def touch_def
        agentListPendingRequests_def parseRequestIDs_def demoLists_def Let_def)
  then have "card (fst ` set (pl_log (fst ?run))) \<le> 1000" by simp
  then show ?thesis
    using requests_started_once [OF listLru.lru_cache_axioms, of "\<lambda>_. True" _ _ demoLists demoFlags "''b''" "[0, 0]" _ "fst ?run" "snd ?run"]
    by (metis prod.collapse)
qed

section \<open>Health checks\<close>

text \<open>The first \<open>k\<close> checks end with \<open>t\<close> failures in a row.\<close>

definition failing :: "nat \<Rightarrow> error option list \<Rightarrow> nat \<Rightarrow> bool" where
  "failing t checks k \<longleftrightarrow> t \<le> k \<and> k \<le> length checks \<and> (\<forall>i. k - t \<le> i \<and> i < k \<longrightarrow> checks ! i \<noteq> None)"

definition trailing :: "error option list \<Rightarrow> nat" where
  "trailing cs = length (takeWhile (\<lambda>c. c \<noteq> None) (rev cs))"

lemma trailing_simps [simp]: "trailing [] = 0" "trailing (cs @ [c]) = (if c \<noteq> None then trailing cs + 1 else 0)"
  by (auto simp: trailing_def)

lemma length_takeWhile_iff: "t \<le> length (takeWhile P ys) \<longleftrightarrow> t \<le> length ys \<and> (\<forall>i<t. P (ys ! i))"
proof (induction ys arbitrary: t)
  case (Cons y ys)
  then show ?case by (cases t) (auto simp: nth_Cons split: nat.splits)
qed auto

lemma failing_iff_trailing:
  assumes "k \<le> length checks"
  shows "failing t checks k \<longleftrightarrow> t \<le> trailing (take k checks)"
proof -
  have "(\<forall>i<t. rev (take k checks) ! i \<noteq> None) \<longleftrightarrow> (\<forall>i. k - t \<le> i \<and> i < k \<longrightarrow> checks ! i \<noteq> None)" if "t \<le> k"
  proof (intro iffI allI impI)
    fix i assume all: "\<forall>i<t. rev (take k checks) ! i \<noteq> None" and i: "k - t \<le> i \<and> i < k"
    have "rev (take k checks) ! (k - Suc i) \<noteq> None" using all i that by (metis Suc_le_lessD diff_diff_cancel diff_less_mono2 le_less_trans less_or_eq_imp_le not_less_eq_eq)
    then show "checks ! i \<noteq> None" using i assms by (simp add: rev_nth)
  next
    fix i assume "\<forall>i. k - t \<le> i \<and> i < k \<longrightarrow> checks ! i \<noteq> None" and "i < t"
    then show "rev (take k checks) ! i \<noteq> None" using assms that by (simp add: rev_nth)
  qed
  then show ?thesis using assms unfolding failing_def trailing_def length_takeWhile_iff by auto
qed

lemma healthLoop_iff:
  assumes "1 \<le> u" and "int (trailing pre) < u"
  shows "healthLoop u cs (length pre) (int (trailing pre)) = HealthFatal k \<longleftrightarrow>
    length pre < k \<and> k \<le> length (pre @ cs) \<and> u \<le> int (trailing (take k (pre @ cs)))
    \<and> (\<forall>j. length pre < j \<and> j < k \<longrightarrow> int (trailing (take j (pre @ cs))) < u)"
  using assms(2)
proof (induction cs arbitrary: pre)
  case (Cons c cs)
  let ?pre = "pre @ [c]"
  have bad: "(if c \<noteq> None then int (trailing pre) + 1 else 0) = int (trailing ?pre)" by simp
  have first: "take (Suc (length pre)) (pre @ c # cs) = ?pre" by simp
  show ?case
  proof (cases "u \<le> int (trailing ?pre)")
    case True
    then have "healthLoop u (c # cs) (length pre) (int (trailing pre)) = HealthFatal (Suc (length pre))"
      unfolding healthLoop.simps Let_def bad by simp
    moreover have "k = Suc (length pre)" if "length pre < k" "\<forall>j. length pre < j \<and> j < k \<longrightarrow> int (trailing (take j (pre @ c # cs))) < u"
    proof (rule ccontr)
      assume "k \<noteq> Suc (length pre)"
      then have "int (trailing ?pre) < u" using that first by (metis Suc_lessI lessI)
      then show False using True by simp
    qed
    ultimately show ?thesis using True first by auto
  next
    case False
    then have "healthLoop u (c # cs) (length pre) (int (trailing pre)) = healthLoop u cs (length ?pre) (int (trailing ?pre))"
      unfolding healthLoop.simps Let_def bad by simp
    moreover have "int (trailing (take j (pre @ c # cs))) < u" if "j = Suc (length pre)" for j
      using False first that by (simp only: not_le)
    then have "length pre < j \<and> j < k \<longrightarrow> int (trailing (take j (pre @ c # cs))) < u
      \<longleftrightarrow> length ?pre < j \<and> j < k \<longrightarrow> int (trailing (take j (pre @ c # cs))) < u" for j
      by (cases "j = Suc (length pre)") auto
    moreover have "u \<le> int (trailing (take k (pre @ c # cs))) \<and> length pre < k \<longrightarrow> length ?pre < k"
      using False first by (cases "k = Suc (length pre)") auto
    ultimately show ?thesis using Cons.IH [of ?pre] False by fastforce
  qed
qed simp

text \<open>C34. With health checks enabled the agent gives up exactly after the first check that completes
  a run of failures as long as the threshold (at least one); a healthy check starts the count again.
  With the checks disabled it never does.\<close>

theorem health_checks_fatal_iff:
  "runHealthChecks fl checks = HealthFatal k \<longleftrightarrow>
     0 < fl_healthCheckFreq fl \<and> failing (nat (max 1 (fl_healthCheckUnhealthy fl))) checks k
     \<and> (\<forall>j<k. \<not> failing (nat (max 1 (fl_healthCheckUnhealthy fl))) checks j)"
proof -
  let ?u = "max 1 (fl_healthCheckUnhealthy fl)"
  have u: "(if fl_healthCheckUnhealthy fl < 1 then 1 else fl_healthCheckUnhealthy fl) = ?u" by simp
  have failing: "failing (nat ?u) checks j \<longleftrightarrow> j \<le> length checks \<and> ?u \<le> int (trailing (take j checks))" for j
    using failing_iff_trailing [of j checks "nat ?u"] by (cases "j \<le> length checks") (auto simp: failing_def)
  have zero: "int (trailing (take 0 checks)) < ?u" by simp
  have "healthLoop ?u checks 0 0 = HealthFatal k \<longleftrightarrow>
     0 < k \<and> k \<le> length checks \<and> ?u \<le> int (trailing (take k checks))
     \<and> (\<forall>j. 0 < j \<and> j < k \<longrightarrow> int (trailing (take j checks)) < ?u)"
    using healthLoop_iff [of ?u "[]" checks k] by simp
  also have "(\<forall>j. 0 < j \<and> j < k \<longrightarrow> int (trailing (take j checks)) < ?u) \<longleftrightarrow> (\<forall>j<k. \<not> ?u \<le> int (trailing (take j checks)))"
    using zero by (metis gr0I linorder_not_le)
  also have "(0 < k \<and> k \<le> length checks \<and> ?u \<le> int (trailing (take k checks)) \<and> (\<forall>j<k. \<not> ?u \<le> int (trailing (take j checks))))
     \<longleftrightarrow> failing (nat ?u) checks k \<and> (\<forall>j<k. \<not> failing (nat ?u) checks j)"
    using zero unfolding failing by (metis gr0I leD less_imp_le_nat order_trans)
  finally show ?thesis unfolding runHealthChecks_def u by simp
qed

text \<open>One healthy check between failures starts the count again.\<close>

theorem health_checks_fatal_iff_witness:
  "runHealthChecks demoFlags [Some ErrFieldMismatch, None, Some ErrFieldMismatch, Some ErrFieldMismatch, None] = HealthFatal 4"
proof -
  let ?cs = "[Some ErrFieldMismatch, None, Some ErrFieldMismatch, Some ErrFieldMismatch, None]"
  have t: "nat (max 1 (fl_healthCheckUnhealthy demoFlags)) = 2" "0 < fl_healthCheckFreq demoFlags"
    by (simp_all)
  have "failing 2 ?cs 4"
    by (auto simp: failing_def nth_Cons split: nat.splits)
  moreover have "\<not> failing 2 ?cs j" if j: "j < 4" for j
  proof -
    from j consider "j = 0" | "j = 1" | "j = 2" | "j = 3" by linarith
    then show ?thesis by cases (auto simp: failing_def intro: exI [of _ 1])
  qed
  ultimately show ?thesis using t(2) unfolding health_checks_fatal_iff t(1) by blast
qed

section \<open>What the backend sees, what the loop leaves behind\<close>

lemma canonical_keys:
  "CanonicalHeaderKey headerAuthorization = ''Authorization''"
  "CanonicalHeaderKey utilHeaderUserID = ''X-Inverting-Proxy-User-Id''"
  unfolding headerAuthorization_def utilHeaderUserID_def by code_simp+

lemma forwardedHeader_values:
  "headerValues (forwardedHeader fl user h) k =
     (if fl_stripCredentials fl \<and> CanonicalHeaderKey k = ''Authorization'' then []
      else if fl_forwardUserID fl \<and> CanonicalHeaderKey k = ''X-Inverting-Proxy-User-Id'' then headerValues h k @ [user]
      else headerValues h k)"
  by (auto simp: forwardedHeader_def Let_def header_simps canonical_keys)

text \<open>The handler of a forwarded request is called with the edited header only: replacing it on
  requests with other headers changes nothing.\<close>

lemma forwardRequest_serves:
  assumes "\<And>w r n. hr_Header r = forwardedHeader fl (fr_User req) (hr_Header (fr_Contents req)) \<Longrightarrow> serve w r n = serve' w r n"
  shows "forwardRequest fl nf serve cf n req = forwardRequest fl nf serve' cf n req"
  by (auto simp: forwardRequest_def Let_def assms split: prod.split sum.split)

text \<open>The backend gets a request's headers unchanged except for two options: credentials are
  stripped, and the end user's address is added as the last value of its header. The handler is
  called with no other header.\<close>

theorem forwarded_headers:
  assumes "\<And>w r n. \<forall>k. headerValues (hr_Header r) k =
      (if fl_stripCredentials fl \<and> CanonicalHeaderKey k = ''Authorization'' then []
       else if fl_forwardUserID fl \<and> CanonicalHeaderKey k = ''X-Inverting-Proxy-User-Id''
            then headerValues (hr_Header (fr_Contents req)) k @ [fr_User req]
       else headerValues (hr_Header (fr_Contents req)) k) \<Longrightarrow> serve w r n = serve' w r n"
  shows "forwardRequest fl nf serve cf n req = forwardRequest fl nf serve' cf n req"
  by (rule forwardRequest_serves, rule assms) (simp add: forwardedHeader_values)

definition demoForwarded :: "httpRequest ForwardedRequest" where
  "demoForwarded = \<lparr>fr_BackendID = ''b'', fr_RequestID = ''1'', fr_User = ''user@example.com'', fr_StartTime = 0,
     fr_Contents = \<lparr>hr_Method = ''GET'', hr_Path = ''/'', hr_URL = ''/'',
       hr_Header = [(''Authorization'', [''secret'']), (''X-Inverting-Proxy-User-Id'', [''admin@example.com''])], hr_Body = Inr []\<rparr>\<rparr>"

theorem forwarded_headers_witness:
  "forwardRequest demoFlags (\<lambda>_ n. (Inr (), n)) (\<lambda>_ r n. ((), headerValues (hr_Header r) ''Authorization'' # n)) (\<lambda>_ n. (None, n)) [] demoForwarded
   = forwardRequest demoFlags (\<lambda>_ n. (Inr (), n)) (\<lambda>_ r n. ((), [] # n)) (\<lambda>_ n. (None, n)) [] demoForwarded"
proof (rule forwarded_headers)
  fix w :: unit and r :: httpRequest and n
  have "CanonicalHeaderKey ''Authorization'' = ''Authorization''" by code_simp
  moreover assume "\<forall>k. headerValues (hr_Header r) k =
      (if fl_stripCredentials demoFlags \<and> CanonicalHeaderKey k = ''Authorization'' then []
       else if fl_forwardUserID demoFlags \<and> CanonicalHeaderKey k = ''X-Inverting-Proxy-User-Id''
            then headerValues (hr_Header (fr_Contents demoForwarded)) k @ [fr_User demoForwarded]
       else headerValues (hr_Header (fr_Contents demoForwarded)) k)"
  ultimately have "headerValues (hr_Header r) ''Authorization'' = []" by simp
  then show "((), headerValues (hr_Header r) ''Authorization'' # n) = ((), [] # n)" by simp
qed

text \<open>When the agent forwards the end user's address and the client itself sent that header, the
  backend that reads the header gets the client's value and not the address of the authenticated user.\<close>

theorem client_sets_user_id:
  assumes "headerValues h ''X-Inverting-Proxy-User-ID'' = claimed # rest"
  shows "headerGet (forwardedHeader fl user h) ''X-Inverting-Proxy-User-ID'' = claimed"
proof -
  have "CanonicalHeaderKey ''X-Inverting-Proxy-User-ID'' = ''X-Inverting-Proxy-User-Id''" by code_simp
  then show ?thesis by (simp add: headerGet_def forwardedHeader_values assms)
qed

theorem client_sets_user_id_witness:
  "headerGet (forwardedHeader demoFlags ''user@example.com'' (hr_Header (fr_Contents demoForwarded))) ''X-Inverting-Proxy-User-ID''
   = ''admin@example.com''"
proof (rule client_sets_user_id [where rest = "[]"])
  show "headerValues (hr_Header (fr_Contents demoForwarded)) ''X-Inverting-Proxy-User-ID'' = [''admin@example.com'']"
    by code_simp
qed

lemma startNew_frame:
  "pl_deferred (startNew L ids p) = pl_deferred p" "pl_retryCount (startNew L ids p) = pl_retryCount p"
  "pl_sleeps (startNew L ids p) = pl_sleeps p"
  by (induction ids arbitrary: p) (auto split: prod.splits option.splits)

lemma pollForNewRequests_deferred:
  "pl_deferred (fst (pollForNewRequests L listPending us p n)) = pl_deferred p + length us"
  by (induction us arbitrary: p n) (auto simp: pollOnce_def Let_def startNew_frame split: prod.splits sum.splits)

text \<open>Every iteration of the polling loop leaves one more call of \<open>cancel\<close>, with the context and
  timer it holds, deferred to the end of the function, which is the end of the process.\<close>

theorem poll_defers_every_cancel:
  "pl_deferred (fst (runPolling L P unmarshal badURL Do fl backendID us n)) = length us"
  by (simp add: runPolling_def newPolling_def pollForNewRequests_deferred)

end
