(* ===== verification/Agent_Sessions.thy ===== *)
theory Agent_Sessions
  imports Lru Http Go_Strings
begin

text \<open>
  The agent's session cache, \<^verbatim>\<open>agent/sessions/sessions.go\<close>: cookies set by the backend are kept
  in a cookie jar of the user's session, and the client only gets one cookie with the session's ID.

  Cookies of requests are parsed and written as \<^verbatim>\<open>net/http\<close> does. Cookie jars
  (\<^verbatim>\<open>net/http/cookiejar\<close> with a public suffix list) are a parameter: a new jar, the cookies it has
  for a URL and the effect of setting cookies parsed from \<^verbatim>\<open>Set-Cookie\<close> lines. Jars are shared
  objects, so they live in a heap and the cache holds references. \<^verbatim>\<open>cookiejar.New\<close> always returns a
  nil error and only jars are put in the cache, so the branches for these errors have no
  counterpart. The random ID and the current time are arguments; a call of \<^verbatim>\<open>cachedCookieJar\<close> is
  one step.
\<close>

section \<open>Cookies of requests\<close>

record cookie =
  ck_Name :: string
  ck_Value :: string

definition isASCIISpace :: "char \<Rightarrow> bool" where
  "isASCIISpace c \<longleftrightarrow> c \<in> {CHR '' '', CHR 0x09, CHR 0x0A, CHR 0x0D}"

definition TrimString :: "string \<Rightarrow> string" where
  "TrimString s = rev (dropWhile isASCIISpace (rev (dropWhile isASCIISpace s)))"

text \<open>\<^verbatim>\<open>strings.Cut\<close> at a character: what is before it and what is after it.\<close>

definition cutAt :: "char \<Rightarrow> string \<Rightarrow> string \<times> string" where
  "cutAt c s = (takeWhile (\<lambda>x. x \<noteq> c) s, tl (dropWhile (\<lambda>x. x \<noteq> c) s))"

definition isCookieNameValid :: "string \<Rightarrow> bool" where
  "isCookieNameValid s \<longleftrightarrow> s \<noteq> [] \<and> list_all isTokenChar s"

definition validCookieValueByte :: "char \<Rightarrow> bool" where
  "validCookieValueByte c \<longleftrightarrow>
     0x20 \<le> byte c \<and> byte c < 0x7f \<and> c \<noteq> CHR 0x22 \<and> c \<noteq> CHR '';'' \<and> c \<noteq> CHR 0x5C"

definition parseCookieValue :: "string \<Rightarrow> string option" where
  "parseCookieValue raw =
     (let v = (if 1 < length raw \<and> hd raw = CHR 0x22 \<and> last raw = CHR 0x22 then butlast (tl raw) else raw)
      in if list_all validCookieValueByte v then Some v else None)"

text \<open>One part of a line between semicolons; \<open>flt\<close> is the name asked for, or empty.\<close>

definition readCookie :: "string \<Rightarrow> string \<Rightarrow> cookie list" where
  "readCookie flt part =
     (case cutAt (CHR ''='') (TrimString part) of
        (name, val) \<Rightarrow>
          if TrimString part = [] \<or> \<not> isCookieNameValid name \<or> (flt \<noteq> [] \<and> flt \<noteq> name) then []
          else (case parseCookieValue val of None \<Rightarrow> [] | Some v \<Rightarrow> [\<lparr>ck_Name = name, ck_Value = v\<rparr>]))"

function readLine :: "string \<Rightarrow> string \<Rightarrow> cookie list" where
  "readLine flt line =
     (if line = [] then []
      else (case cutAt (CHR '';'') line of (part, rest) \<Rightarrow> readCookie flt part @ readLine flt rest))"
  by pat_completeness auto

lemma length_dropWhile_tl: "s \<noteq> [] \<Longrightarrow> length (dropWhile P s) - Suc 0 < length s"
  using length_dropWhile_le [of P s] by (cases s) (auto simp: le_imp_less_Suc)

termination readLine
  by (relation "measure (length \<circ> snd)") (auto simp: cutAt_def length_dropWhile_tl)

declare readLine.simps [simp del]

definition readCookies :: "header \<Rightarrow> string \<Rightarrow> cookie list" where
  "readCookies h flt = concat (map (readLine flt \<circ> TrimString) (headerValues h ''Cookie''))"

definition sanitizeCookieName :: "string \<Rightarrow> string" where
  "sanitizeCookieName n = map (\<lambda>c. if c = CHR 0x0A \<or> c = CHR 0x0D then CHR ''-'' else c) n"

definition sanitizeCookieValue :: "string \<Rightarrow> string" where
  "sanitizeCookieValue s =
     (let v = filter validCookieValueByte s
      in if v \<noteq> [] \<and> (CHR '' '' \<in> set v \<or> CHR '','' \<in> set v) then [CHR 0x22] @ v @ [CHR 0x22] else v)"

definition cookiePair :: "cookie \<Rightarrow> string" where
  "cookiePair c = sanitizeCookieName (ck_Name c) @ ''='' @ sanitizeCookieValue (ck_Value c)"

definition AddCookie :: "cookie \<Rightarrow> header \<Rightarrow> header" where
  "AddCookie c h =
     (let old = headerGet h ''Cookie'' in
      if old \<noteq> [] then headerSet h ''Cookie'' (old @ ''; '' @ cookiePair c)
      else headerSet h ''Cookie'' (cookiePair c))"

section \<open>The cache\<close>

text \<open>\<open>jarURL\<close>: host and URL of the request, with the scheme https.\<close>

type_synonym jarURL = "string \<times> string"

record ('j, 's, 'c) sessionEnv =
  se_lru :: "(string, nat, 'c) lru"
  se_newJar :: 'j
  se_Cookies :: "jarURL \<Rightarrow> 'j \<Rightarrow> cookie list"
  se_readSetCookies :: "string list \<Rightarrow> 's list"
  se_SetCookies :: "jarURL \<Rightarrow> 's list \<Rightarrow> 'j \<Rightarrow> 'j"
  se_formatTime :: "time \<Rightarrow> string"
  sessionCookieName :: string
  sessionCookieTimeout :: duration
  disableSSLForTest :: bool

record ('j, 'c) Cache =
  sc_cache :: 'c
  sc_jars :: "'j list"

definition NewCache :: "('j, 's, 'c) sessionEnv \<Rightarrow> nat \<Rightarrow> ('j, 'c) Cache" where
  "NewCache env cookieCacheLimit = \<lparr>sc_cache = lru_New (se_lru env) cookieCacheLimit, sc_jars = []\<rparr>"

definition addJarToCache :: "('j, 's, 'c) sessionEnv \<Rightarrow> string \<Rightarrow> nat \<Rightarrow> ('j, 'c) Cache \<Rightarrow> ('j, 'c) Cache" where
  "addJarToCache env sessionID jar c = c\<lparr>sc_cache := lru_Add (se_lru env) sessionID jar (sc_cache c)\<rparr>"

definition cachedCookieJar :: "('j, 's, 'c) sessionEnv \<Rightarrow> string \<Rightarrow> ('j, 'c) Cache \<Rightarrow> nat \<times> ('j, 'c) Cache" where
  "cachedCookieJar env sessionID c =
     (case lru_Get (se_lru env) sessionID (sc_cache c) of
        (None, ca) \<Rightarrow>
          (let jar = length (sc_jars c)
           in (jar, addJarToCache env sessionID jar (c\<lparr>sc_cache := ca, sc_jars := sc_jars c @ [se_newJar env]\<rparr>)))
      | (Some jar, ca) \<Rightarrow> (jar, c\<lparr>sc_cache := ca\<rparr>))"

section \<open>The handler and its response writer\<close>

definition extractSessionID :: "('j, 's, 'c) sessionEnv \<Rightarrow> header \<Rightarrow> string" where
  "extractSessionID env h =
     (case readCookies h (sessionCookieName env) of [] \<Rightarrow> [] | c # _ \<Rightarrow> ck_Value c)"

definition restoreSession :: "('j, 's, 'c) sessionEnv \<Rightarrow> header \<Rightarrow> cookie list \<Rightarrow> header" where
  "restoreSession env h cachedCookies =
     (let existingCookies = readCookies h [];
          h1 = headerDel h ''Cookie'';
          h2 = fold (\<lambda>c h. if ck_Name c \<noteq> sessionCookieName env then AddCookie c h else h) existingCookies h1
      in fold AddCookie cachedCookies h2)"

record sessionResponseWriter =
  sw_sessionID :: string
  sw_url :: jarURL
  sw_wrapped :: responseWriter
  sw_wroteHeader :: bool
  sw_metrics :: "nat list"

text \<open>What \<^verbatim>\<open>ServeHTTP\<close> does before it calls the wrapped handler: the request and the writer for it.\<close>

definition session_ServeHTTP ::
  "('j, 's, 'c) sessionEnv \<Rightarrow> string \<Rightarrow> responseWriter \<Rightarrow> httpRequest \<Rightarrow> ('j, 'c) Cache
   \<Rightarrow> httpRequest \<times> sessionResponseWriter \<times> ('j, 'c) Cache" where
  "session_ServeHTTP env host w r c =
     (let urlForCookies = (host, hr_URL r);
          sessionID = extractSessionID env (hr_Header r)
      in case cachedCookieJar env sessionID c of
           (jar, c1) \<Rightarrow>
             (let cachedCookies = se_Cookies env urlForCookies (sc_jars c1 ! jar)
              in (r\<lparr>hr_Header := restoreSession env (hr_Header r) cachedCookies\<rparr>,
                  \<lparr>sw_sessionID = sessionID, sw_url = urlForCookies, sw_wrapped = w, sw_wroteHeader = False, sw_metrics = []\<rparr>,
                  c1)))"

text \<open>A nil cache, for an agent without a session cookie, leaves the handler as it is.\<close>

record ('k, 'h, 'm) sessionHandler =
  sn_c :: 'k
  sn_wrapped :: 'h
  sn_metricHandler :: 'm

definition SessionHandler :: "'k option \<Rightarrow> 'h \<Rightarrow> 'm \<Rightarrow> 'h + ('k, 'h, 'm) sessionHandler" where
  "SessionHandler c wrapped metricHandler =
     (case c of None \<Rightarrow> Inl wrapped
      | Some k \<Rightarrow> Inr \<lparr>sn_c = k, sn_wrapped = wrapped, sn_metricHandler = metricHandler\<rparr>)"

text \<open>\<^verbatim>\<open>http.Cookie.String\<close> of the session cookie.\<close>

definition sessionCookie :: "('j, 's, 'c) sessionEnv \<Rightarrow> string \<Rightarrow> time \<Rightarrow> string" where
  "sessionCookie env sessionID now =
     (if \<not> isCookieNameValid (sessionCookieName env) then []
      else sanitizeCookieName (sessionCookieName env) @ ''='' @ sanitizeCookieValue sessionID @ ''; Path=/; Expires=''
           @ se_formatTime env (now + sessionCookieTimeout env) @ ''; HttpOnly''
           @ (if \<not> disableSSLForTest env then ''; Secure'' else []))"

definition session_WriteHeader ::
  "('j, 's, 'c) sessionEnv \<Rightarrow> string \<Rightarrow> time \<Rightarrow> nat \<Rightarrow> sessionResponseWriter \<Rightarrow> ('j, 'c) Cache
   \<Rightarrow> sessionResponseWriter \<times> ('j, 'c) Cache" where
  "session_WriteHeader env newUUID now statusCode w c =
     (if sw_wroteHeader w then (w, c)
      else
        (let cookiesToAdd = se_readSetCookies env (headerValues (rw_Header (sw_wrapped w)) ''Set-Cookie'');
             header1 = headerDel (rw_Header (sw_wrapped w)) ''Set-Cookie'';
             sessionID = (if sw_sessionID w = [] then newUUID else sw_sessionID w);
             header2 = (if sw_sessionID w = [] then headerAdd header1 ''Set-Cookie'' (sessionCookie env newUUID now) else header1);
             wrapped = (sw_wrapped w)\<lparr>rw_Header := header2\<rparr>;
             w' = w\<lparr>sw_wroteHeader := True, sw_sessionID := sessionID, sw_wrapped := WriteHeader wrapped statusCode\<rparr>
         in case cachedCookieJar env sessionID c of
              (jar, c1) \<Rightarrow>
                if cookiesToAdd = [] then (w', c1)
                else (w', c1\<lparr>sc_jars := (sc_jars c1)[jar := se_SetCookies env (sw_url w) cookiesToAdd (sc_jars c1 ! jar)]\<rparr>)))"

definition session_Write ::
  "('j, 's, 'c) sessionEnv \<Rightarrow> string \<Rightarrow> time \<Rightarrow> bytes \<Rightarrow> sessionResponseWriter \<Rightarrow> ('j, 'c) Cache
   \<Rightarrow> sessionResponseWriter \<times> ('j, 'c) Cache" where
  "session_Write env newUUID now bs w c =
     (case (if \<not> sw_wroteHeader w
            then (case session_WriteHeader env newUUID now 200 w c of
                    (w1, c1) \<Rightarrow> (w1\<lparr>sw_metrics := sw_metrics w1 @ [200]\<rparr>, c1))
            else (w, c)) of
        (w2, c2) \<Rightarrow> (w2\<lparr>sw_wrapped := WriteBody (sw_wrapped w2) bs\<rparr>, c2))"

end
