(* ===== verification/Agent_Lifecycle.thy ===== *)
theory Agent_Lifecycle
  imports Agent_Main_Properties Agent_Forwarder Agent_Sessions Event_Systems
begin

text \<open>
  The life of an agent process, \<^verbatim>\<open>main\<close> and \<^verbatim>\<open>runAdapter\<close> in \<^verbatim>\<open>agent/agent.go\<close>: the checks of the flags, waiting for
  a healthy backend, and then the goroutines for health checks and for polling beside the main
  goroutine, which waits for a signal and shuts down. The event system \<open>agentStep\<close> has one event for
  each step of a goroutine that the others can notice.

  \<open>ag_results\<close>, \<open>ag_healthy\<close>, \<open>ag_late\<close> record the results of the health checks, whether the backend
  was found healthy, and the list requests completed after the polling was cancelled.
\<close>

section \<open>The Google client\<close>

text \<open>
  \<^verbatim>\<open>getGoogleClient\<close>: the client of the SDK's configuration when there is one, and otherwise the default
  client with the VM's identity and a cookie jar. \<open>sdk\<close>, \<open>defaultClient\<close>, \<open>newJar\<close> are the results of the
  libraries, \<open>vm\<close> wraps the client's transport, \<open>withJar\<close> sets its jar.
\<close>

definition getGoogleClient ::
  "(error + 'c) \<Rightarrow> (error + 'c) \<Rightarrow> ('c \<Rightarrow> 'c) \<Rightarrow> (error + 'j) \<Rightarrow> ('j \<Rightarrow> 'c \<Rightarrow> 'c) \<Rightarrow> error + 'c" where
  "getGoogleClient sdk defaultClient vm newJar withJar =
     (case sdk of
        Inr client \<Rightarrow> Inr client
      | Inl _ \<Rightarrow>
          (case defaultClient of
             Inl err \<Rightarrow> Inl err
           | Inr client \<Rightarrow>
               (case newJar of Inl err \<Rightarrow> Inl err | Inr jar \<Rightarrow> Inr (withJar jar (vm client)))))"

text \<open>\<^verbatim>\<open>runAdapter\<close> up to the polling: the client with its timeout, and the handler.\<close>

definition adapterSetUp ::
  "flags \<Rightarrow> (error + 'c) \<Rightarrow> (duration \<Rightarrow> 'c \<Rightarrow> 'c) \<Rightarrow> (error + 'h) \<Rightarrow> error + 'c \<times> 'h" where
  "adapterSetUp fl client setTimeout handler =
     (case client of
        Inl err \<Rightarrow> Inl err
      | Inr c \<Rightarrow>
          (let c1 = setTimeout (effectiveRequestForwardingTimeout fl) c in
           case handler of Inl err \<Rightarrow> Inl err | Inr h \<Rightarrow> Inr (c1, h)))"

section \<open>The process\<close>

text \<open>\<open>Exited None\<close>: \<^verbatim>\<open>main\<close> returned or a signal ended the process; \<open>Exited (Some m)\<close>: \<^verbatim>\<open>log.Fatal\<close>.\<close>

datatype mainState = AwaitHealthy | Serving | Draining | Exited "string option"

datatype healthThread = NoChecks | Ticking int

text \<open>\<open>Listing\<close>: a list request is under way; \<open>Returned\<close>: the polling loop and \<^verbatim>\<open>runAdapter\<close> have returned.\<close>

datatype adapterState = NotStarted | SettingUp | Between | Listing | Returned

record 'c agentProcess =
  ag_main :: mainState
  ag_health :: healthThread
  ag_adapter :: adapterState
  ag_polling :: "'c polling"
  ag_pollingDone :: bool
  ag_ctxDone :: bool
  ag_results :: "error option list"
  ag_healthy :: bool
  ag_late :: nat

definition unhealthyThreshold :: "flags \<Rightarrow> int" where
  "unhealthyThreshold fl = (if fl_healthCheckUnhealthy fl < 1 then 1 else fl_healthCheckUnhealthy fl)"

text \<open>After \<^verbatim>\<open>waitForHealthy\<close>: both goroutines start.\<close>

definition startServing :: "flags \<Rightarrow> 'c agentProcess \<Rightarrow> 'c agentProcess" where
  "startServing fl a =
     a\<lparr>ag_main := Serving, ag_adapter := SettingUp, ag_healthy := True,
       ag_health := (if fl_healthCheckFreq fl \<le> 0 then NoChecks else Ticking 0)\<rparr>"

text \<open>
  What \<^verbatim>\<open>main\<close> sets up before it waits: the session cache when a cookie name is given, and the metric
  handler; \<open>None\<close> when the monitoring client cannot be made, which ends the process. An error of the
  metric handler is logged, and the agent goes on without one.
\<close>

definition mainSetUp ::
  "(string \<Rightarrow> duration \<Rightarrow> int \<Rightarrow> bool \<Rightarrow> 's) \<Rightarrow> error option \<Rightarrow> string list \<Rightarrow> flags \<Rightarrow> codeCounts
   \<Rightarrow> ('s option \<times> MetricHandler option \<times> codeCounts) option" where
  "mainSetUp newCache newClient order fl codeCount =
     (let sessionLRU = (if fl_sessionCookieName fl \<noteq> []
                        then Some (newCache (fl_sessionCookieName fl) (fl_sessionCookieTimeout fl)
                                     (fl_sessionCookieCacheLimit fl) (fl_disableSSLForTest fl))
                        else None)
      in case NewMetricHandler newClient order (fl_projectID fl) (fl_monitoringResourceType fl) (fl_monitoringResourceLabels fl)
                (fl_metricDomain fl) (fl_monitoringEndpoint fl) codeCount of
           None \<Rightarrow> None
         | Some (mh, cc) \<Rightarrow> Some (sessionLRU, (case mh of Inl err \<Rightarrow> None | Inr h \<Rightarrow> h), cc))"

definition agentMain :: "(string, string, 'c) lru \<Rightarrow> error option \<Rightarrow> string list \<Rightarrow> flags \<Rightarrow> 'c agentProcess" where
  "agentMain L newClient order fl =
     (let a = \<lparr>ag_main = AwaitHealthy, ag_health = NoChecks, ag_adapter = NotStarted, ag_polling = newPolling L,
               ag_pollingDone = False, ag_ctxDone = False, ag_results = [], ag_healthy = False, ag_late = 0\<rparr>
      in case checkFlags (fl_proxy fl) (fl_backendID fl) (fl_healthCheckPath fl) of
           Inl msg \<Rightarrow> a\<lparr>ag_main := Exited (Some msg)\<rparr>
         | Inr path \<Rightarrow>
             (case mainSetUp (\<lambda>_ _ _ _. ()) newClient order fl [] of
                None \<Rightarrow> a\<lparr>ag_main := Exited (Some (''Failed to create client: ''
                                                  @ (case newClient of Some err \<Rightarrow> errorText err | None \<Rightarrow> [])))\<rparr>
              | Some _ \<Rightarrow> if fl_healthCheckFreq fl \<le> 0 then startServing fl a else a))"

text \<open>
  Without the monitoring flags there is no metric handler, whatever the client, and without a cookie name no
  session cache; metrics that are asked for and cannot be sent end the process before it serves.
\<close>

lemma mainSetUp_unmonitored:
  "fl_projectID fl = [] \<Longrightarrow> mainSetUp newCache newClient order fl cc =
     Some (if fl_sessionCookieName fl \<noteq> [] then Some (newCache (fl_sessionCookieName fl) (fl_sessionCookieTimeout fl)
             (fl_sessionCookieCacheLimit fl) (fl_disableSSLForTest fl)) else None, None, cc)"
  by (simp add: mainSetUp_def NewMetricHandler_def)

lemma mainSetUp_fatal_iff:
  "mainSetUp newCache newClient order fl cc = None \<longleftrightarrow>
     newClient \<noteq> None \<and> [] \<notin> {fl_projectID fl, fl_monitoringResourceType fl, fl_monitoringResourceLabels fl,
       fl_metricDomain fl, fl_monitoringEndpoint fl}"
  by (auto simp: mainSetUp_def NewMetricHandler_def split: option.splits sum.splits prod.splits)

lemma sessions_on_request:
  assumes "mainSetUp newCache newClient order fl cc = Some (sessionLRU, mh, cc')"
  shows "SessionHandler sessionLRU h m =
     (if fl_sessionCookieName fl = [] then Inl h
      else Inr \<lparr>sn_c = newCache (fl_sessionCookieName fl) (fl_sessionCookieTimeout fl) (fl_sessionCookieCacheLimit fl)
                          (fl_disableSSLForTest fl), sn_wrapped = h, sn_metricHandler = m\<rparr>)"
  using assms by (auto simp: mainSetUp_def SessionHandler_def split: option.splits prod.splits if_splits)

datatype agentEvent =
    WaitCheck "error option"
  | HealthTick "error option"
  | AdapterReady "error option"
  | ListBegins
  | ListEnds real "error + string list"
  | LoopEnds
  | Signal
  | DrainEnds

definition ended :: "'c agentProcess \<Rightarrow> bool" where
  "ended a \<longleftrightarrow> (case ag_main a of Exited _ \<Rightarrow> True | _ \<Rightarrow> False)"

text \<open>
  \<open>AdapterReady\<close>: the result of \<open>adapterSetUp\<close>; an error ends the process. \<open>LoopEnds\<close>: the loop finds its
  context done, and the deferred call of \<^verbatim>\<open>runAdapter\<close> cancels the context of the handlers. A signal is
  noticed once; before the backend is healthy, when it is not handled, it ends the process.
\<close>

fun agentStep ::
  "(string, string, 'c) lru \<Rightarrow> flags \<Rightarrow> agentEvent \<Rightarrow> 'c agentProcess \<Rightarrow> 'c agentProcess option" where
  "agentStep L fl (WaitCheck r) a =
     (if ag_main a = AwaitHealthy then Some (if r = None then startServing fl a else a) else None)"
| "agentStep L fl (HealthTick r) a =
     (case ag_health a of
        Ticking badHealthChecks \<Rightarrow>
          if ended a then None
          else (let bad = (if r \<noteq> None then badHealthChecks + 1 else 0);
                    a1 = a\<lparr>ag_health := Ticking bad, ag_results := ag_results a @ [r]\<rparr>
                in Some (if unhealthyThreshold fl \<le> bad then a1\<lparr>ag_main := Exited (Some ''Too many unhealthy checks'')\<rparr> else a1))
      | NoChecks \<Rightarrow> None)"
| "agentStep L fl (AdapterReady r) a =
     (if ag_adapter a = SettingUp \<and> \<not> ended a
      then Some (case r of Some err \<Rightarrow> a\<lparr>ag_main := Exited (Some (errorText err))\<rparr> | None \<Rightarrow> a\<lparr>ag_adapter := Between\<rparr>)
      else None)"
| "agentStep L fl ListBegins a =
     (if ag_adapter a = Between \<and> \<not> ag_pollingDone a \<and> \<not> ended a then Some (a\<lparr>ag_adapter := Listing\<rparr>) else None)"
| "agentStep L fl (ListEnds u res) a =
     (if ag_adapter a = Listing \<and> \<not> ended a
      then Some (a\<lparr>ag_adapter := Between, ag_polling := fst (pollOnce L (\<lambda>_. (res, ())) u (ag_polling a) ()),
                   ag_late := ag_late a + (if ag_pollingDone a then 1 else 0)\<rparr>)
      else None)"
| "agentStep L fl LoopEnds a =
     (if ag_adapter a = Between \<and> ag_pollingDone a \<and> \<not> ended a then Some (a\<lparr>ag_adapter := Returned, ag_ctxDone := True\<rparr>) else None)"
| "agentStep L fl Signal a =
     (case ag_main a of
        AwaitHealthy \<Rightarrow> Some (a\<lparr>ag_main := Exited None\<rparr>)
      | Serving \<Rightarrow> Some (if 0 < fl_gracefulShutdownTimeout fl then a\<lparr>ag_main := Draining, ag_pollingDone := True\<rparr> else a\<lparr>ag_main := Exited None\<rparr>)
      | _ \<Rightarrow> None)"
| "agentStep L fl DrainEnds a =
     (if ag_main a = Draining
      then Some (a\<lparr>ag_main := Exited (Some ''Graceful shutdown wait timer end. Shutting down server.'')\<rparr>) else None)"

section \<open>Invariant\<close>

text \<open>The count of failures in a row after some checks.\<close>

definition badAfter :: "error option list \<Rightarrow> int \<Rightarrow> int" where
  "badAfter cs bad = fold (\<lambda>c b. if c \<noteq> None then b + 1 else 0) cs bad"

lemma healthLoop_snoc:
  "healthLoop u cs n bad = HealthRunning \<Longrightarrow>
     healthLoop u (cs @ [c]) n bad = HealthRunning \<longleftrightarrow> \<not> u \<le> (if c \<noteq> None then badAfter cs bad + 1 else 0)"
  by (induction cs arbitrary: n bad) (auto simp: badAfter_def Let_def split: if_splits)

definition lifeInv :: "flags \<Rightarrow> 'c agentProcess \<Rightarrow> bool" where
  "lifeInv fl a \<longleftrightarrow>
     (ag_adapter a \<noteq> NotStarted \<longrightarrow> ag_healthy a) \<and> (pl_log (ag_polling a) \<noteq> [] \<longrightarrow> ag_healthy a)
     \<and> (ag_main a = AwaitHealthy \<longrightarrow> ag_health a = NoChecks \<and> \<not> ag_pollingDone a \<and> ag_results a = [])
     \<and> (ag_main a = Serving \<longrightarrow> \<not> ag_pollingDone a)
     \<and> (ag_pollingDone a \<longrightarrow> 0 < fl_gracefulShutdownTimeout fl)
     \<and> (ag_adapter a = Returned \<longleftrightarrow> ag_ctxDone a) \<and> (ag_adapter a = Returned \<longrightarrow> ag_pollingDone a)
     \<and> (0 < ag_late a \<longrightarrow> ag_pollingDone a \<and> ag_adapter a \<noteq> Listing) \<and> ag_late a \<le> 1
     \<and> (case ag_health a of NoChecks \<Rightarrow> True
        | Ticking bad \<Rightarrow> 0 < fl_healthCheckFreq fl \<and> bad = badAfter (ag_results a) 0)
     \<and> (ag_results a \<noteq> [] \<longrightarrow> ag_health a \<noteq> NoChecks)
     \<and> (\<not> ended a \<and> 0 < fl_healthCheckFreq fl \<longrightarrow> runHealthChecks fl (ag_results a) = HealthRunning)"

lemma ended_simps [simp]:
  "ended (a\<lparr>ag_main := Exited m\<rparr>)" "\<not> ended (a\<lparr>ag_main := Serving\<rparr>)" "\<not> ended (a\<lparr>ag_main := Draining\<rparr>)"
  "ended (a\<lparr>ag_health := h\<rparr>) = ended a" "ended (a\<lparr>ag_adapter := x\<rparr>) = ended a" "ended (a\<lparr>ag_polling := p\<rparr>) = ended a"
  "ended (a\<lparr>ag_pollingDone := b\<rparr>) = ended a" "ended (a\<lparr>ag_ctxDone := c\<rparr>) = ended a" "ended (a\<lparr>ag_results := r\<rparr>) = ended a"
  "ended (a\<lparr>ag_healthy := hl\<rparr>) = ended a" "ended (a\<lparr>ag_late := l\<rparr>) = ended a"
  by (simp_all add: ended_def)

lemma lifeInv_start:
  assumes "ag_main a = AwaitHealthy" and "lifeInv fl a" and "ag_adapter a = NotStarted"
  shows "lifeInv fl (startServing fl a)"
  using assms by (auto simp: lifeInv_def startServing_def badAfter_def ended_def)

lemma lifeInv_tick:
  assumes "lifeInv fl a" and "ag_health a = Ticking badHealthChecks" and "\<not> ended a" and "ag_main a \<noteq> AwaitHealthy"
    and "bad = (if r \<noteq> None then badHealthChecks + 1 else 0)" and "a1 = a\<lparr>ag_health := Ticking bad, ag_results := ag_results a @ [r]\<rparr>"
  shows "lifeInv fl (if unhealthyThreshold fl \<le> bad then a1\<lparr>ag_main := Exited msg\<rparr> else a1)"
proof -
  have b: "0 < fl_healthCheckFreq fl" "badHealthChecks = badAfter (ag_results a) 0" using assms(1,2) by (simp_all add: lifeInv_def)
  have after: "badAfter (ag_results a @ [r]) 0 = bad" using b(2) assms(5) by (simp add: badAfter_def)
  have "runHealthChecks fl (ag_results a) = HealthRunning" using assms(1,3) b(1) by (simp add: lifeInv_def)
  then have "healthLoop (unhealthyThreshold fl) (ag_results a) 0 0 = HealthRunning"
    using b(1) by (simp add: runHealthChecks_def unhealthyThreshold_def)
  from healthLoop_snoc [OF this, of r]
  have "runHealthChecks fl (ag_results a @ [r]) = HealthRunning \<longleftrightarrow> \<not> unhealthyThreshold fl \<le> bad"
    using b assms(5) by (simp add: runHealthChecks_def unhealthyThreshold_def)
  then show ?thesis using assms b(1) after by (simp add: lifeInv_def)
qed

lemma lifeInv_HealthTick:
  assumes "lifeInv fl a" and "agentStep L fl (HealthTick r) a = Some a'"
  shows "lifeInv fl a' \<and> ag_main a' \<noteq> AwaitHealthy"
proof -
  obtain b where b: "ag_health a = Ticking b" "\<not> ended a" using assms(2) by (auto split: healthThread.splits if_splits)
  then have m: "ag_main a \<noteq> AwaitHealthy" using assms(1) by (auto simp: lifeInv_def)
  let ?bad = "if r \<noteq> None then b + 1 else 0"
  let ?a = "a\<lparr>ag_health := Ticking ?bad, ag_results := ag_results a @ [r]\<rparr>"
  have a': "a' = (if unhealthyThreshold fl \<le> ?bad then ?a\<lparr>ag_main := Exited (Some ''Too many unhealthy checks'')\<rparr> else ?a)"
    using assms(2) b by (auto simp: Let_def)
  have "lifeInv fl a'" unfolding a' by (rule lifeInv_tick [OF assms(1) b m refl refl])
  moreover have "ag_main a' \<noteq> AwaitHealthy" using m by (simp add: a')
  ultimately show ?thesis by blast
qed

lemma lifeInv_ListEnds:
  assumes "lifeInv fl a" and "ag_main a \<noteq> AwaitHealthy" and "agentStep L fl (ListEnds u res) a = Some a'"
  shows "lifeInv fl a' \<and> ag_main a' \<noteq> AwaitHealthy"
proof -
  have l: "ag_adapter a = Listing" "a' = a\<lparr>ag_adapter := Between, ag_polling := fst (pollOnce L (\<lambda>_. (res, ())) u (ag_polling a) ()),
                   ag_late := ag_late a + (if ag_pollingDone a then 1 else 0)\<rparr>" using assms(3) by (auto split: if_splits)
  then have "ag_late a = 0" "ag_healthy a" using assms(1) by (auto simp: lifeInv_def)
  then show ?thesis using assms(1,2) l by (simp add: lifeInv_def cong: healthThread.case_cong)
qed

lemma lifeInv_shutdown:
  assumes "lifeInv fl a" and "agentStep L fl e a = Some a'" and "e \<in> {Signal, DrainEnds}"
  shows "lifeInv fl a' \<and> ag_main a' \<noteq> AwaitHealthy"
proof -
  consider m where "a' = a\<lparr>ag_main := Exited m\<rparr>"
    | "ag_main a = Serving" "0 < fl_gracefulShutdownTimeout fl" "a' = a\<lparr>ag_main := Draining, ag_pollingDone := True\<rparr>"
    using assms(2,3) by (auto split: mainState.splits if_splits)
  then show ?thesis
    using assms(1) by cases (simp_all add: lifeInv_def ended_def cong: healthThread.case_cong)
qed

lemma lifeInv_step:
  assumes "lifeInv fl a \<and> (ag_main a = AwaitHealthy \<longrightarrow> ag_adapter a = NotStarted)" and "agentStep L fl e a = Some a'"
  shows "lifeInv fl a' \<and> (ag_main a' = AwaitHealthy \<longrightarrow> ag_adapter a' = NotStarted)"
proof (cases e)
  case (WaitCheck r)
  then have a: "ag_main a = AwaitHealthy" "a' = (if r = None then startServing fl a else a)"
    using assms(2) by (cases "ag_main a = AwaitHealthy"; simp)+
  then have "lifeInv fl (startServing fl a)" using assms(1) lifeInv_start by blast
  then show ?thesis using a assms(1) by (simp add: startServing_def)
next
  case (AdapterReady r)
  then have "ag_adapter a = SettingUp"
    "a' = (case r of Some err \<Rightarrow> a\<lparr>ag_main := Exited (Some (errorText err))\<rparr> | None \<Rightarrow> a\<lparr>ag_adapter := Between\<rparr>)"
    using assms(2) by (auto split: if_splits)
  then show ?thesis using assms(1) by (cases r) (simp_all add: lifeInv_def cong: healthThread.case_cong)
next
  case ListBegins
  then have "a' = a\<lparr>ag_adapter := Listing\<rparr>" "ag_adapter a = Between" "\<not> ag_pollingDone a" using assms(2) by (auto split: if_splits)
  then show ?thesis using assms(1) by (auto simp: lifeInv_def cong: healthThread.case_cong)
next
  case (ListEnds u res)
  then have "ag_main a \<noteq> AwaitHealthy" using assms by (auto split: if_splits)
  then show ?thesis using lifeInv_ListEnds assms ListEnds by blast
next
  case LoopEnds
  then have "a' = a\<lparr>ag_adapter := Returned, ag_ctxDone := True\<rparr>" "ag_adapter a = Between" "ag_pollingDone a"
    using assms(2) by (auto split: if_splits)
  then show ?thesis using assms(1) by (auto simp: lifeInv_def cong: healthThread.case_cong)
qed (use assms lifeInv_HealthTick lifeInv_shutdown in blast)+

interpretation life: event_system "agentStep L fl" "\<lambda>a. lifeInv fl a \<and> (ag_main a = AwaitHealthy \<longrightarrow> ag_adapter a = NotStarted)"
  by unfold_locales (rule lifeInv_step)

section \<open>Properties\<close>


text \<open>The graceful shutdown cancels the context the handlers were made with as soon as the polling loop ends, at
  the begin of the waiting time: the websockets of the shim belong to this context.\<close>

theorem graceful_shutdown_cancels_handlers:
  assumes "ag_main a = Draining" and "ag_pollingDone a" and "ag_adapter a = Between"
  shows "\<exists>a'. agentStep L fl LoopEnds a = Some a' \<and> ag_main a' = Draining \<and> ag_ctxDone a'"
  using assms by (simp add: ended_def)


end
