(* ===== verification/Agent_Sessions_Properties.thy ===== *)
theory Agent_Sessions_Properties
  imports Agent_Sessions Event_Systems "HOL-Library.Sublist"
begin

text \<open>
  Correctness of the session cache: writing cookies into a request and reading them again gives
  the same cookies, so the backend sees the client's cookies without the session cookie followed by
  those of the session's jar; the client only sees the session cookie; and for every interleaving of
  requests the cookies restored for a session are ones that were set under this session's ID.
\<close>

section \<open>Cookies written are the cookies read\<close>

definition validCookie :: "cookie \<Rightarrow> bool" where
  "validCookie c \<longleftrightarrow> isCookieNameValid (ck_Name c) \<and> list_all validCookieValueByte (ck_Value c)"

lemma TrimString_id: "s = [] \<or> \<not> isASCIISpace (hd s) \<and> \<not> isASCIISpace (last s) \<Longrightarrow> TrimString s = s"
proof -
  assume s: "s = [] \<or> \<not> isASCIISpace (hd s) \<and> \<not> isASCIISpace (last s)"
  have "dropWhile isASCIISpace s = s" using s by (cases s) auto
  moreover have "dropWhile isASCIISpace (rev s) = rev s" using s by (cases s rule: rev_cases) auto
  ultimately show ?thesis by (simp add: TrimString_def)
qed

lemma TrimString_space: "TrimString (CHR '' '' # s) = TrimString s"
  by (simp add: TrimString_def isASCIISpace_def)

lemma token_not_special:
  assumes "isTokenChar c"
  shows "c \<noteq> CHR '';'' \<and> c \<noteq> CHR ''='' \<and> c \<noteq> CHR 0x0A \<and> c \<noteq> CHR 0x0D \<and> \<not> isASCIISpace c"
proof -
  have "\<not> isTokenChar (CHR '';'')" "\<not> isTokenChar (CHR ''='')" "\<not> isTokenChar (CHR 0x0A)" "\<not> isTokenChar (CHR 0x0D)"
    "\<not> isTokenChar (CHR '' '')" "\<not> isTokenChar (CHR 0x09)"
    by code_simp+
  then show ?thesis using assms by (auto simp: isASCIISpace_def)
qed

lemma value_not_special: "validCookieValueByte c \<Longrightarrow> isASCIISpace c \<longleftrightarrow> c = CHR '' ''"
  by (auto simp: validCookieValueByte_def isASCIISpace_def)

lemma sanitize_valid:
  assumes "validCookie c"
  shows "sanitizeCookieName (ck_Name c) = ck_Name c"
    and "sanitizeCookieValue (ck_Value c) =
      (if CHR '' '' \<in> set (ck_Value c) \<or> CHR '','' \<in> set (ck_Value c) then [CHR 0x22] @ ck_Value c @ [CHR 0x22] else ck_Value c)"
proof -
  have "list_all isTokenChar (ck_Name c)" using assms by (simp add: validCookie_def isCookieNameValid_def)
  then show "sanitizeCookieName (ck_Name c) = ck_Name c"
    unfolding sanitizeCookieName_def by (intro map_idI) (auto simp: list_all_iff dest: token_not_special)
  have "filter validCookieValueByte (ck_Value c) = ck_Value c"
    using assms by (simp add: validCookie_def list_all_iff filter_id_conv)
  then show "sanitizeCookieValue (ck_Value c) =
      (if CHR '' '' \<in> set (ck_Value c) \<or> CHR '','' \<in> set (ck_Value c) then [CHR 0x22] @ ck_Value c @ [CHR 0x22] else ck_Value c)"
    by (auto simp: sanitizeCookieValue_def Let_def)
qed

lemma parse_sanitized:
  assumes "list_all validCookieValueByte v"
  shows "parseCookieValue ([CHR 0x22] @ v @ [CHR 0x22]) = Some v" and "parseCookieValue v = Some v"
proof -
  show "parseCookieValue ([CHR 0x22] @ v @ [CHR 0x22]) = Some v"
    using assms by (simp add: parseCookieValue_def)
  have "\<not> (1 < length v \<and> hd v = CHR 0x22 \<and> last v = CHR 0x22)"
    using assms by (cases v) (auto simp: validCookieValueByte_def)
  then show "parseCookieValue v = Some v" using assms by (auto simp: parseCookieValue_def Let_def)
qed

lemma sanitized_last:
  assumes "validCookie c" and "sanitizeCookieValue (ck_Value c) \<noteq> []"
  shows "\<not> isASCIISpace (last (sanitizeCookieValue (ck_Value c)))"
proof (cases "CHR '' '' \<in> set (ck_Value c) \<or> CHR '','' \<in> set (ck_Value c)")
  case True
  then show ?thesis by (simp only: sanitize_valid(2) [OF assms(1)] if_True) (simp add: isASCIISpace_def)
next
  case False
  then have v: "sanitizeCookieValue (ck_Value c) = ck_Value c" using sanitize_valid(2) [OF assms(1)] by simp
  then have last_in: "last (ck_Value c) \<in> set (ck_Value c)" using assms(2) by simp
  then have "validCookieValueByte (last (ck_Value c))" using assms(1) by (auto simp: validCookie_def list_all_iff)
  moreover have "last (ck_Value c) \<noteq> CHR '' ''" using last_in False by metis
  ultimately show ?thesis using v value_not_special by simp
qed

lemma cookiePair_shape:
  assumes "validCookie c"
  shows "CHR '';'' \<notin> set (cookiePair c)" and "\<not> isASCIISpace (hd (cookiePair c))"
    and "\<not> isASCIISpace (last (cookiePair c))" and "cookiePair c \<noteq> []" and "TrimString (cookiePair c) = cookiePair c"
proof -
  let ?v = "sanitizeCookieValue (ck_Value c)"
  have name: "ck_Name c \<noteq> []" "\<forall>x \<in> set (ck_Name c). isTokenChar x" and val: "\<forall>x \<in> set (ck_Value c). validCookieValueByte x"
    using assms by (auto simp: validCookie_def isCookieNameValid_def list_all_iff)
  have eq: "cookiePair c = ck_Name c @ CHR ''='' # ?v"
    by (simp add: cookiePair_def sanitize_valid(1) [OF assms])
  have "CHR '';'' \<notin> set ?v" using val by (auto simp: sanitize_valid(2) [OF assms] validCookieValueByte_def)
  then show "CHR '';'' \<notin> set (cookiePair c)" using name(2) token_not_special by (auto simp: eq)
  show hd: "\<not> isASCIISpace (hd (cookiePair c))" using name token_not_special by (cases "ck_Name c") (simp_all add: eq)
  show lst: "\<not> isASCIISpace (last (cookiePair c))"
    using sanitized_last [OF assms] by (cases "?v = []") (simp_all add: eq isASCIISpace_def)
  show "cookiePair c \<noteq> []" by (simp add: eq)
  show "TrimString (cookiePair c) = cookiePair c" using hd lst by (blast intro: TrimString_id)
qed

lemma readCookie_pair:
  assumes "validCookie c"
  shows "readCookie [] (cookiePair c) = [c]" and "readCookie [] (CHR '' '' # cookiePair c) = [c]"
proof -
  let ?v = "sanitizeCookieValue (ck_Value c)"
  have name: "isCookieNameValid (ck_Name c)" "\<forall>x \<in> set (ck_Name c). x \<noteq> CHR ''=''"
    using assms token_not_special by (auto simp: validCookie_def isCookieNameValid_def list_all_iff)
  have "cutAt (CHR ''='') (cookiePair c) = (ck_Name c, ?v)"
    using name(2) by (simp add: cookiePair_def sanitize_valid(1) [OF assms] cutAt_def takeWhile_append2 dropWhile_append2)
  moreover have "parseCookieValue ?v = Some (ck_Value c)"
    using assms parse_sanitized by (simp add: sanitize_valid(2) [OF assms] validCookie_def)
  ultimately show "readCookie [] (cookiePair c) = [c]" "readCookie [] (CHR '' '' # cookiePair c) = [c]"
    using name(1) cookiePair_shape(4,5) [OF assms] by (simp_all add: readCookie_def TrimString_space)
qed

text \<open>The header line that a sequence of \<open>AddCookie\<close> builds, and reading it.\<close>

definition joinPairs :: "string list \<Rightarrow> string" where
  "joinPairs ps = (case ps of [] \<Rightarrow> [] | p # qs \<Rightarrow> p @ concat (map (\<lambda>q. CHR '';'' # CHR '' '' # q) qs))"

lemma joinPairs_snoc: "ps \<noteq> [] \<Longrightarrow> joinPairs (ps @ [p]) = joinPairs ps @ ''; '' @ p"
  by (cases ps) (simp_all add: joinPairs_def)

lemma joinPairs_nonempty: "p \<noteq> [] \<Longrightarrow> joinPairs (p # ps) \<noteq> []"
  by (simp add: joinPairs_def)

lemma cutAt_append: "c \<notin> set x \<Longrightarrow> cutAt c (x @ c # rest) = (x, rest)"
  unfolding cutAt_def by (induction x) auto

lemma readLine_joined:
  assumes "x \<noteq> []" and "CHR '';'' \<notin> set x" and "\<forall>p \<in> set ps. CHR '';'' \<notin> set p"
  shows "readLine flt (x @ concat (map (\<lambda>p. CHR '';'' # CHR '' '' # p) ps)) =
    readCookie flt x @ concat (map (\<lambda>p. readCookie flt (CHR '' '' # p)) ps)"
  using assms
proof (induction ps arbitrary: x)
  case Nil
  then have "\<forall>c \<in> set x. c \<noteq> CHR '';''" by auto
  then have "cutAt (CHR '';'') x = (x, [])" by (simp add: cutAt_def takeWhile_eq_all_conv [THEN iffD2] dropWhile_eq_Nil_conv [THEN iffD2])
  then show ?case using Nil by (simp add: readLine.simps [of flt x] readLine.simps [of flt "[]"])
next
  case (Cons p ps)
  let ?rest = "(CHR '' '' # p) @ concat (map (\<lambda>p. CHR '';'' # CHR '' '' # p) ps)"
  have "cutAt (CHR '';'') (x @ CHR '';'' # ?rest) = (x, ?rest)"
    by (rule cutAt_append [OF Cons.prems(2)])
  then have "readLine flt (x @ CHR '';'' # ?rest) = readCookie flt x @ readLine flt ?rest"
    using Cons.prems(1) by (subst readLine.simps) simp
  also have "readLine flt ?rest = readCookie flt (CHR '' '' # p) @ concat (map (\<lambda>p. readCookie flt (CHR '' '' # p)) ps)"
    using Cons.IH [of "CHR '' '' # p"] Cons.prems(3) by simp
  finally show ?case by simp
qed

lemma canonical_Cookie: "CanonicalHeaderKey ''Cookie'' = ''Cookie''" "CanonicalHeaderKey ''Set-Cookie'' = ''Set-Cookie''"
  by code_simp+

lemma AddCookie_values:
  assumes "validCookie c" and "headerValues h ''Cookie'' = (if ps = [] then [] else [joinPairs ps])" and "[] \<notin> set ps"
  shows "headerValues (AddCookie c h) ''Cookie'' = [joinPairs (ps @ [cookiePair c])]"
proof (cases ps)
  case Nil
  then show ?thesis using assms(2) by (simp add: AddCookie_def Let_def headerGet_def header_simps joinPairs_def)
next
  case (Cons p qs)
  then have "p \<noteq> []" using assms(3) by auto
  then have "joinPairs ps \<noteq> []" using Cons joinPairs_nonempty by simp
  then show ?thesis
    using assms(2) Cons joinPairs_snoc [of ps "cookiePair c"] by (simp add: AddCookie_def Let_def headerGet_def header_simps)
qed

lemma AddCookies_values:
  assumes "list_all validCookie cs" and "headerValues h ''Cookie'' = (if ps = [] then [] else [joinPairs ps])" and "[] \<notin> set ps"
  shows "headerValues (fold AddCookie cs h) ''Cookie''
    = (if ps @ map cookiePair cs = [] then [] else [joinPairs (ps @ map cookiePair cs)])"
  using assms
proof (induction cs arbitrary: h ps)
  case (Cons c cs)
  then have "headerValues (AddCookie c h) ''Cookie'' = [joinPairs (ps @ [cookiePair c])]" "cookiePair c \<noteq> []"
    using AddCookie_values cookiePair_shape(4) by auto
  then show ?case using Cons.IH [of "AddCookie c h" "ps @ [cookiePair c]"] Cons.prems by auto
qed simp

lemma read_added_cookies:
  assumes "list_all validCookie cs" and "headerValues h ''Cookie'' = []"
  shows "readCookies (fold AddCookie cs h) [] = cs"
proof (cases cs)
  case Nil
  then show ?thesis using assms(2) by (simp add: readCookies_def)
next
  case (Cons d ds)
  let ?line = "joinPairs (map cookiePair cs)"
  have valid: "\<forall>c \<in> set cs. validCookie c" using assms(1) by (simp add: list_all_iff)
  have "headerValues (fold AddCookie cs h) ''Cookie'' = [?line]"
    using AddCookies_values [OF assms(1), of h "[]"] assms(2) Cons by simp
  moreover have line: "?line = cookiePair d @ concat (map (\<lambda>p. CHR '';'' # CHR '' '' # p) (map cookiePair ds))"
    by (simp add: joinPairs_def Cons o_def)
  have "TrimString ?line = ?line"
  proof (rule TrimString_id, intro disjI2 conjI)
    show "\<not> isASCIISpace (hd ?line)"
      using valid Cons cookiePair_shape(2,4) [of d] by (simp add: joinPairs_def)
    show "\<not> isASCIISpace (last ?line)"
    proof (cases ds rule: rev_cases)
      case Nil
      then show ?thesis using valid Cons cookiePair_shape(3) [of d] by (simp add: joinPairs_def)
    next
      case (snoc es e)
      then show ?thesis using valid Cons cookiePair_shape(3,4) [of e] by (simp add: joinPairs_def)
    qed
  qed
  moreover have "readLine [] ?line = cs"
  proof -
    have "readLine [] ?line = readCookie [] (cookiePair d) @ concat (map (\<lambda>p. readCookie [] (CHR '' '' # p)) (map cookiePair ds))"
      unfolding line using valid Cons cookiePair_shape by (intro readLine_joined) auto
    also have "\<dots> = d # concat (map (\<lambda>c. [c]) ds)"
      using valid Cons readCookie_pair by (simp add: o_def cong: map_cong)
    finally show ?thesis by (simp add: Cons)
  qed
  ultimately show ?thesis by (simp add: readCookies_def)
qed

section \<open>The request the backend gets\<close>

lemma readCookie_valid: "c \<in> set (readCookie flt part) \<Longrightarrow> validCookie c"
  by (auto simp: readCookie_def parseCookieValue_def validCookie_def Let_def split: prod.splits option.splits if_splits)

lemma readLine_valid: "c \<in> set (readLine flt line) \<Longrightarrow> validCookie c"
proof (induction flt line rule: readLine.induct)
  case (1 flt line)
  then show ?case
    using readLine.simps [of flt line] readCookie_valid by (auto split: if_splits prod.splits)
qed

lemma readCookies_valid: "list_all validCookie (readCookies h flt)"
  using readLine_valid by (auto simp: readCookies_def list_all_iff)

lemma fold_AddCookie_filter:
  "fold (\<lambda>c h. if P c then AddCookie c h else h) cs h = fold AddCookie (filter P cs) h"
  by (induction cs arbitrary: h) auto

lemma restoreSession_eq:
  "restoreSession env h cached =
     fold AddCookie (filter (\<lambda>c. ck_Name c \<noteq> sessionCookieName env) (readCookies h []) @ cached) (headerDel h ''Cookie'')"
  by (simp add: restoreSession_def Let_def fold_AddCookie_filter)

lemma AddCookie_other: "CanonicalHeaderKey k \<noteq> ''Cookie'' \<Longrightarrow> headerValues (AddCookie c h) k = headerValues h k"
  by (simp add: AddCookie_def Let_def header_simps canonical_Cookie)

lemma fold_AddCookie_other:
  "CanonicalHeaderKey k \<noteq> ''Cookie'' \<Longrightarrow> headerValues (fold AddCookie cs h) k = headerValues h k"
  by (induction cs arbitrary: h) (simp_all add: AddCookie_other)

text \<open>C32. The backend of a session gets exactly the client's cookies other than the session cookie
  followed by the cookies its jar has for the URL, as the parser of \<open>net/http\<close> reads them, and every
  other header unchanged.\<close>

theorem session_request_cookies:
  assumes "session_ServeHTTP env host w r c = (r', w', c')"
    and "cachedCookieJar env (extractSessionID env (hr_Header r)) c = (jar, c')"
    and "list_all validCookie (se_Cookies env (host, hr_URL r) (sc_jars c' ! jar))"
  shows "readCookies (hr_Header r') [] =
      filter (\<lambda>ck. ck_Name ck \<noteq> sessionCookieName env) (readCookies (hr_Header r) [])
      @ se_Cookies env (host, hr_URL r) (sc_jars c' ! jar)
    \<and> (\<forall>k. CanonicalHeaderKey k \<noteq> ''Cookie'' \<longrightarrow> headerValues (hr_Header r') k = headerValues (hr_Header r) k)"
proof -
  let ?cached = "se_Cookies env (host, hr_URL r) (sc_jars c' ! jar)"
  have hdr: "hr_Header r' = restoreSession env (hr_Header r) ?cached"
    using assms(1,2) by (auto simp: session_ServeHTTP_def Let_def)
  have "list_all validCookie (filter (\<lambda>ck. ck_Name ck \<noteq> sessionCookieName env) (readCookies (hr_Header r) []) @ ?cached)"
    using assms(3) readCookies_valid [of "hr_Header r" "[]"] by (auto simp: list_all_iff)
  moreover have "headerValues (headerDel (hr_Header r) ''Cookie'') ''Cookie'' = []" by (simp add: header_simps)
  ultimately have "readCookies (hr_Header r') [] =
      filter (\<lambda>ck. ck_Name ck \<noteq> sessionCookieName env) (readCookies (hr_Header r) []) @ ?cached"
    unfolding hdr restoreSession_eq by (rule read_added_cookies)
  moreover have "headerValues (hr_Header r') k = headerValues (hr_Header r) k" if "CanonicalHeaderKey k \<noteq> ''Cookie''" for k
    using that unfolding hdr restoreSession_eq fold_AddCookie_other [OF that] by (simp add: header_simps canonical_Cookie)
  ultimately show ?thesis by blast
qed

text \<open>A jar that keeps all cookies for all URLs, and an environment with it.\<close>

definition demoSessions :: "(cookie list, cookie, nat \<times> (string \<times> nat) list) sessionEnv" where
  "demoSessions = \<lparr>se_lru = listLru, se_newJar = [], se_Cookies = (\<lambda>_ j. j),
     se_readSetCookies = map (\<lambda>s. \<lparr>ck_Name = fst (cutAt (CHR ''='') s), ck_Value = snd (cutAt (CHR ''='') s)\<rparr>),
     se_SetCookies = (\<lambda>_ cs j. j @ cs), se_formatTime = (\<lambda>_. ''Thu, 01 Jan 1970 00:00:00 GMT''),
     sessionCookieName = ''sid'', sessionCookieTimeout = Hour, disableSSLForTest = False\<rparr>"

definition demoRequest :: httpRequest where
  "demoRequest = \<lparr>hr_Method = ''GET'', hr_Path = ''/'', hr_URL = ''/'',
     hr_Header = [(''Cookie'', [''theme=dark; sid=42''])], hr_Body = Inr []\<rparr>"

definition demoCache :: "(cookie list, nat \<times> (string \<times> nat) list) Cache" where
  "demoCache = \<lparr>sc_cache = (10, [(''42'', 0)]), sc_jars = [[\<lparr>ck_Name = ''auth'', ck_Value = ''a b''\<rparr>]]\<rparr>"

theorem session_request_cookies_witness:
  "readCookies (hr_Header (fst (session_ServeHTTP demoSessions ''h'' newResponseWriter demoRequest demoCache))) []
   = [\<lparr>ck_Name = ''theme'', ck_Value = ''dark''\<rparr>, \<lparr>ck_Name = ''auth'', ck_Value = ''a b''\<rparr>]"
proof -
  obtain r' w' c' where s: "session_ServeHTTP demoSessions ''h'' newResponseWriter demoRequest demoCache = (r', w', c')"
    by (metis surj_pair)
  have i: "extractSessionID demoSessions (hr_Header demoRequest) = ''42''" by code_simp
  have j: "cachedCookieJar demoSessions ''42'' demoCache = (0, demoCache)" by code_simp
  have c': "c' = demoCache" using s i j by (auto simp: session_ServeHTTP_def Let_def)
  have v: "list_all validCookie (se_Cookies demoSessions (''h'', hr_URL demoRequest) (sc_jars demoCache ! 0))" by code_simp
  have "readCookies (hr_Header r') [] =
      filter (\<lambda>ck. ck_Name ck \<noteq> sessionCookieName demoSessions) (readCookies (hr_Header demoRequest) [])
      @ se_Cookies demoSessions (''h'', hr_URL demoRequest) (sc_jars demoCache ! 0)"
    using session_request_cookies [of demoSessions "''h''" newResponseWriter demoRequest demoCache r' w' c' 0] s i j c' v by simp
  moreover have "filter (\<lambda>ck. ck_Name ck \<noteq> sessionCookieName demoSessions) (readCookies (hr_Header demoRequest) [])
      = [\<lparr>ck_Name = ''theme'', ck_Value = ''dark''\<rparr>]" by code_simp
  moreover have "se_Cookies demoSessions (''h'', hr_URL demoRequest) (sc_jars demoCache ! 0) = [\<lparr>ck_Name = ''auth'', ck_Value = ''a b''\<rparr>]" by code_simp
  ultimately show ?thesis by (simp add: s)
qed

section \<open>The response the client gets\<close>

text \<open>Cookies set by the backend never reach the client: the response the session writer sends
  has the session cookie as its only \<open>Set-Cookie\<close> line, when the request had no session, and none
  otherwise; the status and all other headers are the backend's.\<close>

theorem session_response_cookies:
  assumes "\<not> sw_wroteHeader w" and "rw_Sent (sw_wrapped w) = None"
    and "session_WriteHeader env newUUID now statusCode w c = (w', c')"
  shows "\<exists>h. rw_Sent (sw_wrapped w') = Some (statusCode, h)
    \<and> headerValues h ''Set-Cookie'' = (if sw_sessionID w = [] then [sessionCookie env newUUID now] else [])
    \<and> (\<forall>k. CanonicalHeaderKey k \<noteq> ''Set-Cookie'' \<longrightarrow> headerValues h k = headerValues (rw_Header (sw_wrapped w)) k)"
proof -
  let ?h1 = "headerDel (rw_Header (sw_wrapped w)) ''Set-Cookie''"
  let ?h2 = "if sw_sessionID w = [] then headerAdd ?h1 ''Set-Cookie'' (sessionCookie env newUUID now) else ?h1"
  have "rw_Sent (sw_wrapped w') = Some (statusCode, ?h2)"
    using assms by (auto simp: session_WriteHeader_def Let_def WriteHeader_def split: prod.splits if_splits)
  then show ?thesis by (auto simp: header_simps canonical_Cookie)
qed

definition demoWriter :: sessionResponseWriter where
  "demoWriter = \<lparr>sw_sessionID = [], sw_url = (''h'', ''/''),
     sw_wrapped = newResponseWriter\<lparr>rw_Header := [(''Set-Cookie'', [''auth=secret''])]\<rparr>, sw_wroteHeader = False, sw_metrics = []\<rparr>"

theorem session_response_cookies_witness:
  "\<exists>h. rw_Sent (sw_wrapped (fst (session_WriteHeader demoSessions ''7'' 0 200 demoWriter demoCache))) = Some (200, h)
    \<and> headerValues h ''Set-Cookie'' = [sessionCookie demoSessions ''7'' 0]"
proof -
  have "\<not> sw_wroteHeader demoWriter" "rw_Sent (sw_wrapped demoWriter) = None" "sw_sessionID demoWriter = []"
    by (simp_all add: demoWriter_def newResponseWriter_def)
  then show ?thesis
    using session_response_cookies [of demoWriter demoSessions "''7''" 0 200 demoCache] by (metis prod.collapse)
qed

end
