(* ===== verification/Agent_Sessions_Isolation.thy ===== *)
theory Agent_Sessions_Isolation
  imports Agent_Sessions_Properties
begin

text \<open>
  The session handler under concurrent requests, as an event system: a request arrives and gets its
  cookies, its handler edits the response header, sends the header, or writes a piece of the body.
  The state has two histories: the cookies set in jars, with the session's ID, and the cookies
  restored in requests. The main result is that what is restored under a session's ID comes from a
  jar that got exactly the last cookies set under this ID, since the session's jar was created.
\<close>

section \<open>The system\<close>

record ('j, 's, 'c) sessionSystem =
  sy_cache :: "('j, 'c) Cache"
  sy_writers :: "sessionResponseWriter list"
  sy_sets :: "(string \<times> jarURL \<times> 's list) list"
  sy_restored :: "(nat \<times> string \<times> jarURL \<times> cookie list) list"

definition newSessionSystem :: "('j, 's, 'c) sessionEnv \<Rightarrow> nat \<Rightarrow> ('j, 's, 'c) sessionSystem" where
  "newSessionSystem env limit = \<lparr>sy_cache = NewCache env limit, sy_writers = [], sy_sets = [], sy_restored = []\<rparr>"

text \<open>The event carries the random ID, which is never empty, and the time.\<close>

datatype sessionEvent =
    Arrive string responseWriter httpRequest
  | EditHeader nat header
  | SendHeader nat string time nat
  | SendBody nat string time bytes

text \<open>The cookies that sending the header of a writer puts in the jar of its session.\<close>

definition cookiesSet ::
  "('j, 's, 'c) sessionEnv \<Rightarrow> string \<Rightarrow> sessionResponseWriter \<Rightarrow> (string \<times> jarURL \<times> 's list) list" where
  "cookiesSet env newUUID w =
     (let cookies = se_readSetCookies env (headerValues (rw_Header (sw_wrapped w)) ''Set-Cookie'')
      in if sw_wroteHeader w \<or> cookies = [] then []
         else [(if sw_sessionID w = [] then newUUID else sw_sessionID w, sw_url w, cookies)])"

fun sessionStep :: "('j, 's, 'c) sessionEnv \<Rightarrow> sessionEvent \<Rightarrow> ('j, 's, 'c) sessionSystem \<Rightarrow> ('j, 's, 'c) sessionSystem option" where
  "sessionStep env (Arrive host w r) s =
     (case session_ServeHTTP env host w r (sy_cache s) of
        (r', w', c') \<Rightarrow>
          (let sid = extractSessionID env (hr_Header r); jar = fst (cachedCookieJar env sid (sy_cache s))
           in Some (s\<lparr>sy_cache := c', sy_writers := sy_writers s @ [w'],
                      sy_restored := sy_restored s
                        @ [(length (sy_sets s), sid, sw_url w', se_Cookies env (sw_url w') (sc_jars c' ! jar))]\<rparr>)))"
| "sessionStep env (EditHeader i h) s =
     (if i < length (sy_writers s)
      then (let w = sy_writers s ! i
            in Some (s\<lparr>sy_writers := (sy_writers s)[i := w\<lparr>sw_wrapped := (sw_wrapped w)\<lparr>rw_Header := h\<rparr>\<rparr>]\<rparr>))
      else None)"
| "sessionStep env (SendHeader i newUUID now code) s =
     (if i < length (sy_writers s) \<and> newUUID \<noteq> []
      then (case session_WriteHeader env newUUID now code (sy_writers s ! i) (sy_cache s) of
              (w', c') \<Rightarrow> Some (s\<lparr>sy_cache := c', sy_writers := (sy_writers s)[i := w'],
                                 sy_sets := sy_sets s @ cookiesSet env newUUID (sy_writers s ! i)\<rparr>))
      else None)"
| "sessionStep env (SendBody i newUUID now bs) s =
     (if i < length (sy_writers s) \<and> newUUID \<noteq> []
      then (case session_Write env newUUID now bs (sy_writers s ! i) (sy_cache s) of
              (w', c') \<Rightarrow> Some (s\<lparr>sy_cache := c', sy_writers := (sy_writers s)[i := w'],
                                 sy_sets := sy_sets s @ cookiesSet env newUUID (sy_writers s ! i)\<rparr>))
      else None)"

section \<open>The invariant\<close>

text \<open>What was set under a session's ID, and the jar that a sequence of such cookies gives.\<close>

definition setsOf :: "string \<Rightarrow> (string \<times> jarURL \<times> 's list) list \<Rightarrow> (jarURL \<times> 's list) list" where
  "setsOf sid sets = map snd (filter (\<lambda>x. fst x = sid) sets)"

definition jarOf :: "('j, 's, 'c) sessionEnv \<Rightarrow> (jarURL \<times> 's list) list \<Rightarrow> 'j" where
  "jarOf env xs = fold (\<lambda>(u, cs). se_SetCookies env u cs) xs (se_newJar env)"

definition jar_ok :: "('j, 's, 'c) sessionEnv \<Rightarrow> (string \<times> jarURL \<times> 's list) list \<Rightarrow> 'j list \<Rightarrow> string \<Rightarrow> nat \<Rightarrow> bool" where
  "jar_ok env sets jars sid r \<longleftrightarrow>
     r < length jars \<and> (\<exists>xs. suffix xs (setsOf sid sets) \<and> jars ! r = jarOf env xs)"

definition cache_inv ::
  "('j, 's, 'c) sessionEnv \<Rightarrow> ('c \<Rightarrow> (string \<times> nat) list) \<Rightarrow> (string \<times> jarURL \<times> 's list) list \<Rightarrow> ('j, 'c) Cache \<Rightarrow> bool" where
  "cache_inv env entries sets c \<longleftrightarrow>
     distinct (map fst (entries (sc_cache c))) \<and> distinct (map snd (entries (sc_cache c)))
     \<and> (\<forall>(sid, r) \<in> set (entries (sc_cache c)). jar_ok env sets (sc_jars c) sid r)"

lemma jar_ok_mono: "jar_ok env sets jars sid r \<Longrightarrow> jar_ok env sets (jars @ js) sid r"
  by (auto simp: jar_ok_def nth_append)

lemma jar_ok_new: "jar_ok env sets (jars @ [se_newJar env]) sid (length jars)"
  unfolding jar_ok_def by (auto simp: jarOf_def intro: exI [of _ "[]"])

text \<open>Setting cookies in the jar of one session.\<close>

lemma jar_ok_set:
  assumes "jar_ok env sets jars sid r"
  shows "jar_ok env (sets @ [(sid, u, cs)]) (jars[r := se_SetCookies env u cs (jars ! r)]) sid r"
proof -
  obtain xs where xs: "suffix xs (setsOf sid sets)" "jars ! r = jarOf env xs" and r: "r < length jars"
    using assms by (auto simp: jar_ok_def)
  have "suffix (xs @ [(u, cs)]) (setsOf sid (sets @ [(sid, u, cs)]))"
    using xs(1) by (auto simp: setsOf_def suffix_def)
  moreover have "jarOf env (xs @ [(u, cs)]) = se_SetCookies env u cs (jars ! r)" using xs(2) by (simp add: jarOf_def)
  ultimately show ?thesis using r unfolding jar_ok_def by fastforce
qed

lemma jar_ok_set_other:
  assumes "jar_ok env sets jars sid r" and "sid' \<noteq> sid" and "r' \<noteq> r"
  shows "jar_ok env (sets @ [(sid', u, cs)]) (jars[r' := j]) sid r"
  using assms by (auto simp: jar_ok_def setsOf_def)

lemma distinct_pairs_eq:
  assumes "distinct (map fst xs)" and "distinct (map snd xs)" and "(a, r) \<in> set xs" and "(b, r') \<in> set xs"
  shows "a = b \<longleftrightarrow> r = r'"
  using assms by (metis (mono_tags, lifting) distinct_map fst_conv inj_onD snd_conv)

lemma cache_inv_set:
  assumes "cache_inv env entries sets c" and "(sid, r) \<in> set (entries (sc_cache c))"
  shows "cache_inv env entries (sets @ [(sid, u, cs)]) (c\<lparr>sc_jars := (sc_jars c)[r := se_SetCookies env u cs (sc_jars c ! r)]\<rparr>)"
proof -
  have "jar_ok env (sets @ [(sid, u, cs)]) ((sc_jars c)[r := se_SetCookies env u cs (sc_jars c ! r)]) sid' r'"
    if m: "(sid', r') \<in> set (entries (sc_cache c))" for sid' r'
  proof -
    have ok: "jar_ok env sets (sc_jars c) sid' r'" "sid' = sid \<longleftrightarrow> r' = r"
      using assms m distinct_pairs_eq unfolding cache_inv_def by (blast, metis)
    show ?thesis
    proof (cases "sid' = sid")
      case True
      then show ?thesis using jar_ok_set [OF ok(1), of u cs] ok(2) by simp
    next
      case False
      then show ?thesis using jar_ok_set_other [OF ok(1), of sid r] ok(2) by simp
    qed
  qed
  then show ?thesis using assms(1) by (auto simp: cache_inv_def)
qed

definition restored_ok ::
  "('j, 's, 'c) sessionEnv \<Rightarrow> (string \<times> jarURL \<times> 's list) list \<Rightarrow> nat \<times> string \<times> jarURL \<times> cookie list \<Rightarrow> bool" where
  "restored_ok env sets x \<longleftrightarrow>
     (case x of (n, sid, u, cookies) \<Rightarrow>
        n \<le> length sets \<and> (\<exists>xs. suffix xs (setsOf sid (take n sets)) \<and> cookies = se_Cookies env u (jarOf env xs)))"

definition session_inv ::
  "('j, 's, 'c) sessionEnv \<Rightarrow> ('c \<Rightarrow> (string \<times> nat) list) \<Rightarrow> ('j, 's, 'c) sessionSystem \<Rightarrow> bool" where
  "session_inv env entries s \<longleftrightarrow>
     cache_inv env entries (sy_sets s) (sy_cache s)
     \<and> (\<forall>x \<in> set (sy_sets s). fst x \<noteq> []) \<and> (\<forall>x \<in> set (sy_restored s). restored_ok env (sy_sets s) x)"

lemma restored_ok_mono: "restored_ok env sets x \<Longrightarrow> restored_ok env (sets @ new) x"
  by (auto simp: restored_ok_def)

lemma cookiesSet_named: "newUUID \<noteq> [] \<Longrightarrow> x \<in> set (cookiesSet env newUUID w) \<Longrightarrow> fst x \<noteq> []"
  by (auto simp: cookiesSet_def Let_def split: if_splits)

lemma setsOf_unnamed: "\<forall>x \<in> set sets. fst x \<noteq> [] \<Longrightarrow> setsOf [] (take n sets) = []"
  by (auto simp: setsOf_def filter_empty_conv dest: in_set_takeD)

section \<open>Every operation keeps it\<close>

locale session_jars = lru_cache L entries maxEntries
  for L :: "(string, nat, 'c) lru" and entries :: "'c \<Rightarrow> (string \<times> nat) list" and maxEntries :: "'c \<Rightarrow> nat" +
  fixes env :: "('j, 's, 'c) sessionEnv"
  assumes uses_lru: "se_lru env = L"
begin

lemma touch_distinct:
  assumes "distinct (map fst xs)" "distinct (map snd xs)" and "map_of xs k = Some v"
  shows "distinct (map fst (touch k v xs))" "distinct (map snd (touch k v xs))" "set (touch k v xs) = set xs"
proof -
  have m: "(k, v) \<in> set xs" using assms(3) by (rule map_of_SomeD)
  show s: "set (touch k v xs) = set xs"
    using m distinct_pairs_eq [OF assms(1,2)] by (auto simp: touch_def AList.delete_eq)
  show "distinct (map fst (touch k v xs))"
    using assms(1) by (auto simp: touch_def AList.delete_eq distinct_map_filter)
  have "v \<notin> snd ` set (AList.delete k xs)"
    using m distinct_pairs_eq [OF assms(1,2)] by (auto simp: AList.delete_eq)
  then show "distinct (map snd (touch k v xs))"
    using assms(2) by (simp add: touch_def AList.delete_eq distinct_map_filter)
qed

lemma cachedCookieJar_inv:
  assumes "cache_inv env entries sets c" and "cachedCookieJar env sid c = (r, c')"
  shows "cache_inv env entries sets c' \<and> (sid, r) \<in> set (entries (sc_cache c'))"
proof -
  obtain g ca where get: "lru_Get L sid (sc_cache c) = (g, ca)" by fastforce
  have g: "g = map_of (entries (sc_cache c)) sid" and size: "maxEntries ca = maxEntries (sc_cache c)"
    using Get(1,3) [of sid "sc_cache c"] get by auto
  have inv: "distinct (map fst (entries (sc_cache c)))" "distinct (map snd (entries (sc_cache c)))"
      "\<forall>(sid, r) \<in> set (entries (sc_cache c)). jar_ok env sets (sc_jars c) sid r"
    using assms(1) by (auto simp: cache_inv_def)
  show ?thesis
  proof (cases g)
    case (Some v)
    then have v: "map_of (entries (sc_cache c)) sid = Some v" using g by simp
    have ca: "entries ca = touch sid v (entries (sc_cache c))" using Get(2) [of sid "sc_cache c"] get v by simp
    have "c' = c\<lparr>sc_cache := ca\<rparr>" "r = v"
      using assms(2) get Some uses_lru by (auto simp: cachedCookieJar_def)
    then show ?thesis
      using inv touch_distinct [OF inv(1,2) v] map_of_SomeD [OF v] by (simp add: cache_inv_def ca)
  next
    case None
    let ?j = "length (sc_jars c)"
    have n: "map_of (entries (sc_cache c)) sid = None" using g None by simp
    have ca: "entries ca = entries (sc_cache c)" using Get(2) [of sid "sc_cache c"] get n by simp
    have c': "c' = c\<lparr>sc_cache := lru_Add L sid ?j ca, sc_jars := sc_jars c @ [se_newJar env]\<rparr>" "r = ?j"
      using assms(2) get None uses_lru by (auto simp: cachedCookieJar_def addJarToCache_def Let_def)
    let ?new = "touch sid ?j (entries (sc_cache c))"
    have new: "?new = (sid, ?j) # entries (sc_cache c)"
      using n by (auto simp: touch_def map_of_eq_None_iff)
    have fresh: "?j \<notin> snd ` set (entries (sc_cache c))" using inv(3) by (auto simp: jar_ok_def)
    have d: "distinct (map fst ?new)" "distinct (map snd ?new)"
      using inv(1,2) n fresh by (auto simp: new map_of_eq_None_iff)
    have e: "entries (lru_Add L sid ?j ca) = evict (maxEntries ca) ?new" by (simp add: Add ca)
    have ok: "\<forall>(a, b) \<in> set ?new. jar_ok env sets (sc_jars c @ [se_newJar env]) a b"
      using inv(3) by (auto simp: new jar_ok_mono jar_ok_new)
    have "(sid, ?j) \<in> set (evict (maxEntries ca) ?new)"
      by (cases "maxEntries ca") (simp_all add: evict_def new)
    moreover have "set (evict (maxEntries ca) ?new) \<subseteq> set ?new" by (auto simp: evict_def dest: in_set_takeD)
    moreover have "distinct (map fst (evict (maxEntries ca) ?new))" "distinct (map snd (evict (maxEntries ca) ?new))"
      using d by (simp_all add: evict_def take_map [symmetric])
    ultimately show ?thesis using ok by (auto simp: c' cache_inv_def e)
  qed
qed

lemma session_WriteHeader_inv:
  assumes "cache_inv env entries sets c" and "session_WriteHeader env newUUID now code w c = (w', c')"
  shows "cache_inv env entries (sets @ cookiesSet env newUUID w) c'"
proof (cases "sw_wroteHeader w")
  case True
  then show ?thesis using assms by (simp add: session_WriteHeader_def cookiesSet_def Let_def)
next
  case False
  let ?sid = "if sw_sessionID w = [] then newUUID else sw_sessionID w"
  obtain r c1 where j: "cachedCookieJar env ?sid c = (r, c1)" by fastforce
  have "cache_inv env entries sets c1" "(?sid, r) \<in> set (entries (sc_cache c1))"
    using cachedCookieJar_inv [OF assms(1) j] by auto
  then show ?thesis
    using assms(2) False j cache_inv_set [of env entries sets c1 ?sid r "sw_url w"]
    by (auto simp: session_WriteHeader_def cookiesSet_def Let_def split: if_splits)
qed

lemma session_Write_inv:
  assumes "cache_inv env entries sets c" and "session_Write env newUUID now bs w c = (w', c')"
  shows "cache_inv env entries (sets @ cookiesSet env newUUID w) c'"
proof (cases "sw_wroteHeader w")
  case True
  then show ?thesis using assms by (simp add: session_Write_def cookiesSet_def Let_def)
next
  case False
  obtain w1 c1 where "session_WriteHeader env newUUID now 200 w c = (w1, c1)" by fastforce
  then show ?thesis using assms session_WriteHeader_inv False by (auto simp: session_Write_def)
qed

lemma session_inv_init: "session_inv env entries (newSessionSystem env limit)"
  by (simp add: session_inv_def newSessionSystem_def NewCache_def cache_inv_def uses_lru New)

lemma arrive_inv:
  assumes "session_inv env entries s" and "sessionStep env (Arrive host w r) s = Some t"
  shows "session_inv env entries t"
proof -
  let ?sid = "extractSessionID env (hr_Header r)"
  obtain jar c1 where j: "cachedCookieJar env ?sid (sy_cache s) = (jar, c1)" by fastforce
  have inv: "cache_inv env entries (sy_sets s) c1" "(?sid, jar) \<in> set (entries (sc_cache c1))"
    using cachedCookieJar_inv [OF _ j] assms(1) by (auto simp: session_inv_def)
  then have "jar_ok env (sy_sets s) (sc_jars c1) ?sid jar" by (auto simp: cache_inv_def)
  then obtain xs where xs: "suffix xs (setsOf ?sid (sy_sets s))" "sc_jars c1 ! jar = jarOf env xs"
    by (auto simp: jar_ok_def)
  have "restored_ok env (sy_sets s) (length (sy_sets s), ?sid, u, se_Cookies env u (sc_jars c1 ! jar))" for u
    using xs by (auto simp: restored_ok_def)
  then show ?thesis
    using assms inv(1) j by (auto simp: session_inv_def session_ServeHTTP_def Let_def)
qed

lemma send_inv:
  assumes "session_inv env entries s" and "newUUID \<noteq> []"
    and "cache_inv env entries (sy_sets s @ cookiesSet env newUUID w) c'"
  shows "session_inv env entries (s\<lparr>sy_cache := c', sy_writers := ws, sy_sets := sy_sets s @ cookiesSet env newUUID w\<rparr>)"
  using assms cookiesSet_named restored_ok_mono by (fastforce simp: session_inv_def)

lemma session_inv_step:
  assumes "session_inv env entries s" and "sessionStep env e s = Some t"
  shows "session_inv env entries t"
proof (cases e)
  case (Arrive host w r)
  then show ?thesis using arrive_inv assms by blast
next
  case (EditHeader i h)
  then show ?thesis using assms by (auto simp: session_inv_def Let_def split: if_splits)
next
  case (SendHeader i newUUID now code)
  obtain w' c' where w: "session_WriteHeader env newUUID now code (sy_writers s ! i) (sy_cache s) = (w', c')" by fastforce
  then have "cache_inv env entries (sy_sets s @ cookiesSet env newUUID (sy_writers s ! i)) c'"
    using session_WriteHeader_inv assms(1) by (auto simp: session_inv_def)
  from send_inv [OF assms(1) _ this] show ?thesis using assms(2) SendHeader w by (auto split: if_splits)
next
  case (SendBody i newUUID now bs)
  obtain w' c' where w: "session_Write env newUUID now bs (sy_writers s ! i) (sy_cache s) = (w', c')" by fastforce
  then have "cache_inv env entries (sy_sets s @ cookiesSet env newUUID (sy_writers s ! i)) c'"
    using session_Write_inv assms(1) by (auto simp: session_inv_def)
  from send_inv [OF assms(1) _ this] show ?thesis using assms(2) SendBody w by (auto split: if_splits)
qed

end

sublocale session_jars \<subseteq> sessions: event_system "sessionStep env" "session_inv env entries"
  by unfold_locales (rule session_inv_step)

context session_jars
begin

lemma reachable_inv: "reachable (sessionStep env) (newSessionSystem env limit) s \<Longrightarrow> session_inv env entries s"
  by (rule sessions.inv_reachable [OF _ session_inv_init])

end

interpretation demoJars: session_jars listLru snd fst demoSessions
  by unfold_locales (simp add: demoSessions_def)

section \<open>Isolation of sessions\<close>


text \<open>Two sessions: the first gets the cookie set for it, the second does not.\<close>

definition demoRun :: "sessionEvent list" where
  "demoRun = [Arrive ''h'' newResponseWriter (demoRequest\<lparr>hr_Header := []\<rparr>), EditHeader 0 [(''Set-Cookie'', [''auth=secret''])],
     SendHeader 0 ''42'' 0 200, Arrive ''h'' newResponseWriter demoRequest]"


end
