(* ===== verification/Agent_Banner.thy ===== *)
theory Agent_Banner
  imports Agent_Shim
begin

text \<open>
  The banner of \<^verbatim>\<open>agent/banner/banner.go\<close>: a response with an HTML page is replaced by a page that
  shows the banner and the original page in a frame; the request of the frame itself gets the
  original page.

  Templates are lists of literal pieces and fields, as \<^verbatim>\<open>text/template\<close> parses the two template
  texts; executing one fails when a field is missing. \<open>parseURL\<close> gives host and path of a URL
  (\<^verbatim>\<open>url.Parse\<close>) and \<open>formatTime\<close> is \<^verbatim>\<open>time.Format(http.TimeFormat)\<close>. The calls of
  \<^verbatim>\<open>WriteResponseCodeMetric\<close> are recorded in the writer. The redirects of \<^verbatim>\<open>http.ServeMux\<close> for
  paths that are not clean are left out.
\<close>

section \<open>Templates\<close>

datatype tmplPiece = Lit string | Field string

fun executeTmpl :: "tmplPiece list \<Rightarrow> (string \<times> string) list \<Rightarrow> error + string" where
  "executeTmpl [] vals = Inr []"
| "executeTmpl (Lit s # ps) vals = map_sum id (\<lambda>out. s @ out) (executeTmpl ps vals)"
| "executeTmpl (Field f # ps) vals =
     (case map_of vals f of
        None \<Rightarrow> Inl (ErrMsg (''can't evaluate field '' @ f))
      | Some v \<Rightarrow> map_sum id (\<lambda>out. v @ out) (executeTmpl ps vals))"

definition newline :: string where
  "newline = [CHR 0x0A]"

definition frameWrapperTmpl :: "tmplPiece list" where
  "frameWrapperTmpl =
     [Lit (''<html>'' @ newline @ ''  <head>'' @ newline
           @ ''    <meta http-equiv=\"cache-control\" content=\"no-cache\" />'' @ newline @ ''    ''),
      Field ''FavIconLink'',
      Lit (newline @ ''  </head>'' @ newline @ ''  <body style=\"margin:0px\">'' @ newline @ ''    <div height=\"''),
      Field ''BannerHeight'',
      Lit (''\">'' @ newline @ ''      ''),
      Field ''Banner'',
      Lit (newline @ ''    </div>'' @ newline
           @ ''    <iframe width=\"100%\" id=\"inverting-proxy-frame\" onLoad=\"window.history.replaceState(null, '' @ [CHR 0x27, CHR 0x27]
           @ '', this.contentWindow.location)\" style=\"border:0px;height: calc(100% - ''),
      Field ''BannerHeight'',
      Lit '')\" src=\"'',
      Field ''TargetURL'',
      Lit (''\"></iframe>'' @ newline @ ''  </body>'' @ newline @ ''</html>'')]"

definition favIconLinkTmpl :: "tmplPiece list" where
  "favIconLinkTmpl = [Lit ''<link rel=\"icon\" type=\"image/png\" href=\"'', Field ''FavIconURL'', Lit ''\">'']"

section \<open>When a response is framed\<close>

definition isHTMLRequest :: "httpRequest \<Rightarrow> bool" where
  "isHTMLRequest r =
     (if hr_Method r \<noteq> ''GET'' then False
      else contains (headerGet (hr_Header r) ''Accept'') ''text/html'')"

definition isFrameableHTMLResponse :: "nat \<Rightarrow> header \<Rightarrow> bool" where
  "isFrameableHTMLResponse statusCode responseHeader =
     (if statusCode \<noteq> 200 then False
      else if list_ex (\<lambda>cd. contains cd ''attachment'') (headerValues responseHeader ''Content-Disposition'') then False
      else list_ex (\<lambda>ct. contains ct ''text/html'' \<or> contains ct ''application/xhtml+xml'')
             (headerValues responseHeader ''Content-Type''))"

definition isAlreadyFramed :: "(string \<Rightarrow> error + string \<times> string) \<Rightarrow> string \<Rightarrow> httpRequest \<Rightarrow> bool" where
  "isAlreadyFramed parseURL host r =
     (if headerGet (hr_Header r) ''Sec-Fetch-Mode'' = ''nested-navigate'' \<or> headerGet (hr_Header r) ''Sec-Fetch-Dest'' = ''iframe''
      then True
      else (let referer = headerGet (hr_Header r) ''Referer'' in
            referer \<noteq> [] \<and>
            (case parseURL referer of Inl _ \<Rightarrow> False | Inr (rhost, rpath) \<Rightarrow> rhost = host \<and> rpath = hr_Path r)))"

section \<open>The response writer\<close>

record bannerResponseWriter =
  bw_wrapped :: responseWriter
  bw_bannerHTML :: string
  bw_bannerHeight :: string
  bw_targetURL :: string
  bw_favIconURL :: string
  bw_metrics :: "nat list"
  bw_wroteHeader :: bool
  bw_writeBytes :: bool
  bw_isAlreadyFramed :: bool

definition setNotCacheable :: "(time \<Rightarrow> string) \<Rightarrow> time \<Rightarrow> header \<Rightarrow> header" where
  "setNotCacheable formatTime now h =
     (let h1 = headerSet h ''Cache-Control'' ''no-cache, no-store, max-age=0, must-revalidate'';
          h2 = headerSet h1 ''Date'' (formatTime now);
          h3 = headerSet h2 ''Expires'' (formatTime 0)
      in headerSet h3 ''Pragma'' ''no-cache'')"

definition setXFrameOptionsSameOrigin :: "header \<Rightarrow> header" where
  "setXFrameOptionsSameOrigin h = headerSet (headerDel h ''X-Frame-Options'') ''X-Frame-Options'' ''sameorigin''"

definition getFavIconLink :: "bannerResponseWriter \<Rightarrow> error + string" where
  "getFavIconLink w =
     (if bw_favIconURL w = [] then Inr [] else executeTmpl favIconLinkTmpl [(''FavIconURL'', bw_favIconURL w)])"

definition getBanner :: "bannerResponseWriter \<Rightarrow> string \<Rightarrow> error + bytes" where
  "getBanner w favIconLink =
     executeTmpl frameWrapperTmpl
       [(''TargetURL'', bw_targetURL w), (''Banner'', bw_bannerHTML w), (''BannerHeight'', bw_bannerHeight w),
        (''FavIconLink'', favIconLink)]"

definition bw_setHeader :: "(header \<Rightarrow> header) \<Rightarrow> bannerResponseWriter \<Rightarrow> bannerResponseWriter" where
  "bw_setHeader f w = w\<lparr>bw_wrapped := (bw_wrapped w)\<lparr>rw_Header := f (rw_Header (bw_wrapped w))\<rparr>\<rparr>"

text \<open>
  \<^verbatim>\<open>http.Error(w, ...)\<close> on the banner's own writer, after it has recorded that the header was
  written and before it passes bytes on: only the two headers are set, the status and the text are
  dropped.
\<close>

definition bw_dropError :: "nat \<Rightarrow> bannerResponseWriter \<Rightarrow> bannerResponseWriter" where
  "bw_dropError sc w =
     (bw_setHeader (\<lambda>h. headerSet (headerSet h ''Content-Type'' ''text/plain; charset=utf-8'') ''X-Content-Type-Options'' ''nosniff'') w)
       \<lparr>bw_metrics := bw_metrics w @ [sc]\<rparr>"

definition bw_WriteHeader :: "(time \<Rightarrow> string) \<Rightarrow> time \<Rightarrow> nat \<Rightarrow> bannerResponseWriter \<Rightarrow> bannerResponseWriter" where
  "bw_WriteHeader formatTime now statusCode w0 =
     (if bw_wroteHeader w0 then w0
      else
        (let w = w0\<lparr>bw_wroteHeader := True\<rparr> in
         if \<not> isFrameableHTMLResponse statusCode (rw_Header (bw_wrapped w))
         then w\<lparr>bw_wrapped := WriteHeader (bw_wrapped w) statusCode, bw_writeBytes := True\<rparr>
         else
           (let w1 = bw_setHeader (setXFrameOptionsSameOrigin \<circ> setNotCacheable formatTime now) w in
            if bw_isAlreadyFramed w1
            then w1\<lparr>bw_wrapped := WriteHeader (bw_wrapped w1) statusCode, bw_writeBytes := True\<rparr>
            else
              (let w2 = bw_setHeader (\<lambda>h. headerDel h ''Content-Encoding'') w1 in
               case getFavIconLink w2 of
                 Inl err \<Rightarrow> bw_dropError 500 w2
               | Inr favIconLink \<Rightarrow>
                   (case getBanner w2 favIconLink of
                      Inl err \<Rightarrow> bw_dropError 500 w2
                    | Inr banner \<Rightarrow>
                        w2\<lparr>bw_metrics := bw_metrics w2 @ [statusCode],
                           bw_wrapped := WriteBody (WriteHeader (bw_wrapped w2) statusCode) banner\<rparr>)))))"

definition bw_Write :: "(time \<Rightarrow> string) \<Rightarrow> time \<Rightarrow> bytes \<Rightarrow> bannerResponseWriter \<Rightarrow> nat \<times> bannerResponseWriter" where
  "bw_Write formatTime now bs w0 =
     (let w = (if \<not> bw_wroteHeader w0 then bw_WriteHeader formatTime now 200 w0 else w0) in
      if \<not> bw_writeBytes w then (length bs, w)
      else (length bs, w\<lparr>bw_wrapped := WriteBody (bw_wrapped w) bs\<rparr>))"

text \<open>
  \<^verbatim>\<open>Proxy\<close>: the writer the wrapped handler gets, the client's own one (\<open>Inl\<close>) or the banner's.
\<close>

definition bannerProxy ::
  "(string \<Rightarrow> error + string \<times> string) \<Rightarrow> string \<Rightarrow> string \<Rightarrow> string \<Rightarrow> string \<Rightarrow> responseWriter \<Rightarrow> httpRequest
   \<Rightarrow> responseWriter + bannerResponseWriter" where
  "bannerProxy parseURL host bannerHTML bannerHeight favIconURL w r =
     (if \<not> isHTMLRequest r then Inl w
      else Inr \<lparr>bw_wrapped = w, bw_bannerHTML = bannerHTML, bw_bannerHeight = bannerHeight, bw_targetURL = hr_URL r,
                bw_favIconURL = favIconURL, bw_metrics = [], bw_wroteHeader = False, bw_writeBytes = False,
                bw_isAlreadyFramed = isAlreadyFramed parseURL host r\<rparr>)"

end
