(* ===== verification/Agent_Banner_Properties.thy ===== *)
theory Agent_Banner_Properties
  imports Agent_Banner
begin

text \<open>
  Correctness of the banner: for every sequence of calls of the wrapped handler the client gets what
  the reference definition \<open>bannerSpec\<close> says, the backend's response or the page with the banner.
\<close>

section \<open>The reference definition\<close>

definition bannerPage :: "string \<Rightarrow> string \<Rightarrow> string \<Rightarrow> string \<Rightarrow> string" where
  "bannerPage favIconURL height banner target =
     ''<html>'' @ newline @ ''  <head>'' @ newline
     @ ''    <meta http-equiv=\"cache-control\" content=\"no-cache\" />'' @ newline @ ''    ''
     @ (if favIconURL = [] then [] else ''<link rel=\"icon\" type=\"image/png\" href=\"'' @ favIconURL @ ''\">'')
     @ newline @ ''  </head>'' @ newline @ ''  <body style=\"margin:0px\">'' @ newline @ ''    <div height=\"'' @ height @ ''\">'' @ newline
     @ ''      '' @ banner @ newline @ ''    </div>'' @ newline
     @ ''    <iframe width=\"100%\" id=\"inverting-proxy-frame\" onLoad=\"window.history.replaceState(null, '' @ [CHR 0x27, CHR 0x27]
     @ '', this.contentWindow.location)\" style=\"border:0px;height: calc(100% - '' @ height @ '')\" src=\"'' @ target @ ''\"></iframe>''
     @ newline @ ''  </body>'' @ newline @ ''</html>''"

text \<open>The calls of a handler: \<open>WriteHeader\<close> with a status or \<open>Write\<close> with bytes.\<close>

type_synonym writerCall = "nat + bytes"

definition firstStatus :: "writerCall \<Rightarrow> nat" where
  "firstStatus c = (case c of Inl code \<Rightarrow> code | Inr _ \<Rightarrow> 200)"

definition writtenBytes :: "writerCall list \<Rightarrow> bytes" where
  "writtenBytes calls = concat (map (case_sum (\<lambda>_. []) id) calls)"

definition bannerSpec ::
  "(time \<Rightarrow> string) \<Rightarrow> time \<Rightarrow> string \<Rightarrow> string \<Rightarrow> string \<Rightarrow> string \<Rightarrow> bool \<Rightarrow> header \<Rightarrow> writerCall list
   \<Rightarrow> (nat \<times> header) option \<times> bytes" where
  "bannerSpec formatTime now favIconURL height banner target framed h calls =
     (case calls of
        [] \<Rightarrow> (None, [])
      | call # _ \<Rightarrow>
          (let status = firstStatus call; h' = setXFrameOptionsSameOrigin (setNotCacheable formatTime now h) in
           if \<not> isFrameableHTMLResponse status h then (Some (status, h), writtenBytes calls)
           else if framed then (Some (status, h'), writtenBytes calls)
           else (Some (status, headerDel h' ''Content-Encoding''), bannerPage favIconURL height banner target)))"

fun bannerCalls :: "(time \<Rightarrow> string) \<Rightarrow> time \<Rightarrow> writerCall list \<Rightarrow> bannerResponseWriter \<Rightarrow> bannerResponseWriter" where
  "bannerCalls formatTime now [] w = w"
| "bannerCalls formatTime now (Inl code # calls) w = bannerCalls formatTime now calls (bw_WriteHeader formatTime now code w)"
| "bannerCalls formatTime now (Inr bs # calls) w = bannerCalls formatTime now calls (snd (bw_Write formatTime now bs w))"

section \<open>Equivalence\<close>

lemma getBanner_page:
  "(case getFavIconLink w of Inl e \<Rightarrow> Inl e | Inr l \<Rightarrow> getBanner w l)
   = Inr (bannerPage (bw_favIconURL w) (bw_bannerHeight w) (bw_bannerHTML w) (bw_targetURL w))"
  by (simp add: getFavIconLink_def getBanner_def frameWrapperTmpl_def favIconLinkTmpl_def bannerPage_def)

lemma getFavIconLink_ok: "\<exists>l. getFavIconLink w = Inr l \<and> getBanner w l = Inr (bannerPage (bw_favIconURL w) (bw_bannerHeight w) (bw_bannerHTML w) (bw_targetURL w))"
  using getBanner_page [of w] by (cases "getFavIconLink w") auto

text \<open>After the header was written, bytes are passed on or dropped.\<close>

lemma bannerCalls_written:
  assumes "bw_wroteHeader w" and "bw_writeBytes w \<Longrightarrow> rw_Sent (bw_wrapped w) \<noteq> None"
  shows "rw_Sent (bw_wrapped (bannerCalls f now calls w)) = rw_Sent (bw_wrapped w)
    \<and> rw_Body (bw_wrapped (bannerCalls f now calls w)) =
        rw_Body (bw_wrapped w) @ (if bw_writeBytes w then writtenBytes calls else [])"
  using assms
proof (induction f now calls w rule: bannerCalls.induct)
  case (2 f now code calls w)
  then show ?case by (simp add: bw_WriteHeader_def writtenBytes_def)
next
  case (3 f now bs calls w)
  then show ?case
    by (cases "bw_writeBytes w") (auto simp: bw_Write_def WriteBody_def WriteHeader_def writtenBytes_def Let_def)
qed (simp add: writtenBytes_def)

text \<open>The writer that \<open>Proxy\<close> makes, with the header the handler has set.\<close>

definition freshBanner :: "string \<Rightarrow> string \<Rightarrow> string \<Rightarrow> string \<Rightarrow> bool \<Rightarrow> header \<Rightarrow> bannerResponseWriter" where
  "freshBanner favIconURL height banner target framed h =
     \<lparr>bw_wrapped = newResponseWriter\<lparr>rw_Header := h\<rparr>, bw_bannerHTML = banner, bw_bannerHeight = height, bw_targetURL = target,
      bw_favIconURL = favIconURL, bw_metrics = [], bw_wroteHeader = False, bw_writeBytes = False, bw_isAlreadyFramed = framed\<rparr>"

lemma bw_WriteHeader_fresh:
  assumes "w = bw_WriteHeader f now code (freshBanner favIconURL height banner target framed h)"
  shows "bw_wroteHeader w" and "rw_Sent (bw_wrapped w) \<noteq> None"
    and "(rw_Sent (bw_wrapped w), rw_Body (bw_wrapped w)) = bannerSpec f now favIconURL height banner target framed h [Inl code]"
    and "bw_writeBytes w = (\<not> isFrameableHTMLResponse code h \<or> framed)"
proof -
  let ?w2 = "(freshBanner favIconURL height banner target framed h)
     \<lparr>bw_wroteHeader := True, bw_wrapped := (newResponseWriter\<lparr>rw_Header := headerDel (setXFrameOptionsSameOrigin (setNotCacheable f now h)) ''Content-Encoding''\<rparr>)\<rparr>"
  obtain l where l: "getFavIconLink ?w2 = Inr l" "getBanner ?w2 l = Inr (bannerPage favIconURL height banner target)"
    using getFavIconLink_ok [of ?w2] by (auto simp: freshBanner_def)
  note simps = bw_WriteHeader_def freshBanner_def bw_setHeader_def Let_def newResponseWriter_def WriteHeader_def WriteBody_def
    bannerSpec_def firstStatus_def writtenBytes_def
  show "bw_wroteHeader w" "rw_Sent (bw_wrapped w) \<noteq> None"
    "(rw_Sent (bw_wrapped w), rw_Body (bw_wrapped w)) = bannerSpec f now favIconURL height banner target framed h [Inl code]"
    "bw_writeBytes w = (\<not> isFrameableHTMLResponse code h \<or> framed)"
    using l unfolding assms by (cases framed; cases "isFrameableHTMLResponse code h"; simp add: simps)+
qed

lemma banner_refines_spec:
  "(rw_Sent (bw_wrapped (bannerCalls f now calls (freshBanner favIconURL height banner target framed h))),
    rw_Body (bw_wrapped (bannerCalls f now calls (freshBanner favIconURL height banner target framed h))))
   = bannerSpec f now favIconURL height banner target framed h calls"
proof (cases calls)
  case Nil
  then show ?thesis by (simp add: bannerSpec_def freshBanner_def newResponseWriter_def)
next
  case (Cons call rest)
  let ?w0 = "freshBanner favIconURL height banner target framed h"
  define w where "w = bw_WriteHeader f now (firstStatus call) ?w0"
  note fresh = bw_WriteHeader_fresh [OF w_def]
  have first: "bannerCalls f now calls ?w0 = bannerCalls f now (case call of Inl _ \<Rightarrow> rest | Inr bs \<Rightarrow> calls) w"
    using fresh(1) by (cases call) (simp_all add: Cons w_def firstStatus_def bw_Write_def freshBanner_def)
  have bytes: "writtenBytes (case call of Inl _ \<Rightarrow> rest | Inr bs \<Rightarrow> calls) = writtenBytes calls"
    by (cases call) (simp_all add: Cons writtenBytes_def)
  have head: "(rw_Sent (bw_wrapped w), rw_Body (bw_wrapped w)) = bannerSpec f now favIconURL height banner target framed h [Inl (firstStatus call)]"
    by (rule fresh(3))
  show ?thesis
    unfolding first using bannerCalls_written [OF fresh(1), of f now "case call of Inl _ \<Rightarrow> rest | Inr bs \<Rightarrow> calls"] fresh(2,4) head
    by (auto simp: bytes Cons bannerSpec_def Let_def firstStatus_def writtenBytes_def split: if_splits sum.splits)
qed

text \<open>C33. For a request that asks for HTML and every sequence of calls of the wrapped handler, the
  client gets exactly what the reference definition says: the backend's status, headers and bytes
  when the response is not a page to be framed; these with caching and framing headers replaced when
  the page is already in a frame; and otherwise the page with the banner and nothing of the backend's
  body. Every other request is passed through.\<close>

theorem banner_equals_spec:
  "case bannerProxy parseURL host banner height favIconURL (newResponseWriter\<lparr>rw_Header := h\<rparr>) r of
     Inl w \<Rightarrow> \<not> isHTMLRequest r \<and> w = newResponseWriter\<lparr>rw_Header := h\<rparr>
   | Inr w \<Rightarrow> (rw_Sent (bw_wrapped (bannerCalls f now calls w)), rw_Body (bw_wrapped (bannerCalls f now calls w)))
       = bannerSpec f now favIconURL height banner (hr_URL r) (isAlreadyFramed parseURL host r) h calls"
  using banner_refines_spec [of f now calls favIconURL height banner "hr_URL r" "isAlreadyFramed parseURL host r" h]
  by (simp add: bannerProxy_def freshBanner_def)

end
