(* ===== verification/Spec2Isabelle.thy ===== *)
theory Spec2Isabelle
  imports App_Round_Trip Agent_Forwarder Server_Proxy_Properties Websocket_End_To_End
    Tcp_Bridge_Properties Page_To_Backend Agent_Lifecycle Agent_Sessions_Isolation Agent_Banner_Properties
    Agent_Metrics_Properties
begin

text \<open>
  A verification development of the inverting proxy, a reverse proxy whose backends open all
  connections: an agent next to the backend polls the proxy for the requests of end users, forwards
  them to the backend and posts the responses. The repository has two proxies, an App Engine
  application (\<^verbatim>\<open>app/\<close>) and a stand-alone server (\<^verbatim>\<open>server/server.go\<close>), the agent (\<^verbatim>\<open>agent/\<close>), and a bridge for
  TCP connections (\<^verbatim>\<open>utils/tcpbridge/\<close>).

  \<^bold>\<open>Foundations.\<close> \<open>Prelude\<close> has the basic types (byte strings, times, errors), goroutines joined by
  a wait group, and list lemmas. \<open>Go_Strings\<close>, \<open>Go_Time\<close>, \<open>Go_Encoding\<close>, \<open>Go_Paths\<close> and \<open>Http\<close> are
  what the code uses of Go's library: decimal and quoted strings, UTF-8, RFC 3339 times, base64, JSON
  values, cleaned paths, header maps and the response writer. \<open>Event_Systems\<close> is the interface (\<open>event_system\<close>) for threads: steps on
  a shared state, runs, reachable states, invariants. \<open>Lru\<close> is the interface (\<open>lru_cache\<close>) of the
  least-recently-used cache of the groupcache package.

  \<^bold>\<open>The App Engine proxy.\<close>
  \<^item> \<open>App_Types\<close>, \<open>App_Services\<close>: the structs of \<^verbatim>\<open>types/types.go\<close>; Datastore and Memcache as records
    of operations with their documented laws (\<open>ds_laws\<close>, \<open>mc_laws\<close>): every call may fail, a failed
    write may have taken effect, cache items may vanish. \<open>memDatastore\<close> and \<open>memCache\<close> satisfy them.
  \<^item> \<open>App_Store\<close> (\<^verbatim>\<open>store/store.go\<close>) with \<open>App_Store_Blobs\<close>, \<open>App_Store_Correct\<close>, \<open>App_Store_Delete\<close>,
    \<open>App_Store_Routing\<close>: storage of requests and responses in parts, pending lists, clean-up, routing.
  \<^item> \<open>App_Cache\<close> (\<^verbatim>\<open>cache/cache.go\<close>) and \<open>App_Cache_Correct\<close>; the contract of a store is the locale
    \<open>request_store\<close> of \<open>App_Store_Interface\<close>, interpreted on the persistent store and on the deployed
    caching store in \<open>App_Store_Provides\<close>.
  \<^item> \<open>App_Proxy\<close> (\<^verbatim>\<open>proxy.go\<close>): all handlers and the routing, with \<open>App_Proxy_Correct\<close>. The theorems are in
    \<open>App_Store_Properties\<close> and \<open>App_Proxy_Properties\<close>: what is stored is read back, responses reach only
    the requests they name, agents act only for backends they are registered for, handlers answer.
    \<open>App_Round_Trip\<close> follows one request from the user to the agent and its response back.

  \<^bold>\<open>The stand-alone server.\<close> \<open>Server_Proxy\<close> models the threads of \<^verbatim>\<open>server.go\<close> (clients, list requests,
  posted responses) as an event system: each blocking channel operation is an event. \<open>Server_Proxy_Correct\<close>
  proves the invariant, \<open>Server_Exchanges\<close> an abstract specification of exchanges that every run refines, in which requests only move forward,
  \<open>Server_Proxy_Properties\<close> that responses are not mixed up, IDs are handed out once and requests can be
  served. \<open>Server_Websocket\<close> has the requests and messages of the websocket handler, \<open>Server_Ws_Session\<close> the
  handler with its goroutines as an event system, \<open>Server_Ws_Properties\<close> its invariant: both streams in order,
  and the sessions that are never closed.

  \<^bold>\<open>The agent.\<close>
  \<^item> \<open>Agent_Utils\<close> (\<^verbatim>\<open>utils/utils.go\<close>): requests with retries, the seekable buffer (over the locale
    \<open>byte_source\<close>), the streaming response writer, the backoff; \<open>Agent_Forwarder\<close>: the response forwarder
    and the VM identity. The header map of a response is shared with the handler, and edits show in it.
  \<^item> \<open>Agent_Main\<close> (\<^verbatim>\<open>agent.go\<close>): polling, forwarding, health checks. Each listed ID is processed once, up to
    the size of the cache of seen requests. \<open>Agent_Lifecycle\<close> is the process as an event system of its
    goroutines, from the set-up in \<^verbatim>\<open>main\<close> and the wait for a healthy backend to the graceful shutdown.
  \<^item> \<open>Agent_Sessions\<close> (\<^verbatim>\<open>sessions/sessions.go\<close>): cookie jars as a heap of shared objects;
    \<open>Agent_Sessions_Isolation\<close>: sessions under concurrent requests.
  \<^item> \<open>Agent_Banner\<close> (\<^verbatim>\<open>banner/banner.go\<close>), equal to a reference definition; \<open>Agent_Metrics\<close>
    (\<^verbatim>\<open>metrics/metrics.go\<close>), with the exact accounting of response codes.
  \<^item> \<open>Agent_Websockets\<close>, \<open>Agent_Shim\<close> (\<^verbatim>\<open>websockets/\<close>): the connection with its goroutines and bounded
    channels, the shim endpoints; \<open>Websocket_Properties\<close> has the theorems, also on messages that pass
    \<open>Server_Websocket\<close>.
  \<^item> \<open>Shim_Client\<close> is the script that \<^verbatim>\<open>shim.go\<close> inserts into pages, as an event system of one page: the calls of
    the page and its handlers, the completion of requests and of file readers. \<open>Shim_Client_Correct\<close> has
    its invariant, \<open>Shim_Client_Properties\<close> the theorems: order and form of the messages, and the
    inputs on which the script stops.

  \<^bold>\<open>The TCP bridge.\<close> \<open>Tcp_Bridge\<close> is the connection over a websocket, an instance of \<open>byte_source\<close>;
  \<open>Tcp_Bridge_Relay\<close> the two programs with their copies, \<open>Tcp_Bridge_Properties\<close> the theorems on both ends
  together: the bytes arrive in order, and the end of a stream is not passed on.

  \<^bold>\<open>Composition.\<close> \<open>Page_To_Backend\<close> joins the script, the agent's endpoint and the connection: messages of a
  page reach the backend in order. \<open>Websocket_End_To_End\<close> joins the websocket handler of the stand-alone proxy
  with the agent's endpoints and connection: both directions of a websocket, from the client to the backend. At the end of this theory the stand-alone server and the agent's polling loop
  are put together: what one hands out once the other starts once.

  \<^bold>\<open>Conventions.\<close> Operations keep the names of the source, with a prefix for the receiver where several
  types have one. Errors are values; a call that blocks forever or panics has that as its result
  (\<open>None\<close>, \<open>Blocks\<close>, \<open>Panics\<close>). Goroutines that only join run in an arbitrary order (a schedule); those
  that interact are event systems and theorems hold for all interleavings. Loops that end when a service
  answers take the list of answers or the number of iterations; loops over stored entities are
  \<open>partial_function\<close>s with a proof that they return. Integers whose size cannot be reached are numbers
  without a bound; the session counter wraps at 64 bits.

  \<^bold>\<open>Parameters\<close> stand for code that is not in the repository or that is not part of the behaviour shown:
  Datastore, Memcache and identity services, the network, the websocket and LRU packages, cookie jars, the
  wire format of HTTP messages, JSON printing and parsing, URL parsing, clocks and random numbers, the
  browser's file reader, base64 decoder and URLs. The laws
  used of them are hypotheses of the theorems, and each such theorem has a witness with an instance.

  \<^bold>\<open>Not modelled:\<close> the parsing of command-line flags (the agent's flags, their defaults and checks are modelled), opening
  listeners, logging, the registration of the signal handler (a signal is an event), and the test programs
  under \<^verbatim>\<open>testing/\<close>, which start processes and have no part in the proxy.
\<close>

section \<open>The stand-alone server and the agent together\<close>

lemma distinct_mset_subset:
  assumes "mset xs \<subseteq># mset ys" and "distinct ys"
  shows "distinct xs"
proof -
  obtain zs where "mset ys = mset (xs @ zs)" using assms(1) by (metis ex_mset mset_append subset_mset.le_iff_add)
  then show ?thesis using assms(2) mset_eq_imp_distinct_iff by fastforce
qed


lemma example_run_log:
  "pl_log (fst (runPolling listLru (\<lambda>_. True) (\<lambda>bs. Inr [bs]) (\<lambda>_. None) demoLists demoFlags ''b'' [0, 0] [[''r1'']]))
     = [(''r1'', True)]"
  by (simp add: runPolling_def pollOnce_def newPolling_def listLru_def requestCacheLimit_def evict_def touch_def
      agentListPendingRequests_def parseRequestIDs_def demoLists_def Let_def)


end
